(* ===== verification/Tnet_Prelude.thy ===== *)
theory Tnet_Prelude
  imports Main "HOL-Library.Word"
begin

text \<open>
  Shared vocabulary of the development: machine integers, the values Go functions return,
  the errors of the packages, and generic facts about slices and 32-bit counters.

  Conventions. A Go function with result \<open>(T, error)\<close> and receiver state \<open>s\<close> is a HOL function
  into \<open>T \<times> err option \<times> s\<close>; a nil error is \<open>None\<close>. A nil slice and an empty slice are both
  \<open>[]\<close>. Go's \<open>int\<close> (64 bits on the supported platforms) is \<open>int\<close> where it may be negative and
  \<open>nat\<close> where it is a length; the counters the code keeps in \<open>uint32\<close> stay 32-bit words and wrap.
  A run-time fault (nil dereference, slice bounds, an endless loop, a pointer to a freed node) is
  the value \<open>Fault f\<close> of the error type, so that its absence can be stated and proved.
\<close>

type_synonym byte = "8 word"
type_synonym u16 = "16 word"
type_synonym u32 = "32 word"
type_synonym u64 = "64 word"

datatype fault = NilDeref | SliceBounds | IndexRange | NoReturn | Dangling | DivByZero | ExplicitPanic

datatype err =
    ErrNoEnoughData
  | ErrNodeFull
  | ErrInvalidParam
  | ErrBufferFull
  | ErrConnClosed
  | ErrOutboundBufferLimitExceeded
  | EAGAIN
  | ErrAgain
  | ErrTimeout
  | ErrShortDelay
  | Errno nat
  | ErrText string
  | Fault fault

named_theorems unat_simps \<open>reading 32-bit counters as natural numbers\<close>

section \<open>Slices\<close>

text \<open>The Go expression \<open>xs[lo:hi]\<close> within bounds.\<close>

definition slice :: "nat \<Rightarrow> nat \<Rightarrow> 'a list \<Rightarrow> 'a list" where
  "slice lo hi xs = take (hi - lo) (drop lo xs)"

lemma length_slice [simp]: "hi \<le> length xs \<Longrightarrow> length (slice lo hi xs) = hi - lo"
  by (simp add: slice_def)

lemma slice_empty [simp]: "slice lo lo xs = []"
  by (simp add: slice_def)

lemma slice_0 [simp]: "slice 0 hi xs = take hi xs"
  by (simp add: slice_def)

lemma slice_full: "slice 0 (length xs) xs = xs"
  by (simp add: slice_def)

lemma take_slice: "lo + k \<le> hi \<Longrightarrow> take k (slice lo hi xs) = slice lo (lo + k) xs"
  by (simp add: slice_def min_def)

lemma drop_slice: "drop k (slice lo hi xs) = slice (lo + k) hi xs"
  by (simp add: slice_def drop_take add.commute)

lemma slice_append_adjacent:
  "lo \<le> mid \<Longrightarrow> mid \<le> hi \<Longrightarrow> slice lo mid xs @ slice mid hi xs = slice lo hi xs"
  using take_add [of "mid - lo" "hi - mid" "drop lo xs"] by (simp add: slice_def)

text \<open>Go's \<open>copy(dst[at:], src)\<close> into a slice of fixed length.\<close>

definition overwrite :: "nat \<Rightarrow> 'a list \<Rightarrow> 'a list \<Rightarrow> 'a list" where
  "overwrite at src dst =
     take at dst @ take (length dst - at) src @ drop (at + length src) dst"

lemma length_overwrite [simp]: "at \<le> length dst \<Longrightarrow> length (overwrite at src dst) = length dst"
  by (auto simp: overwrite_def min_def)

lemma overwrite_Nil [simp]: "overwrite at [] dst = dst"
  by (simp add: overwrite_def)

lemma slice_overwrite_before:
  "hi \<le> at \<Longrightarrow> at \<le> length dst \<Longrightarrow> slice lo hi (overwrite at src dst) = slice lo hi dst"
  by (cases "lo \<le> hi") (auto simp: slice_def overwrite_def drop_take min_def)

lemma slice_overwrite_at:
  "at + length src \<le> length dst \<Longrightarrow>
     slice at (at + length src) (overwrite at src dst) = src"
  by (simp add: slice_def overwrite_def)

lemma list_all_update: "list_all P xs \<Longrightarrow> P x \<Longrightarrow> list_all P (xs[i := x])"
  using set_update_subset_insert [of xs i x] by (auto simp: list_all_iff)

lemma list_all_take_drop:
  "list_all P xs \<Longrightarrow> list_all P (take k xs)" "list_all P xs \<Longrightarrow> list_all P (drop k xs)"
  by (auto simp: list_all_iff dest: in_set_takeD in_set_dropD)

section \<open>32-bit counters\<close>

text \<open>Counters are read with \<open>unat\<close> throughout; keep \<open>int (unat w)\<close> as it is.\<close>

declare of_nat_unat [simp del]

lemma unat_of_nat_u32 [unat_simps]: "k < 2 ^ 32 \<Longrightarrow> unat (of_nat k :: u32) = k"
  by (simp add: unat_of_nat take_bit_nat_eq_self)

lemma unat_add_u32 [unat_simps]:
  "unat (a :: u32) + k < 2 ^ 32 \<Longrightarrow> unat (a + of_nat k) = unat a + k"
  by (simp add: unat_word_ariths unat_of_nat take_bit_nat_def mod_add_right_eq)

lemma unat_sub_u32 [unat_simps]:
  "k \<le> unat (a :: u32) \<Longrightarrow> unat (a - of_nat k) = unat a - k"
proof -
  assume k: "k \<le> unat a"
  have "unat a < 2 ^ 32"
    using unsigned_less [of a] by simp
  with k have u: "unat (of_nat k :: u32) = k"
    by (simp add: unat_of_nat_u32)
  with k have "(of_nat k :: u32) \<le> a"
    by (simp add: word_le_nat_alt)
  with u show ?thesis
    by (simp add: unat_sub)
qed

lemma unat_diff_u32 [unat_simps]: "(r :: u32) \<le> w \<Longrightarrow> unat (w - r) = unat w - unat r"
  by (rule unat_sub)

lemma unat_u32_less: "unat (a :: u32) < 2 ^ 32"
  using unsigned_less [of a] by simp

section \<open>Division\<close>

text \<open>Go's truncating division.\<close>

definition go_div :: "int \<Rightarrow> int \<Rightarrow> int" where
  "go_div a b = sgn a * sgn b * (\<bar>a\<bar> div \<bar>b\<bar>)"

definition go_mod :: "int \<Rightarrow> int \<Rightarrow> int" where
  "go_mod a b = a - b * go_div a b"

lemma go_div_pos: "0 \<le> a \<Longrightarrow> 0 < b \<Longrightarrow> go_div a b = a div b"
  by (cases "a = 0") (simp_all add: go_div_def)

lemma go_mod_pos: "0 \<le> a \<Longrightarrow> 0 < b \<Longrightarrow> go_mod a b = a mod b"
  by (simp add: go_mod_def go_div_pos minus_div_mult_eq_mod [symmetric] mult.commute)

end
