(* ===== verification/Mcache.thy ===== *)
theory Mcache
  imports Tnet_Prelude
begin

text \<open>
  Model of \<open>internal/cache/mcache/mcache.go\<close>: the size-classed cache of byte slices from which
  buffer nodes and UDP packets take their memory. A slice is its backing array from the slice's
  first byte on, with a length; the array's length is Go's \<open>cap\<close>. \<open>caches[i]\<close> is a
  \<open>sync.Pool\<close>: \<open>Get\<close> may return any stored item, or a new one, so the operations take the
  choice as an argument and the theorems hold for every choice.
\<close>

unbundle bit_operations_syntax

section \<open>Slices with a capacity\<close>

record gslice =
  sarr :: "byte list"
  slen :: nat

definition scap :: "gslice \<Rightarrow> nat" where
  "scap s = length (sarr s)"

definition sbytes :: "gslice \<Rightarrow> byte list" where
  "sbytes s = take (slen s) (sarr s)"

definition make_slice :: "nat \<Rightarrow> nat \<Rightarrow> gslice" where
  "make_slice l c = \<lparr>sarr = replicate c 0, slen = l\<rparr>"

text \<open>\<open>p[:n]\<close> panics when \<open>n\<close> exceeds the capacity.\<close>

definition reslice :: "int \<Rightarrow> gslice \<Rightarrow> fault + gslice" where
  "reslice n s =
     (if 0 \<le> n \<and> n \<le> int (scap s) then Inr (s\<lparr>slen := nat n\<rparr>) else Inl SliceBounds)"

section \<open>Index arithmetic\<close>

definition maxSize :: nat where
  "maxSize = 25"

text \<open>\<open>bits.Len\<close>: the number of bits needed to write its argument.\<close>

fun bits_len :: "nat \<Rightarrow> nat" where
  "bits_len n = (if n = 0 then 0 else Suc (bits_len (n div 2)))"

declare bits_len.simps [simp del]

definition log2 :: "int \<Rightarrow> int" where
  "log2 x = int (bits_len (nat (x mod 2 ^ 64))) - 1"

definition isPowerOfTwo :: "int \<Rightarrow> bool" where
  "isPowerOfTwo x \<longleftrightarrow> x AND (x - 1) = 0"

definition CalIndex :: "int \<Rightarrow> int" where
  "CalIndex capacity =
     (if capacity = 0 then 0
      else let idx = log2 capacity in
        if capacity \<noteq> 1 \<and> isPowerOfTwo capacity then idx else idx + 1)"

section \<open>The cache\<close>

type_synonym caches = "nat \<Rightarrow> gslice list"

definition init_caches :: caches where
  "init_caches = (\<lambda>i. [])"

text \<open>\<open>sync.Pool.Get\<close> with the pool's \<open>New\<close> of slot \<open>i\<close>: the stored item the choice names,
  or a new slice of length 0 and capacity \<open>2 ^ i\<close>.\<close>

definition pool_get :: "nat option \<Rightarrow> nat \<Rightarrow> caches \<Rightarrow> gslice \<times> caches" where
  "pool_get pick i cs =
     (case pick of
        None \<Rightarrow> (make_slice 0 (2 ^ i), cs)
      | Some j \<Rightarrow>
          if j < length (cs i)
          then (cs i ! j, cs(i := take j (cs i) @ drop (Suc j) (cs i)))
          else (make_slice 0 (2 ^ i), cs))"

definition Malloc :: "nat option \<Rightarrow> int \<Rightarrow> int list \<Rightarrow> caches \<Rightarrow> (fault + gslice) \<times> caches" where
  "Malloc pick sz capacity cs =
     (if length capacity > 1 then (Inl ExplicitPanic, cs)
      else
        let c = (case capacity of [] \<Rightarrow> sz | c0 # _ \<Rightarrow> if c0 > sz then c0 else sz);
            idx = CalIndex c in
        if idx \<ge> int maxSize
        then (if 0 \<le> sz then (Inr (make_slice (nat sz) (nat c)), cs) else (Inl SliceBounds, cs))
        else
          let (ret, cs') = pool_get pick (nat idx) cs in (reslice sz ret, cs'))"

definition Free :: "gslice \<Rightarrow> caches \<Rightarrow> caches" where
  "Free p cs =
     (let c = int (scap p) in
      if \<not> isPowerOfTwo c then cs
      else
        let idx = CalIndex c in
        if idx \<ge> int maxSize then cs
        else cs(nat idx := cs (nat idx) @ [p\<lparr>slen := 0\<rparr>]))"

section \<open>Index arithmetic: what the indices mean\<close>

lemma bits_len_bounds: "0 < n \<Longrightarrow> 2 ^ (bits_len n - 1) \<le> n \<and> n < 2 ^ bits_len n"
proof (induction n rule: bits_len.induct)
  case (1 n)
  show ?case
  proof (cases "n div 2 = 0")
    case True
    with "1.prems" have "n = 1" by auto
    then show ?thesis by (simp add: bits_len.simps)
  next
    case False
    with "1" have IH: "2 ^ (bits_len (n div 2) - 1) \<le> n div 2" "n div 2 < 2 ^ bits_len (n div 2)"
      by auto
    from False have "0 < bits_len (n div 2)" by (subst bits_len.simps) auto
    with IH "1.prems" show ?thesis
      by (subst (1 2) bits_len.simps) (cases "bits_len (n div 2)"; auto)
  qed
qed

lemma bits_len_unique: "2 ^ k \<le> n \<Longrightarrow> n < 2 ^ Suc k \<Longrightarrow> bits_len n = Suc k"
proof -
  assume a: "2 ^ k \<le> n" "n < 2 ^ Suc k"
  then have "0 < n" by (auto intro: less_le_trans [of _ "2 ^ k"])
  then have b: "2 ^ (bits_len n - 1) \<le> n" "n < 2 ^ bits_len n"
    using bits_len_bounds by auto
  from a b have "(2::nat) ^ (bits_len n - 1) < 2 ^ Suc k" "(2::nat) ^ k < 2 ^ bits_len n"
    by linarith+
  then have "bits_len n - 1 < Suc k" "k < bits_len n"
    by (simp_all only: power_strict_increasing_iff)
  then show ?thesis by linarith
qed

lemma log2_nat: "0 < n \<Longrightarrow> n < 2 ^ 64 \<Longrightarrow> log2 (int n) = int (bits_len n) - 1"
proof -
  assume "0 < n" "n < 2 ^ 64"
  then have "int n < 2 ^ 64" by (metis of_nat_less_iff of_nat_numeral of_nat_power)
  then have "int n mod 2 ^ 64 = int n" by simp
  then show ?thesis by (simp add: log2_def)
qed


lemma isPowerOfTwo_power: "isPowerOfTwo (2 ^ k)"
proof -
  have "(2::int) ^ k AND mask k = take_bit k (2 ^ k)"
    by (simp only: take_bit_eq_mask)
  then show ?thesis
    by (simp add: isPowerOfTwo_def mask_eq_exp_minus_1 take_bit_eq_mod)
qed

lemma isPowerOfTwo_imp_power:
  assumes "0 < n" and "isPowerOfTwo (int n)"
  shows "n = 2 ^ (bits_len n - 1)"
proof (rule ccontr)
  let ?k = "bits_len n - 1"
  assume "n \<noteq> 2 ^ ?k"
  moreover from assms(1) have b: "2 ^ ?k \<le> n" "n < 2 ^ bits_len n"
    using bits_len_bounds by auto
  moreover from assms(1) have "bits_len n = Suc ?k"
    by (subst bits_len.simps) (auto simp: bits_len.simps)
  ultimately have lt: "2 ^ ?k \<le> n - 1" "n < 2 * 2 ^ ?k"
    by (auto simp flip: power_Suc)
  have one: "bit (int m) ?k" if m: "2 ^ ?k \<le> m" "m < 2 * 2 ^ ?k" for m :: nat
  proof -
    from m have "int (2 ^ ?k) \<le> int m" "int m < int (2 * 2 ^ ?k)"
      by (simp_all only: of_nat_le_iff of_nat_less_iff)
    then have "int m = 2 ^ ?k * 1 + (int m - 2 ^ ?k)" "0 \<le> int m - 2 ^ ?k" "int m - 2 ^ ?k < 2 ^ ?k"
      by simp_all
    then have "int m div 2 ^ ?k = 1"
      by (rule int_div_pos_eq)
    then show ?thesis by (simp add: bit_iff_odd)
  qed
  from lt b have "bit (int n) ?k" "bit (int (n - 1)) ?k"
    by (intro one; linarith)+
  moreover from assms have "int n AND int (n - 1) = 0"
    by (simp add: isPowerOfTwo_def of_nat_diff)
  ultimately show False
    by (metis bit_and_iff bit_0_eq bot_apply bot_bool_def)
qed

lemma CalIndex_cover:
  assumes "n < 2 ^ 63"
  shows "0 \<le> CalIndex (int n)"
    and "n \<le> 2 ^ nat (CalIndex (int n))"
    and "1 < n \<Longrightarrow> 2 ^ (nat (CalIndex (int n)) - 1) < n"
    and "0 < n \<Longrightarrow> 0 < CalIndex (int n)"
proof -
  have *: "0 \<le> CalIndex (int n) \<and> n \<le> 2 ^ nat (CalIndex (int n)) \<and>
      (1 < n \<longrightarrow> 2 ^ (nat (CalIndex (int n)) - 1) < n) \<and> (0 < n \<longrightarrow> 0 < CalIndex (int n))"
  proof (cases "n = 0")
    case True
    then show ?thesis by (simp add: CalIndex_def)
  next
    case False
    then have pos: "0 < n" by simp
    define k where "k = bits_len n - 1"
    have bl: "bits_len n = Suc k"
      using pos by (subst bits_len.simps) (simp add: k_def bits_len.simps)
    have b: "2 ^ k \<le> n" "n < 2 ^ Suc k"
      using bits_len_bounds [OF pos] bl by auto
    have lg: "log2 (int n) = int k"
      using pos assms by (simp add: log2_nat bl)
    show ?thesis
    proof (cases "n \<noteq> 1 \<and> isPowerOfTwo (int n)")
      case True
      with pos have n: "n = 2 ^ k"
        using isPowerOfTwo_imp_power [OF pos] by (simp add: k_def)
      with True have "0 < k" by (cases k) auto
      then have "(2::int) ^ k \<noteq> 1" using one_less_power [of "2::int" k] by linarith
      with True pos lg n \<open>0 < k\<close> show ?thesis by (simp add: CalIndex_def)
    next
      case F: False
      have idx: "nat (CalIndex (int n)) = Suc k" "0 < CalIndex (int n)"
        using F pos lg by (auto simp: CalIndex_def)
      have "1 < n \<Longrightarrow> 2 ^ k \<noteq> n"
        using F isPowerOfTwo_power [of k] by auto
      with b idx show ?thesis by auto
    qed
  qed
  then show "0 \<le> CalIndex (int n)" "n \<le> 2 ^ nat (CalIndex (int n))"
    "1 < n \<Longrightarrow> 2 ^ (nat (CalIndex (int n)) - 1) < n" "0 < n \<Longrightarrow> 0 < CalIndex (int n)"
    by simp_all
qed

lemma CalIndex_power: "0 < k \<Longrightarrow> k < 63 \<Longrightarrow> CalIndex (2 ^ k) = int k"
proof -
  assume k: "0 < k" "k < 63"
  have "bits_len (2 ^ k) = Suc k" by (rule bits_len_unique) auto
  moreover have "(2::nat) ^ k < 2 ^ 64"
    using k by (intro power_strict_increasing) auto
  ultimately have "log2 (int (2 ^ k)) = int k"
    by (subst log2_nat) auto
  moreover have "(2::int) ^ k \<noteq> 1"
    using k one_less_power [of "2::int" k] by linarith
  ultimately show ?thesis
    using isPowerOfTwo_power [of k] by (simp add: CalIndex_def)
qed


section \<open>Malloc and Free\<close>

text \<open>What \<open>Malloc\<close> relies on: a slice stored in slot \<open>i\<close> can be cut to any size that
  \<open>CalIndex\<close> sends to slot \<open>i\<close>. Slot 0 only ever serves size 0.\<close>

definition caches_ok :: "caches \<Rightarrow> bool" where
  "caches_ok cs \<longleftrightarrow> (\<forall>i > 0. \<forall>s \<in> set (cs i). scap s = 2 ^ i)"

lemma caches_ok_init [simp]: "caches_ok init_caches"
  by (simp add: caches_ok_def init_caches_def)

lemma scap_make_slice [simp]: "scap (make_slice l c) = c"
  by (simp add: scap_def make_slice_def)

lemma pool_get_ok:
  assumes "caches_ok cs" and "pool_get pick i cs = (s, cs')"
  shows "caches_ok cs'" and "0 < i \<Longrightarrow> scap s = 2 ^ i"
  using assms
  by (auto simp: pool_get_def caches_ok_def split: option.splits if_splits)
    (blast dest: in_set_takeD in_set_dropD)+

definition eff_cap :: "nat \<Rightarrow> int list \<Rightarrow> nat" where
  "eff_cap n caps = (case caps of [] \<Rightarrow> n | c # _ \<Rightarrow> max n (nat c))"

lemma Malloc_split:
  assumes "length caps \<le> 1"
  shows "Malloc pick (int n) caps cs =
    (if CalIndex (int (eff_cap n caps)) \<ge> int maxSize
     then (Inr (make_slice n (eff_cap n caps)), cs)
     else (let (ret, cs') = pool_get pick (nat (CalIndex (int (eff_cap n caps)))) cs
           in (reslice (int n) ret, cs')))"
proof -
  have "(case caps of [] \<Rightarrow> int n | c0 # _ \<Rightarrow> if c0 > int n then c0 else int n) = int (eff_cap n caps)"
    by (auto simp: eff_cap_def split: list.split)
  with assms show ?thesis by (simp add: Malloc_def Let_def)
qed

lemma Malloc_ok:
  assumes "caches_ok cs" and "length caps \<le> 1" and "eff_cap n caps < 2 ^ 63"
  obtains s cs' where "Malloc pick (int n) caps cs = (Inr s, cs')" and "slen s = n"
    and "eff_cap n caps \<le> scap s" and "caches_ok cs'"
    and "0 < n \<Longrightarrow> n \<le> 2 ^ 24 \<Longrightarrow> caps = [] \<Longrightarrow> scap s = 2 ^ nat (CalIndex (int n))"
proof -
  let ?c = "eff_cap n caps"
  have nc: "n \<le> ?c" "caps = [] \<Longrightarrow> ?c = n"
    by (auto simp: eff_cap_def split: list.split)
  show thesis
  proof (cases "CalIndex (int ?c) \<ge> int maxSize")
    case True
    have "\<not> (0 < n \<and> n \<le> 2 ^ 24 \<and> caps = [])"
    proof
      assume h: "0 < n \<and> n \<le> 2 ^ 24 \<and> caps = []"
      have idx: "25 \<le> nat (CalIndex (int n))"
        using True nc(2) h by (simp add: maxSize_def)
      have "1 < n"
        using h idx by (cases "n = 1") (auto simp: CalIndex_def log2_def bits_len.simps)
      then have "2 ^ (nat (CalIndex (int n)) - 1) < n"
        using CalIndex_cover(3) h by simp
      moreover have "(2::nat) ^ 24 \<le> 2 ^ (nat (CalIndex (int n)) - 1)"
        using idx by (intro power_increasing) auto
      ultimately show False using h by linarith
    qed
    with True nc show thesis
      using assms by (intro that [of "make_slice n ?c" cs])
        (auto simp: Malloc_split make_slice_def scap_def)
  next
    case False
    obtain s cs' where g: "pool_get pick (nat (CalIndex (int ?c))) cs = (s, cs')"
      by force
    note ok = pool_get_ok [OF assms(1) g]
    have sc: "?c = 0 \<or> scap s = 2 ^ nat (CalIndex (int ?c))"
      using CalIndex_cover(4) [OF assms(3)] ok(2) by auto
    with CalIndex_cover(2) [OF assms(3)] have le: "?c \<le> scap s" by auto
    show thesis
    proof (rule that)
      show "Malloc pick (int n) caps cs = (Inr (s\<lparr>slen := n\<rparr>), cs')"
        using False g le nc by (simp add: Malloc_split [OF assms(2)] reslice_def)
      show "eff_cap n caps \<le> scap (s\<lparr>slen := n\<rparr>)"
        using le by (simp add: scap_def)
      show "scap (s\<lparr>slen := n\<rparr>) = 2 ^ nat (CalIndex (int n))" if "0 < n" "caps = []"
        using sc that nc by (simp add: scap_def)
    qed (simp_all add: ok)
  qed
qed

lemma Free_ok:
  assumes "caches_ok cs" and "scap p \<noteq> 1" and "scap p < 2 ^ 63"
  shows "caches_ok (Free p cs)"
proof (cases "isPowerOfTwo (int (scap p)) \<and> 0 < scap p")
  case True
  define k where "k = bits_len (scap p) - 1"
  from True have n: "scap p = 2 ^ k"
    using isPowerOfTwo_imp_power by (simp add: k_def)
  with assms(2) have "0 < k" by (cases k) auto
  moreover from n assms(3) have "(2::nat) ^ k < 2 ^ 63" by simp
  then have "k < 63" by (simp only: power_strict_increasing_iff)
  ultimately have "CalIndex (int (scap p)) = int k"
    using n CalIndex_power by simp
  with assms(1) n show ?thesis
    by (auto simp: Free_def caches_ok_def Let_def scap_def)
next
  case False
  with assms(1) show ?thesis
    by (auto simp: Free_def caches_ok_def Let_def CalIndex_def scap_def)
qed


section \<open>The allocator as an interface\<close>

text \<open>What the buffer needs of its allocator: a block of the requested length. The contents are
  whatever the recycled memory holds.\<close>

locale block_source =
  fixes alloc :: "nat \<Rightarrow> byte list"
  assumes alloc_len: "n < 2 ^ 32 \<Longrightarrow> length (alloc n) = n"

definition malloc_bytes :: "nat option \<Rightarrow> caches \<Rightarrow> nat \<Rightarrow> byte list" where
  "malloc_bytes pick cs n =
     (case fst (Malloc pick (int n) [] cs) of Inl _ \<Rightarrow> [] | Inr s \<Rightarrow> sbytes s)"

lemma block_source_malloc: "caches_ok cs \<Longrightarrow> block_source (malloc_bytes pick cs)"
proof
  fix n :: nat
  assume ok: "caches_ok cs" and "n < 2 ^ 32"
  then have cap: "eff_cap n [] < 2 ^ 63" by (simp add: eff_cap_def)
  obtain s cs' where "Malloc pick (int n) [] cs = (Inr s, cs')" "slen s = n" "n \<le> scap s"
    by (rule Malloc_ok [OF ok _ cap, of pick]) (auto simp: eff_cap_def)
  then show "length (malloc_bytes pick cs n) = n"
    by (simp add: malloc_bytes_def sbytes_def scap_def)
qed

interpretation fresh_cache: block_source "malloc_bytes pick init_caches" for pick
  by (rule block_source_malloc) simp

section \<open>Properties\<close>

text \<open>\<open>Malloc\<close> on a well-formed cache never panics, whichever item the pool hands out: it
  returns a slice of the requested length, with at least the requested capacity, and keeps the
  cache well-formed.\<close>

theorem malloc_safe:
  assumes "caches_ok cs" and "length caps \<le> 1" and "eff_cap n caps < 2 ^ 63"
  shows "\<exists>s cs'. Malloc pick (int n) caps cs = (Inr s, cs') \<and> slen s = n \<and>
            length (sbytes s) = n \<and> eff_cap n caps \<le> scap s \<and> caches_ok cs'"
proof -
  have "n \<le> eff_cap n caps" by (auto simp: eff_cap_def split: list.split)
  then show ?thesis
    using Malloc_ok [OF assms] by (metis length_take min.absorb2 order_trans sbytes_def scap_def)
qed

theorem malloc_safe_witness:
  "\<exists>s cs'. Malloc None (int 400) [1000] init_caches = (Inr s, cs') \<and> slen s = 400 \<and>
     length (sbytes s) = 400 \<and> 1000 \<le> scap s \<and> caches_ok cs'"
  using malloc_safe [of init_caches "[1000]" 400 None] by (simp add: eff_cap_def)

text \<open>A slice of size 1 to \<open>2 ^ 24\<close> obtained from \<open>Malloc\<close> and given to \<open>Free\<close> returns to
  the slot its size class names, so it is found again by the next \<open>Malloc\<close> of that class, and
  the cache stays well-formed.\<close>

theorem malloc_free_same_slot:
  assumes "caches_ok cs" and "0 < n" and "n \<le> 2 ^ 24"
    and "Malloc pick (int n) [] cs = (Inr s, cs')"
  shows "Free s cs' = cs'(nat (CalIndex (int n)) := cs' (nat (CalIndex (int n))) @ [s\<lparr>slen := 0\<rparr>]) \<and>
         caches_ok (Free s cs')"
proof -
  define i where "i = nat (CalIndex (int n))"
  have n: "n < 2 ^ 63" using assms(3) by simp
  have cap: "scap s = 2 ^ i" and ok: "caches_ok cs'"
    using Malloc_ok [OF assms(1), of "[]" n pick] assms n by (auto simp: eff_cap_def i_def)
  have i: "0 < i" using CalIndex_cover(4) [OF n] assms(2) by (simp add: i_def)
  have lt: "i < 25"
  proof (cases "n = 1")
    case True
    then show ?thesis by (simp add: i_def CalIndex_def log2_def bits_len.simps)
  next
    case False
    then have "(2::nat) ^ (i - 1) < 2 ^ 24"
      using CalIndex_cover(3) [OF n] assms(2,3) unfolding i_def by linarith
    then show ?thesis by (simp only: power_strict_increasing_iff)
  qed
  have "isPowerOfTwo (int (scap s))" "CalIndex (int (scap s)) = int i"
    using cap i lt isPowerOfTwo_power [of i] CalIndex_power [of i] by simp_all
  with lt have "Free s cs' = cs'(i := cs' i @ [s\<lparr>slen := 0\<rparr>])"
    by (simp add: Free_def Let_def maxSize_def)
  moreover have "caches_ok (Free s cs')"
    using ok cap i power_strict_increasing [of i 63 "2::nat"] lt by (intro Free_ok) auto
  ultimately show ?thesis by (simp add: i_def)
qed

theorem malloc_free_same_slot_witness:
  "\<exists>s cs'. Malloc None (int 400) [] init_caches = (Inr s, cs') \<and> caches_ok (Free s cs')"
proof -
  have cap: "eff_cap 400 [] < 2 ^ 63" by (simp add: eff_cap_def)
  obtain s cs' where m: "Malloc None (int 400) [] init_caches = (Inr s, cs')"
    by (rule Malloc_ok [OF caches_ok_init _ cap, of None]) auto
  from malloc_free_same_slot [OF caches_ok_init _ _ m] m show ?thesis by auto
qed

text \<open>The size class of capacity 1 is off by one: \<open>CalIndex(1)\<close> is 1, so freeing the slice
  that \<open>Malloc(0)\<close> returns (capacity 1) stores it in the slot of capacity-2 slices, and a later
  \<open>Malloc(2)\<close> that draws it panics with slice bounds out of range.\<close>

theorem malloc0_free_malloc2_panics:
  "\<exists>s cs. Malloc None 0 [] init_caches = (Inr s, cs) \<and>
     fst (Malloc (Some 0) 2 [] (Free s cs)) = Inl SliceBounds"
  by (simp add: Malloc_def Free_def CalIndex_def log2_def bits_len.simps isPowerOfTwo_def
      pool_get_def init_caches_def reslice_def make_slice_def scap_def maxSize_def)

end
