(* ===== verification/Iovec.thy ===== *)
theory Iovec
  imports Tnet_Prelude
begin

text \<open>
  Model of \<open>internal/iovec\<close>: the pair of vectors through which slices are handed to the
  \<open>readv\<close>/\<open>writev\<close> system calls. A Go slice of slices that may be nil is an option; an entry set
  to nil is the empty slice; the base pointer of an \<open>unix.Iovec\<close> is the slice it points to.
\<close>

definition DefaultLength :: nat where
  "DefaultLength = 8"

type_synonym iovec = "byte list option \<times> u64"

record iodata =
  ByteVec :: "byte list list option"
  IOVec :: "iovec list option"

definition vec :: "'a list option \<Rightarrow> 'a list" where
  "vec v = (case v of None \<Rightarrow> [] | Some xs \<Rightarrow> xs)"

lemma vec_simps [simp]: "vec None = []" "vec (Some xs) = xs"
  by (simp_all add: vec_def)

definition nil_iodata :: iodata where
  "nil_iodata = \<lparr>ByteVec = None, IOVec = None\<rparr>"

text \<open>\<open>WithLength\<close> options are applied in order over the default.\<close>

definition NewIOData :: "nat list \<Rightarrow> iodata" where
  "NewIOData opts =
     (let len = foldl (\<lambda>_ l. l) DefaultLength opts in
      \<lparr>ByteVec = Some (replicate len []), IOVec = Some (replicate len (None, 0))\<rparr>)"

definition IsNil :: "iodata \<Rightarrow> bool" where
  "IsNil d \<longleftrightarrow> ByteVec d = None \<or> IOVec d = None"

definition IOData_Release :: "nat \<Rightarrow> iodata \<Rightarrow> iodata" where
  "IOData_Release sliceCnt d =
     (let n = min (min sliceCnt (length (vec (ByteVec d)))) (length (vec (IOVec d))) in
      d\<lparr>ByteVec := map_option (\<lambda>bv. replicate n [] @ drop n bv) (ByteVec d),
        IOVec := map_option (\<lambda>iv. map (\<lambda>(_, l). (None, l)) (take n iv) @ drop n iv) (IOVec d)\<rparr>)"

definition IOData_Reset :: "iodata \<Rightarrow> iodata" where
  "IOData_Reset d =
     d\<lparr>ByteVec := map_option (\<lambda>_. []) (ByteVec d), IOVec := map_option (\<lambda>_. []) (IOVec d)\<rparr>"

text \<open>\<open>SetIOVec\<close> takes the address of the first byte of every slice: an empty slice, or a count
  beyond the vector, is an index fault.\<close>

definition SetIOVec :: "nat \<Rightarrow> iodata \<Rightarrow> err option \<times> iodata" where
  "SetIOVec num d =
     (let bv = take num (vec (ByteVec d)) in
      if num \<le> length (vec (ByteVec d)) \<and> (\<forall>s \<in> set bv. s \<noteq> [])
      then (None, d\<lparr>IOVec := Some (map (\<lambda>s. (Some s, of_nat (length s))) bv)\<rparr>)
      else (Some (Fault IndexRange), d))"

lemma ByteVec_Reset [simp]: "vec (ByteVec (IOData_Reset d)) = []"
  by (cases "ByteVec d") (simp_all add: IOData_Reset_def)

lemma SetIOVec_ok:
  "num \<le> length (vec (ByteVec d)) \<Longrightarrow> \<forall>s \<in> set (vec (ByteVec d)). s \<noteq> [] \<Longrightarrow>
     SetIOVec num d =
       (None, d\<lparr>IOVec := Some (map (\<lambda>s. (Some s, of_nat (length s))) (take num (vec (ByteVec d))))\<rparr>)"
  by (auto simp: SetIOVec_def Let_def dest: in_set_takeD)

end
