(* ===== verification/Byte_Reader.thy ===== *)
theory Byte_Reader
  imports Tnet_Prelude
begin

text \<open>
  The contract of the zero-copy reading API that \<open>Buffer\<close>, \<open>FixedReadBuffer\<close> and the connections
  share: \<open>Peek\<close>, \<open>Skip\<close> and \<open>Next\<close> on a queue of bytes. The locale \<open>byte_reader\<close> states the laws;
  clients are proved once against it. \<open>queue_run\<close> is the abstract specification, a byte list and
  nothing else; \<open>run_refines_queue\<close> shows that any sequence of calls on an implementation returns
  what the specification returns.
\<close>

section \<open>The queue specification\<close>

definition queue_take :: "err option \<Rightarrow> int \<Rightarrow> byte list \<Rightarrow> byte list \<times> err option" where
  "queue_take eof n d =
     (if n < 0 then ([], Some ErrInvalidParam)
      else if n \<le> int (length d) then (take (nat n) d, None)
      else ([], eof))"

definition queue_drop :: "int \<Rightarrow> byte list \<Rightarrow> byte list" where
  "queue_drop n d = (if 0 \<le> n \<and> n \<le> int (length d) then drop (nat n) d else d)"

datatype rcall = CPeek int | CSkip int | CNext int

fun queue_call :: "err option \<Rightarrow> rcall \<Rightarrow> byte list \<Rightarrow> (byte list \<times> err option) \<times> byte list" where
  "queue_call eof (CPeek n) d = (queue_take eof n d, d)"
| "queue_call eof (CSkip n) d = (([], snd (queue_take eof n d)), queue_drop n d)"
| "queue_call eof (CNext n) d = (queue_take eof n d, queue_drop n d)"

fun queue_run :: "err option \<Rightarrow> rcall list \<Rightarrow> byte list \<Rightarrow> (byte list \<times> err option) list \<times> byte list" where
  "queue_run eof [] d = ([], d)"
| "queue_run eof (c # cs) d =
     (let (r, d) = queue_call eof c d; (rs, d) = queue_run eof cs d in (r # rs, d))"

text \<open>Bytes come out in order, none lost and none twice: in a run without skips, what the \<open>Next\<close>
  calls returned followed by what is left is the original data.\<close>

fun is_skip :: "rcall \<Rightarrow> bool" where
  "is_skip (CSkip n) = True"
| "is_skip _ = False"

fun next_bytes :: "rcall list \<Rightarrow> (byte list \<times> err option) list \<Rightarrow> byte list" where
  "next_bytes (CNext n # cs) (r # rs) = fst r @ next_bytes cs rs"
| "next_bytes (c # cs) (r # rs) = next_bytes cs rs"
| "next_bytes _ _ = []"

lemma queue_run_fifo:
  "list_all (\<lambda>c. \<not> is_skip c) cs \<Longrightarrow>
     next_bytes cs (fst (queue_run eof cs d)) @ snd (queue_run eof cs d) = d"
proof (induction cs arbitrary: d)
  case (Cons c cs)
  have "fst (queue_take eof n d) @ queue_drop n d = d" for n
    by (simp add: queue_take_def queue_drop_def)
  with Cons show ?case by (cases c) (simp_all add: split_beta Let_def)
qed simp

section \<open>Implementations\<close>

text \<open>One call on an implementation given by its three operations.\<close>

type_synonym 's take_op = "int \<Rightarrow> 's \<Rightarrow> byte list \<times> err option \<times> 's"
type_synonym 's skip_op = "int \<Rightarrow> 's \<Rightarrow> err option \<times> 's"

fun reader_call ::
  "'s take_op \<Rightarrow> 's skip_op \<Rightarrow> 's take_op \<Rightarrow> rcall \<Rightarrow> 's \<Rightarrow> (byte list \<times> err option) \<times> 's" where
  "reader_call peek skip nxt (CPeek n) s = (case peek n s of (p, e, s) \<Rightarrow> ((p, e), s))"
| "reader_call peek skip nxt (CSkip n) s = (case skip n s of (e, s) \<Rightarrow> (([], e), s))"
| "reader_call peek skip nxt (CNext n) s = (case nxt n s of (p, e, s) \<Rightarrow> ((p, e), s))"

fun reader_run ::
  "'s take_op \<Rightarrow> 's skip_op \<Rightarrow> 's take_op \<Rightarrow> rcall list \<Rightarrow> 's \<Rightarrow> (byte list \<times> err option) list \<times> 's" where
  "reader_run peek skip nxt [] s = ([], s)"
| "reader_run peek skip nxt (c # cs) s =
     (let (r, s) = reader_call peek skip nxt c s; (rs, s) = reader_run peek skip nxt cs s in (r # rs, s))"

locale byte_reader =
  fixes inv :: "'s \<Rightarrow> bool"
    and data :: "'s \<Rightarrow> byte list"
    and eof :: "'s \<Rightarrow> err option"
    and peek :: "int \<Rightarrow> 's \<Rightarrow> byte list \<times> err option \<times> 's"
    and skip :: "int \<Rightarrow> 's \<Rightarrow> err option \<times> 's"
    and nxt :: "int \<Rightarrow> 's \<Rightarrow> byte list \<times> err option \<times> 's"
  assumes peek_law: "inv s \<Longrightarrow> \<exists>s'. peek n s = (fst (queue_take (eof s) n (data s)),
        snd (queue_take (eof s) n (data s)), s') \<and> inv s' \<and> data s' = data s \<and> eof s' = eof s"
    and skip_law: "inv s \<Longrightarrow> \<exists>s'. skip n s = (snd (queue_take (eof s) n (data s)), s') \<and>
        inv s' \<and> data s' = queue_drop n (data s) \<and> eof s' = eof s"
    and nxt_law: "inv s \<Longrightarrow> \<exists>s'. nxt n s = (fst (queue_take (eof s) n (data s)),
        snd (queue_take (eof s) n (data s)), s') \<and> inv s' \<and> data s' = queue_drop n (data s) \<and> eof s' = eof s"
begin

lemma call_refines_queue:
  assumes "inv s"
  shows "\<exists>s'. reader_call peek skip nxt c s = (fst (queue_call (eof s) c (data s)), s') \<and>
    inv s' \<and> data s' = snd (queue_call (eof s) c (data s)) \<and> eof s' = eof s"
proof (cases c)
  case (CPeek n)
  with peek_law [OF assms, of n] show ?thesis by auto
next
  case (CSkip n)
  with skip_law [OF assms, of n] show ?thesis by auto
next
  case (CNext n)
  with nxt_law [OF assms, of n] show ?thesis by auto
qed

lemma run_refines_queue:
  assumes "inv s"
  shows "\<exists>s'. reader_run peek skip nxt cs s = (fst (queue_run (eof s) cs (data s)), s') \<and>
    inv s' \<and> data s' = snd (queue_run (eof s) cs (data s)) \<and> eof s' = eof s"
  using assms
proof (induction cs arbitrary: s)
  case (Cons c cs)
  obtain s1 where s1: "reader_call peek skip nxt c s = (fst (queue_call (eof s) c (data s)), s1)"
    "inv s1" "data s1 = snd (queue_call (eof s) c (data s))" "eof s1 = eof s"
    using call_refines_queue [OF Cons.prems, of c] by blast
  obtain s2 where "reader_run peek skip nxt cs s1 = (fst (queue_run (eof s1) cs (data s1)), s2)"
    "inv s2" "data s2 = snd (queue_run (eof s1) cs (data s1))" "eof s2 = eof s1"
    using Cons.IH [OF s1(2)] by blast
  with s1 show ?case by (simp add: split_beta Let_def)
qed simp

text \<open>\<open>Next\<close> is \<open>Peek\<close> followed by \<open>Skip\<close>.\<close>

lemma nxt_peek_skip:
  assumes "inv s" and "nxt n s = (p, e, s1)" and "peek n s = (p', e', t)" and "skip n t = (e'', t')"
  shows "p' = p \<and> e' = e \<and> e'' = e \<and> data t' = data s1"
  using peek_law [OF assms(1), of n] nxt_law [OF assms(1), of n] skip_law [of t n] assms by auto

end

end
