(* ===== verification/Fixed_Buffer.thy ===== *)
theory Fixed_Buffer
  imports Byte_Reader
begin

text \<open>
  Model of \<open>internal/buffer/fixed_buffer.go\<close>: a byte slice that is only read, with a position and a
  remaining length in 32-bit counters and the error that a read beyond the end returns. Every method
  holds the mutex, so one call is one step. The buffer is a \<open>byte_reader\<close>.
\<close>

record fixed =
  fbuf :: "byte list"
  frlen :: u32
  fpos :: u32
  feofErr :: "err option"

definition fixed_Initialize :: "byte list \<Rightarrow> err option \<Rightarrow> fixed \<Rightarrow> fixed" where
  "fixed_Initialize buf eofErr b =
     b\<lparr>fbuf := buf, frlen := of_nat (length buf), fpos := 0, feofErr := eofErr\<rparr>"

definition fixed_LenRead :: "fixed \<Rightarrow> nat" where
  "fixed_LenRead b = unat (frlen b)"

definition CurPos :: "fixed \<Rightarrow> nat" where
  "CurPos b = unat (fpos b)"

text \<open>The expression \<open>b.buf[curPos:curPos+n]\<close>.\<close>

definition fixed_slice :: "nat \<Rightarrow> fixed \<Rightarrow> err + byte list" where
  "fixed_slice n b =
     (if CurPos b + n \<le> length (fbuf b) then Inr (slice (CurPos b) (CurPos b + n) (fbuf b))
      else Inl (Fault SliceBounds))"

definition fixed_Peek :: "int \<Rightarrow> fixed \<Rightarrow> byte list \<times> err option \<times> fixed" where
  "fixed_Peek n b =
     (if n < 0 then ([], Some ErrInvalidParam, b)
      else if n = 0 then ([], None, b)
      else if int (fixed_LenRead b) < n then ([], feofErr b, b)
      else case fixed_slice (nat n) b of
        Inl e \<Rightarrow> ([], Some e, b)
      | Inr s \<Rightarrow> (s, None, b))"

definition fixed_Skip :: "int \<Rightarrow> fixed \<Rightarrow> err option \<times> fixed" where
  "fixed_Skip n b =
     (if n < 0 then (Some ErrInvalidParam, b)
      else if n = 0 then (None, b)
      else if int (fixed_LenRead b) < n then (feofErr b, b)
      else (None, b\<lparr>fpos := fpos b + of_int n, frlen := frlen b - of_int n\<rparr>))"

definition fixed_Next :: "int \<Rightarrow> fixed \<Rightarrow> byte list \<times> err option \<times> fixed" where
  "fixed_Next n b =
     (if n < 0 then ([], Some ErrInvalidParam, b)
      else if n = 0 then ([], None, b)
      else if int (fixed_LenRead b) < n then ([], feofErr b, b)
      else
        let b' = b\<lparr>fpos := fpos b + of_int n, frlen := frlen b - of_int n\<rparr> in
        case fixed_slice (nat n) b of
          Inl e \<Rightarrow> ([], Some e, b')
        | Inr s \<Rightarrow> (s, None, b'))"

definition fixed_ReadN :: "int \<Rightarrow> fixed \<Rightarrow> byte list \<times> err option \<times> fixed" where
  "fixed_ReadN n b =
     (if n < 0 then ([], Some ErrInvalidParam, b)
      else if n = 0 then ([], None, b)
      else if int (fixed_LenRead b) < n then ([], feofErr b, b)
      else case fixed_slice (nat n) b of
        Inl e \<Rightarrow> ([], Some e, b)
      | Inr s \<Rightarrow> (s, None, b\<lparr>fpos := fpos b + of_int n, frlen := frlen b - of_int n\<rparr>))"

text \<open>\<open>Read(p)\<close> with \<open>len(p) = m\<close>: the count, the bytes copied, the error.\<close>

definition fixed_Read :: "nat \<Rightarrow> fixed \<Rightarrow> (nat \<times> byte list) \<times> err option \<times> fixed" where
  "fixed_Read m b =
     (if m = 0 then ((0, []), None, b)
      else if fixed_LenRead b = 0 then ((0, []), feofErr b, b)
      else
        let n = (if fixed_LenRead b < m then fixed_LenRead b else m) in
        case fixed_slice n b of
          Inl e \<Rightarrow> ((0, []), Some e, b)
        | Inr s \<Rightarrow> ((n, s), None, b\<lparr>fpos := fpos b + of_nat n, frlen := frlen b - of_nat n\<rparr>))"

section \<open>The unread bytes\<close>

definition fixed_data :: "fixed \<Rightarrow> byte list" where
  "fixed_data b = drop (CurPos b) (fbuf b)"

definition fixed_inv :: "fixed \<Rightarrow> bool" where
  "fixed_inv b \<longleftrightarrow> CurPos b + fixed_LenRead b = length (fbuf b) \<and> length (fbuf b) < 2 ^ 32"

lemma fixed_Initialize_inv:
  "length buf < 2 ^ 32 \<Longrightarrow>
     fixed_inv (fixed_Initialize buf e b) \<and> fixed_data (fixed_Initialize buf e b) = buf \<and>
     feofErr (fixed_Initialize buf e b) = e"
  by (simp add: fixed_inv_def fixed_data_def fixed_Initialize_def CurPos_def fixed_LenRead_def unat_simps)

lemma fixed_LenRead_data: "fixed_inv b \<Longrightarrow> fixed_LenRead b = length (fixed_data b)"
  by (auto simp: fixed_inv_def fixed_data_def)

lemma fixed_slice_ok:
  "fixed_inv b \<Longrightarrow> k \<le> length (fixed_data b) \<Longrightarrow> fixed_slice k b = Inr (take k (fixed_data b))"
  by (auto simp: fixed_inv_def fixed_data_def fixed_slice_def slice_def)

lemma fixed_advance:
  assumes "fixed_inv b" and "k \<le> length (fixed_data b)"
  defines "b' \<equiv> b\<lparr>fpos := fpos b + of_nat k, frlen := frlen b - of_nat k\<rparr>"
  shows "fixed_inv b'" and "fixed_data b' = drop k (fixed_data b)" and "feofErr b' = feofErr b"
proof -
  have k: "k \<le> unat (frlen b)" "unat (fpos b) + k < 2 ^ 32"
    using assms fixed_LenRead_data [OF assms(1)]
    by (auto simp: fixed_inv_def CurPos_def fixed_LenRead_def)
  then have u: "unat (fpos b + of_nat k) = unat (fpos b) + k"
    "unat (frlen b - of_nat k) = unat (frlen b) - k"
    by (simp_all add: unat_simps)
  with k assms(1) show "fixed_inv b'" "fixed_data b' = drop k (fixed_data b)"
    by (simp_all add: b'_def fixed_inv_def fixed_data_def CurPos_def fixed_LenRead_def add.commute)
qed (simp add: b'_def)

lemma fixed_advance_int:
  assumes "fixed_inv b" and "0 \<le> n" "n \<le> int (length (fixed_data b))"
  defines "b' \<equiv> b\<lparr>fpos := fpos b + of_int n, frlen := frlen b - of_int n\<rparr>"
  shows "fixed_inv b' \<and> fixed_data b' = drop (nat n) (fixed_data b) \<and> feofErr b' = feofErr b"
  using fixed_advance [OF assms(1), of "nat n"] assms by (simp add: nat_le_iff)

lemma fixed_Peek_law:
  "fixed_inv b \<Longrightarrow> fixed_Peek n b = (fst (queue_take (feofErr b) n (fixed_data b)),
     snd (queue_take (feofErr b) n (fixed_data b)), b)"
  by (auto simp: fixed_Peek_def queue_take_def fixed_LenRead_data fixed_slice_ok nat_le_iff)

lemma fixed_Next_law:
  assumes "fixed_inv b"
  shows "\<exists>b'. fixed_Next n b = (fst (queue_take (feofErr b) n (fixed_data b)),
     snd (queue_take (feofErr b) n (fixed_data b)), b') \<and>
     fixed_inv b' \<and> fixed_data b' = queue_drop n (fixed_data b) \<and> feofErr b' = feofErr b"
  using assms fixed_advance_int [OF assms, of n]
  by (auto simp: fixed_Next_def queue_take_def queue_drop_def fixed_LenRead_data fixed_slice_ok nat_le_iff Let_def)

lemma fixed_Skip_law:
  assumes "fixed_inv b"
  shows "\<exists>b'. fixed_Skip n b = (snd (queue_take (feofErr b) n (fixed_data b)), b') \<and>
     fixed_inv b' \<and> fixed_data b' = queue_drop n (fixed_data b) \<and> feofErr b' = feofErr b"
  using assms fixed_advance_int [OF assms, of n]
  by (auto simp: fixed_Skip_def queue_take_def queue_drop_def fixed_LenRead_data)

lemma fixed_ReadN_Next: "fixed_inv b \<Longrightarrow> fixed_ReadN n b = fixed_Next n b"
  by (simp add: fixed_ReadN_def fixed_Next_def fixed_slice_ok fixed_LenRead_data nat_le_iff Let_def)

lemma fixed_Read_ok:
  assumes "fixed_inv b" and "0 < m" and "fixed_data b \<noteq> []"
  defines "k \<equiv> min m (length (fixed_data b))"
  shows "\<exists>b'. fixed_Read m b = ((k, take k (fixed_data b)), None, b') \<and>
     fixed_inv b' \<and> fixed_data b' = drop k (fixed_data b) \<and> feofErr b' = feofErr b"
proof -
  have "(if fixed_LenRead b < m then fixed_LenRead b else m) = k"
    using fixed_LenRead_data [OF assms(1)] by (simp add: k_def min_def)
  with assms fixed_advance [OF assms(1), of k] show ?thesis
    by (simp add: fixed_Read_def fixed_LenRead_data fixed_slice_ok Let_def)
qed

lemma fixed_Read_eof:
  "fixed_inv b \<Longrightarrow> 0 < m \<Longrightarrow> fixed_data b = [] \<Longrightarrow> fixed_Read m b = ((0, []), feofErr b, b)"
  by (simp add: fixed_Read_def fixed_LenRead_data)

interpretation fixed_reader: byte_reader fixed_inv fixed_data feofErr fixed_Peek fixed_Skip fixed_Next
  by unfold_locales (simp_all add: fixed_Peek_law fixed_Next_law fixed_Skip_law)

section \<open>Properties\<close>

text \<open>Any sequence of \<open>Peek\<close>, \<open>Skip\<close> and \<open>Next\<close> calls on a \<open>FixedReadBuffer\<close> over \<open>buf\<close> returns what the
  byte queue \<open>buf\<close> returns, with the configured end-of-file error when the data runs out.\<close>

theorem fixed_refines_queue:
  assumes "length buf < 2 ^ 32"
  shows "fst (reader_run fixed_Peek fixed_Skip fixed_Next cs (fixed_Initialize buf eof b)) =
         fst (queue_run eof cs buf)"
  using fixed_reader.run_refines_queue [of "fixed_Initialize buf eof b" cs]
    fixed_Initialize_inv [OF assms, of eof b] by auto

theorem fixed_refines_queue_witness:
  "fst (reader_run fixed_Peek fixed_Skip fixed_Next [CPeek 2, CSkip 1, CNext 2, CNext 1]
     (fixed_Initialize [1, 2, 3] (Some ErrConnClosed) \<lparr>fbuf = [], frlen = 0, fpos = 0, feofErr = None\<rparr>)) =
   [([1, 2], None), ([], None), ([2, 3], None), ([], Some ErrConnClosed)]"
  using fixed_refines_queue [of "[1, 2, 3]" "[CPeek 2, CSkip 1, CNext 2, CNext 1]" "Some ErrConnClosed"]
  by (simp add: queue_take_def queue_drop_def)

end
