(* ===== verification/Buffer_Node.thy ===== *)
theory Buffer_Node
  imports Tnet_Prelude
begin

text \<open>
  Model of \<open>internal/buffer/node.go\<close>: one node of a linked buffer, a block of memory with a read
  and a write offset. The \<open>next\<close> pointers are the order of the node list that a buffer keeps; the
  node and block pools hand out nodes with all fields zero (\<open>zero_node\<close>, which \<open>reset\<close> restores)
  and blocks of the requested length (the argument \<open>alloc\<close>, see \<open>block_source\<close>).
\<close>

named_theorems node_defs \<open>definitions of the node operations\<close>

section \<open>State and operations\<close>

record node =
  nblock :: "byte list"
  nr :: u32
  nw :: u32
  nrecycle :: bool

definition zero_node :: node where
  "zero_node = \<lparr>nblock = [], nr = 0, nw = 0, nrecycle = False\<rparr>"

definition allocNode :: node where
  "allocNode = zero_node"

definition allocBlockN :: "(nat \<Rightarrow> byte list) \<Rightarrow> nat \<Rightarrow> node \<Rightarrow> node" where
  "allocBlockN alloc sz n = n\<lparr>nblock := alloc sz, nrecycle := True\<rparr>"

definition allocNodeBlock :: "(nat \<Rightarrow> byte list) \<Rightarrow> nat \<Rightarrow> node" where
  "allocNodeBlock alloc sz = allocBlockN alloc sz allocNode"

definition node_len :: "node \<Rightarrow> nat" where
  "node_len n = unat (nw n - nr n)"

definition node_cap :: "node \<Rightarrow> nat" where
  "node_cap n = length (nblock n)"

definition node_rest :: "node \<Rightarrow> int" where
  "node_rest n = int (node_cap n) - int (unat (nw n))"

definition isFull :: "node \<Rightarrow> bool" where
  "isFull n \<longleftrightarrow> unat (nw n) = length (nblock n)"

text \<open>The slice \<open>n.block[n.r : int(n.r)+num]\<close>, a fault outside the block.\<close>

definition node_slice :: "nat \<Rightarrow> node \<Rightarrow> err + byte list" where
  "node_slice num n =
     (if unat (nr n) + num \<le> length (nblock n)
      then Inr (slice (unat (nr n)) (unat (nr n) + num) (nblock n))
      else Inl (Fault SliceBounds))"

definition node_peek :: "nat \<Rightarrow> node \<Rightarrow> err + byte list" where
  "node_peek num n =
     (if num > node_len n then Inl ErrNoEnoughData else node_slice num n)"

definition node_readn :: "nat \<Rightarrow> node \<Rightarrow> err + (byte list \<times> node)" where
  "node_readn num n =
     (if num > node_len n then Inl ErrNoEnoughData
      else case node_slice num n of
          Inl e \<Rightarrow> Inl e
        | Inr p \<Rightarrow> Inr (p, n\<lparr>nr := nr n + of_nat num\<rparr>))"

definition node_skip :: "nat \<Rightarrow> node \<Rightarrow> err + node" where
  "node_skip num n =
     (if num > node_len n then Inl ErrNoEnoughData
      else Inr (n\<lparr>nr := nr n + of_nat num\<rparr>))"

definition node_add :: "nat \<Rightarrow> node \<Rightarrow> err + node" where
  "node_add wl n =
     (if isFull n then Inl ErrNodeFull
      else if unat (nw n) + wl > length (nblock n) then Inl ErrNodeFull
      else Inr (n\<lparr>nw := nw n + of_nat wl\<rparr>))"

definition setBlock :: "byte list \<Rightarrow> node \<Rightarrow> node" where
  "setBlock p n = n\<lparr>nblock := p, nw := of_nat (length p), nrecycle := False\<rparr>"

definition node_reset :: "node \<Rightarrow> node" where
  "node_reset n = n\<lparr>nblock := [], nrecycle := False, nr := 0, nw := 0\<rparr>"

lemmas [node_defs] =
  zero_node_def allocNode_def allocBlockN_def allocNodeBlock_def node_len_def node_cap_def
  node_rest_def isFull_def node_slice_def node_peek_def node_readn_def node_skip_def
  node_add_def setBlock_def node_reset_def

section \<open>Well-formed nodes and their data\<close>

text \<open>\<open>r \<le> w \<le> len(block)\<close>, and a node whose block belongs to the user (\<open>recycle = false\<close>) is
  full: the buffer never writes into it.\<close>

definition node_ok :: "node \<Rightarrow> bool" where
  "node_ok n \<longleftrightarrow> nr n \<le> nw n \<and> unat (nw n) \<le> length (nblock n) \<and> length (nblock n) < 2 ^ 32 \<and>
     (\<not> nrecycle n \<longrightarrow> unat (nw n) = length (nblock n))"

definition node_data :: "node \<Rightarrow> byte list" where
  "node_data n = slice (unat (nr n)) (unat (nw n)) (nblock n)"

lemma zero_node_ok [simp]: "node_ok zero_node" "node_data zero_node = []"
  by (simp_all add: node_ok_def zero_node_def node_data_def)

lemma node_reset_zero: "node_reset n = zero_node"
  by (simp add: node_reset_def zero_node_def)

lemma node_ok_le: "node_ok n \<Longrightarrow> unat (nr n) \<le> unat (nw n)"
  by (simp add: node_ok_def word_le_nat_alt)

lemma length_node_data: "node_ok n \<Longrightarrow> length (node_data n) = node_len n"
  by (simp add: node_ok_def node_data_def node_len_def unat_simps)

lemma node_len_diff: "node_ok n \<Longrightarrow> node_len n = unat (nw n) - unat (nr n)"
  by (simp add: node_ok_def node_len_def unat_simps)

lemma node_len_0_iff: "node_ok n \<Longrightarrow> node_len n = 0 \<longleftrightarrow> node_data n = []"
  using length_node_data by fastforce

text \<open>Advancing the read offset drops data from the front and touches nothing else.\<close>

abbreviation advance_r :: "nat \<Rightarrow> node \<Rightarrow> node" where
  "advance_r k n \<equiv> n\<lparr>nr := nr n + of_nat k\<rparr>"

lemma advance_r:
  assumes "node_ok n" and "k \<le> node_len n"
  shows "node_ok (advance_r k n)" and "node_data (advance_r k n) = drop k (node_data n)"
    and "node_len (advance_r k n) = node_len n - k"
proof -
  have le: "unat (nr n) + k \<le> unat (nw n)"
    using assms node_ok_le [OF assms(1)] by (simp add: node_len_diff)
  then have u: "unat (nr n + of_nat k) = unat (nr n) + k"
    using unat_u32_less [of "nw n"] by (intro unat_add_u32) linarith
  show ok: "node_ok (advance_r k n)"
    using assms(1) le u by (simp add: node_ok_def word_le_nat_alt)
  show "node_data (advance_r k n) = drop k (node_data n)"
    by (simp add: node_data_def u drop_slice)
  show "node_len (advance_r k n) = node_len n - k"
    using node_len_diff [OF ok] node_len_diff [OF assms(1)] u by simp
qed

lemma node_slice_ok:
  assumes "node_ok n" and "k \<le> node_len n"
  shows "node_slice k n = Inr (take k (node_data n))"
proof -
  have le: "unat (nr n) + k \<le> unat (nw n)"
    using assms node_ok_le [OF assms(1)] by (simp add: node_len_diff)
  with assms(1) show ?thesis
    by (simp add: node_slice_def node_ok_def node_data_def take_slice)
qed

lemma node_peek_ok:
  "node_ok n \<Longrightarrow> k \<le> node_len n \<Longrightarrow> node_peek k n = Inr (take k (node_data n))"
  by (simp add: node_peek_def node_slice_ok)

lemma node_readn_ok:
  "node_ok n \<Longrightarrow> k \<le> node_len n \<Longrightarrow> node_readn k n = Inr (take k (node_data n), advance_r k n)"
  by (simp add: node_readn_def node_slice_ok)

lemma node_skip_ok: "k \<le> node_len n \<Longrightarrow> node_skip k n = Inr (advance_r k n)"
  by (simp add: node_skip_def)

lemma setBlock_ok:
  "length p < 2 ^ 32 \<Longrightarrow> nr n = 0 \<Longrightarrow>
     node_ok (setBlock p n) \<and> node_data (setBlock p n) = p \<and> isFull (setBlock p n)"
  by (simp add: node_ok_def setBlock_def node_data_def isFull_def unat_simps)

lemma node_rest_nonneg: "node_ok n \<Longrightarrow> node_rest n = int (node_cap n - unat (nw n))"
  by (simp add: node_ok_def node_rest_def node_cap_def)

lemma isFull_iff: "node_ok n \<Longrightarrow> isFull n \<longleftrightarrow> node_rest n = 0"
  by (auto simp: node_ok_def isFull_def node_rest_def node_cap_def)

lemma not_recycle_full: "node_ok n \<Longrightarrow> \<not> nrecycle n \<Longrightarrow> isFull n"
  by (simp add: node_ok_def isFull_def)

text \<open>Writing \<open>s\<close> at the write offset and advancing it appends \<open>s\<close> to the node's data.\<close>

definition append_w :: "byte list \<Rightarrow> node \<Rightarrow> node" where
  "append_w s n =
     n\<lparr>nblock := overwrite (unat (nw n)) s (nblock n), nw := nw n + of_nat (length s)\<rparr>"

lemma append_w:
  assumes "node_ok n" and "int (length s) \<le> node_rest n"
  shows "node_ok (append_w s n)" and "node_data (append_w s n) = node_data n @ s"
    and "node_rest (append_w s n) = node_rest n - int (length s)"
    and "nr (append_w s n) = nr n" and "nrecycle (append_w s n) = nrecycle n"
    and "unat (nw (append_w s n)) = unat (nw n) + length s" and "node_cap (append_w s n) = node_cap n"
proof -
  let ?w = "unat (nw n)"
  from assms have le: "?w + length s \<le> length (nblock n)" and lt: "length (nblock n) < 2 ^ 32"
    by (simp_all add: node_ok_def node_rest_def node_cap_def)
  then have u: "unat (nw n + of_nat (length s)) = ?w + length s"
    by (intro unat_add_u32) linarith
  show cap: "node_cap (append_w s n) = node_cap n"
    using le by (simp add: node_cap_def append_w_def)
  show "unat (nw (append_w s n)) = ?w + length s"
    by (simp add: append_w_def u)
  show "node_rest (append_w s n) = node_rest n - int (length s)"
    using cap u by (simp add: node_rest_def append_w_def)
  show "nr (append_w s n) = nr n" "nrecycle (append_w s n) = nrecycle n"
    by (simp_all add: append_w_def)
  show "node_ok (append_w s n)"
    using assms(1) le u by (auto simp: node_ok_def append_w_def word_le_nat_alt)
  have r: "unat (nr n) \<le> ?w" by (rule node_ok_le [OF assms(1)])
  have "node_data (append_w s n)
      = slice (unat (nr n)) (?w + length s) (overwrite ?w s (nblock n))"
    by (simp add: node_data_def append_w_def u)
  also have "\<dots> = slice (unat (nr n)) ?w (overwrite ?w s (nblock n)) @ slice ?w (?w + length s) (overwrite ?w s (nblock n))"
    using r by (simp add: slice_append_adjacent)
  also have "\<dots> = node_data n @ s"
    using le by (simp add: slice_overwrite_before slice_overwrite_at node_data_def)
  finally show "node_data (append_w s n) = node_data n @ s" .
qed

end
