(* ===== verification/Link_Buffer.thy ===== *)
theory Link_Buffer
  imports Buffer_Node Mcache Iovec
begin

text \<open>
  Model of \<open>internal/buffer/buffer.go\<close>: the linked buffer. The nodes reachable from \<open>head\<close> are a
  list; \<open>head\<close> is its first element, \<open>tail\<close> its last, and \<open>rnode\<close>, \<open>wnode\<close> are positions in it. A
  position at or beyond the end is a nil pointer, so a dereference there is a fault. Every
  operation holds the read or the write lock for its whole body, so one call is one step.
  The argument \<open>alloc\<close> stands for \<open>mcache.Malloc\<close>; \<open>cleanUp\<close> for the package-level flag of
  that name.
\<close>

section \<open>State\<close>

record buffer =
  bchain :: "node list"
  brnode :: nat
  bwnode :: nat
  brlen :: u32
  bwlen :: u32
  bnodeBlockSize :: u32
  bauto :: bool

definition blockSize :: nat where
  "blockSize = 4096"

definition MaxLen :: nat where
  "MaxLen = 64"

definition maxFillLen :: nat where
  "maxFillLen = blockSize * MaxLen"

definition MaxBufferSize :: nat where
  "MaxBufferSize = 10 * 1024 * 1024"

definition maxNodeBlockSize :: nat where
  "maxNodeBlockSize = 128 * 1024"

definition zero_buffer :: buffer where
  "zero_buffer = \<lparr>bchain = [], brnode = 0, bwnode = 0, brlen = 0, bwlen = 0,
     bnodeBlockSize = 0, bauto = False\<rparr>"

definition node_at :: "buffer \<Rightarrow> nat \<Rightarrow> node option" where
  "node_at b i = (if i < length (bchain b) then Some (bchain b ! i) else None)"

definition LenRead :: "buffer \<Rightarrow> nat" where
  "LenRead b = unat (brlen b)"

definition LenWrite :: "buffer \<Rightarrow> nat" where
  "LenWrite b = unat (bwlen b)"

definition newDumpNode :: node where
  "newDumpNode = allocNode\<lparr>nr := 0, nw := 0\<rparr>"

definition SetAutoNodeBlockSize :: "bool \<Rightarrow> buffer \<Rightarrow> buffer" where
  "SetAutoNodeBlockSize enable b = b\<lparr>bauto := enable\<rparr>"

definition Initialize :: "buffer \<Rightarrow> buffer" where
  "Initialize b =
     SetAutoNodeBlockSize True
       (b\<lparr>bchain := [newDumpNode], brnode := 0, bwnode := 0,
          bnodeBlockSize := of_nat blockSize\<rparr>)"

definition buffer_reset :: "buffer \<Rightarrow> buffer" where
  "buffer_reset b = b\<lparr>brlen := 0, bwlen := 0, bchain := [], brnode := 0, bwnode := 0\<rparr>"

definition buffer_Free :: "buffer \<Rightarrow> buffer" where
  "buffer_Free b = buffer_reset b"

definition buffer_New :: "buffer \<Rightarrow> buffer" where
  "buffer_New pooled = Initialize pooled"

section \<open>Reading\<close>

text \<open>\<open>for b.rnode.len() == 0 { b.rnode = b.rnode.next }\<close>: how far the pointer moves, \<open>None\<close>
  when it runs off the end.\<close>

fun first_nonzero :: "node list \<Rightarrow> nat option" where
  "first_nonzero [] = None"
| "first_nonzero (x # xs) = (if node_len x = 0 then map_option Suc (first_nonzero xs) else Some 0)"

abbreviation loop_offset :: "nat \<Rightarrow> nat \<Rightarrow> node \<Rightarrow> nat" where
  "loop_offset n ack x \<equiv> (if ack + node_len x > n then n - ack else node_len x)"

text \<open>The copying loop of \<open>Peek\<close>.\<close>

fun peek_loop :: "nat \<Rightarrow> nat \<Rightarrow> node list \<Rightarrow> err + byte list" where
  "peek_loop n ack [] = Inr []"
| "peek_loop n ack (x # xs) =
     (if ack < n then
        (if node_len x = 0 then peek_loop n ack xs
         else let offset = loop_offset n ack x in
           case node_peek offset x of
             Inl e \<Rightarrow> Inl e
           | Inr s \<Rightarrow> (case peek_loop n (ack + offset) xs of
               Inl e \<Rightarrow> Inl e
             | Inr res \<Rightarrow> Inr (s @ res)))
      else Inr [])"

definition Peek :: "int \<Rightarrow> buffer \<Rightarrow> byte list \<times> err option \<times> buffer" where
  "Peek n b =
     (if n < 0 then ([], Some ErrInvalidParam, b)
      else if n = 0 then ([], None, b)
      else if int (LenRead b) < n then ([], Some ErrNoEnoughData, b)
      else case first_nonzero (drop (brnode b) (bchain b)) of
        None \<Rightarrow> ([], Some (Fault NilDeref), b)
      | Some k \<Rightarrow>
          let b = b\<lparr>brnode := brnode b + k\<rparr>;
              rnode = bchain b ! brnode b;
              res = (if int (node_len rnode) \<ge> n then node_peek (nat n) rnode
                     else peek_loop (nat n) 0 (drop (brnode b) (bchain b)))
          in case res of
               Inl e \<Rightarrow> ([], Some e, b)
             | Inr p \<Rightarrow> (p, None, b))"

text \<open>The loop of \<open>Skip\<close>: error, bytes skipped, the nodes, how far \<open>rnode\<close> moved.\<close>

function skip_loop :: "nat \<Rightarrow> nat \<Rightarrow> node list \<Rightarrow> err option \<times> nat \<times> node list \<times> nat" where
  "skip_loop n ack [] = (None, ack, [], 0)"
| "skip_loop n ack (x # xs) =
     (if ack < n then
        (if node_len x = 0 then
           (let (e, a, xs', k) = skip_loop n ack xs in (e, a, x # xs', Suc k))
         else let offset = loop_offset n ack x in
           case node_skip offset x of
             Inl e \<Rightarrow> (Some e, ack, x # xs, 0)
           | Inr x' \<Rightarrow> skip_loop n (ack + offset) (x' # xs))
      else (None, ack, x # xs, 0))"
  by pat_completeness auto
termination
  by (relation "measure (\<lambda>(n, ack, ns). (n - ack) + length ns)") auto

definition Skip :: "int \<Rightarrow> buffer \<Rightarrow> err option \<times> buffer" where
  "Skip n b =
     (if n < 0 then (Some ErrInvalidParam, b)
      else if int (LenRead b) < n then (Some ErrNoEnoughData, b)
      else case node_at b (brnode b) of
        None \<Rightarrow> (Some (Fault NilDeref), b)
      | Some rnode \<Rightarrow>
          if int (node_len rnode) \<ge> n then
            (case node_skip (nat n) rnode of
               Inl e \<Rightarrow> (Some e, b)
             | Inr x \<Rightarrow> (None, b\<lparr>bchain := (bchain b)[brnode b := x],
                              brlen := brlen b - of_int n\<rparr>))
          else
            let (e, ack, ns, k) = skip_loop (nat n) 0 (drop (brnode b) (bchain b));
                b = b\<lparr>bchain := take (brnode b) (bchain b) @ ns\<rparr>
            in case e of
                 Some err \<Rightarrow> (Some err, b)
               | None \<Rightarrow> (None, b\<lparr>brnode := brnode b + k, brlen := brlen b - of_nat ack\<rparr>))"

text \<open>The copying loop of \<open>Next\<close> and \<open>Read\<close>: the bytes collected (or the error), the count, the
  nodes, how far \<open>rnode\<close> moved.\<close>

function readn_loop :: "nat \<Rightarrow> nat \<Rightarrow> node list \<Rightarrow> (err + byte list) \<times> nat \<times> node list \<times> nat" where
  "readn_loop n ack [] = (Inr [], ack, [], 0)"
| "readn_loop n ack (x # xs) =
     (if ack < n then
        (if node_len x = 0 then
           (let (res, a, xs', k) = readn_loop n ack xs in (res, a, x # xs', Suc k))
         else let offset = loop_offset n ack x in
           case node_readn offset x of
             Inl e \<Rightarrow> (Inl e, ack, x # xs, 0)
           | Inr (s, x') \<Rightarrow>
               (let (res, a, ns', k) = readn_loop n (ack + offset) (x' # xs)
                in (map_sum id (\<lambda>t. s @ t) res, a, ns', k)))
      else (Inr [], ack, x # xs, 0))"
  by pat_completeness auto
termination
  by (relation "measure (\<lambda>(n, ack, ns). (n - ack) + length ns)") auto

definition Next :: "int \<Rightarrow> buffer \<Rightarrow> byte list \<times> err option \<times> buffer" where
  "Next n b =
     (if n < 0 then ([], Some ErrInvalidParam, b)
      else if n = 0 then ([], None, b)
      else if int (LenRead b) < n then ([], Some ErrNoEnoughData, b)
      else case first_nonzero (drop (brnode b) (bchain b)) of
        None \<Rightarrow> ([], Some (Fault NilDeref), b)
      | Some k \<Rightarrow>
          let b = b\<lparr>brnode := brnode b + k\<rparr>;
              rnode = bchain b ! brnode b
          in if int (node_len rnode) \<ge> n then
               (case node_readn (nat n) rnode of
                  Inl e \<Rightarrow> ([], Some e, b)
                | Inr (s, x) \<Rightarrow> (s, None, b\<lparr>bchain := (bchain b)[brnode b := x],
                                           brlen := brlen b - of_int n\<rparr>))
             else
               let (res, ack, ns, k) = readn_loop (nat n) 0 (drop (brnode b) (bchain b));
                   b = b\<lparr>bchain := take (brnode b) (bchain b) @ ns\<rparr>
               in case res of
                    Inl e \<Rightarrow> ([], Some e, b)
                  | Inr s \<Rightarrow> (s, None, b\<lparr>brnode := brnode b + k, brlen := brlen b - of_nat ack\<rparr>))"


section \<open>Releasing\<close>

definition CleanUpWithLock :: "buffer \<Rightarrow> buffer" where
  "CleanUpWithLock b =
     b\<lparr>bchain := [newDumpNode], brnode := 0, bwnode := 0, bwlen := 0,
       bnodeBlockSize := of_nat blockSize\<rparr>"

definition OptimizeMemory :: "bool \<Rightarrow> buffer \<Rightarrow> err option \<times> buffer" where
  "OptimizeMemory cleanUp b =
     (if LenRead b \<noteq> 0 then (None, b)
      else if cleanUp then (None, CleanUpWithLock b)
      else case node_at b (bwnode b) of
        None \<Rightarrow> (Some (Fault NilDeref), b)
      | Some wnode \<Rightarrow>
          let x = wnode\<lparr>nr := 0, nw := 0\<rparr>;
              x = (if \<not> nrecycle wnode then x\<lparr>nblock := []\<rparr> else x)
          in (None, b\<lparr>bwlen := bwlen b + nw wnode, bchain := (bchain b)[bwnode b := x]\<rparr>))"

text \<open>The doubling loop on \<open>nodeBlockSize\<close>. It never ends from size 0, hence the option.\<close>

partial_function (option) grow_loop :: "nat \<Rightarrow> u32 \<Rightarrow> u32 option" where
  "grow_loop readLength nbs =
     (if unat nbs < readLength \<and> nbs * 2 \<le> of_nat maxNodeBlockSize
      then grow_loop readLength (nbs * 2) else Some nbs)"

declare grow_loop.simps [code]

text \<open>\<open>Release\<close>. Freeing the nodes before \<open>rnode\<close> would leave \<open>wnode\<close> pointing to a freed node if it
  were among them; the model makes that case a fault.\<close>

definition Release :: "bool \<Rightarrow> buffer \<Rightarrow> err option \<times> buffer" where
  "Release cleanUp b =
     (case node_at b (brnode b) of
        None \<Rightarrow> (Some (Fault NilDeref), b)
      | Some rnode \<Rightarrow>
          let readLength = node_cap rnode + sum_list (map node_cap (take (brnode b) (bchain b)))
          in if bwnode b < brnode b then (Some (Fault Dangling), b)
             else
               let b = b\<lparr>bchain := drop (brnode b) (bchain b), brnode := 0,
                         bwnode := bwnode b - brnode b\<rparr>;
                   nbs = (if bauto b \<and> readLength \<le> maxNodeBlockSize
                          then grow_loop readLength (bnodeBlockSize b)
                          else Some (bnodeBlockSize b))
               in case nbs of
                    None \<Rightarrow> (Some (Fault NoReturn), b)
                  | Some s \<Rightarrow> OptimizeMemory cleanUp (b\<lparr>bnodeBlockSize := s\<rparr>))"

text \<open>\<open>Read(p)\<close> with \<open>len(p) = m\<close>: the returned count, the bytes copied to the front of \<open>p\<close>, the
  error. The deferred \<open>Release\<close> runs after the read lock is dropped.\<close>

definition read_locked :: "nat \<Rightarrow> buffer \<Rightarrow> (nat \<times> byte list) \<times> err option \<times> buffer" where
  "read_locked m b =
     (let n = (if LenRead b < m then LenRead b else m) in
      case node_at b (brnode b) of
        None \<Rightarrow> ((0, []), Some (Fault NilDeref), b)
      | Some rnode \<Rightarrow>
          if node_len rnode \<ge> n then
            (case node_readn n rnode of
               Inl e \<Rightarrow> ((0, []), Some e, b)
             | Inr (s, x) \<Rightarrow> ((n, s), None, b\<lparr>bchain := (bchain b)[brnode b := x],
                                             brlen := brlen b - of_nat n\<rparr>))
          else
            let (res, ack, ns, k) = readn_loop n 0 (drop (brnode b) (bchain b));
                b = b\<lparr>bchain := take (brnode b) (bchain b) @ ns\<rparr>
            in case res of
                 Inl e \<Rightarrow> ((0, []), Some e, b)
               | Inr s \<Rightarrow> ((n, s), None, b\<lparr>brnode := brnode b + k, brlen := brlen b - of_nat ack\<rparr>))"

definition buffer_Read :: "bool \<Rightarrow> nat \<Rightarrow> buffer \<Rightarrow> (nat \<times> byte list) \<times> err option \<times> buffer" where
  "buffer_Read cleanUp m b =
     (if m = 0 then ((0, []), None, b)
      else
        let (r, e, b) = read_locked m b;
            (f, b) = Release cleanUp b
        in (r, (case f of None \<Rightarrow> e | Some _ \<Rightarrow> f), b))"

section \<open>Blocks\<close>

text \<open>\<open>PeekBlocks(data)\<close> with \<open>len(data) = m\<close>: the slices stored in \<open>data[:blocks]\<close>.\<close>

fun peek_blocks_loop :: "nat \<Rightarrow> nat \<Rightarrow> node list \<Rightarrow> err + byte list list" where
  "peek_blocks_loop m rest [] =
     (if 0 < m \<and> 0 < rest then Inl (Fault NilDeref) else Inr [])"
| "peek_blocks_loop m rest (x # xs) =
     (if 0 < m \<and> 0 < rest then
        (let l = node_len x in
         if l = 0 then peek_blocks_loop m rest xs
         else
           let l = (if l > rest then rest else l) in
           case node_slice l x of
             Inl e \<Rightarrow> Inl e
           | Inr s \<Rightarrow> (case peek_blocks_loop (m - 1) (rest - l) xs of
               Inl e \<Rightarrow> Inl e
             | Inr ss \<Rightarrow> Inr (s # ss)))
      else Inr [])"

definition PeekBlocks :: "nat \<Rightarrow> buffer \<Rightarrow> err + byte list list" where
  "PeekBlocks m b =
     (if m = 0 then Inr []
      else if LenRead b = 0 then Inr []
      else peek_blocks_loop m (LenRead b) (drop (brnode b) (bchain b)))"

definition ReadBlock :: "buffer \<Rightarrow> byte list \<times> err option \<times> buffer" where
  "ReadBlock b =
     (if LenRead b = 0 then ([], Some ErrNoEnoughData, b)
      else case first_nonzero (drop (brnode b) (bchain b)) of
        None \<Rightarrow> ([], Some (Fault NilDeref), b)
      | Some k \<Rightarrow>
          let b = b\<lparr>brnode := brnode b + k\<rparr>;
              rnode = bchain b ! brnode b;
              l = node_len rnode
          in case node_readn l rnode of
               Inl e \<Rightarrow> ([], Some e, b)
             | Inr (s, x) \<Rightarrow> (s, None, b\<lparr>bchain := (bchain b)[brnode b := x],
                                        brlen := brlen b - of_nat l\<rparr>))"

function skip_blocks_loop ::
  "nat \<Rightarrow> nat \<Rightarrow> nat \<Rightarrow> node list \<Rightarrow> err option \<times> nat \<times> nat \<times> node list \<times> nat" where
  "skip_blocks_loop n ackn ack [] = (None, ackn, ack, [], 0)"
| "skip_blocks_loop n ackn ack (x # xs) =
     (if ackn < n then
        (if node_len x = 0 then
           (let (e, an, a, xs', k) = skip_blocks_loop n ackn ack xs in (e, an, a, x # xs', Suc k))
         else
           let l = node_len x in
           case node_skip l x of
             Inl e \<Rightarrow> (Some e, ackn, ack, x # xs, 0)
           | Inr x' \<Rightarrow> skip_blocks_loop n (Suc ackn) (ack + l) (x' # xs))
      else (None, ackn, ack, x # xs, 0))"
  by pat_completeness auto
termination
  by (relation "measure (\<lambda>(n, ackn, ack, ns). (n - ackn) + length ns)") auto

definition SkipBlocks :: "int \<Rightarrow> buffer \<Rightarrow> err option \<times> buffer" where
  "SkipBlocks n b =
     (if n < 0 then (Some ErrInvalidParam, b)
      else if LenRead b = 0 then (Some ErrNoEnoughData, b)
      else
        let (e, ackn, ack, ns, k) = skip_blocks_loop (nat n) 0 0 (drop (brnode b) (bchain b));
            b = b\<lparr>bchain := take (brnode b) (bchain b) @ ns\<rparr>
        in case e of
             Some err \<Rightarrow> (Some err, b)
           | None \<Rightarrow>
               if int ackn \<noteq> n then (Some ErrNoEnoughData, b)
               else (None, b\<lparr>brnode := brnode b + k, brlen := brlen b - of_nat ack\<rparr>))"


section \<open>Growing\<close>

text \<open>\<open>b.tail.next = n\<close> dereferences a nil tail when there is no node.\<close>

definition addNode :: "(nat \<Rightarrow> byte list) \<Rightarrow> buffer \<Rightarrow> err option \<times> buffer" where
  "addNode alloc b =
     (if bchain b = [] then (Some (Fault NilDeref), b)
      else
        let n = allocNodeBlock alloc (unat (bnodeBlockSize b)) in
        (None, b\<lparr>bchain := bchain b @ [n], bwlen := bwlen b + of_int (node_rest n),
                 brlen := brlen b + of_nat (node_len n)\<rparr>))"

fun addNodes :: "(nat \<Rightarrow> byte list) \<Rightarrow> nat \<Rightarrow> buffer \<Rightarrow> err option \<times> buffer" where
  "addNodes alloc 0 b = (None, b)"
| "addNodes alloc (Suc i) b =
     (case addNode alloc b of
        (Some e, b) \<Rightarrow> (Some e, b)
      | (None, b) \<Rightarrow> addNodes alloc i b)"

definition prepareFill :: "(nat \<Rightarrow> byte list) \<Rightarrow> buffer \<Rightarrow> err option \<times> buffer" where
  "prepareFill alloc b =
     (case node_at b (bwnode b) of
        None \<Rightarrow> (Some (Fault NilDeref), b)
      | Some wnode \<Rightarrow>
          if \<not> isFull wnode then (None, b)
          else if Suc (bwnode b) < length (bchain b) then (None, b\<lparr>bwnode := Suc (bwnode b)\<rparr>)
          else case addNode alloc b of
              (Some e, b) \<Rightarrow> (Some e, b)
            | (None, b) \<Rightarrow> (None, b\<lparr>bwnode := Suc (bwnode b)\<rparr>))"

definition calNodesNum :: "nat \<Rightarrow> buffer \<Rightarrow> fault + nat" where
  "calNodesNum n b =
     (let s = unat (bnodeBlockSize b) in
      if s = 0 then Inl DivByZero else Inr ((n + s - 1) div s))"

definition calNodes :: "int \<Rightarrow> buffer \<Rightarrow> fault + nat" where
  "calNodes n b =
     (case node_at b (bwnode b) of
        None \<Rightarrow> Inl NilDeref
      | Some wnode \<Rightarrow>
          let reqLen = (if n > int maxFillLen then int maxFillLen else n) - node_rest wnode in
          if reqLen \<le> 0 then Inr 1
          else map_sum id Suc (calNodesNum (nat reqLen) b))"

definition malloc :: "(nat \<Rightarrow> byte list) \<Rightarrow> nat \<Rightarrow> buffer \<Rightarrow> err option \<times> buffer" where
  "malloc alloc nodeNum b =
     (let existedN = length (bchain b) - bwnode b in
      if existedN \<ge> nodeNum then (None, b) else addNodes alloc (nodeNum - existedN) b)"

text \<open>The loop of \<open>adjust\<close>: the nodes, and how far \<open>wnode\<close> moved (to nil when the space ran out).\<close>

fun adjust_loop :: "int \<Rightarrow> node list \<Rightarrow> node list \<times> nat" where
  "adjust_loop dataLen [] = ([], 0)"
| "adjust_loop dataLen (x # xs) =
     (let rest = node_rest x in
      if rest \<ge> dataLen then (x\<lparr>nw := nw x + of_int dataLen\<rparr> # xs, 0)
      else
        let (xs', k) = adjust_loop (dataLen - rest) xs
        in (x\<lparr>nw := nw x + of_int rest\<rparr> # xs', Suc k))"

definition adjust :: "nat \<Rightarrow> buffer \<Rightarrow> buffer" where
  "adjust n b =
     (let (ns, k) = adjust_loop (int n) (drop (bwnode b) (bchain b)) in
      b\<lparr>bchain := take (bwnode b) (bchain b) @ ns, bwnode := bwnode b + k,
        bwlen := bwlen b - of_nat n, brlen := brlen b + of_nat n\<rparr>)"

section \<open>Writing\<close>

text \<open>\<open>copy(pNode.block[pNode.w:], buf[copied:])\<close> over the nodes from \<open>wnode\<close> on: the count copied and
  the nodes, or the fault of slicing a block beyond its end.\<close>

fun copy_loop :: "byte list \<Rightarrow> nat \<Rightarrow> node list \<Rightarrow> (err + nat) \<times> node list" where
  "copy_loop buf copied [] = (Inr copied, [])"
| "copy_loop buf copied (x # xs) =
     (if unat (nw x) > length (nblock x) then (Inl (Fault SliceBounds), x # xs)
      else
        let src = drop copied buf;
            m = min (length (nblock x) - unat (nw x)) (length src);
            x' = x\<lparr>nblock := overwrite (unat (nw x)) (take m src) (nblock x)\<rparr>;
            copied' = copied + m
        in if copied' \<ge> length buf then (Inr copied', x' # xs)
           else let (c, xs') = copy_loop buf copied' xs in (c, x' # xs'))"

definition copyFromSingleByteSlice :: "byte list \<Rightarrow> buffer \<Rightarrow> nat \<times> err option \<times> buffer" where
  "copyFromSingleByteSlice buf b =
     (let (c, ns) = copy_loop buf 0 (drop (bwnode b) (bchain b));
          b = b\<lparr>bchain := take (bwnode b) (bchain b) @ ns\<rparr>
      in case c of
           Inl e \<Rightarrow> (0, Some e, b)
         | Inr copied \<Rightarrow> (copied, None, adjust copied b))"

fun copy_slices :: "byte list list \<Rightarrow> nat \<Rightarrow> buffer \<Rightarrow> nat \<times> err option \<times> buffer" where
  "copy_slices [] copied b = (copied, None, b)"
| "copy_slices (s # ss) copied b =
     (case copyFromSingleByteSlice s b of
        (c, Some e, b) \<Rightarrow> (copied, Some e, b)
      | (c, None, b) \<Rightarrow> copy_slices ss (copied + c) b)"

definition byteSlicesLen :: "byte list list \<Rightarrow> nat" where
  "byteSlicesLen bs = sum_list (map length bs)"

definition copyFromLocked ::
  "(nat \<Rightarrow> byte list) \<Rightarrow> nat \<Rightarrow> byte list list \<Rightarrow> buffer \<Rightarrow> nat \<times> err option \<times> buffer" where
  "copyFromLocked alloc len bs b =
     (case prepareFill alloc b of
        (Some e, b) \<Rightarrow> (0, Some e, b)
      | (None, b) \<Rightarrow>
          (case calNodes (int len) b of
             Inl f \<Rightarrow> (0, Some (Fault f), b)
           | Inr num \<Rightarrow>
               (case malloc alloc num b of
                  (Some e, b) \<Rightarrow> (0, Some e, b)
                | (None, b) \<Rightarrow> copy_slices bs 0 b)))"

definition copyFrom ::
  "(nat \<Rightarrow> byte list) \<Rightarrow> byte list list \<Rightarrow> buffer \<Rightarrow> nat \<times> err option \<times> buffer" where
  "copyFrom alloc bs b = copyFromLocked alloc (byteSlicesLen bs) bs b"

text \<open>The loop of \<open>linkWithExistingNodes\<close>: the slices left over, the space and the bytes counted, the
  position of the last node linked, the nodes.\<close>

fun link_loop ::
  "byte list list \<Rightarrow> node list \<Rightarrow> byte list list \<times> int \<times> nat \<times> nat option \<times> node list" where
  "link_loop [] ns = ([], 0, 0, None, ns)"
| "link_loop (p # ps) [] = (p # ps, 0, 0, None, [])"
| "link_loop (p # ps) (x # xs) =
     (if nw x \<noteq> 0 then
        (let (left, wl, l, j, xs') = link_loop (p # ps) xs
         in (left, wl, l, map_option Suc j, x # xs'))
      else
        (let (left, wl, l, j, xs') = link_loop ps xs
         in (left, node_rest x + wl, length p + l,
             Some (case j of None \<Rightarrow> 0 | Some j \<Rightarrow> Suc j), setBlock p x # xs')))"

definition linkWithExistingNodes ::
  "byte list list \<Rightarrow> buffer \<Rightarrow> byte list list \<times> nat \<times> buffer" where
  "linkWithExistingNodes bs b =
     (let (left, wl, l, j, ns) = link_loop bs (drop (bwnode b) (bchain b))
      in (left, l,
          b\<lparr>bchain := take (bwnode b) (bchain b) @ ns,
            bwnode := (case j of None \<Rightarrow> bwnode b | Some j \<Rightarrow> bwnode b + j),
            brlen := brlen b + of_nat l, bwlen := bwlen b - of_int wl\<rparr>))"

text \<open>\<open>chain.initialize\<close>: one node per non-empty slice, and the total length.\<close>

fun chain_initialize :: "bool \<Rightarrow> byte list list \<Rightarrow> node list \<times> nat" where
  "chain_initialize recycle [] = ([], 0)"
| "chain_initialize recycle (p # ps) =
     (let (ns, l) = chain_initialize recycle ps in
      if length p = 0 then (ns, l)
      else (setBlock p (allocNode\<lparr>nrecycle := recycle\<rparr>) # ns, length p + l))"

text \<open>\<open>b.wnode.next = c.head\<close> cuts off whatever followed \<open>wnode\<close>.\<close>

definition addChain :: "node list \<Rightarrow> nat \<Rightarrow> buffer \<Rightarrow> err option \<times> buffer" where
  "addChain c dataLen b =
     (if bwnode b \<ge> length (bchain b) then (Some (Fault NilDeref), b)
      else (None, b\<lparr>bchain := take (Suc (bwnode b)) (bchain b) @ c, bwnode := bwnode b + length c,
                    brlen := brlen b + of_nat dataLen\<rparr>))"

definition linkWithNewNodes :: "byte list list \<Rightarrow> buffer \<Rightarrow> nat \<times> err option \<times> buffer" where
  "linkWithNewNodes bs b =
     (let (c, dataLen) = chain_initialize False bs in
      if dataLen = 0 then (0, None, b)
      else let (e, b) = addChain c dataLen b in (dataLen, e, b))"

definition linkFromLocked :: "byte list list \<Rightarrow> buffer \<Rightarrow> nat \<times> err option \<times> buffer" where
  "linkFromLocked bs b =
     (let (left, l, b) = linkWithExistingNodes bs b in
      if left \<noteq> [] then
        (let (l', e, b) = linkWithNewNodes left b in (l + l', e, b))
      else (l, None, b))"

definition linkFrom :: "byte list list \<Rightarrow> buffer \<Rightarrow> nat \<times> err option \<times> buffer" where
  "linkFrom bs b = linkFromLocked bs b"

definition Writev ::
  "(nat \<Rightarrow> byte list) \<Rightarrow> bool \<Rightarrow> byte list list \<Rightarrow> buffer \<Rightarrow> nat \<times> err option \<times> buffer" where
  "Writev alloc safeWrite bs b = (if safeWrite then copyFrom alloc bs b else linkFrom bs b)"

definition Write ::
  "(nat \<Rightarrow> byte list) \<Rightarrow> bool \<Rightarrow> byte list \<Rightarrow> buffer \<Rightarrow> nat \<times> err option \<times> buffer" where
  "Write alloc safeWrite p b = Writev alloc safeWrite [p] b"

text \<open>\<open>WritevLimited\<close>; the receiver may be nil.\<close>

definition WritevLimited ::
  "(nat \<Rightarrow> byte list) \<Rightarrow> bool \<Rightarrow> int \<Rightarrow> byte list list \<Rightarrow> buffer option \<Rightarrow>
     nat \<times> err option \<times> buffer option" where
  "WritevLimited alloc safeWrite limit bs recv =
     (case recv of
        None \<Rightarrow> (0, Some ErrInvalidParam, None)
      | Some b \<Rightarrow>
          if limit \<le> 0 then
            (let (n, e, b) = Writev alloc safeWrite bs b in (n, e, Some b))
          else
            let len = byteSlicesLen bs in
            if len = 0 then (0, None, Some b)
            else if int len > limit - int (LenRead b) then (0, Some ErrBufferFull, Some b)
            else
              let (n, e, b) = (if safeWrite then copyFromLocked alloc len bs b
                               else linkFromLocked bs b)
              in (n, e, Some b))"

section \<open>Filling from a reader\<close>

definition countNodeAndFillByteVec :: "buffer \<Rightarrow> iodata \<Rightarrow> nat \<times> iodata" where
  "countNodeAndFillByteVec b ioData =
     (let bv = vec (ByteVec ioData)
             @ map (\<lambda>x. drop (unat (nw x)) (nblock x)) (drop (bwnode b) (bchain b))
      in (length bv, ioData\<lparr>ByteVec := Some bv\<rparr>))"

text \<open>\<open>Fill\<close>. The reader's \<open>Readv\<close> is the argument \<open>readv\<close>: given the lengths of the I/O vector it
  fails, or delivers the bytes that it stores into the vector from its first slice on. The poller
  hands over a reset \<open>ioData\<close>, so the vector is the free space of the nodes from \<open>wnode\<close> on.\<close>

definition Fill ::
  "(nat \<Rightarrow> byte list) \<Rightarrow> (nat list \<Rightarrow> err + byte list) \<Rightarrow> int \<Rightarrow> iodata \<Rightarrow> buffer \<Rightarrow>
     err option \<times> iodata \<times> buffer" where
  "Fill alloc readv n ioData b =
     (if LenRead b > MaxBufferSize then (Some ErrBufferFull, ioData, b)
      else case prepareFill alloc b of
        (Some e, b) \<Rightarrow> (Some e, ioData, b)
      | (None, b) \<Rightarrow>
      (case calNodes n b of
         Inl f \<Rightarrow> (Some (Fault f), ioData, b)
       | Inr nodeNum \<Rightarrow>
      (case malloc alloc nodeNum b of
         (Some e, b) \<Rightarrow> (Some e, ioData, b)
       | (None, b) \<Rightarrow>
          let (sliceCnt, ioData) = countNodeAndFillByteVec b ioData in
          (case SetIOVec sliceCnt ioData of
             (Some e, ioData) \<Rightarrow> (Some e, ioData, b)
           | (None, ioData) \<Rightarrow>
               (case readv (map (unat \<circ> snd) (take sliceCnt (vec (IOVec ioData)))) of
                  Inl e \<Rightarrow> (Some e, IOData_Release sliceCnt ioData, b)
                | Inr bs \<Rightarrow>
                    (case copy_loop bs 0 (drop (bwnode b) (bchain b)) of
                       (Inl e, ns) \<Rightarrow> (Some e, IOData_Release sliceCnt ioData, b)
                     | (Inr _, ns) \<Rightarrow>
                         (None, IOData_Release sliceCnt ioData,
                          adjust (length bs)
                            (b\<lparr>bchain := take (bwnode b) (bchain b) @ ns\<rparr>))))))))"

end
