(* ===== verification/Link_Buffer_Read.thy ===== *)
theory Link_Buffer_Read
  imports Link_Buffer Byte_Reader
begin

text \<open>
  The linked buffer as a byte queue, reading side. \<open>content\<close> is the abstraction: the unread bytes of
  the nodes in order. \<open>buf_inv\<close> is the representation invariant; every reading operation keeps it,
  never faults under it, and acts on \<open>content\<close> as the queue operation it implements. \<open>blocks\<close> is the
  coarser view the packet operations have: the non-empty runs of unread bytes, one per node.
\<close>

section \<open>Abstraction and invariant\<close>

definition chain_data :: "node list \<Rightarrow> byte list" where
  "chain_data ns = concat (map node_data ns)"

definition content :: "buffer \<Rightarrow> byte list" where
  "content b = chain_data (bchain b)"

definition chain_blocks :: "node list \<Rightarrow> byte list list" where
  "chain_blocks ns = filter (\<lambda>d. d \<noteq> []) (map node_data ns)"

definition blocks :: "buffer \<Rightarrow> byte list list" where
  "blocks b = chain_blocks (bchain b)"

definition spare :: "node \<Rightarrow> bool" where
  "spare x \<longleftrightarrow> nr x = 0 \<and> nw x = 0 \<and> nrecycle x \<and> nblock x \<noteq> []"

abbreviation drained :: "node list \<Rightarrow> bool" where
  "drained ns \<equiv> list_all (\<lambda>x. node_data x = []) ns"

definition nbs_ok :: "u32 \<Rightarrow> bool" where
  "nbs_ok s \<longleftrightarrow> blockSize \<le> unat s \<and> unat s \<le> maxNodeBlockSize"

definition buf_inv :: "buffer \<Rightarrow> bool" where
  "buf_inv b \<longleftrightarrow>
     brnode b \<le> bwnode b \<and> bwnode b < length (bchain b) \<and>
     list_all node_ok (bchain b) \<and>
     drained (take (brnode b) (bchain b)) \<and>
     list_all spare (drop (Suc (bwnode b)) (bchain b)) \<and>
     unat (brlen b) = length (content b) \<and>
     nbs_ok (bnodeBlockSize b)"

lemma chain_data_simps [simp]:
  "chain_data [] = []"
  "chain_data (x # xs) = node_data x @ chain_data xs"
  "chain_data (xs @ ys) = chain_data xs @ chain_data ys"
  by (simp_all add: chain_data_def)

lemma chain_blocks_simps [simp]:
  "chain_blocks [] = []"
  "chain_blocks (x # xs) = (if node_data x = [] then chain_blocks xs else node_data x # chain_blocks xs)"
  "chain_blocks (xs @ ys) = chain_blocks xs @ chain_blocks ys"
  by (simp_all add: chain_blocks_def)

lemma concat_chain_blocks: "concat (chain_blocks ns) = chain_data ns"
  by (induction ns) auto

lemma content_blocks: "content b = concat (blocks b)"
  by (simp add: content_def blocks_def concat_chain_blocks)

lemma drained_data [simp]: "drained ns \<Longrightarrow> chain_data ns = []"
  by (induction ns) auto

lemma drained_blocks [simp]: "drained ns \<Longrightarrow> chain_blocks ns = []"
  by (induction ns) auto

lemma spare_data: "spare x \<Longrightarrow> node_data x = []"
  by (simp add: spare_def node_data_def)

lemma spares_drained: "list_all spare ns \<Longrightarrow> drained ns"
  by (auto simp: list_all_iff spare_data)

lemma Initialize_inv:
  "brlen b = 0 \<Longrightarrow> buf_inv (Initialize b) \<and> content (Initialize b) = []"
  by (simp add: buf_inv_def Initialize_def SetAutoNodeBlockSize_def newDumpNode_def allocNode_def
      content_def nbs_ok_def blockSize_def maxNodeBlockSize_def unat_simps)
    (simp add: zero_node_def node_ok_def node_data_def)

text \<open>The part of the chain that the reading loops walk holds the whole content.\<close>

lemma chain_split:
  assumes "drained (take k ns)"
  shows "chain_data (drop k ns) = chain_data ns" and "chain_blocks (drop k ns) = chain_blocks ns"
  using assms chain_data_simps(3) [of "take k ns" "drop k ns"]
    chain_blocks_simps(3) [of "take k ns" "drop k ns"] by simp_all

lemma content_from_rnode:
  assumes "buf_inv b"
  shows "chain_data (drop (brnode b) (bchain b)) = content b"
    and "chain_blocks (drop (brnode b) (bchain b)) = blocks b"
    and "list_all node_ok (drop (brnode b) (bchain b))"
  using assms by (auto simp: buf_inv_def content_def blocks_def chain_split list_all_iff
      dest: in_set_dropD)

lemma LenRead_content: "buf_inv b \<Longrightarrow> LenRead b = length (content b)"
  by (simp add: buf_inv_def LenRead_def)

lemma node_at_rnode:
  "buf_inv b \<Longrightarrow> node_at b (brnode b) = Some (bchain b ! brnode b)"
  by (auto simp: buf_inv_def node_at_def)

lemma drop_rnode_Cons:
  "buf_inv b \<Longrightarrow> drop (brnode b) (bchain b) = bchain b ! brnode b # drop (Suc (brnode b)) (bchain b)"
  by (intro Cons_nth_drop_Suc [symmetric]) (auto simp: buf_inv_def)

lemma nonempty_not_spare:
  assumes "buf_inv b" and "i < length (bchain b)" and "node_data (bchain b ! i) \<noteq> []"
  shows "i \<le> bwnode b"
proof (rule ccontr)
  assume "\<not> i \<le> bwnode b"
  then have "bchain b ! i = drop (Suc (bwnode b)) (bchain b) ! (i - Suc (bwnode b))"
    "i - Suc (bwnode b) < length (drop (Suc (bwnode b)) (bchain b))"
    using assms(2) by auto
  then have "spare (bchain b ! i)"
    using assms(1) by (auto simp: buf_inv_def list_all_length)
  with assms(3) show False by (simp add: spare_data)
qed

section \<open>Consuming from the front\<close>

text \<open>A reading loop only advances read offsets.\<close>

definition only_r :: "node \<Rightarrow> node \<Rightarrow> bool" where
  "only_r x y \<longleftrightarrow> nblock y = nblock x \<and> nw y = nw x \<and> nrecycle y = nrecycle x"

definition consumed :: "nat \<Rightarrow> node list \<Rightarrow> node list \<Rightarrow> bool" where
  "consumed m ns ns' \<longleftrightarrow>
     list_all node_ok ns' \<and> list_all2 only_r ns ns' \<and> chain_data ns' = drop m (chain_data ns)"

lemma only_r_refl [simp]: "only_r x x" "only_r x (advance_r k x)"
  by (simp_all add: only_r_def)

lemma only_r_trans: "only_r x y \<Longrightarrow> only_r y z \<Longrightarrow> only_r x z"
  by (simp add: only_r_def)

lemma list_all2_only_r_refl [simp]: "list_all2 only_r ns ns"
  by (simp add: list_all2_refl)

lemma only_r_spare:
  assumes "only_r x y" and "node_ok y" and "spare x"
  shows "spare y"
  using assms by (auto simp: only_r_def node_ok_def spare_def)

lemma only_r_spares:
  "list_all2 only_r ns ns' \<Longrightarrow> list_all node_ok ns' \<Longrightarrow> list_all spare ns \<Longrightarrow> list_all spare ns'"
  by (induction rule: list_all2_induct) (auto intro: only_r_spare)

lemma buf_inv_consume:
  assumes inv: "buf_inv b"
    and c: "consumed m (drop (brnode b) (bchain b)) ns'"
    and m: "m \<le> length (content b)"
    and d: "drained (take k ns')"
    and k: "brnode b + k \<le> bwnode b"
  defines "b' \<equiv> b\<lparr>bchain := take (brnode b) (bchain b) @ ns', brnode := brnode b + k,
      brlen := brlen b - of_nat m\<rparr>"
  shows "buf_inv b'" and "content b' = drop m (content b)"
proof -
  let ?r = "brnode b" and ?w = "bwnode b" and ?ns = "drop (brnode b) (bchain b)"
  have rw: "?r \<le> ?w" "?w < length (bchain b)" using inv by (auto simp: buf_inv_def)
  have len: "length ns' = length (bchain b) - ?r"
    using c by (auto simp: consumed_def dest: list_all2_lengthD)
  have pre: "drained (take ?r (bchain b))" using inv by (simp add: buf_inv_def)
  have cd: "chain_data ns' = drop m (content b)"
    using c content_from_rnode(1) [OF inv] by (simp add: consumed_def)
  with pre show ct: "content b' = drop m (content b)"
    by (simp add: b'_def content_def)
  have spare: "list_all spare (drop (Suc ?w) (take ?r (bchain b) @ ns'))"
  proof -
    have "list_all spare (drop (Suc ?w - ?r) ?ns)"
      using inv rw by (simp add: buf_inv_def)
    moreover have "list_all2 only_r (drop (Suc ?w - ?r) ?ns) (drop (Suc ?w - ?r) ns')"
      using c unfolding consumed_def by (intro list_all2_dropI) blast
    moreover have "list_all node_ok (drop (Suc ?w - ?r) ns')"
      using c by (auto simp: consumed_def list_all_iff dest: in_set_dropD)
    ultimately have "list_all spare (drop (Suc ?w - ?r) ns')"
      by (blast intro: only_r_spares)
    with rw show ?thesis by simp
  qed
  have "list_all node_ok (take ?r (bchain b) @ ns')"
    using inv c by (auto simp: buf_inv_def consumed_def list_all_iff dest: in_set_takeD)
  moreover have "unat (brlen b - of_nat m) = length (content b')"
    using inv m ct by (simp add: buf_inv_def unat_simps)
  moreover have "drained (take (?r + k) (take ?r (bchain b) @ ns'))"
    using pre d rw by simp
  ultimately show "buf_inv b'"
    using inv rw len spare k unfolding b'_def buf_inv_def by simp
qed


section \<open>The loops\<close>

declare readn_loop.simps(2) [simp del] skip_loop.simps(2) [simp del] peek_loop.simps(2) [simp del]

lemma loops_done [simp]:
  "readn_loop n n ns = (Inr [], n, ns, 0)"
  "skip_loop n n ns = (None, n, ns, 0)"
  "peek_loop n n ns = Inr []"
  by (cases ns; simp add: readn_loop.simps(2) skip_loop.simps(2) peek_loop.simps(2))+

lemma first_nonzero_ok:
  assumes "list_all node_ok ns" and "chain_data ns \<noteq> []"
  shows "\<exists>k. first_nonzero ns = Some k \<and> k < length ns \<and> drained (take k ns) \<and> node_data (ns ! k) \<noteq> []"
  using assms
proof (induction ns)
  case (Cons x xs)
  then show ?case
  proof (cases "node_data x = []")
    case True
    with Cons obtain k where "first_nonzero xs = Some k" "k < length xs" "drained (take k xs)"
      "node_data (xs ! k) \<noteq> []" by auto
    with True Cons.prems show ?thesis by (intro exI [of _ "Suc k"]) (simp add: node_len_0_iff)
  qed (auto simp: node_len_0_iff)
qed simp

lemma peek_loop_ok:
  assumes "list_all node_ok ns" and "ack \<le> n" and "n - ack \<le> length (chain_data ns)"
  shows "peek_loop n ack ns = Inr (take (n - ack) (chain_data ns))"
  using assms
proof (induction n ack ns rule: peek_loop.induct)
  case (2 n ack x xs)
  have x: "node_ok x" using "2.prems" by simp
  note len = length_node_data [OF x] and unf = peek_loop.simps(2) [of n ack x xs]
  consider "ack = n" | "ack < n" "node_len x = 0" | "ack < n" "node_len x \<noteq> 0" "ack + node_len x \<le> n"
    | "ack < n" "node_len x \<noteq> 0" "n < ack + node_len x"
    using "2.prems" by linarith
  then show ?case
  proof cases
    case 2
    with "2.IH"(1) "2.prems" x show ?thesis by (simp add: unf node_len_0_iff)
  next
    case 3
    let ?d = "node_data x"
    have tk: "node_peek (node_len x) x = Inr ?d"
      using x len by (simp add: node_peek_ok)
    have off: "node_len x = loop_offset n ack x" using 3 by simp
    from 3 "2.IH"(2) [OF _ _ off tk] "2.prems"
    have "peek_loop n (ack + node_len x) xs = Inr (take (n - (ack + node_len x)) (chain_data xs))"
      using len by simp
    with 3 tk len show ?thesis by (simp add: unf)
  next
    case 4
    have tk: "node_peek (n - ack) x = Inr (take (n - ack) (node_data x))"
      using x 4 by (simp add: node_peek_ok)
    with 4 tk len show ?thesis by (simp add: unf)
  qed simp
qed simp

text \<open>What a consuming loop that removes \<open>m\<close> bytes leaves: \<open>ns'\<close>, with the pointer moved by \<open>k\<close>
  to a node that had data (or not moved at all).\<close>

definition stops_at :: "nat \<Rightarrow> node list \<Rightarrow> node list \<Rightarrow> nat \<Rightarrow> bool" where
  "stops_at m ns ns' k \<longleftrightarrow> consumed m ns ns' \<and> drained (take k ns') \<and>
     (if 0 < m then k < length ns \<and> node_data (ns ! k) \<noteq> [] else k = 0)"

lemma stops_at_zero: "list_all node_ok ns \<Longrightarrow> stops_at 0 ns ns 0"
  by (simp add: stops_at_def consumed_def)

lemma stops_at_skip_empty:
  "node_ok x \<Longrightarrow> node_data x = [] \<Longrightarrow> 0 < m \<Longrightarrow> stops_at m xs xs' k \<Longrightarrow>
     stops_at m (x # xs) (x # xs') (Suc k)"
  by (auto simp: stops_at_def consumed_def)

lemma stops_at_partial:
  assumes "node_ok x" and "list_all node_ok xs" and "m \<le> node_len x"
  shows "stops_at m (x # xs) (advance_r m x # xs) 0"
proof -
  have "node_data x \<noteq> []" if "0 < m"
    using that assms length_node_data [OF assms(1)] by auto
  with assms show ?thesis
    by (simp add: stops_at_def consumed_def advance_r length_node_data)
qed

lemma stops_at_whole:
  assumes x: "node_ok x" and "node_data x \<noteq> []"
    and s: "stops_at m (advance_r (node_len x) x # xs) ns' k"
  shows "stops_at (node_len x + m) (x # xs) ns' k"
proof -
  let ?x' = "advance_r (node_len x) x"
  have e: "node_data ?x' = []"
    using advance_r(2) [OF x] length_node_data [OF x] by simp
  have k: "if 0 < m then k \<noteq> 0 else k = 0"
    using s e by (cases k) (auto simp: stops_at_def split: if_splits)
  from s have "list_all2 only_r (x # xs) ns'"
    by (auto simp: stops_at_def consumed_def list_all2_Cons1 intro: only_r_trans [OF only_r_refl(2)])
  moreover have "chain_data ns' = drop (node_len x + m) (chain_data (x # xs))"
    using s e length_node_data [OF x] by (simp add: stops_at_def consumed_def)
  moreover have "0 < node_len x"
    using assms(2) length_node_data [OF x] by (metis length_greater_0_conv)
  ultimately show ?thesis
    using s k assms(2) by (cases k) (auto simp: stops_at_def consumed_def split: if_splits)
qed

lemma readn_loop_ok:
  assumes "list_all node_ok ns" and "ack \<le> n" and "n - ack \<le> length (chain_data ns)"
  shows "\<exists>ns' k. readn_loop n ack ns = (Inr (take (n - ack) (chain_data ns)), n, ns', k) \<and>
           stops_at (n - ack) ns ns' k"
  using assms
proof (induction n ack ns rule: readn_loop.induct)
  case (1 n ack)
  then show ?case by (simp add: stops_at_zero)
next
  case (2 n ack x xs)
  have x: "node_ok x" and xs: "list_all node_ok xs" using "2.prems" by simp_all
  note len = length_node_data [OF x] and unf = readn_loop.simps(2) [of n ack x xs]
  consider "ack = n" | "ack < n" "node_len x = 0" | "ack < n" "node_len x \<noteq> 0" "ack + node_len x \<le> n"
    | "ack < n" "node_len x \<noteq> 0" "n < ack + node_len x"
    using "2.prems" by linarith
  then show ?case
  proof cases
    case 1
    with "2.prems" show ?thesis by (simp add: unf stops_at_zero)
  next
    case 2
    then have d: "node_data x = []" using x by (simp add: node_len_0_iff)
    with 2 "2.IH"(1) xs "2.prems" obtain ns' k where
      "readn_loop n ack xs = (Inr (take (n - ack) (chain_data xs)), n, ns', k)"
      "stops_at (n - ack) xs ns' k" by auto
    with 2 d x show ?thesis by (auto simp: unf intro!: stops_at_skip_empty)
  next
    case 3
    let ?x' = "advance_r (node_len x) x"
    have rd: "node_readn (node_len x) x = Inr (node_data x, ?x')"
      using x len by (simp add: node_readn_ok)
    have x': "node_ok ?x'" "node_data ?x' = []"
      using advance_r [OF x, of "node_len x"] len by simp_all
    have off: "node_len x = loop_offset n ack x" using 3 by simp
    have le: "n - (ack + node_len x) \<le> length (chain_data xs)"
      using "2.prems" len by simp
    from 3 "2.IH"(2) [OF _ _ off rd refl] x' xs le obtain ns' k where
      "readn_loop n (ack + node_len x) (?x' # xs) =
         (Inr (take (n - (ack + node_len x)) (chain_data xs)), n, ns', k)"
      and s: "stops_at (n - (ack + node_len x)) (?x' # xs) ns' k" by auto
    moreover have "stops_at (node_len x + (n - (ack + node_len x))) (x # xs) ns' k"
      using 3 len by (intro stops_at_whole [OF x _ s]) auto
    ultimately show ?thesis using 3 rd len by (simp add: unf)
  next
    case 4
    have rd: "node_readn (n - ack) x = Inr (take (n - ack) (node_data x), advance_r (n - ack) x)"
      using x 4 by (simp add: node_readn_ok)
    moreover have "stops_at (n - ack) (x # xs) (advance_r (n - ack) x # xs) 0"
      using 4 by (intro stops_at_partial [OF x xs]) simp
    ultimately show ?thesis using 4 len by (simp add: unf)
  qed
qed

lemma skip_loop_readn:
  assumes "list_all node_ok ns" and "ack \<le> n" and "n - ack \<le> length (chain_data ns)"
  shows "skip_loop n ack ns =
    (case readn_loop n ack ns of (res, a, ns', k) \<Rightarrow> (case res of Inl e \<Rightarrow> Some e | Inr _ \<Rightarrow> None, a, ns', k))"
  using assms
proof (induction n ack ns rule: skip_loop.induct)
  case (2 n ack x xs)
  have x: "node_ok x" and xs: "list_all node_ok xs" using "2.prems" by simp_all
  note len = length_node_data [OF x]
    and unf = readn_loop.simps(2) [of n ack x xs] skip_loop.simps(2) [of n ack x xs]
  consider "ack = n" | "ack < n" "node_len x = 0" | "ack < n" "node_len x \<noteq> 0"
    using "2.prems" by linarith
  then show ?case
  proof cases
    case 2
    with "2.IH"(1) "2.prems" x show ?thesis by (auto simp: unf node_len_0_iff split: prod.split)
  next
    case 3
    define o' where "o' = loop_offset n ack x"
    have o: "o' \<le> node_len x" "ack + o' \<le> n" using 3 by (auto simp: o'_def)
    have "node_skip o' x = Inr (advance_r o' x)"
      "node_readn o' x = Inr (take o' (node_data x), advance_r o' x)"
      using o x by (simp_all add: node_skip_ok node_readn_ok)
    moreover have "node_ok (advance_r o' x)" "node_data (advance_r o' x) = drop o' (node_data x)"
      using advance_r [OF x] o by simp_all
    ultimately show ?thesis
      using "2.IH"(2) [OF _ _ o'_def] 3 "2.prems" o len xs
      by (auto simp: unf o'_def [symmetric] split: prod.splits sum.splits)
  qed simp
qed simp

lemma skip_loop_ok:
  assumes "list_all node_ok ns" and "n \<le> length (chain_data ns)"
  shows "\<exists>ns' k. skip_loop n 0 ns = (None, n, ns', k) \<and> stops_at n ns ns' k"
  using readn_loop_ok [OF assms(1), of 0 n] skip_loop_readn [OF assms(1), of 0 n] assms(2) by auto


section \<open>Operations\<close>

lemma buf_inv_stop:
  assumes inv: "buf_inv b"
    and s: "stops_at m (drop (brnode b) (bchain b)) ns' k"
    and m: "m \<le> length (content b)"
  defines "b' \<equiv> b\<lparr>bchain := take (brnode b) (bchain b) @ ns', brnode := brnode b + k,
      brlen := brlen b - of_nat m\<rparr>"
  shows "buf_inv b'" and "content b' = drop m (content b)"
proof -
  have rw: "brnode b \<le> bwnode b" using inv by (simp add: buf_inv_def)
  have "brnode b + k \<le> bwnode b"
  proof (cases "0 < m")
    case True
    then have "brnode b + k < length (bchain b)" "node_data (bchain b ! (brnode b + k)) \<noteq> []"
      using s by (auto simp: stops_at_def)
    with inv show ?thesis by (rule nonempty_not_spare)
  qed (use s rw in \<open>simp add: stops_at_def\<close>)
  with s show "buf_inv b'" "content b' = drop m (content b)"
    unfolding b'_def by (auto simp: stops_at_def intro!: buf_inv_consume [OF inv _ m])
qed

lemma move_rnode:
  assumes inv: "buf_inv b" and "content b \<noteq> []"
  obtains k where "first_nonzero (drop (brnode b) (bchain b)) = Some k"
    and "buf_inv (b\<lparr>brnode := brnode b + k\<rparr>)"
    and "content (b\<lparr>brnode := brnode b + k\<rparr>) = content b"
    and "node_ok (bchain b ! (brnode b + k))" and "node_data (bchain b ! (brnode b + k)) \<noteq> []"
proof -
  let ?ns = "drop (brnode b) (bchain b)"
  from first_nonzero_ok [of ?ns] content_from_rnode [OF inv] assms(2) obtain k where
    k: "first_nonzero ?ns = Some k" "k < length ?ns" "drained (take k ?ns)" "node_data (?ns ! k) \<noteq> []"
    by auto
  then have kl: "brnode b + k < length (bchain b)" by simp
  with k have nd: "node_data (bchain b ! (brnode b + k)) \<noteq> []" by simp
  have "consumed 0 ?ns ?ns"
    using content_from_rnode(3) [OF inv] by (simp add: consumed_def)
  from buf_inv_consume [OF inv this _ k(3) nonempty_not_spare [OF inv kl nd]]
  have "buf_inv (b\<lparr>brnode := brnode b + k\<rparr>)" by simp
  moreover have "node_ok (bchain b ! (brnode b + k))"
    using inv kl by (auto simp: buf_inv_def list_all_length)
  ultimately show thesis using k(1) nd by (intro that) (simp_all add: content_def)
qed

lemma Peek_ok:
  assumes inv: "buf_inv b" and n: "0 \<le> n" "n \<le> int (length (content b))"
  shows "\<exists>b'. Peek n b = (take (nat n) (content b), None, b') \<and> buf_inv b' \<and> content b' = content b"
proof (cases "n = 0")
  case True
  with inv show ?thesis by (simp add: Peek_def)
next
  case False
  with n have ne: "content b \<noteq> []" by auto
  obtain k where k: "first_nonzero (drop (brnode b) (bchain b)) = Some k"
    and inv': "buf_inv (b\<lparr>brnode := brnode b + k\<rparr>)"
    and ct: "content (b\<lparr>brnode := brnode b + k\<rparr>) = content b"
    and x: "node_ok (bchain b ! (brnode b + k))"
    by (rule move_rnode [OF inv ne])
  let ?b = "b\<lparr>brnode := brnode b + k\<rparr>"
  let ?x = "bchain b ! (brnode b + k)"
  have hd: "take (node_len ?x) (content b) = node_data ?x"
    using content_from_rnode(1) [OF inv', symmetric] drop_rnode_Cons [OF inv'] ct
      length_node_data [OF x] by simp
  have "(if int (node_len ?x) \<ge> n then node_peek (nat n) ?x
         else peek_loop (nat n) 0 (drop (brnode b + k) (bchain b))) = Inr (take (nat n) (content b))"
  proof (cases "int (node_len ?x) \<ge> n")
    case True
    then have "take (nat n) (node_data ?x) = take (nat n) (content b)"
      by (simp add: hd [symmetric] min_def nat_le_iff)
    with True x show ?thesis by (simp add: node_peek_ok)
  next
    case F: False
    with content_from_rnode [OF inv'] ct n show ?thesis
      by (simp add: peek_loop_ok)
  qed
  with False n k inv' ct show ?thesis
    using LenRead_content [OF inv] by (simp add: Peek_def Let_def split del: if_split cong: if_cong)
qed

lemma Peek_err:
  "n < 0 \<Longrightarrow> Peek n b = ([], Some ErrInvalidParam, b)"
  "buf_inv b \<Longrightarrow> int (length (content b)) < n \<Longrightarrow> Peek n b = ([], Some ErrNoEnoughData, b)"
  by (simp_all add: Peek_def LenRead_content)

text \<open>The fast path of \<open>Skip\<close>, \<open>Next\<close> and \<open>Read\<close>: the node at \<open>rnode\<close> has enough data.\<close>

lemma buf_inv_advance_rnode:
  assumes inv: "buf_inv b" and m: "m \<le> node_len (bchain b ! brnode b)"
  defines "b' \<equiv> b\<lparr>bchain := (bchain b)[brnode b := advance_r m (bchain b ! brnode b)],
      brlen := brlen b - of_nat m\<rparr>"
  shows "buf_inv b'" and "content b' = drop m (content b)"
    and "take m (node_data (bchain b ! brnode b)) = take m (content b)"
proof -
  let ?x = "bchain b ! brnode b"
  have r: "brnode b < length (bchain b)" using inv by (simp add: buf_inv_def)
  then have x: "node_ok ?x" using inv by (auto simp: buf_inv_def list_all_length)
  have ns: "drop (brnode b) (bchain b) = ?x # drop (Suc (brnode b)) (bchain b)"
    by (rule drop_rnode_Cons [OF inv])
  have c: "content b = node_data ?x @ chain_data (drop (Suc (brnode b)) (bchain b))"
    using content_from_rnode(1) [OF inv] ns by simp
  then show "take m (node_data ?x) = take m (content b)"
    using m length_node_data [OF x] by simp
  have st: "stops_at m (drop (brnode b) (bchain b)) (advance_r m ?x # drop (Suc (brnode b)) (bchain b)) 0"
    unfolding ns using x m content_from_rnode(3) [OF inv] ns by (intro stops_at_partial) auto
  have "m \<le> length (content b)"
    using m c length_node_data [OF x] by simp
  from buf_inv_stop [OF inv st this] r show "buf_inv b'" "content b' = drop m (content b)"
    by (simp_all add: b'_def upd_conv_take_nth_drop)
qed

lemma Skip_ok:
  assumes inv: "buf_inv b" and n: "0 \<le> n" "n \<le> int (length (content b))"
  shows "\<exists>b'. Skip n b = (None, b') \<and> buf_inv b' \<and> content b' = drop (nat n) (content b)"
proof (cases "int (node_len (bchain b ! brnode b)) \<ge> n")
  case True
  with n inv show ?thesis
    using buf_inv_advance_rnode [OF inv, of "nat n"]
    by (simp add: Skip_def LenRead_content node_at_rnode node_skip_ok)
next
  case False
  obtain ns' k where l: "skip_loop (nat n) 0 (drop (brnode b) (bchain b)) = (None, nat n, ns', k)"
    and s: "stops_at (nat n) (drop (brnode b) (bchain b)) ns' k"
    using skip_loop_ok [of "drop (brnode b) (bchain b)" "nat n"] content_from_rnode [OF inv] n
    by (auto simp: nat_le_iff)
  have "nat n \<le> length (content b)" using n by simp
  from buf_inv_stop [OF inv s this] l False n inv show ?thesis
    by (simp add: Skip_def LenRead_content node_at_rnode)
qed

lemma Skip_err:
  "n < 0 \<Longrightarrow> Skip n b = (Some ErrInvalidParam, b)"
  "buf_inv b \<Longrightarrow> int (length (content b)) < n \<Longrightarrow> Skip n b = (Some ErrNoEnoughData, b)"
  by (simp_all add: Skip_def LenRead_content)

lemma Next_ok:
  assumes inv: "buf_inv b" and n: "0 \<le> n" "n \<le> int (length (content b))"
  shows "\<exists>b'. Next n b = (take (nat n) (content b), None, b') \<and> buf_inv b' \<and>
           content b' = drop (nat n) (content b)"
proof (cases "n = 0")
  case True
  with inv show ?thesis by (simp add: Next_def)
next
  case False
  with n have ne: "content b \<noteq> []" by auto
  obtain k where k: "first_nonzero (drop (brnode b) (bchain b)) = Some k"
    and inv': "buf_inv (b\<lparr>brnode := brnode b + k\<rparr>)"
    and ct: "content (b\<lparr>brnode := brnode b + k\<rparr>) = content b"
    and x: "node_ok (bchain b ! (brnode b + k))"
    by (rule move_rnode [OF inv ne])
  let ?b = "b\<lparr>brnode := brnode b + k\<rparr>"
  let ?x = "bchain ?b ! brnode ?b"
  show ?thesis
  proof (cases "int (node_len ?x) \<ge> n")
    case True
    with False n k x ct inv show ?thesis
      using buf_inv_advance_rnode [OF inv', of "nat n"]
      by (simp add: Next_def Let_def LenRead_content node_readn_ok)
  next
    case F: False
    obtain ns' j where l: "readn_loop (nat n) 0 (drop (brnode ?b) (bchain ?b)) =
        (Inr (take (nat n) (content b)), nat n, ns', j)"
      and s: "stops_at (nat n) (drop (brnode ?b) (bchain ?b)) ns' j"
      using readn_loop_ok [of "drop (brnode ?b) (bchain ?b)" 0 "nat n"]
        content_from_rnode [OF inv'] n ct by (auto simp: nat_le_iff)
    have "nat n \<le> length (content ?b)" using n ct by simp
    from buf_inv_stop [OF inv' s this] l F False n k ct inv show ?thesis
      by (simp add: Next_def LenRead_content)
  qed
qed

lemma Next_err:
  "n < 0 \<Longrightarrow> Next n b = ([], Some ErrInvalidParam, b)"
  "buf_inv b \<Longrightarrow> int (length (content b)) < n \<Longrightarrow> Next n b = ([], Some ErrNoEnoughData, b)"
  by (simp_all add: Next_def LenRead_content)


section \<open>Release and Read\<close>

text \<open>The doubling loop ends, and keeps the node block size in its range.\<close>

lemma grow_loop_ok:
  assumes "nbs_ok s"
  shows "\<exists>s'. grow_loop n s = Some s' \<and> nbs_ok s' \<and> unat s \<le> unat s'"
  using assms
proof (induction "maxNodeBlockSize - unat s" arbitrary: s rule: less_induct)
  case less
  show ?case
  proof (cases "unat s < n \<and> s * 2 \<le> of_nat maxNodeBlockSize")
    case True
    have "unat (s * 2) = 2 * unat s"
      using less.prems by (simp add: nbs_ok_def maxNodeBlockSize_def unat_word_ariths)
    moreover have "unat (s * 2) \<le> maxNodeBlockSize"
      using True by (simp add: word_le_nat_alt maxNodeBlockSize_def)
    moreover have "0 < unat s" using less.prems by (simp add: nbs_ok_def blockSize_def)
    ultimately have "\<exists>s'. grow_loop n (s * 2) = Some s' \<and> nbs_ok s' \<and> unat (s * 2) \<le> unat s'"
      using less.prems by (intro less.hyps) (simp_all add: nbs_ok_def)
    with True \<open>unat (s * 2) = 2 * unat s\<close> show ?thesis by (auto simp: grow_loop.simps [of n s])
  qed (use less.prems in \<open>auto simp: grow_loop.simps [of n s]\<close>)
qed

lemma OptimizeMemory_ok:
  assumes inv: "buf_inv b"
  shows "\<exists>b'. OptimizeMemory c b = (None, b') \<and> buf_inv b' \<and> blocks b' = blocks b"
proof (cases "LenRead b = 0")
  case True
  then have e: "content b = []" using LenRead_content [OF inv] by simp
  then have bl: "blocks b = []"
    by (auto simp: content_blocks blocks_def chain_blocks_def)
  have d: "drained (bchain b)"
    using e by (simp add: content_def chain_data_def list_all_iff)
  have w: "bwnode b < length (bchain b)" using inv by (simp add: buf_inv_def)
  show ?thesis
  proof (cases c)
    case True
    with \<open>LenRead b = 0\<close> bl show ?thesis
      by (simp add: OptimizeMemory_def CleanUpWithLock_def buf_inv_def newDumpNode_def allocNode_def
          content_def blocks_def nbs_ok_def blockSize_def maxNodeBlockSize_def unat_simps LenRead_def)
        (simp add: zero_node_def node_ok_def node_data_def)
  next
    case False
    let ?x = "(bchain b ! bwnode b)\<lparr>nr := 0, nw := 0\<rparr>"
    let ?y = "if \<not> nrecycle (bchain b ! bwnode b) then ?x\<lparr>nblock := []\<rparr> else ?x"
    have y: "node_ok ?y" "node_data ?y = []"
      using inv w by (auto simp: buf_inv_def node_ok_def node_data_def list_all_length)
    have d': "drained ((bchain b)[bwnode b := ?y])"
      using d y by (intro list_all_update)
    have "list_all node_ok ((bchain b)[bwnode b := ?y])"
      using inv y by (intro list_all_update) (simp_all add: buf_inv_def)
    moreover have "drained (take (brnode b) ((bchain b)[bwnode b := ?y]))"
      using d' by (rule list_all_take_drop)
    ultimately show ?thesis
      using False True inv w d' bl e
      by (auto simp: OptimizeMemory_def buf_inv_def node_at_def Let_def content_def blocks_def)
  qed
qed (use inv in \<open>simp add: OptimizeMemory_def\<close>)

lemma Release_ok:
  assumes inv: "buf_inv b"
  shows "\<exists>b'. Release c b = (None, b') \<and> buf_inv b' \<and> blocks b' = blocks b"
proof -
  let ?l = "node_cap (bchain b ! brnode b) + sum_list (map node_cap (take (brnode b) (bchain b)))"
  let ?b = "b\<lparr>bchain := drop (brnode b) (bchain b), brnode := 0, bwnode := bwnode b - brnode b\<rparr>"
  have "\<exists>s. (if bauto b \<and> ?l \<le> maxNodeBlockSize then grow_loop ?l (bnodeBlockSize b)
      else Some (bnodeBlockSize b)) = Some s \<and> nbs_ok s"
    using grow_loop_ok [of "bnodeBlockSize b" ?l] inv by (auto simp: buf_inv_def)
  then obtain s where s: "(if bauto b \<and> ?l \<le> maxNodeBlockSize then grow_loop ?l (bnodeBlockSize b)
      else Some (bnodeBlockSize b)) = Some s" "nbs_ok s" by blast
  have "buf_inv (?b\<lparr>bnodeBlockSize := s\<rparr>)"
    using inv s(2) content_from_rnode [OF inv] by (auto simp: buf_inv_def content_def)
  moreover have "blocks (?b\<lparr>bnodeBlockSize := s\<rparr>) = blocks b"
    using content_from_rnode(2) [OF inv] by (simp add: blocks_def)
  moreover have "brnode b \<le> bwnode b" using inv by (simp add: buf_inv_def)
  ultimately show ?thesis
    using OptimizeMemory_ok [of "?b\<lparr>bnodeBlockSize := s\<rparr>" c] s(1) node_at_rnode [OF inv]
    by (simp add: Release_def Let_def split del: if_split cong: if_cong)
qed

lemma Release_content:
  assumes "buf_inv b"
  shows "\<exists>b'. Release c b = (None, b') \<and> buf_inv b' \<and> content b' = content b"
  using Release_ok [OF assms, of c] by (auto simp: content_blocks)

lemma read_locked_ok:
  fixes m :: nat
  assumes inv: "buf_inv b"
  defines "k \<equiv> min m (length (content b))"
  shows "\<exists>b'. read_locked m b = ((k, take k (content b)), None, b') \<and> buf_inv b' \<and>
           content b' = drop k (content b)"
proof -
  have n: "(if LenRead b < m then LenRead b else m) = k"
    using LenRead_content [OF inv] by (simp add: k_def min_def)
  let ?ns = "drop (brnode b) (bchain b)" and ?x = "bchain b ! brnode b"
  have x: "node_ok ?x" using inv by (auto simp: buf_inv_def list_all_length)
  have kl: "k \<le> length (content b)" by (simp add: k_def)
  show ?thesis
  proof (cases "k \<le> node_len ?x")
    case True
    with x buf_inv_advance_rnode [OF inv True] show ?thesis
      by (simp add: read_locked_def n node_at_rnode [OF inv] node_readn_ok del: of_nat_diff)
  next
    case False
    obtain ns' j where l: "readn_loop k 0 ?ns = (Inr (take k (content b)), k, ns', j)"
      and s: "stops_at k ?ns ns' j"
      using readn_loop_ok [of ?ns 0 k] content_from_rnode [OF inv] kl by auto
    from buf_inv_stop [OF inv s kl] l False show ?thesis
      by (simp add: read_locked_def n node_at_rnode [OF inv])
  qed
qed

lemma Read_ok:
  fixes m :: nat
  assumes inv: "buf_inv b"
  defines "k \<equiv> min m (length (content b))"
  shows "\<exists>b'. buffer_Read c m b = ((k, take k (content b)), None, b') \<and> buf_inv b' \<and>
           content b' = drop k (content b)"
proof -
  obtain b1 where b1: "read_locked m b = ((k, take k (content b)), None, b1)" "buf_inv b1"
    "content b1 = drop k (content b)"
    using read_locked_ok [OF inv, of m] unfolding k_def by auto
  obtain b2 where "Release c b1 = (None, b2)" "buf_inv b2" "content b2 = content b1"
    using Release_content [OF b1(2), of c] by auto
  with b1 inv show ?thesis
    by (cases "m = 0") (simp_all add: buffer_Read_def k_def)
qed


section \<open>Block operations\<close>

declare peek_blocks_loop.simps(2) [simp del] skip_blocks_loop.simps(2) [simp del]

lemma chain_blocks_Nil_iff: "chain_blocks ns = [] \<longleftrightarrow> chain_data ns = []"
  by (induction ns) auto

lemma peek_blocks_loop_ok:
  assumes "list_all node_ok ns" and "rest = length (chain_data ns)"
  shows "peek_blocks_loop m rest ns = Inr (take m (chain_blocks ns))"
  using assms
proof (induction ns arbitrary: m rest)
  case (Cons x xs)
  then have x: "node_ok x" and len: "length (node_data x) = node_len x"
    by (simp_all add: length_node_data)
  consider "m = 0" | "0 < m" "node_data x = []" | "0 < m" "node_data x \<noteq> []" by blast
  then show ?case
  proof cases
    case 2
    with Cons len show ?thesis
      by (cases "rest = 0") (auto simp: peek_blocks_loop.simps(2) chain_blocks_Nil_iff)
  next
    case 3
    then obtain m' where m: "m = Suc m'" by (cases m) auto
    have "node_slice (node_len x) x = Inr (node_data x)"
      using node_slice_ok [OF x, of "node_len x"] len by simp
    moreover have "peek_blocks_loop m' (length (chain_data xs)) xs = Inr (take m' (chain_blocks xs))"
      using Cons by simp
    moreover have "0 < node_len x" using 3 len by (metis length_greater_0_conv)
    ultimately show ?thesis using 3 Cons.prems m len
      by (simp add: peek_blocks_loop.simps(2))
  qed (simp add: peek_blocks_loop.simps(2))
qed simp

lemma PeekBlocks_ok:
  assumes inv: "buf_inv b"
  shows "PeekBlocks m b = Inr (take m (blocks b))"
proof (cases "content b = []")
  case True
  then have "blocks b = []" by (simp add: blocks_def content_def chain_blocks_Nil_iff)
  with True inv show ?thesis by (simp add: PeekBlocks_def LenRead_content)
next
  case False
  have "peek_blocks_loop m (length (content b)) (drop (brnode b) (bchain b)) = Inr (take m (blocks b))"
    using peek_blocks_loop_ok [of "drop (brnode b) (bchain b)" _ m] content_from_rnode [OF inv] by simp
  with False inv show ?thesis by (simp add: PeekBlocks_def LenRead_content)
qed

lemma ReadBlock_ok:
  assumes inv: "buf_inv b" and ne: "blocks b \<noteq> []"
  shows "\<exists>b'. ReadBlock b = (hd (blocks b), None, b') \<and> buf_inv b' \<and> blocks b' = tl (blocks b)"
proof -
  from ne have c: "content b \<noteq> []"
    by (simp add: content_def blocks_def chain_blocks_Nil_iff)
  obtain k where k: "first_nonzero (drop (brnode b) (bchain b)) = Some k"
    and inv': "buf_inv (b\<lparr>brnode := brnode b + k\<rparr>)"
    and x: "node_ok (bchain b ! (brnode b + k))" "node_data (bchain b ! (brnode b + k)) \<noteq> []"
    by (rule move_rnode [OF inv c])
  let ?b = "b\<lparr>brnode := brnode b + k\<rparr>" and ?i = "brnode b + k"
  let ?x = "bchain b ! ?i"
  have bl: "blocks b = node_data ?x # chain_blocks (drop (Suc ?i) (bchain b))"
    using content_from_rnode(2) [OF inv', symmetric] drop_rnode_Cons [OF inv'] x(2)
    by (simp add: blocks_def)
  have rd: "node_readn (node_len ?x) ?x = Inr (node_data ?x, advance_r (node_len ?x) ?x)"
    using x length_node_data [OF x(1)] by (simp add: node_readn_ok)
  let ?b' = "?b\<lparr>bchain := (bchain b)[?i := advance_r (node_len ?x) ?x],
      brlen := brlen b - of_nat (node_len ?x)\<rparr>"
  have i: "?i < length (bchain b)" "drained (take ?i (bchain b))"
    using inv' by (auto simp: buf_inv_def)
  have "node_data (advance_r (node_len ?x) ?x) = []"
    using advance_r(2) [OF x(1)] length_node_data [OF x(1)] by simp
  then have "blocks ?b' = chain_blocks (drop (Suc ?i) (bchain b))"
    using i by (simp add: blocks_def upd_conv_take_nth_drop)
  moreover have "buf_inv ?b'"
    using buf_inv_advance_rnode(1) [OF inv', of "node_len ?x"] by simp
  moreover have "LenRead b \<noteq> 0" using c LenRead_content [OF inv] by simp
  ultimately show ?thesis
    using k rd bl by (simp add: ReadBlock_def Let_def)
qed

lemma concat_take_blocks:
  assumes "0 < j" and "j \<le> length (chain_blocks ns)"
  shows "0 < length (concat (take j (chain_blocks ns)))"
proof -
  from assms obtain y ys where y: "chain_blocks ns = y # ys" by (cases "chain_blocks ns") auto
  then have "y \<in> set (chain_blocks ns)" by simp
  then have "y \<noteq> []" by (simp add: chain_blocks_def)
  with y assms(1) show ?thesis by (cases j) simp_all
qed

lemma skip_blocks_loop_done [simp]: "skip_blocks_loop n n ack ns = (None, n, ack, ns, 0)"
  by (cases ns) (simp_all add: skip_blocks_loop.simps(2))

lemma skip_blocks_loop_empty:
  assumes "node_len x = 0" and "skip_blocks_loop n ackn ack xs = (None, an, a, xs', k)" and "ackn < n"
  shows "skip_blocks_loop n ackn ack (x # xs) = (None, an, a, x # xs', Suc k)"
  using assms by (simp add: skip_blocks_loop.simps(2))

lemma skip_blocks_loop_whole:
  assumes "node_len x \<noteq> 0" and "ackn < n"
  shows "skip_blocks_loop n ackn ack (x # xs) =
    skip_blocks_loop n (Suc ackn) (ack + node_len x) (advance_r (node_len x) x # xs)"
  using assms skip_blocks_loop.simps(2) [of n ackn ack x xs] by (simp add: node_skip_ok Let_def)

lemma skip_blocks_loop_ok:
  assumes "list_all node_ok ns" and "ackn \<le> n" and "n - ackn \<le> length (chain_blocks ns)"
  defines "m \<equiv> length (concat (take (n - ackn) (chain_blocks ns)))"
  shows "\<exists>ns' k. skip_blocks_loop n ackn ack ns = (None, n, ack + m, ns', k) \<and>
    stops_at m ns ns' k \<and> chain_blocks ns' = drop (n - ackn) (chain_blocks ns)"
  using assms(1-3) unfolding m_def
proof (induction n ackn ack ns rule: skip_blocks_loop.induct)
  case (1 n ackn ack)
  then show ?case by (simp add: stops_at_zero)
next
  case (2 n ackn ack x xs)
  have x: "node_ok x" and xs: "list_all node_ok xs" using "2.prems" by simp_all
  note len = length_node_data [OF x]
  consider "ackn = n" | "ackn < n" "node_len x = 0" | "ackn < n" "node_len x \<noteq> 0"
    using "2.prems" by linarith
  then show ?case
  proof cases
    case 1
    with "2.prems" show ?thesis by (simp add: stops_at_zero)
  next
    case 2
    let ?m = "length (concat (take (n - ackn) (chain_blocks xs)))"
    have d: "node_data x = []" using 2 x by (simp add: node_len_0_iff)
    with 2 "2.IH"(1) xs "2.prems" obtain ns' k where
      l: "skip_blocks_loop n ackn ack xs = (None, n, ack + ?m, ns', k)"
      and s: "stops_at ?m xs ns' k" "chain_blocks ns' = drop (n - ackn) (chain_blocks xs)" by auto
    have "0 < ?m"
      using 2 d "2.prems" by (intro concat_take_blocks) auto
    from stops_at_skip_empty [OF x d this s(1)] skip_blocks_loop_empty [OF 2(2) l 2(1)] s(2) d
    show ?thesis by (intro exI [of _ "x # ns'"] exI [of _ "Suc k"]) simp
  next
    case 3
    let ?x' = "advance_r (node_len x) x"
    let ?m = "length (concat (take (n - Suc ackn) (chain_blocks xs)))"
    have d: "node_data x \<noteq> []" using 3 x by (simp add: node_len_0_iff)
    have x': "node_ok ?x'" "node_data ?x' = []" and sk: "node_skip (node_len x) x = Inr ?x'"
      using advance_r [OF x, of "node_len x"] len by (simp_all add: node_skip_ok)
    have le: "n - Suc ackn \<le> length (chain_blocks xs)" using d "2.prems" by simp
    from 3 "2.IH"(2) [OF _ _ refl sk] x' xs le obtain ns' k where
      l: "skip_blocks_loop n (Suc ackn) (ack + node_len x) (?x' # xs) =
        (None, n, ack + node_len x + ?m, ns', k)"
      and s: "stops_at ?m (?x' # xs) ns' k"
        "chain_blocks ns' = drop (n - Suc ackn) (chain_blocks xs)" by auto
    obtain j where j: "n - ackn = Suc j" "n - Suc ackn = j" using 3 by (metis Suc_diff_Suc)
    with skip_blocks_loop_whole [OF 3(2) 3(1), of ack xs] l s stops_at_whole [OF x d s(1)] d len show ?thesis
      by (simp add: add.assoc)
  qed
qed

lemma SkipBlocks_ok:
  assumes inv: "buf_inv b" and n: "0 \<le> n" "n \<le> int (length (blocks b))" and ne: "blocks b \<noteq> []"
  shows "\<exists>b'. SkipBlocks n b = (None, b') \<and> buf_inv b' \<and> blocks b' = drop (nat n) (blocks b)"
proof -
  let ?m = "length (concat (take (nat n) (blocks b)))" and ?ns = "drop (brnode b) (bchain b)"
  obtain ns' k where l: "skip_blocks_loop (nat n) 0 0 ?ns = (None, nat n, ?m, ns', k)"
    and s: "stops_at ?m ?ns ns' k" "chain_blocks ns' = drop (nat n) (blocks b)"
    using skip_blocks_loop_ok [of ?ns 0 "nat n" 0] content_from_rnode [OF inv] n
    by (auto simp: nat_le_iff)
  have m: "?m \<le> length (content b)"
    by (metis content_blocks append_take_drop_id concat_append length_append le_add1)
  have "LenRead b \<noteq> 0" using ne LenRead_content [OF inv]
    by (simp add: blocks_def content_def chain_blocks_Nil_iff)
  moreover have "drained (take (brnode b) (bchain b))" using inv by (simp add: buf_inv_def)
  ultimately show ?thesis
    using buf_inv_stop [OF inv s(1) m] l s(2) n by (simp add: SkipBlocks_def blocks_def)
qed


text \<open>Asking for more blocks than there are: the loop drains every node, but the length counter keeps
  its value.\<close>

lemma skip_blocks_loop_overrun:
  assumes "list_all node_ok ns" and "length (chain_blocks ns) < n - ackn"
  shows "\<exists>a ns' k. skip_blocks_loop n ackn ack ns = (None, ackn + length (chain_blocks ns), a, ns', k) \<and>
    drained ns' \<and> list_all node_ok ns'"
  using assms
proof (induction n ackn ack ns rule: skip_blocks_loop.induct)
  case (2 n ackn ack x xs)
  have x: "node_ok x" and xs: "list_all node_ok xs" and lt: "ackn < n" using "2.prems" by simp_all
  show ?case
  proof (cases "node_len x = 0")
    case True
    then have d: "node_data x = []" using x by (simp add: node_len_0_iff)
    with "2.IH"(1) True lt xs "2.prems" obtain a ns' k where
      l: "skip_blocks_loop n ackn ack xs = (None, ackn + length (chain_blocks xs), a, ns', k)"
      "drained ns'" "list_all node_ok ns'" by auto
    from skip_blocks_loop_empty [OF True l(1) lt] l d x show ?thesis by simp
  next
    case False
    let ?x' = "advance_r (node_len x) x"
    have d: "node_data x \<noteq> []" using False x by (simp add: node_len_0_iff)
    have x': "node_ok ?x'" "node_data ?x' = []" and sk: "node_skip (node_len x) x = Inr ?x'"
      using advance_r [OF x, of "node_len x"] length_node_data [OF x] by (simp_all add: node_skip_ok)
    have "length (chain_blocks (?x' # xs)) < n - Suc ackn" using x' d "2.prems" by simp
    with "2.IH"(2) [OF lt False refl sk] x' xs skip_blocks_loop_whole [OF False lt, of ack xs] d
    show ?thesis by simp
  qed
qed simp

lemma first_nonzero_drained:
  "list_all node_ok ns \<Longrightarrow> drained ns \<Longrightarrow> first_nonzero ns = None"
  by (induction ns) (auto simp: node_len_0_iff)

lemma SkipBlocks_overrun:
  assumes inv: "buf_inv b" and ne: "content b \<noteq> []" and n: "int (length (blocks b)) < n"
  shows "\<exists>b'. SkipBlocks n b = (Some ErrNoEnoughData, b') \<and> content b' = [] \<and>
    LenRead b' = length (content b) \<and> Peek 1 b' = ([], Some (Fault NilDeref), b')"
proof -
  let ?ns = "drop (brnode b) (bchain b)"
  have "length (blocks b) < nat n" using n by linarith
  then obtain a ns' k where l: "skip_blocks_loop (nat n) 0 0 ?ns = (None, length (blocks b), a, ns', k)"
    and ns': "drained ns'" "list_all node_ok ns'"
    using skip_blocks_loop_overrun [of ?ns "nat n" 0 0] content_from_rnode [OF inv] by auto
  have d: "drained (take (brnode b) (bchain b))" and r: "brnode b < length (bchain b)"
    using inv by (auto simp: buf_inv_def)
  have n0: "LenRead b \<noteq> 0" using ne LenRead_content [OF inv] by simp
  let ?b = "b\<lparr>bchain := take (brnode b) (bchain b) @ ns'\<rparr>"
  have "SkipBlocks n b = (Some ErrNoEnoughData, ?b)"
    using l n n0 by (auto simp: SkipBlocks_def)
  moreover have "Peek 1 ?b = ([], Some (Fault NilDeref), ?b)"
    using n0 r first_nonzero_drained [OF ns'(2,1)] by (simp add: Peek_def LenRead_def)
  moreover have "content ?b = []" "LenRead ?b = length (content b)"
    using d ns' LenRead_content [OF inv] by (simp_all add: content_def LenRead_def)
  ultimately show ?thesis by blast
qed

section \<open>The buffer is a byte reader\<close>

interpretation link_reader: byte_reader buf_inv content "\<lambda>_. Some ErrNoEnoughData" Peek Skip Next
proof unfold_locales
  fix b n
  assume inv: "buf_inv b"
  consider "n < 0" | "0 \<le> n" "n \<le> int (length (content b))" | "0 \<le> n" "int (length (content b)) < n"
    by linarith
  note cases = this
  show "\<exists>b'. Peek n b = (fst (queue_take (Some ErrNoEnoughData) n (content b)),
      snd (queue_take (Some ErrNoEnoughData) n (content b)), b') \<and> buf_inv b' \<and>
      content b' = content b \<and> Some ErrNoEnoughData = Some ErrNoEnoughData"
    by (rule cases) (use inv Peek_ok [OF inv, of n] Peek_err in \<open>auto simp: queue_take_def\<close>)
  show "\<exists>b'. Skip n b = (snd (queue_take (Some ErrNoEnoughData) n (content b)), b') \<and> buf_inv b' \<and>
      content b' = queue_drop n (content b) \<and> Some ErrNoEnoughData = Some ErrNoEnoughData"
    by (rule cases)
      (use inv Skip_ok [OF inv, of n] Skip_err in \<open>auto simp: queue_take_def queue_drop_def\<close>)
  show "\<exists>b'. Next n b = (fst (queue_take (Some ErrNoEnoughData) n (content b)),
      snd (queue_take (Some ErrNoEnoughData) n (content b)), b') \<and> buf_inv b' \<and>
      content b' = queue_drop n (content b) \<and> Some ErrNoEnoughData = Some ErrNoEnoughData"
    by (rule cases)
      (use inv Next_ok [OF inv, of n] Next_err in \<open>auto simp: queue_take_def queue_drop_def\<close>)
qed

end
