(* ===== verification/Link_Buffer_Write.thy ===== *)
theory Link_Buffer_Write
  imports Link_Buffer_Read
begin

text \<open>
  The linked buffer as a byte queue, writing side: the copying write (\<open>copyFrom\<close>), the linking write
  (\<open>linkFrom\<close>) and \<open>Fill\<close>. All of them keep \<open>buf_inv\<close>, append to \<open>content\<close> and never touch a block that
  belongs to the user. The lemmas that allocate are proved for any \<open>block_source\<close>.
\<close>

section \<open>Free space\<close>

definition node_space :: "node \<Rightarrow> nat" where
  "node_space x = node_cap x - unat (nw x)"

definition space :: "node list \<Rightarrow> nat" where
  "space ns = sum_list (map node_space ns)"

definition capacity :: "buffer \<Rightarrow> nat" where
  "capacity b = space (drop (bwnode b) (bchain b))"

text \<open>No unused node after \<open>wnode\<close>: what a buffer that is only written and read (never filled)
  maintains.\<close>

definition tight :: "buffer \<Rightarrow> bool" where
  "tight b \<longleftrightarrow> Suc (bwnode b) = length (bchain b)"

lemma space_simps [simp]:
  "space [] = 0" "space (x # xs) = node_space x + space xs" "space (xs @ ys) = space xs + space ys"
  by (simp_all add: space_def)

lemma node_rest_space: "node_ok x \<Longrightarrow> node_rest x = int (node_space x)"
  by (simp add: node_rest_nonneg node_space_def)

lemma spare_space: "spare x \<Longrightarrow> 0 < node_space x"
  by (simp add: spare_def node_space_def node_cap_def)

lemma append_w_space:
  "node_ok x \<Longrightarrow> length s \<le> node_space x \<Longrightarrow> node_space (append_w s x) + length s = node_space x"
  using append_w(6,7) [of x s] by (simp add: node_rest_space node_space_def)

text \<open>What writing \<open>s\<close> into the free space of \<open>ns\<close> leaves: \<open>ns'\<close>, with the write pointer moved by \<open>k\<close>.
  Nodes over a user's block stay as they are.\<close>

definition kept :: "node \<Rightarrow> node \<Rightarrow> bool" where
  "kept x y \<longleftrightarrow> node_cap y = node_cap x \<and> nrecycle y = nrecycle x \<and> (\<not> nrecycle x \<longrightarrow> y = x)"

definition appended :: "byte list \<Rightarrow> node list \<Rightarrow> node list \<Rightarrow> nat \<Rightarrow> bool" where
  "appended s ns ns' k \<longleftrightarrow>
     k < length ns \<and> list_all node_ok ns' \<and> list_all2 kept ns ns' \<and>
     chain_data ns' = chain_data ns @ s \<and> list_all spare (drop (Suc k) ns') \<and>
     space (drop k ns') + length s = space ns"

lemma kept_refl [simp]: "kept x x"
  by (simp add: kept_def)

lemma kept_trans: "kept x y \<Longrightarrow> kept y z \<Longrightarrow> kept x z"
  by (auto simp: kept_def)

lemma list_all2_kept_refl [simp]: "list_all2 kept ns ns"
  by (simp add: list_all2_refl)

lemma append_w_kept:
  assumes "node_ok x" and "length s \<le> node_space x"
  shows "kept x (append_w s x)"
proof -
  have "s = []" if "\<not> nrecycle x"
    using not_recycle_full [OF assms(1) that] assms by (simp add: isFull_def node_space_def node_cap_def)
  then show ?thesis
    using append_w(5,7) [of x s] assms by (auto simp: kept_def node_rest_space append_w_def)
qed

lemma adjust_loop_stop:
  assumes "node_ok x" and "m \<le> node_space x"
  shows "adjust_loop (int m) (x\<lparr>nblock := overwrite (unat (nw x)) s (nblock x)\<rparr> # xs) =
    (x\<lparr>nblock := overwrite (unat (nw x)) s (nblock x), nw := nw x + of_nat m\<rparr> # xs, 0)"
proof -
  have "node_rest (x\<lparr>nblock := overwrite (unat (nw x)) s (nblock x)\<rparr>) = node_rest x"
    using assms(1) by (simp add: node_rest_def node_cap_def node_ok_def)
  with assms show ?thesis by (simp add: node_rest_space)
qed

lemma adjust_loop_pass:
  assumes "node_ok x" and "node_space x < m"
    and "adjust_loop (int (m - node_space x)) xs = (xs', k)"
  shows "adjust_loop (int m) (x\<lparr>nblock := overwrite (unat (nw x)) s (nblock x)\<rparr> # xs) =
    (x\<lparr>nblock := overwrite (unat (nw x)) s (nblock x), nw := nw x + of_nat (node_space x)\<rparr> # xs', Suc k)"
proof -
  have "node_rest (x\<lparr>nblock := overwrite (unat (nw x)) s (nblock x)\<rparr>) = int (node_space x)"
    using assms(1) by (simp add: node_rest_def node_cap_def node_ok_def node_space_def)
  moreover have "int m - int (node_space x) = int (m - node_space x)" using assms(2) by simp
  ultimately show ?thesis using assms by simp
qed

lemma appended_stop:
  assumes "node_ok x" and "list_all node_ok xs" and "list_all spare xs" and "length s \<le> node_space x"
  shows "appended s (x # xs) (append_w s x # xs) 0"
  using assms append_w [of x s] append_w_space [of x s] append_w_kept [of x s] spares_drained [OF assms(3)]
  by (simp add: appended_def node_rest_space)

lemma appended_pass:
  assumes x: "node_ok x" and s: "length s = node_space x" and xs: "drained xs"
    and a: "appended t xs xs' k"
  shows "appended (s @ t) (x # xs) (append_w s x # xs') (Suc k)"
  using a xs append_w [OF x, of s] append_w_kept [OF x, of s] s
  by (auto simp: appended_def node_rest_space [OF x])

declare copy_loop.simps(2) [simp del] adjust_loop.simps(2) [simp del]

lemma copy_adjust_ok:
  assumes "list_all node_ok (x # xs)" and "list_all spare xs" and "c \<le> length buf"
  defines "m \<equiv> min (length buf - c) (space (x # xs))"
  shows "\<exists>ns1 ns2 k. copy_loop buf c (x # xs) = (Inr (c + m), ns1) \<and>
    adjust_loop (int m) ns1 = (ns2, k) \<and> appended (take m (drop c buf)) (x # xs) ns2 k"
  using assms(1-3) unfolding m_def
proof (induction xs arbitrary: x c)
  case Nil
  let ?s = "take (node_space x) (drop c buf)"
  have x: "node_ok x" using Nil by simp
  let ?x = "x\<lparr>nblock := overwrite (unat (nw x)) ?s (nblock x)\<rparr>"
  have w: "unat (nw x) \<le> length (nblock x)" "length (nblock x) - unat (nw x) = node_space x"
    using x by (simp_all add: node_ok_def node_space_def node_cap_def)
  have m: "min (length buf - c) (node_space x) = length ?s" by simp
  have "copy_loop buf c [x] = (Inr (c + length ?s), [?x])"
    using w by (simp add: copy_loop.simps(2) min.commute Let_def)
  moreover have "length ?s \<le> node_space x" by simp
  from adjust_loop_stop [OF x this] have "adjust_loop (int (length ?s)) [?x] = ([append_w ?s x], 0)"
    by (simp add: append_w_def)
  moreover have "appended ?s [x] [append_w ?s x] 0"
    using x by (intro appended_stop) simp_all
  moreover have "take (length ?s) (drop c buf) = ?s" by (simp add: min_def)
  ultimately show ?case
    unfolding space_simps add_0_right m by metis
next
  case (Cons y ys)
  let ?s = "take (node_space x) (drop c buf)"
  have x: "node_ok x" and y: "node_ok y" and ys: "list_all node_ok ys" "list_all spare ys"
    and d: "list_all spare (y # ys)" using Cons.prems by simp_all
  let ?x = "x\<lparr>nblock := overwrite (unat (nw x)) ?s (nblock x)\<rparr>"
  have w: "unat (nw x) \<le> length (nblock x)" "length (nblock x) - unat (nw x) = node_space x"
    using x by (simp_all add: node_ok_def node_space_def node_cap_def)
  show ?case
  proof (cases "length buf - c \<le> node_space x")
    case True
    then have s: "?s = drop c buf" and m: "min (length buf - c) (space (x # y # ys)) = length ?s"
      by simp_all
    have "copy_loop buf c (x # y # ys) = (Inr (c + length ?s), ?x # y # ys)"
      using w True Cons.prems(3) by (simp add: copy_loop.simps(2) [of _ _ x] min.commute Let_def)
    moreover have "length ?s \<le> node_space x" by simp
    from adjust_loop_stop [OF x this]
    have "adjust_loop (int (length ?s)) (?x # y # ys) = (append_w ?s x # y # ys, 0)"
      by (simp add: append_w_def)
    moreover have "appended ?s (x # y # ys) (append_w ?s x # y # ys) 0"
      using x y ys d by (intro appended_stop) simp_all
    moreover have "take (length ?s) (drop c buf) = ?s" by (simp add: min_def)
    ultimately show ?thesis unfolding m by metis
  next
    case False
    define c' where "c' = c + node_space x"
    define m' where "m' = min (length buf - c') (space (y # ys))"
    have c': "c' \<le> length buf" and ls: "length ?s = node_space x" using False by (simp_all add: c'_def)
    from Cons.IH [of y c'] y ys c' obtain ns1 ns2 k where
      ih: "copy_loop buf c' (y # ys) = (Inr (c' + m'), ns1)" "adjust_loop (int m') ns1 = (ns2, k)"
        "appended (take m' (drop c' buf)) (y # ys) ns2 k"
      unfolding m'_def by auto
    have m: "min (length buf - c) (space (x # y # ys)) = node_space x + m'"
      unfolding m'_def c'_def space_simps using False by linarith
    have "0 < node_space y" using d by (simp add: spare_space)
    then have m'0: "0 < m'" using False by (simp add: m'_def c'_def)
    have "\<not> length buf \<le> c + node_space x" using False by linarith
    then have "copy_loop buf c (x # y # ys) = (Inr (c + (node_space x + m')), ?x # ns1)"
      using w False ih(1) by (simp add: copy_loop.simps(2) [of _ _ x] min.commute Let_def c'_def add.assoc)
    moreover have "adjust_loop (int (node_space x + m')) (?x # ns1) = (append_w ?s x # ns2, Suc k)"
      using adjust_loop_pass [OF x, of "node_space x + m'" ns1 ns2 k ?s] m'0 ih(2) ls
      by (simp add: append_w_def)
    moreover have "appended (?s @ take m' (drop c' buf)) (x # y # ys) (append_w ?s x # ns2) (Suc k)"
      using x ls ih(3) spares_drained [OF d] by (intro appended_pass)
    moreover have "take (node_space x + m') (drop c buf) = ?s @ take m' (drop c' buf)"
      unfolding take_add c'_def drop_drop by (simp add: add.commute)
    ultimately show ?thesis unfolding m by metis
  qed
qed


section \<open>Copying writes\<close>

lemma buf_inv_extend:
  fixes wl :: u32
  assumes inv: "buf_inv b" and k: "k < length ns" and ok: "list_all node_ok ns"
    and d: "chain_data ns = chain_data (drop (bwnode b) (bchain b)) @ s"
    and sp: "list_all spare (drop (Suc k) ns)" and len: "length (content b) + length s < 2 ^ 32"
  defines "b' \<equiv> b\<lparr>bchain := take (bwnode b) (bchain b) @ ns, bwnode := bwnode b + k, bwlen := wl,
      brlen := brlen b + of_nat (length s)\<rparr>"
  shows "buf_inv b'" and "content b' = content b @ s"
proof -
  let ?w = "bwnode b"
  have w: "brnode b \<le> ?w" "?w < length (bchain b)" using inv by (auto simp: buf_inv_def)
  have "content b = chain_data (take ?w (bchain b)) @ chain_data (drop ?w (bchain b))"
    unfolding content_def by (metis append_take_drop_id chain_data_simps(3))
  then show c: "content b' = content b @ s"
    using d by (simp add: b'_def content_def)
  have "list_all node_ok (take ?w (bchain b) @ ns)"
    using inv ok by (auto simp: buf_inv_def intro: list_all_take_drop)
  moreover have "drained (take (brnode b) (take ?w (bchain b) @ ns))"
    using inv w by (simp add: buf_inv_def min_absorb1 min_absorb2)
  moreover have "list_all spare (drop (Suc (?w + k)) (take ?w (bchain b) @ ns))"
    using sp w by (simp add: min_absorb2)
  moreover have "unat (brlen b + of_nat (length s)) = length (content b')"
    using inv len c by (simp add: buf_inv_def unat_simps)
  ultimately show "buf_inv b'"
    using inv w k unfolding b'_def buf_inv_def by simp
qed

lemma buf_inv_append:
  fixes wl :: u32
  assumes inv: "buf_inv b" and a: "appended s (drop (bwnode b) (bchain b)) ns k"
    and len: "length (content b) + length s < 2 ^ 32"
  defines "b' \<equiv> b\<lparr>bchain := take (bwnode b) (bchain b) @ ns, bwnode := bwnode b + k, bwlen := wl,
      brlen := brlen b + of_nat (length s)\<rparr>"
  shows "buf_inv b'" and "content b' = content b @ s" and "capacity b' + length s = capacity b"
    and "list_all2 kept (bchain b) (bchain b')"
proof -
  let ?w = "bwnode b"
  have w: "?w < length (bchain b)" using inv by (auto simp: buf_inv_def)
  have "k < length ns" using a by (auto simp: appended_def dest: list_all2_lengthD)
  then show "buf_inv b'" "content b' = content b @ s"
    using a len unfolding b'_def appended_def by (auto intro!: buf_inv_extend [OF inv])
  show "capacity b' + length s = capacity b"
    using a w by (simp add: capacity_def b'_def appended_def min_absorb2)
  have "list_all2 kept (take ?w (bchain b) @ drop ?w (bchain b)) (take ?w (bchain b) @ ns)"
    using a by (intro list_all2_appendI) (simp_all add: appended_def)
  then show "list_all2 kept (bchain b) (bchain b')" by (simp add: b'_def)
qed

lemma drop_wnode_Cons:
  assumes "buf_inv b"
  shows "drop (bwnode b) (bchain b) = bchain b ! bwnode b # drop (Suc (bwnode b)) (bchain b)"
    and "list_all node_ok (bchain b ! bwnode b # drop (Suc (bwnode b)) (bchain b))"
    and "list_all spare (drop (Suc (bwnode b)) (bchain b))"
proof -
  show eq: "drop (bwnode b) (bchain b) = bchain b ! bwnode b # drop (Suc (bwnode b)) (bchain b)"
    using assms by (intro Cons_nth_drop_Suc [symmetric]) (auto simp: buf_inv_def)
  show "list_all node_ok (bchain b ! bwnode b # drop (Suc (bwnode b)) (bchain b))"
    unfolding eq [symmetric] using assms by (auto simp: buf_inv_def intro: list_all_take_drop)
  show "list_all spare (drop (Suc (bwnode b)) (bchain b))" using assms by (simp add: buf_inv_def)
qed

lemma copyFromSingleByteSlice_ok:
  assumes inv: "buf_inv b" and len: "length (content b) + length buf < 2 ^ 32"
  defines "m \<equiv> min (length buf) (capacity b)"
  shows "\<exists>b'. copyFromSingleByteSlice buf b = (m, None, b') \<and> buf_inv b' \<and>
    content b' = content b @ take m buf \<and> capacity b' + m = capacity b \<and>
    list_all2 kept (bchain b) (bchain b') \<and> bwnode b \<le> bwnode b' \<and> bnodeBlockSize b' = bnodeBlockSize b"
proof -
  let ?ns = "drop (bwnode b) (bchain b)"
  note ns = drop_wnode_Cons [OF inv]
  have w: "bwnode b < length (bchain b)" using inv by (simp add: buf_inv_def)
  obtain ns1 ns2 k where c: "copy_loop buf 0 ?ns = (Inr m, ns1)"
    and a: "adjust_loop (int m) ns1 = (ns2, k)" and ap: "appended (take m buf) ?ns ns2 k"
    using copy_adjust_ok [OF ns(2,3), of 0 buf] unfolding m_def capacity_def ns(1) by auto
  have l: "length (take m buf) = m" by (simp add: m_def)
  have "length (content b) + length (take m buf) < 2 ^ 32" using len by simp
  note app = buf_inv_append [OF inv ap this, of "bwlen b - of_nat m"]
  from c a w app l show ?thesis
    by (simp add: copyFromSingleByteSlice_def adjust_def min_absorb2)
qed

lemma copy_slices_ok:
  assumes "buf_inv b" and "length (content b) + length (concat bs) < 2 ^ 32"
  defines "m \<equiv> min (length (concat bs)) (capacity b)"
  shows "\<exists>b'. copy_slices bs c b = (c + m, None, b') \<and> buf_inv b' \<and>
    content b' = content b @ take m (concat bs) \<and> capacity b' + m = capacity b \<and>
    list_all2 kept (bchain b) (bchain b') \<and> bwnode b \<le> bwnode b' \<and> bnodeBlockSize b' = bnodeBlockSize b"
  using assms(1,2) unfolding m_def
proof (induction bs arbitrary: c b)
  case (Cons s ss)
  let ?m = "min (length s) (capacity b)"
  have "length (content b) + length s < 2 ^ 32" using Cons.prems by simp
  from copyFromSingleByteSlice_ok [OF Cons.prems(1) this] obtain b1 where
    b1: "copyFromSingleByteSlice s b = (?m, None, b1)" "buf_inv b1"
      "content b1 = content b @ take ?m s" "capacity b1 + ?m = capacity b"
      "list_all2 kept (bchain b) (bchain b1)" "bwnode b \<le> bwnode b1"
      "bnodeBlockSize b1 = bnodeBlockSize b" by blast
  let ?m1 = "min (length (concat ss)) (capacity b1)"
  have "length (content b1) + length (concat ss) < 2 ^ 32" using Cons.prems b1(3) by simp
  from Cons.IH [OF b1(2) this, of "c + ?m"] obtain b2 where
    b2: "copy_slices ss (c + ?m) b1 = (c + ?m + ?m1, None, b2)" "buf_inv b2"
      "content b2 = content b1 @ take ?m1 (concat ss)" "capacity b2 + ?m1 = capacity b1"
      "list_all2 kept (bchain b1) (bchain b2)" "bwnode b1 \<le> bwnode b2"
      "bnodeBlockSize b2 = bnodeBlockSize b1" by blast
  have m: "?m + ?m1 = min (length (concat (s # ss))) (capacity b)"
    unfolding concat.simps length_append using b1(4) by linarith
  have t: "take ?m s @ take ?m1 (concat ss) = take (?m + ?m1) (concat (s # ss))"
    using b1(4) by (cases "length s \<le> capacity b") auto
  have "list_all2 kept (bchain b) (bchain b2)"
    using list_all2_trans [OF kept_trans b1(5) b2(5)] .
  then show ?case
    using b1 b2 m t by (simp add: add.assoc [symmetric])
qed simp


section \<open>Linking writes\<close>

abbreviation nonempty :: "byte list list \<Rightarrow> byte list list" where
  "nonempty bs \<equiv> filter (\<lambda>p. p \<noteq> []) bs"

lemma concat_nonempty: "concat (nonempty bs) = concat bs"
  by (induction bs) auto

lemma link_loop_fresh:
  assumes "list_all (\<lambda>x. nw x = 0) ns"
  shows "\<exists>wl. link_loop bs ns = (drop (length ns) bs, wl, length (concat (take (length ns) bs)),
    if bs = [] \<or> ns = [] then None else Some (min (length bs) (length ns) - 1),
    map2 setBlock bs ns @ drop (length bs) ns)"
  using assms
proof (induction bs ns rule: link_loop.induct)
  case (3 p ps x xs)
  then obtain wl where "link_loop ps xs = (drop (length xs) ps, wl, length (concat (take (length xs) ps)),
    if ps = [] \<or> xs = [] then None else Some (min (length ps) (length xs) - 1),
    map2 setBlock ps xs @ drop (length ps) xs)" by auto
  with "3.prems" show ?case
    by (auto simp: Suc_diff_Suc min_def neq_Nil_conv)
qed simp_all

text \<open>What linking \<open>bs\<close> into the unused ones among \<open>ns\<close> does: a prefix \<open>used\<close> becomes the data of nodes;
  if any slice is left over, the write pointer is at the last node.\<close>

definition linked :: "byte list list \<Rightarrow> node list \<Rightarrow> node list \<Rightarrow> nat \<Rightarrow> bool" where
  "linked used ns ns' k \<longleftrightarrow>
     k < length ns' \<and> length ns' = length ns \<and> list_all node_ok ns' \<and>
     chain_blocks ns' = chain_blocks ns @ nonempty used \<and> list_all spare (drop (Suc k) ns')"

lemma linked_fresh:
  assumes ok: "list_all node_ok ns" and fresh: "list_all (\<lambda>x. nw x = 0) ns"
    and sp: "list_all spare (tl ns)" and ne: "ns \<noteq> []" and len: "length (concat bs) < 2 ^ 32"
  shows "linked (take (length ns) bs) ns (map2 setBlock bs ns @ drop (length bs) ns)
    (min (length bs) (length ns) - 1)"
proof -
  have d: "drained ns" using ok fresh node_ok_le by (fastforce simp: list_all_iff node_data_def)
  have r: "nr x = 0" if "x \<in> set ns" for x
    using that ok fresh by (auto simp: list_all_iff node_ok_def)
  have "length p < 2 ^ 32" if "p \<in> set bs" for p
  proof -
    have "length p \<le> length (concat bs)"
      using that unfolding length_concat by (intro member_le_sum_list) auto
    with len show ?thesis by linarith
  qed
  with r have sb: "node_ok (setBlock p x) \<and> node_data (setBlock p x) = p"
    if "(p, x) \<in> set (zip bs ns)" for p x
    using setBlock_ok [of p x] that by (auto dest: set_zip_leftD set_zip_rightD)
  have "list_all node_ok (map2 setBlock bs ns)" using sb by (auto simp: list_all_iff)
  moreover have "list_all node_ok (drop (length bs) ns)" using ok by (rule list_all_take_drop)
  moreover have "map node_data (map2 setBlock bs ns) = take (length ns) bs"
    using sb by (auto simp: list_eq_iff_nth_eq set_zip min.commute)
  then have "chain_blocks (map2 setBlock bs ns) = nonempty (take (length ns) bs)"
    by (simp only: chain_blocks_def)
  moreover have "list_all spare (drop (Suc (min (length bs) (length ns) - 1)) (map2 setBlock bs ns @ drop (length bs) ns))"
  proof (cases bs)
    case Nil
    with sp show ?thesis by (cases ns) simp_all
  next
    case (Cons p ps)
    with ne have "Suc (min (length bs) (length ns) - 1) = min (length bs) (length ns)" by simp
    moreover have "drop (length bs) ns = drop (length ps) (tl ns)" using Cons by (simp add: drop_Suc)
    ultimately show ?thesis using list_all_take_drop(2) [OF sp] by (simp del: length_tl)
  qed
  moreover have "0 < length ns" using ne by simp
  then have "min (length bs) (length ns) - 1 < length ns" by linarith
  moreover have "length (map2 setBlock bs ns @ drop (length bs) ns) = length ns" by simp
  ultimately show ?thesis
    unfolding linked_def using d drained_blocks [OF list_all_take_drop(2) [OF d]]
    by (simp del: length_append length_map length_drop)
qed

lemma link_loop_ok:
  assumes ok: "list_all node_ok (x # xs)" and sp: "list_all spare xs" and len: "length (concat bs) < 2 ^ 32"
  obtains used left wl j ns' where "link_loop bs (x # xs) = (left, wl, length (concat used), j, ns')"
    and "bs = used @ left" and "linked used (x # xs) ns' (case j of None \<Rightarrow> 0 | Some j \<Rightarrow> j)"
    and "left \<noteq> [] \<longrightarrow> Suc (case j of None \<Rightarrow> 0 | Some j \<Rightarrow> j) = length (x # xs)"
proof -
  have fresh: "list_all (\<lambda>x. nw x = 0) xs" using sp by (auto simp: list_all_iff spare_def)
  consider "bs = []" | "bs \<noteq> []" "nw x = 0" | "bs \<noteq> []" "nw x \<noteq> 0" by blast
  then show thesis
  proof cases
    case 1
    with ok sp show thesis by (intro that [of "[]" 0 "[]" None "x # xs"]) (simp_all add: linked_def)
  next
    case 2
    let ?ns = "x # xs"
    from 2 fresh have f: "list_all (\<lambda>x. nw x = 0) ?ns" by simp
    obtain wl where l: "link_loop bs ?ns = (drop (length ?ns) bs, wl, length (concat (take (length ?ns) bs)),
        Some (min (length bs) (length ?ns) - 1), map2 setBlock bs ?ns @ drop (length bs) ?ns)"
      using link_loop_fresh [OF f, of bs] 2(1) by auto
    show thesis
      by (rule that [OF l]) (use linked_fresh [OF ok f _ _ len] sp in \<open>simp_all add: min_def\<close>)
  next
    case 3
    let ?ns = "map2 setBlock bs xs @ drop (length bs) xs"
    obtain wl where "link_loop bs xs = (drop (length xs) bs, wl, length (concat (take (length xs) bs)),
        if xs = [] then None else Some (min (length bs) (length xs) - 1), ?ns)"
      using link_loop_fresh [OF fresh, of bs] 3(1) by auto
    then have l: "link_loop bs (x # xs) = (drop (length xs) bs, wl, length (concat (take (length xs) bs)),
        if xs = [] then None else Some (Suc (min (length bs) (length xs) - 1)), x # ?ns)"
      using 3 by (cases bs) auto
    have "linked (take (length xs) bs) xs ?ns (min (length bs) (length xs) - 1)" if "xs \<noteq> []"
      using linked_fresh [OF _ fresh _ that len] ok sp by (cases xs) simp_all
    with ok have "linked (take (length xs) bs) (x # xs) (x # ?ns)
        (if xs = [] then 0 else Suc (min (length bs) (length xs) - 1))"
      by (cases "xs = []") (auto simp: linked_def)
    then show thesis
      by (intro that [OF l]) (simp_all add: min_def split: if_splits)
  qed
qed

lemma linkWithExistingNodes_ok:
  assumes inv: "buf_inv b" and len: "length (content b) + length (concat bs) < 2 ^ 32"
  shows "\<exists>used left b'. linkWithExistingNodes bs b = (left, length (concat used), b') \<and> bs = used @ left \<and>
    buf_inv b' \<and> blocks b' = blocks b @ nonempty used \<and> length (bchain b') = length (bchain b) \<and>
    bwnode b \<le> bwnode b' \<and> (left \<noteq> [] \<longrightarrow> tight b')"
proof -
  let ?w = "bwnode b" and ?x = "bchain b ! bwnode b" and ?xs = "drop (Suc (bwnode b)) (bchain b)"
  note ns = drop_wnode_Cons [OF inv]
  have w: "?w < length (bchain b)" using inv by (simp add: buf_inv_def)
  have lb: "length (concat bs) < 2 ^ 32" using len by linarith
  obtain used left wl j ns' where l: "link_loop bs (?x # ?xs) = (left, wl, length (concat used), j, ns')"
    and bs: "bs = used @ left" and lk: "linked used (?x # ?xs) ns' (case j of None \<Rightarrow> 0 | Some j \<Rightarrow> j)"
    and full: "left \<noteq> [] \<longrightarrow> Suc (case j of None \<Rightarrow> 0 | Some j \<Rightarrow> j) = length (?x # ?xs)"
    by (rule link_loop_ok [OF ns(2,3) lb])
  let ?k = "case j of None \<Rightarrow> 0 | Some j \<Rightarrow> j"
  let ?b = "b\<lparr>bchain := take ?w (bchain b) @ ns', bwnode := ?w + ?k, bwlen := bwlen b - of_int wl,
      brlen := brlen b + of_nat (length (concat used))\<rparr>"
  have cd: "chain_data ns' = chain_data (drop ?w (bchain b)) @ concat used"
    using lk unfolding linked_def ns(1) by (metis concat_append concat_chain_blocks concat_nonempty)
  have lu: "length (content b) + length (concat used) < 2 ^ 32" using len bs by simp
  have "buf_inv ?b"
    using lk lu by (intro buf_inv_extend [OF inv _ _ cd]) (auto simp: linked_def)
  moreover have "blocks b = chain_blocks (take ?w (bchain b)) @ chain_blocks (?x # ?xs)"
    unfolding blocks_def ns(1) [symmetric] by (metis append_take_drop_id chain_blocks_simps(3))
  then have "blocks ?b = blocks b @ nonempty used" using lk by (simp add: blocks_def linked_def)
  moreover have "linkWithExistingNodes bs b = (left, length (concat used), ?b)"
    unfolding linkWithExistingNodes_def ns(1) l by (simp split: option.split)
  moreover have "length (bchain ?b) = length (bchain b)" using lk w by (simp add: linked_def)
  moreover have "left \<noteq> [] \<longrightarrow> tight ?b" using full lk w by (auto simp: tight_def linked_def)
  ultimately show ?thesis using bs by (intro exI [of _ used] exI [of _ left] exI [of _ ?b]) simp
qed

lemma chain_initialize_eq:
  "chain_initialize rec bs =
     (map (\<lambda>p. setBlock p (allocNode\<lparr>nrecycle := rec\<rparr>)) (nonempty bs), length (concat bs))"
  by (induction bs) auto

lemma linkWithNewNodes_ok:
  assumes inv: "buf_inv b" and t: "tight b" and len: "length (content b) + length (concat bs) < 2 ^ 32"
  shows "\<exists>b'. linkWithNewNodes bs b = (length (concat bs), None, b') \<and> buf_inv b' \<and>
    blocks b' = blocks b @ nonempty bs \<and> tight b'"
proof (cases "length (concat bs) = 0")
  case True
  then have "nonempty bs = []" by (simp add: filter_empty_conv)
  with True inv t show ?thesis by (simp add: linkWithNewNodes_def chain_initialize_eq)
next
  case False
  let ?sb = "\<lambda>p. setBlock p (allocNode\<lparr>nrecycle := False\<rparr>)"
  let ?c = "map ?sb (nonempty bs)"
  let ?w = "bwnode b" and ?x = "bchain b ! bwnode b"
  have w: "Suc ?w = length (bchain b)" using t by (simp add: tight_def)
  note ns = drop_wnode_Cons [OF inv]
  have sb: "node_ok (?sb p) \<and> node_data (?sb p) = p" if "p \<in> set (nonempty bs)" for p
  proof -
    have "length p \<le> length (concat bs)"
      using that unfolding length_concat by (intro member_le_sum_list) auto
    then have "length p < 2 ^ 32" using len by linarith
    then show ?thesis using setBlock_ok [of p "allocNode\<lparr>nrecycle := False\<rparr>"]
      by (simp add: allocNode_def zero_node_def)
  qed
  then have "map node_data ?c = nonempty bs" unfolding map_map by (intro map_idI) simp
  then have cb: "chain_blocks ?c = nonempty bs" by (simp only: chain_blocks_def filter_filter) simp
  then have cd: "chain_data (?x # ?c) = chain_data (drop ?w (bchain b)) @ concat bs"
    unfolding ns(1) using w concat_chain_blocks [of ?c] by (simp add: concat_nonempty)
  let ?b = "b\<lparr>bchain := take ?w (bchain b) @ ?x # ?c, bwnode := ?w + length ?c, bwlen := bwlen b,
      brlen := brlen b + of_nat (length (concat bs))\<rparr>"
  have "list_all node_ok (?x # ?c)" using ns(2) sb by (auto simp: list_all_iff)
  from buf_inv_extend [OF inv _ this cd _ len, where k = "length ?c" and wl = "bwlen b"]
  have "buf_inv ?b" by simp
  moreover have tk: "take (Suc ?w) (bchain b) = take ?w (bchain b) @ [?x]"
    using w by (intro take_Suc_conv_app_nth) simp
  then have "bchain b = take ?w (bchain b) @ [?x]" using w by simp
  then have "blocks b = chain_blocks (take ?w (bchain b) @ [?x])" unfolding blocks_def by simp
  then have "blocks ?b = blocks b @ nonempty bs" using cb by (simp add: blocks_def)
  moreover have "linkWithNewNodes bs b = (length (concat bs), None, ?b)"
    unfolding linkWithNewNodes_def chain_initialize_eq addChain_def tk using False w by auto
  moreover have "tight ?b" using w by (simp add: tight_def)
  ultimately show ?thesis by blast
qed

lemma linkFrom_ok:
  assumes inv: "buf_inv b" and len: "length (content b) + length (concat bs) < 2 ^ 32"
  shows "\<exists>b'. linkFromLocked bs b = (length (concat bs), None, b') \<and> buf_inv b' \<and>
    blocks b' = blocks b @ nonempty bs \<and> (tight b \<longrightarrow> tight b')"
proof -
  obtain used left b1 where b1: "linkWithExistingNodes bs b = (left, length (concat used), b1)"
    "bs = used @ left" "buf_inv b1" "blocks b1 = blocks b @ nonempty used"
    "length (bchain b1) = length (bchain b)" "bwnode b \<le> bwnode b1" "left \<noteq> [] \<longrightarrow> tight b1"
    using linkWithExistingNodes_ok [OF assms] by blast
  have t: "tight b \<longrightarrow> tight b1"
    using b1(3,5,6) by (auto simp: tight_def buf_inv_def)
  show ?thesis
  proof (cases "left = []")
    case True
    with b1 t show ?thesis by (simp add: linkFromLocked_def)
  next
    case False
    have "length (content b1) + length (concat left) < 2 ^ 32"
      using len b1(2,4) by (simp add: content_blocks concat_nonempty)
    then obtain b2 where "linkWithNewNodes left b1 = (length (concat left), None, b2)" "buf_inv b2"
      "blocks b2 = blocks b1 @ nonempty left" "tight b2"
      using linkWithNewNodes_ok [OF b1(3)] b1(7) False by blast
    with False b1 show ?thesis by (simp add: linkFromLocked_def)
  qed
qed

section \<open>Allocation\<close>

text \<open>The node counts of \<open>calNodes\<close>: enough room for the request, capped at \<open>maxFillLen\<close>, and not one
  node too many.\<close>

lemma ceil_div:
  fixes n s :: nat
  assumes "0 < s"
  shows "n \<le> (n + s - 1) div s * s" and "0 < n \<Longrightarrow> (n + s - 1) div s * s < n + s"
proof -
  let ?q = "(n + s - 1) div s"
  have eq: "?q * s + (n + s - 1) mod s = n + s - 1" by simp
  moreover have "(n + s - 1) mod s < s" using assms by simp
  ultimately show "n \<le> ?q * s" by linarith
  show "?q * s < n + s" if "0 < n" using eq that by linarith
qed

lemma calNodes_ok:
  assumes inv: "buf_inv b"
  defines "r \<equiv> node_space (bchain b ! bwnode b)" and "s \<equiv> unat (bnodeBlockSize b)"
  shows "\<exists>j. calNodes (int n) b = Inr (Suc j) \<and> min n maxFillLen \<le> r + j * s \<and>
    (0 < j \<longrightarrow> r + j * s < min n maxFillLen + s)"
proof -
  define m where "m = min n maxFillLen"
  have w: "node_at b (bwnode b) = Some (bchain b ! bwnode b)" using inv by (simp add: buf_inv_def node_at_def)
  have rest: "node_rest (bchain b ! bwnode b) = int r"
    using drop_wnode_Cons(2) [OF inv] by (simp add: r_def node_rest_space)
  have s: "0 < s" using inv by (simp add: buf_inv_def nbs_ok_def blockSize_def s_def)
  have m: "(if int n > int maxFillLen then int maxFillLen else int n) = int m" by (simp add: m_def)
  show ?thesis
  proof (cases "m \<le> r")
    case True
    then show ?thesis
      unfolding calNodes_def w option.case m rest Let_def m_def [symmetric] by (intro exI [of _ 0]) simp
  next
    case False
    let ?q = "(m - r + s - 1) div s"
    have "nat (int m - int r) = m - r" by simp
    with False s have "calNodes (int n) b = Inr (Suc ?q)"
      unfolding calNodes_def w option.case m rest Let_def calNodesNum_def by (simp add: s_def)
    moreover have "m \<le> r + ?q * s" "r + ?q * s < m + s"
      using False ceil_div [OF s, of "m - r"] by linarith+
    ultimately show ?thesis unfolding m_def [symmetric] by blast
  qed
qed

lemma calNodes_total:
  assumes inv: "buf_inv b"
  shows "\<exists>num. calNodes n b = Inr num"
proof (cases "0 \<le> n")
  case True
  then show ?thesis using calNodes_ok [OF inv, of "nat n"] by auto
next
  case False
  moreover have "node_at b (bwnode b) = Some (bchain b ! bwnode b)" "0 \<le> node_rest (bchain b ! bwnode b)"
    using inv drop_wnode_Cons(2) [OF inv] by (simp_all add: buf_inv_def node_at_def node_rest_space)
  ultimately show ?thesis by (simp add: calNodes_def maxFillLen_def)
qed

text \<open>What \<open>readv(2)\<close> promises: it stores at most as many bytes as the vector has room for, and at most
  \<open>0x7ffff000\<close> per call.\<close>

definition readv_ok :: "(nat list \<Rightarrow> err + byte list) \<Rightarrow> bool" where
  "readv_ok readv \<longleftrightarrow>
     (\<forall>ls bs. readv ls = Inr bs \<longrightarrow> length bs \<le> sum_list ls \<and> length bs \<le> 0x7ffff000)"

definition new_node :: "(nat \<Rightarrow> byte list) \<Rightarrow> buffer \<Rightarrow> node" where
  "new_node alloc b = allocNodeBlock alloc (unat (bnodeBlockSize b))"

context block_source
begin

lemma new_node:
  assumes "nbs_ok (bnodeBlockSize b)"
  shows "node_ok (new_node alloc b)" "spare (new_node alloc b)" "node_space (new_node alloc b) = unat (bnodeBlockSize b)"
    "node_len (new_node alloc b) = 0"
proof -
  have "length (alloc (unat (bnodeBlockSize b))) = unat (bnodeBlockSize b)"
    by (rule alloc_len [OF unat_u32_less])
  moreover have "0 < unat (bnodeBlockSize b)" using assms by (simp add: nbs_ok_def blockSize_def)
  ultimately show "node_ok (new_node alloc b)" "spare (new_node alloc b)"
    "node_space (new_node alloc b) = unat (bnodeBlockSize b)" "node_len (new_node alloc b) = 0"
    using unat_u32_less [of "bnodeBlockSize b"]
    by (auto simp: new_node_def node_defs node_ok_def spare_def node_space_def)
qed

lemma addNode_eq:
  assumes "bchain b \<noteq> []" and "nbs_ok (bnodeBlockSize b)"
  shows "\<exists>wl. addNode alloc b = (None, b\<lparr>bchain := bchain b @ [new_node alloc b], bwlen := wl\<rparr>)"
  using assms new_node(4) [OF assms(2)]
  by (intro exI [of _ "bwlen b + of_int (node_rest (new_node alloc b))"])
    (simp add: addNode_def new_node_def Let_def)

lemma addNodes_eq:
  assumes "bchain b \<noteq> []" and "nbs_ok (bnodeBlockSize b)"
  shows "\<exists>wl. addNodes alloc i b = (None, b\<lparr>bchain := bchain b @ replicate i (new_node alloc b), bwlen := wl\<rparr>)"
  using assms
proof (induction i arbitrary: b)
  case 0
  show ?case by (rule exI [of _ "bwlen b"]) simp
next
  case (Suc i)
  obtain wl where "addNode alloc b = (None, b\<lparr>bchain := bchain b @ [new_node alloc b], bwlen := wl\<rparr>)"
    using addNode_eq [OF Suc.prems] by blast
  moreover have "new_node alloc (b\<lparr>bchain := c, bwlen := wl\<rparr>) = new_node alloc b" for c wl
    by (simp add: new_node_def)
  ultimately show ?case
    using Suc.IH [of "b\<lparr>bchain := bchain b @ [new_node alloc b], bwlen := wl\<rparr>"] Suc.prems by auto
qed

lemma buf_inv_new_nodes:
  fixes i :: nat and wl :: u32
  assumes inv: "buf_inv b"
  defines "b' \<equiv> b\<lparr>bchain := bchain b @ replicate i (new_node alloc b), bwlen := wl\<rparr>"
  shows "buf_inv b'" and "blocks b' = blocks b"
    and "capacity b' = capacity b + i * unat (bnodeBlockSize b)"
proof -
  have nbs: "nbs_ok (bnodeBlockSize b)" and w: "bwnode b < length (bchain b)" "brnode b \<le> bwnode b"
    using inv by (simp_all add: buf_inv_def)
  note nn = new_node [OF nbs]
  have d: "chain_data (replicate i (new_node alloc b)) = []" "chain_blocks (replicate i (new_node alloc b)) = []"
    using spare_data [OF nn(2)] by (induction i) simp_all
  show "blocks b' = blocks b" by (simp add: b'_def blocks_def d)
  show "capacity b' = capacity b + i * unat (bnodeBlockSize b)"
    using w by (simp add: b'_def capacity_def space_def sum_list_replicate nn(3))
  show "buf_inv b'"
    using inv w nn(1,2) by (auto simp: b'_def buf_inv_def content_def d list_all_iff)
qed

lemma prepareFill_ok:
  assumes inv: "buf_inv b"
  shows "\<exists>b' i. prepareFill alloc b = (None, b') \<and> buf_inv b' \<and> blocks b' = blocks b \<and>
    0 < node_space (bchain b' ! bwnode b') \<and> bnodeBlockSize b' = bnodeBlockSize b \<and>
    bchain b' = bchain b @ replicate i (new_node alloc b) \<and> (tight b \<longrightarrow> tight b') \<and>
    (tight b \<and> isFull (bchain b ! bwnode b) \<longrightarrow>
       node_space (bchain b' ! bwnode b') = unat (bnodeBlockSize b))"
proof -
  let ?x = "bchain b ! bwnode b"
  have w: "bwnode b < length (bchain b)" "brnode b \<le> bwnode b" using inv by (simp_all add: buf_inv_def)
  note ns = drop_wnode_Cons [OF inv]
  have nd: "node_at b (bwnode b) = Some ?x" using w by (simp add: node_at_def)
  have full: "isFull ?x \<longleftrightarrow> node_space ?x = 0"
    using ns(2) by (simp add: isFull_iff node_rest_space)
  have move: "buf_inv (c\<lparr>bwnode := Suc (bwnode c)\<rparr>)" "0 < node_space (bchain c ! Suc (bwnode c))"
    if c: "buf_inv c" "Suc (bwnode c) < length (bchain c)" for c
  proof -
    have "spare (bchain c ! Suc (bwnode c))"
      using c by (auto simp: buf_inv_def list_all_length dest!: spec [of _ 0])
    then show "0 < node_space (bchain c ! Suc (bwnode c))" by (rule spare_space)
    show "buf_inv (c\<lparr>bwnode := Suc (bwnode c)\<rparr>)"
      using c list_all_take_drop(2) [of spare "drop (Suc (bwnode c)) (bchain c)" 1]
      by (auto simp: buf_inv_def content_def)
  qed
  consider "\<not> isFull ?x" | "isFull ?x" "Suc (bwnode b) < length (bchain b)"
    | "isFull ?x" "\<not> Suc (bwnode b) < length (bchain b)" by blast
  then show ?thesis
  proof cases
    case 1
    with inv full nd show ?thesis by (intro exI [of _ b] exI [of _ 0]) (simp add: prepareFill_def)
  next
    case 2
    with move [OF inv 2(2)] nd show ?thesis
      by (intro exI [of _ "b\<lparr>bwnode := Suc (bwnode b)\<rparr>"] exI [of _ 0])
        (auto simp: prepareFill_def blocks_def tight_def)
  next
    case 3
    let ?b = "\<lambda>wl. b\<lparr>bchain := bchain b @ [new_node alloc b], bwlen := wl\<rparr>"
    have "bchain b \<noteq> []" "nbs_ok (bnodeBlockSize b)" using inv by (auto simp: buf_inv_def)
    then obtain wl where a: "addNode alloc b = (None, ?b wl)" using addNode_eq by blast
    have "buf_inv (?b wl)" "blocks (?b wl) = blocks b"
      using buf_inv_new_nodes [OF inv, where i = 1 and wl = wl] by simp_all
    moreover have "node_space (new_node alloc b) = unat (bnodeBlockSize b)"
      using inv by (intro new_node) (simp add: buf_inv_def)
    ultimately show ?thesis using move [of "?b wl"] w 3 nd a
      by (intro exI [of _ "(?b wl)\<lparr>bwnode := Suc (bwnode b)\<rparr>"] exI [of _ 1])
        (auto simp: prepareFill_def blocks_def tight_def nth_append)
  qed
qed

lemma malloc_ok:
  assumes inv: "buf_inv b"
  shows "\<exists>wl. malloc alloc num b = (None, b\<lparr>bchain := bchain b @
    replicate (num - (length (bchain b) - bwnode b)) (new_node alloc b), bwlen := wl\<rparr>)"
proof (cases "num \<le> length (bchain b) - bwnode b")
  case True
  then show ?thesis by (intro exI [of _ "bwlen b"]) (simp add: malloc_def)
next
  case False
  moreover have "bchain b \<noteq> []" "nbs_ok (bnodeBlockSize b)" using inv by (auto simp: buf_inv_def)
  ultimately show ?thesis using addNodes_eq [of b] by (simp add: malloc_def)
qed

text \<open>The whole copying write: a prefix of the data goes in, at least \<open>maxFillLen\<close> bytes of it when no
  spare node follows \<open>wnode\<close>. The second part is how much fits when \<open>wnode\<close> starts full.\<close>

lemma tight_after_copy:
  assumes inv: "buf_inv b'" and k: "list_all2 kept (bchain b) (bchain b')" and w: "bwnode b \<le> bwnode b'"
    and ch: "Suc (bwnode b) + j = length (bchain b)"
    and last: "0 < j \<Longrightarrow> node_cap (last (bchain b)) = s \<and> capacity b' < s"
  shows "tight b'"
proof (rule ccontr)
  assume "\<not> tight b'"
  let ?n = "length (bchain b') - 1"
  have len: "length (bchain b') = length (bchain b)" using k by (auto dest: list_all2_lengthD)
  have lt: "bwnode b' < ?n"
    using inv \<open>\<not> tight b'\<close> by (auto simp: buf_inv_def tight_def)
  then have "0 < j" using ch w len by linarith
  have in_drop: "last (bchain b') \<in> set (drop i (bchain b'))" if "i \<le> ?n" for i
  proof -
    have "last (drop i (bchain b')) = last (bchain b')" "drop i (bchain b') \<noteq> []"
      using that lt by (auto intro: last_drop)
    then show ?thesis using last_in_set by metis
  qed
  from in_drop [of "Suc (bwnode b')"] lt have sp: "spare (last (bchain b'))" using inv by (auto simp: buf_inv_def list_all_iff)
  from in_drop [of "bwnode b'"] lt have "node_space (last (bchain b')) \<le> capacity b'"
    unfolding capacity_def space_def by (intro member_le_sum_list) auto
  moreover have "bchain b \<noteq> []" "bchain b' \<noteq> []" using lt len by auto
  then have "kept (last (bchain b)) (last (bchain b'))"
    using k len by (simp add: last_conv_nth list_all2_conv_all_nth)
  ultimately show False
    using last [OF \<open>0 < j\<close>] sp by (simp add: kept_def spare_def node_space_def)
qed

lemma copyFromLocked_ok:
  assumes inv: "buf_inv b" and len: "length (content b) + length (concat bs) < 2 ^ 32"
  defines "n \<equiv> length (concat bs)" and "s \<equiv> unat (bnodeBlockSize b)"
  shows "\<exists>c b'. copyFromLocked alloc n bs b = (min n c, None, b') \<and> buf_inv b' \<and>
    content b' = content b @ take (min n c) (concat bs) \<and>
    list_all2 kept (bchain b) (take (length (bchain b)) (bchain b')) \<and>
    (tight b \<longrightarrow> tight b' \<and> min n maxFillLen \<le> c \<and>
      (isFull (bchain b ! bwnode b) \<longrightarrow> (\<exists>j. c = Suc j * s \<and> (0 < j \<longrightarrow> c < min n maxFillLen + s))))"
proof -
  obtain b1 i where b1: "prepareFill alloc b = (None, b1)" "buf_inv b1" "blocks b1 = blocks b"
    "bnodeBlockSize b1 = bnodeBlockSize b" "bchain b1 = bchain b @ replicate i (new_node alloc b)"
    "tight b \<longrightarrow> tight b1" "tight b \<and> isFull (bchain b ! bwnode b) \<longrightarrow> node_space (bchain b1 ! bwnode b1) = s"
    using prepareFill_ok [OF inv] unfolding s_def by blast
  let ?r = "node_space (bchain b1 ! bwnode b1)"
  obtain j where j: "calNodes (int n) b1 = Inr (Suc j)" "min n maxFillLen \<le> ?r + j * s"
    "0 < j \<longrightarrow> ?r + j * s < min n maxFillLen + s"
    using calNodes_ok [OF b1(2), of n] b1(4) unfolding s_def by auto
  define e where "e = Suc j - (length (bchain b1) - bwnode b1)"
  obtain wl where m: "malloc alloc (Suc j) b1 =
      (None, b1\<lparr>bchain := bchain b1 @ replicate e (new_node alloc b1), bwlen := wl\<rparr>)" (is "_ = (None, ?b2 wl)")
    using malloc_ok [OF b1(2)] unfolding e_def by blast
  note b2 = buf_inv_new_nodes [OF b1(2), where i = e and wl = wl]
  let ?c = "capacity (?b2 wl)"
  have cb: "content (?b2 wl) = content b" using b1(3) b2(2) by (simp add: content_blocks)
  obtain b' where b': "copy_slices bs 0 (?b2 wl) = (min n ?c, None, b')" "buf_inv b'"
    "content b' = content b @ take (min n ?c) (concat bs)" "capacity b' + min n ?c = ?c"
    "list_all2 kept (bchain (?b2 wl)) (bchain b')" "bwnode (?b2 wl) \<le> bwnode b'"
    using copy_slices_ok [OF b2(1), of bs 0] len cb unfolding n_def by auto
  have "list_all2 kept (take (length (bchain b)) (bchain (?b2 wl))) (take (length (bchain b)) (bchain b'))"
    by (rule list_all2_takeI [OF b'(5)])
  then have kb: "list_all2 kept (bchain b) (take (length (bchain b)) (bchain b'))" using b1(5) by simp
  have room: "?c = ?r + j * s" "e = j" "Suc (bwnode b1) = length (bchain b1)" if "tight b"
  proof -
    show t: "Suc (bwnode b1) = length (bchain b1)" using that b1(6) by (simp add: tight_def)
    then show "e = j" by (simp add: e_def)
    with t show "?c = ?r + j * s"
      using b2(3) b1(4) drop_wnode_Cons(1) [OF b1(2)] by (simp add: capacity_def s_def)
  qed
  have "tight b'" if "tight b"
  proof (rule tight_after_copy [OF b'(2,5,6), of j])
    show "Suc (bwnode (?b2 wl)) + j = length (bchain (?b2 wl))" using room [OF that] by simp
    assume "0 < j"
    have "0 < s" using inv by (simp add: s_def buf_inv_def nbs_ok_def blockSize_def)
    with b'(4) room(1) [OF that] j(3) \<open>0 < j\<close> have "capacity b' < s" by linarith
    moreover have "nbs_ok (bnodeBlockSize b1)" using b1(2) by (simp add: buf_inv_def)
    from new_node(2,3) [OF this] have "node_cap (new_node alloc b1) = s"
      using b1(4) by (simp add: node_space_def spare_def s_def)
    ultimately show "node_cap (last (bchain (?b2 wl))) = s \<and> capacity b' < s"
      using room(2) [OF that] \<open>0 < j\<close> by (simp add: last_replicate)
  qed
  moreover have "copyFromLocked alloc n bs b = (min n ?c, None, b')"
    using b1(1) j(1) m b'(1) by (simp add: copyFromLocked_def)
  moreover have "min n maxFillLen \<le> ?c \<and> (isFull (bchain b ! bwnode b) \<longrightarrow>
      (\<exists>j. ?c = Suc j * s \<and> (0 < j \<longrightarrow> ?c < min n maxFillLen + s)))" if "tight b"
    using room(1) [OF that] j(2,3) b1(7) that by (auto intro: exI [of _ j])
  ultimately show ?thesis using b'(2,3) kb by blast
qed

lemma Fill_ok:
  assumes inv: "buf_inv b" and io: "vec (ByteVec ioData) = []" and n: "LenRead b \<le> MaxBufferSize"
    and rv: "readv_ok readv"
  shows "\<exists>ls io' b'. Fill alloc readv n ioData b =
      ((case readv ls of Inl e \<Rightarrow> Some e | Inr _ \<Rightarrow> None), io', b') \<and>
    buf_inv b' \<and> content b' = content b @ (case readv ls of Inl _ \<Rightarrow> [] | Inr bs \<Rightarrow> bs) \<and>
    ls \<noteq> [] \<and> 0 \<notin> set ls \<and> list_all2 kept (bchain b) (take (length (bchain b)) (bchain b'))"
proof -
  obtain b1 i where b1: "prepareFill alloc b = (None, b1)" "buf_inv b1" "blocks b1 = blocks b"
    "0 < node_space (bchain b1 ! bwnode b1)" "bchain b1 = bchain b @ replicate i (new_node alloc b)"
    using prepareFill_ok [OF inv] by blast
  obtain num where num: "calNodes n b1 = Inr num"
    using calNodes_total [OF b1(2)] by blast
  define e where "e = num - (length (bchain b1) - bwnode b1)"
  obtain wl where m: "malloc alloc num b1 =
      (None, b1\<lparr>bchain := bchain b1 @ replicate e (new_node alloc b1), bwlen := wl\<rparr>)"
    using malloc_ok [OF b1(2)] unfolding e_def by blast
  define b2 where "b2 = b1\<lparr>bchain := bchain b1 @ replicate e (new_node alloc b1), bwlen := wl\<rparr>"
  have b2: "buf_inv b2" "content b2 = content b"
    using buf_inv_new_nodes [OF b1(2), where i = e and wl = wl] b1(3) unfolding b2_def content_blocks by auto
  have ch: "bchain b2 = bchain b @ replicate i (new_node alloc b) @ replicate e (new_node alloc b1)"
    "bwnode b2 = bwnode b1" "bchain b2 ! bwnode b2 = bchain b1 ! bwnode b1"
    using b1(2,5) by (auto simp: b2_def nth_append buf_inv_def)
  let ?ns = "drop (bwnode b2) (bchain b2)"
  define bv where "bv = map (\<lambda>x. drop (unat (nw x)) (nblock x)) ?ns"
  note ns = drop_wnode_Cons [OF b2(1)]
  have "list_all (\<lambda>x. 0 < node_space x \<and> length (nblock x) < 2 ^ 32) ?ns"
    using ns b1(4) ch(3) spare_space by (auto simp: list_all_iff node_ok_def)
  then have sp: "0 < node_space x" "length (nblock x) < 2 ^ 32" if "x \<in> set ?ns" for x
    using that by (simp_all add: list_all_iff)
  then have ne: "\<forall>s \<in> set bv. s \<noteq> []" by (fastforce simp: bv_def node_space_def node_cap_def)
  define io1 where "io1 = ioData\<lparr>ByteVec := Some bv\<rparr>"
  define iv where "iv = map (\<lambda>s. (Some s, of_nat (length s) :: u64)) bv"
  have cnt: "countNodeAndFillByteVec b2 ioData = (length bv, io1)"
    using io by (simp add: countNodeAndFillByteVec_def io1_def bv_def)
  have set: "SetIOVec (length bv) io1 = (None, io1\<lparr>IOVec := Some iv\<rparr>)"
    using ne by (subst SetIOVec_ok) (simp_all add: io1_def iv_def)
  let ?ls = "map node_space ?ns"
  have "unat (of_nat (length (nblock x) - unat (nw x)) :: u64) = node_space x" if "x \<in> set ?ns" for x
  proof -
    have "length (nblock x) - unat (nw x) < 2 ^ 64" using sp(2) [OF that] by simp
    then show ?thesis by (simp add: node_space_def node_cap_def unat_of_nat)
  qed
  then have ls: "map (unat \<circ> snd) (take (length bv) iv) = ?ls" by (simp add: iv_def bv_def)
  have lsp: "sum_list ?ls = capacity b2" by (simp add: capacity_def space_def)
  have lne: "?ls \<noteq> []" "0 \<notin> set ?ls" using ns(1) sp(1) by fastforce+
  define io2 where "io2 = IOData_Release (length bv) (io1\<lparr>IOVec := Some iv\<rparr>)"
  have le: "\<not> LenRead b > MaxBufferSize" using n by simp
  have F: "Fill alloc readv n ioData b = (case readv ?ls of
       Inl e \<Rightarrow> (Some e, io2, b2)
     | Inr bs \<Rightarrow> (case copy_loop bs 0 ?ns of
          (Inl e, ns) \<Rightarrow> (Some e, io2, b2)
        | (Inr _, ns) \<Rightarrow> (None, io2, adjust (length bs) (b2\<lparr>bchain := take (bwnode b2) (bchain b2) @ ns\<rparr>))))"
    unfolding Fill_def io2_def using le b1(1) num m [folded b2_def] cnt set ls by simp
  show ?thesis
  proof (cases "readv ?ls")
    case (Inl err)
    with F b2 lne ch show ?thesis by (intro exI [of _ ?ls] exI [of _ io2] exI [of _ b2]) simp
  next
    case (Inr bs)
    then have len: "length bs \<le> capacity b2" "length bs \<le> 0x7ffff000"
      using rv lsp unfolding readv_ok_def by metis+
    have tot: "length (content b2) + length bs < 2 ^ 32"
      using len(2) n LenRead_content [OF inv] b2(2) by (simp add: MaxBufferSize_def)
    have "min (length bs) (capacity b2) = length bs" using len(1) by simp
    then obtain ns1 ns2 k where c: "copy_loop bs 0 ?ns = (Inr (length bs), ns1)"
      and a: "adjust_loop (int (length bs)) ns1 = (ns2, k)" and ap: "appended bs ?ns ns2 k"
      using copy_adjust_ok [OF ns(2,3), of 0 bs] unfolding capacity_def ns(1) by auto
    have w: "bwnode b2 < length (bchain b2)" using b2(1) by (simp add: buf_inv_def)
    define b3 where "b3 = adjust (length bs) (b2\<lparr>bchain := take (bwnode b2) (bchain b2) @ ns1\<rparr>)"
    have eq: "b3 = b2\<lparr>bchain := take (bwnode b2) (bchain b2) @ ns2, bwnode := bwnode b2 + k,
        bwlen := bwlen b2 - of_nat (length bs), brlen := brlen b2 + of_nat (length bs)\<rparr>"
      using a w unfolding b3_def by (simp add: adjust_def min_absorb2)
    note app = buf_inv_append [OF b2(1) ap tot, where wl = "bwlen b2 - of_nat (length bs)", folded eq]
    have "list_all2 kept (take (length (bchain b)) (bchain b2)) (take (length (bchain b)) (bchain b3))"
      by (rule list_all2_takeI [OF app(4)])
    with F Inr c lne app b2(2) ch(1) show ?thesis
      by (intro exI [of _ ?ls] exI [of _ io2] exI [of _ b3]) (simp add: b3_def)
  qed
qed

end

end
