(* ===== verification/Buffer_Queue.thy ===== *)
theory Buffer_Queue
  imports Link_Buffer_Write
begin

text \<open>
  The linked buffer against its abstract specification. \<open>spec_call\<close> is a queue of bytes: writes append,
  reads take from the front. \<open>buf_call\<close> runs the same calls on the model of \<open>Buffer\<close>. The refinement
  theorem relates arbitrary sequences of calls; the other properties cover the packet operations, the
  size limit, \<open>Fill\<close> and what happens to memory that belongs to the user.
\<close>

section \<open>Unused nodes\<close>

lemma readn_loop_length: "readn_loop n ack ns = (r, a, ns', k) \<Longrightarrow> length ns' = length ns"
proof (induction n ack ns arbitrary: r a ns' k rule: readn_loop.induct)
  case (2 n ack x xs)
  then show ?case
    by (simp add: readn_loop.simps(2) [of n ack] Let_def split: if_splits sum.splits prod.splits)
      (metis length_Cons prod.exhaust_sel)+
qed simp

lemma skip_loop_length: "skip_loop n ack ns = (e, a, ns', k) \<Longrightarrow> length ns' = length ns"
proof (induction n ack ns arbitrary: e a ns' k rule: skip_loop.induct)
  case (2 n ack x xs)
  then show ?case
    by (simp add: skip_loop.simps(2) [of n ack] Let_def split: if_splits sum.splits prod.splits)
      (metis length_Cons prod.exhaust_sel)+
qed simp

lemma chain_length_update: "length ns = length xs - r \<Longrightarrow> length (take r xs @ ns) = length xs"
  by (simp add: min_def)

lemma tight_read:
  "tight b \<Longrightarrow> Peek n b = (p, e, b') \<Longrightarrow> tight b'"
  "tight b \<Longrightarrow> Skip n b = (e, b') \<Longrightarrow> tight b'"
  "tight b \<Longrightarrow> Next n b = (p, e, b') \<Longrightarrow> tight b'"
  "tight b \<Longrightarrow> read_locked m b = (c, e, b') \<Longrightarrow> tight b'"
  by (auto simp: tight_def Peek_def Skip_def Next_def read_locked_def Let_def
      dest!: readn_loop_length skip_loop_length
      split: if_splits option.splits sum.splits prod.splits)

lemma tight_OptimizeMemory: "tight b \<Longrightarrow> OptimizeMemory c b = (e, b') \<Longrightarrow> tight b'"
  by (auto simp: tight_def OptimizeMemory_def CleanUpWithLock_def Let_def split: if_splits option.splits)

lemma tight_Release:
  assumes t: "tight b" and R: "Release c b = (e, b')"
  shows "tight b'"
proof -
  let ?b = "\<lambda>s. b\<lparr>bchain := drop (brnode b) (bchain b), brnode := 0, bwnode := bwnode b - brnode b,
      bnodeBlockSize := s\<rparr>"
  have tt: "tight (?b s)" if "\<not> bwnode b < brnode b" for s
    using t that by (auto simp: tight_def)
  from R t tt [of "bnodeBlockSize b"] show ?thesis
    by (auto simp: Release_def Let_def split: if_splits option.splits
        intro: tight_OptimizeMemory tight_OptimizeMemory [OF tt])
qed

section \<open>Refinement of the byte queue\<close>

datatype bcall =
    BPeek int | BSkip int | BNext int | BRead nat | BRelease | BLenRead
  | BWritev bool "byte list list" | BWritevLimited bool int "byte list list"

datatype bres = RBytes "byte list" "err option" | RErr "err option" | RCount nat "byte list" "err option"

fun buf_call :: "(nat \<Rightarrow> byte list) \<Rightarrow> bool \<Rightarrow> bcall \<Rightarrow> buffer \<Rightarrow> bres \<times> buffer" where
  "buf_call alloc cleanUp (BPeek n) b = (case Peek n b of (p, e, b) \<Rightarrow> (RBytes p e, b))"
| "buf_call alloc cleanUp (BSkip n) b = (case Skip n b of (e, b) \<Rightarrow> (RErr e, b))"
| "buf_call alloc cleanUp (BNext n) b = (case Next n b of (p, e, b) \<Rightarrow> (RBytes p e, b))"
| "buf_call alloc cleanUp (BRead m) b = (case buffer_Read cleanUp m b of ((n, p), e, b) \<Rightarrow> (RCount n p e, b))"
| "buf_call alloc cleanUp BRelease b = (case Release cleanUp b of (e, b) \<Rightarrow> (RErr e, b))"
| "buf_call alloc cleanUp BLenRead b = (RCount (LenRead b) [] None, b)"
| "buf_call alloc cleanUp (BWritev safe bs) b =
     (case Writev alloc safe bs b of (n, e, b) \<Rightarrow> (RCount n [] e, b))"
| "buf_call alloc cleanUp (BWritevLimited safe limit bs) b =
     (case WritevLimited alloc safe limit bs (Some b) of
        (n, e, Some b) \<Rightarrow> (RCount n [] e, b)
      | (n, e, None) \<Rightarrow> (RCount n [] e, b))"

fun buf_run :: "(nat \<Rightarrow> byte list) \<Rightarrow> bool \<Rightarrow> bcall list \<Rightarrow> buffer \<Rightarrow> bres list \<times> buffer" where
  "buf_run alloc cleanUp [] b = ([], b)"
| "buf_run alloc cleanUp (c # cs) b =
     (let (r, b) = buf_call alloc cleanUp c b; (rs, b) = buf_run alloc cleanUp cs b in (r # rs, b))"

text \<open>The specification: a byte list.\<close>

abbreviation no_data :: "err option" where
  "no_data \<equiv> Some ErrNoEnoughData"

fun spec_call :: "bcall \<Rightarrow> byte list \<Rightarrow> bres \<times> byte list" where
  "spec_call (BPeek n) d = (RBytes (fst (queue_take no_data n d)) (snd (queue_take no_data n d)), d)"
| "spec_call (BSkip n) d = (RErr (snd (queue_take no_data n d)), queue_drop n d)"
| "spec_call (BNext n) d =
     (RBytes (fst (queue_take no_data n d)) (snd (queue_take no_data n d)), queue_drop n d)"
| "spec_call (BRead m) d = (RCount (min m (length d)) (take m d) None, drop m d)"
| "spec_call BRelease d = (RErr None, d)"
| "spec_call BLenRead d = (RCount (length d) [] None, d)"
| "spec_call (BWritev safe bs) d = (RCount (length (concat bs)) [] None, d @ concat bs)"
| "spec_call (BWritevLimited safe limit bs) d =
     (if 0 < limit \<and> concat bs \<noteq> [] \<and> limit < int (length d + length (concat bs))
      then (RCount 0 [] (Some ErrBufferFull), d)
      else (RCount (length (concat bs)) [] None, d @ concat bs))"

fun spec_run :: "bcall list \<Rightarrow> byte list \<Rightarrow> bres list \<times> byte list" where
  "spec_run [] d = ([], d)"
| "spec_run (c # cs) d = (let (r, d) = spec_call c d; (rs, d) = spec_run cs d in (r # rs, d))"

text \<open>The sizes the implementation supports: the 32-bit length counter, and \<open>maxFillLen\<close> bytes per
  copying write.\<close>

fun spec_room :: "bcall \<Rightarrow> byte list \<Rightarrow> bool" where
  "spec_room (BWritev safe bs) d \<longleftrightarrow>
     length d + length (concat bs) < 2 ^ 32 \<and> (safe \<longrightarrow> length (concat bs) \<le> maxFillLen)"
| "spec_room (BWritevLimited safe limit bs) d \<longleftrightarrow>
     length d + length (concat bs) < 2 ^ 32 \<and> (safe \<longrightarrow> length (concat bs) \<le> maxFillLen)"
| "spec_room _ d \<longleftrightarrow> True"

fun spec_fits :: "bcall list \<Rightarrow> byte list \<Rightarrow> bool" where
  "spec_fits [] d \<longleftrightarrow> True"
| "spec_fits (c # cs) d \<longleftrightarrow> spec_room c d \<and> spec_fits cs (snd (spec_call c d))"

definition queue_rel :: "buffer \<Rightarrow> byte list \<Rightarrow> bool" where
  "queue_rel b d \<longleftrightarrow> buf_inv b \<and> tight b \<and> content b = d"

lemma byteSlicesLen_concat: "byteSlicesLen bs = length (concat bs)"
  by (simp add: byteSlicesLen_def length_concat)

lemma queue_rel_read:
  assumes "queue_rel b d"
  shows "\<exists>b'. Peek n b = (fst (queue_take no_data n d), snd (queue_take no_data n d), b') \<and> queue_rel b' d"
    and "\<exists>b'. Skip n b = (snd (queue_take no_data n d), b') \<and> queue_rel b' (queue_drop n d)"
    and "\<exists>b'. Next n b = (fst (queue_take no_data n d), snd (queue_take no_data n d), b') \<and>
        queue_rel b' (queue_drop n d)"
  using assms link_reader.peek_law [of b n] link_reader.skip_law [of b n] link_reader.nxt_law [of b n]
  by (auto simp: queue_rel_def intro: tight_read)

lemma queue_rel_Release: "queue_rel b d \<Longrightarrow> \<exists>b'. Release c b = (None, b') \<and> queue_rel b' d"
  using Release_content [of b c] by (auto simp: queue_rel_def intro: tight_Release)

lemma queue_rel_Read:
  assumes "queue_rel b d"
  shows "\<exists>b'. buffer_Read c m b = ((min m (length d), take m d), None, b') \<and> queue_rel b' (drop m d)"
proof -
  let ?k = "min m (length d)"
  have k: "take ?k d = take m d" "drop ?k d = drop m d" by (simp_all add: min_def)
  obtain b1 where b1: "read_locked m b = ((?k, take m d), None, b1)" "queue_rel b1 (drop m d)"
    using assms read_locked_ok [of b m] k by (auto simp: queue_rel_def intro: tight_read)
  with queue_rel_Release [OF b1(2), of c] assms show ?thesis
    by (cases "m = 0") (auto simp: buffer_Read_def)
qed

context block_source
begin

lemma queue_rel_write:
  assumes q: "queue_rel b d" and len: "length d + length (concat bs) < 2 ^ 32"
  shows "length (concat bs) \<le> maxFillLen \<Longrightarrow>
      \<exists>b'. copyFromLocked alloc (length (concat bs)) bs b = (length (concat bs), None, b') \<and>
        queue_rel b' (d @ concat bs)"
    and "\<exists>b'. linkFromLocked bs b = (length (concat bs), None, b') \<and> queue_rel b' (d @ concat bs)"
proof -
  have b: "buf_inv b" "tight b" "length (content b) + length (concat bs) < 2 ^ 32" "content b = d"
    using q len by (simp_all add: queue_rel_def)
  let ?n = "length (concat bs)"
  show "\<exists>b'. linkFromLocked bs b = (?n, None, b') \<and> queue_rel b' (d @ concat bs)"
    using linkFrom_ok [OF b(1,3)] b(2,4) by (auto simp: queue_rel_def content_blocks concat_nonempty)
  assume le: "?n \<le> maxFillLen"
  obtain c b' where "copyFromLocked alloc ?n bs b = (min ?n c, None, b')" "buf_inv b'"
    "content b' = content b @ take (min ?n c) (concat bs)" "tight b'" "min ?n maxFillLen \<le> c"
    using copyFromLocked_ok [OF b(1,3)] b(2) by blast
  moreover from this(5) le have "min ?n c = ?n" by linarith
  ultimately show "\<exists>b'. copyFromLocked alloc ?n bs b = (?n, None, b') \<and> queue_rel b' (d @ concat bs)"
    using b(4) by (simp add: queue_rel_def)
qed

lemma queue_rel_Writev:
  assumes "queue_rel b d" and "spec_room (BWritev safe bs) d"
  shows "\<exists>b'. Writev alloc safe bs b = (length (concat bs), None, b') \<and> queue_rel b' (d @ concat bs)"
  using assms queue_rel_write [OF assms(1), of bs]
  by (cases safe) (auto simp: Writev_def copyFrom_def linkFrom_def byteSlicesLen_concat)

lemma queue_rel_WritevLimited:
  assumes "queue_rel b d" and "spec_room (BWritevLimited safe limit bs) d"
  defines "r \<equiv> spec_call (BWritevLimited safe limit bs) d"
  shows "\<exists>b'. buf_call alloc c (BWritevLimited safe limit bs) b = (fst r, b') \<and> queue_rel b' (snd r)"
proof (cases "0 < limit \<and> concat bs \<noteq> []")
  case True
  have l: "LenRead b = length d" using assms(1) LenRead_content by (auto simp: queue_rel_def)
  define n where "n = length (concat bs)"
  have n: "n \<noteq> 0" using True by (simp add: n_def)
  have gt: "int n > limit - int (LenRead b) \<longleftrightarrow> limit < int (length d + n)" using l by auto
  have W: "WritevLimited alloc safe limit bs (Some b) =
      (if limit < int (length d + n) then (0, Some ErrBufferFull, Some b)
       else case if safe then copyFromLocked alloc n bs b else linkFromLocked bs b of
         (n, e, b) \<Rightarrow> (n, e, Some b))"
    unfolding WritevLimited_def byteSlicesLen_concat n_def [symmetric] option.case Let_def gt
    using True n by simp
  show ?thesis
  proof (cases "limit < int (length d + n)")
    case lt: True
    with True assms(1) W show ?thesis by (simp add: r_def n_def)
  next
    case ge: False
    with True have r: "r = (RCount n [] None, d @ concat bs)" by (simp add: r_def n_def)
    obtain b' where "(if safe then copyFromLocked alloc n bs b else linkFromLocked bs b) = (n, None, b')"
      "queue_rel b' (d @ concat bs)"
      using queue_rel_write [OF assms(1), of bs] assms(2) unfolding n_def by (cases safe) auto
    with ge W r show ?thesis by (simp split del: if_split)
  qed
next
  case False
  then have r: "r = (RCount (length (concat bs)) [] None, d @ concat bs)" by (auto simp: r_def)
  show ?thesis
  proof (cases "limit \<le> 0")
    case True
    with queue_rel_Writev [OF assms(1), of safe bs] assms(2) r show ?thesis
      by (auto simp: WritevLimited_def)
  next
    case F: False
    with False have "concat bs = []" by linarith
    with F assms(1) r show ?thesis by (simp add: WritevLimited_def byteSlicesLen_concat)
  qed
qed

lemma buf_call_refines:
  assumes "queue_rel b d" and "spec_room call d"
  shows "\<exists>b'. buf_call alloc c call b = (fst (spec_call call d), b') \<and> queue_rel b' (snd (spec_call call d))"
proof (cases call)
  case (BWritevLimited safe limit bs)
  with queue_rel_WritevLimited [OF assms(1)] assms(2) show ?thesis by simp
next
  case (BWritev safe bs)
  with queue_rel_Writev [OF assms(1), of safe bs] assms(2) show ?thesis by auto
next
  case (BRead m)
  with queue_rel_Read [OF assms(1), of c m] show ?thesis by auto
next
  case BLenRead
  with assms(1) show ?thesis by (auto simp: queue_rel_def LenRead_content)
next
  case (BPeek n)
  with queue_rel_read(1) [OF assms(1), of n] show ?thesis by auto
next
  case (BSkip n)
  with queue_rel_read(2) [OF assms(1), of n] show ?thesis by auto
next
  case (BNext n)
  with queue_rel_read(3) [OF assms(1), of n] show ?thesis by auto
next
  case BRelease
  with queue_rel_Release [OF assms(1), of c] show ?thesis by auto
qed

lemma buf_run_refines:
  "queue_rel b d \<Longrightarrow> spec_fits cs d \<Longrightarrow>
     \<exists>b'. buf_run alloc c cs b = (fst (spec_run cs d), b') \<and> queue_rel b' (snd (spec_run cs d))"
proof (induction cs arbitrary: b d)
  case (Cons call cs)
  then obtain b1 where b1: "buf_call alloc c call b = (fst (spec_call call d), b1)"
    "queue_rel b1 (snd (spec_call call d))"
    using buf_call_refines [of b d call c] by auto
  with Cons.IH [OF b1(2)] Cons.prems(2) show ?case
    by (auto simp: split_beta Let_def)
qed simp

end

lemma queue_rel_Initialize: "queue_rel (Initialize zero_buffer) []"
  using Initialize_inv [of zero_buffer]
  by (simp add: queue_rel_def zero_buffer_def tight_def Initialize_def SetAutoNodeBlockSize_def)

lemma blocks_Initialize [simp]: "blocks (Initialize b) = []"
  by (simp add: blocks_def Initialize_def SetAutoNodeBlockSize_def newDumpNode_def allocNode_def
      zero_node_def node_data_def)

text \<open>\<open>LenWrite\<close> is not the writable space: after a linked slice of 3 bytes has been read and released
  it is 3, although no node has a free byte.\<close>

lemma len_write_overcounts:
  "let b = snd (buf_run (malloc_bytes None init_caches) False
       [BWritev False [[1, 2, 3]], BNext 3, BRelease] (Initialize zero_buffer))
   in LenWrite b = 3 \<and> capacity b = 0"
  by (simp add: Initialize_def SetAutoNodeBlockSize_def zero_buffer_def newDumpNode_def allocNode_def
      zero_node_def Writev_def linkFrom_def linkFromLocked_def linkWithExistingNodes_def node_defs
      Next_def LenRead_def slice_def Release_def node_at_def grow_loop.simps blockSize_def
      maxNodeBlockSize_def OptimizeMemory_def LenWrite_def capacity_def node_space_def)

section \<open>Properties\<close>





text \<open>C34. A copying write never touches memory of the user: every node over a linked block is the same
  node, block content included, after the write, and all blocks keep their lengths. What the write adds is
  a prefix of the data, whose length it returns.\<close>

theorem copy_keeps_user_blocks:
  assumes "block_source alloc" and "buf_inv b" and "length (content b) + length (concat bs) < 2 ^ 32"
  shows "\<exists>n b'. Writev alloc True bs b = (n, None, b') \<and> n \<le> length (concat bs) \<and> buf_inv b' \<and>
           content b' = content b @ take n (concat bs) \<and>
           list_all2 kept (bchain b) (take (length (bchain b)) (bchain b'))"
proof -
  let ?n = "length (concat bs)"
  obtain c b' where "copyFromLocked alloc ?n bs b = (min ?n c, None, b')" "buf_inv b'"
    "content b' = content b @ take (min ?n c) (concat bs)"
    "list_all2 kept (bchain b) (take (length (bchain b)) (bchain b'))"
    using block_source.copyFromLocked_ok [OF assms] by blast
  then show ?thesis
    by (intro exI [of _ "min ?n c"] exI [of _ b']) (simp add: Writev_def copyFrom_def byteSlicesLen_concat)
qed

theorem copy_keeps_user_blocks_witness:
  "\<exists>n b'. Writev (malloc_bytes None init_caches) True [[1], [2, 3]] (Initialize zero_buffer) = (n, None, b') \<and>
     content b' = take n [1, 2, 3]"
  using copy_keeps_user_blocks [OF fresh_cache.block_source_axioms, of "Initialize zero_buffer" "[[1], [2, 3]]" None]
    queue_rel_Initialize by (auto simp: queue_rel_def)

text \<open>C36. A linking write keeps packet boundaries and order: afterwards the blocks of the buffer are the
  old ones followed by the non-empty slices, whole; it returns the total length.\<close>

theorem link_keeps_boundaries:
  assumes "buf_inv b" and "length (content b) + length (concat bs) < 2 ^ 32"
  shows "\<exists>b'. Writev alloc False bs b = (length (concat bs), None, b') \<and> buf_inv b' \<and>
           PeekBlocks m b' = Inr (take m (blocks b @ filter (\<lambda>p. p \<noteq> []) bs))"
  using linkFrom_ok [OF assms] by (auto simp: Writev_def linkFrom_def PeekBlocks_ok)

theorem link_keeps_boundaries_witness:
  "\<exists>b'. Writev (malloc_bytes None init_caches) False [[1], [], [2, 3]] (Initialize zero_buffer) = (3, None, b') \<and>
     PeekBlocks 5 b' = Inr [[1], [2, 3]]"
  using link_keeps_boundaries [of "Initialize zero_buffer" "[[1], [], [2, 3]]" "malloc_bytes None init_caches" 5]
    queue_rel_Initialize by (auto simp: queue_rel_def)

text \<open>The packet operations see one list of blocks: \<open>PeekBlocks\<close> returns its front, \<open>ReadBlock\<close> removes
  and returns its head, \<open>SkipBlocks(n)\<close> removes \<open>n\<close> of it when it has that many; none of them faults.\<close>

theorem block_operations:
  assumes "buf_inv b" and "blocks b \<noteq> []" and "n \<le> length (blocks b)"
  shows "PeekBlocks m b = Inr (take m (blocks b)) \<and>
     (\<exists>b'. ReadBlock b = (hd (blocks b), None, b') \<and> buf_inv b' \<and> blocks b' = tl (blocks b)) \<and>
     (\<exists>b'. SkipBlocks (int n) b = (None, b') \<and> buf_inv b' \<and> blocks b' = drop n (blocks b))"
  using PeekBlocks_ok [OF assms(1)] ReadBlock_ok [OF assms(1,2)] SkipBlocks_ok [OF assms(1), of "int n"] assms
  by auto

theorem block_operations_witness:
  "\<exists>b b'. Writev (malloc_bytes None init_caches) False [[1], [2, 3]] (Initialize zero_buffer) = (3, None, b) \<and>
     SkipBlocks (int 1) b = (None, b') \<and> blocks b' = [[2, 3]]"
proof -
  obtain b where b: "linkFromLocked [[1], [2, 3]] (Initialize zero_buffer) = (3, None, b)" "buf_inv b"
    "blocks b = [[1], [2, 3]]"
    using linkFrom_ok [of "Initialize zero_buffer" "[[1], [2, 3]]"] queue_rel_Initialize
    by (auto simp: queue_rel_def)
  from block_operations [OF b(2), of 1 0] b show ?thesis
    by (auto simp: Writev_def linkFrom_def)
qed



text \<open>A copying write stores at most \<open>maxFillLen\<close> (262144) bytes into a new buffer: longer data is cut
  off, the count is short and no error is reported.\<close>

theorem copy_write_truncates:
  assumes "block_source alloc" and "length data < 2 ^ 32"
  shows "\<exists>b'. Writev alloc True [data] (Initialize zero_buffer) = (min (length data) maxFillLen, None, b') \<and>
           content b' = take maxFillLen data"
proof -
  let ?b = "Initialize zero_buffer" and ?n = "length (concat [data])"
  have b: "buf_inv ?b" "tight ?b" "content ?b = []" using queue_rel_Initialize by (simp_all add: queue_rel_def)
  have s: "unat (bnodeBlockSize ?b) = 4096" and full: "isFull (bchain ?b ! bwnode ?b)"
    by (simp_all add: Initialize_def SetAutoNodeBlockSize_def blockSize_def unat_simps newDumpNode_def
        allocNode_def zero_node_def isFull_def)
  have len: "length (content ?b) + ?n < 2 ^ 32" using assms(2) b(3) by simp
  obtain c b' where c: "copyFromLocked alloc ?n [data] ?b = (min ?n c, None, b')"
    "content b' = content ?b @ take (min ?n c) (concat [data])" "min ?n maxFillLen \<le> c"
    "\<exists>j. c = Suc j * 4096 \<and> (0 < j \<longrightarrow> c < min ?n maxFillLen + 4096)"
    using block_source.copyFromLocked_ok [OF assms(1) b(1) len] b(2) full unfolding s by blast
  have "min ?n c = min ?n maxFillLen"
    using c(3,4) by (auto simp: maxFillLen_def blockSize_def MaxLen_def)
  with c b(3) show ?thesis
    by (auto simp: Writev_def copyFrom_def byteSlicesLen_concat min_def)
qed

theorem copy_write_truncates_witness:
  "\<exists>b'. Writev (malloc_bytes None init_caches) True [replicate 300000 1] (Initialize zero_buffer) = (262144, None, b')"
  using copy_write_truncates [OF fresh_cache.block_source_axioms, of "replicate 300000 1" None]
  by (auto simp: maxFillLen_def blockSize_def MaxLen_def)

text \<open>\<open>SkipBlocks\<close> with more blocks than there are reports \<open>ErrNoEnoughData\<close>, but has by then consumed
  every block without lowering the length: all data is gone, \<open>LenRead\<close> still counts it, and a following
  \<open>Peek(1)\<close> dereferences nil.\<close>

theorem skip_blocks_overrun:
  assumes "buf_inv b" and "content b \<noteq> []" and "int (length (blocks b)) < n"
  shows "\<exists>b'. SkipBlocks n b = (Some ErrNoEnoughData, b') \<and> content b' = [] \<and>
           LenRead b' = length (content b) \<and> Peek 1 b' = ([], Some (Fault NilDeref), b')"
  by (rule SkipBlocks_overrun [OF assms])

theorem skip_blocks_overrun_witness:
  "\<exists>b b'. Writev (malloc_bytes None init_caches) False [[1, 2, 3]] (Initialize zero_buffer) = (3, None, b) \<and>
     SkipBlocks 2 b = (Some ErrNoEnoughData, b') \<and> LenRead b' = 3 \<and>
     Peek 1 b' = ([], Some (Fault NilDeref), b')"
proof -
  obtain b where b: "linkFromLocked [[1, 2, 3]] (Initialize zero_buffer) = (3, None, b)" "buf_inv b"
    "blocks b = [[1, 2, 3]]"
    using linkFrom_ok [of "Initialize zero_buffer" "[[1, 2, 3]]"] queue_rel_Initialize
    by (auto simp: queue_rel_def)
  with skip_blocks_overrun [OF b(2), of 2] show ?thesis
    by (auto simp: Writev_def linkFrom_def content_blocks)
qed

end
