(* ===== verification/Safejob.thy ===== *)
theory Safejob
  imports Tnet_Prelude
begin

text \<open>
  Model of \<open>internal/locker\<close>, \<open>internal/safejob\<close> and \<open>closer.go\<close>: the jobs that keep the reading, writing
  and control operations of a connection apart from its closing. A job is a lock and a closed flag;
  its methods are sequences of atomic steps (compare-and-swap, load, store, lock, unlock), and any
  number of goroutines may call them, so the model is a step function on a state with one program
  counter per goroutine. An action names the goroutine and the step; an interleaving is a list of
  actions. The jobs differ in the lock they use: the locale \<open>job_lock\<close> states what the lock promises,
  and is interpreted for the spin lock, for \<open>sync.Mutex\<close> and for \<open>sync.RWMutex\<close>.
\<close>

section \<open>Locks\<close>

definition unlocked :: u32 where
  "unlocked = 0"

definition locked :: u32 where
  "locked = 1"

text \<open>\<open>TryLock\<close> is one compare-and-swap; \<open>Lock\<close> repeats it until it succeeds, and one round of it is \<open>None\<close>
  when the goroutine has to go round again.\<close>

definition TryLock :: "u32 \<Rightarrow> bool \<times> u32" where
  "TryLock l = (if l = unlocked then (True, locked) else (False, l))"

definition Lock_round :: "u32 \<Rightarrow> u32 option" where
  "Lock_round l = (case TryLock l of (True, l') \<Rightarrow> Some l' | (False, _) \<Rightarrow> None)"

definition Unlock :: "u32 \<Rightarrow> u32" where
  "Unlock l = unlocked"

definition IsLocked :: "u32 \<Rightarrow> bool" where
  "IsLocked l \<longleftrightarrow> l = locked"

text \<open>\<open>sync.Mutex\<close> as a flag; \<open>sync.RWMutex\<close> as the number of readers and the writer's flag. \<open>None\<close>: the
  caller blocks.\<close>

definition mutex_Lock :: "bool \<Rightarrow> bool option" where
  "mutex_Lock m = (if m then None else Some True)"

definition mutex_Unlock :: "bool \<Rightarrow> bool" where
  "mutex_Unlock m = False"

type_synonym rwmutex = "nat \<times> bool"

definition RLock :: "rwmutex \<Rightarrow> rwmutex option" where
  "RLock m = (if snd m then None else Some (Suc (fst m), False))"

definition RUnlock :: "rwmutex \<Rightarrow> rwmutex" where
  "RUnlock m = (fst m - 1, snd m)"

definition rw_Lock :: "rwmutex \<Rightarrow> rwmutex option" where
  "rw_Lock m = (if fst m = 0 \<and> \<not> snd m then Some (0, True) else None)"

definition rw_Unlock :: "rwmutex \<Rightarrow> rwmutex" where
  "rw_Unlock m = (fst m, False)"

section \<open>Jobs\<close>

datatype jpc = JIdle | JCheck | JFail | JWork | JCloseLocked | JClosing

record 'l job =
  jlock :: 'l
  jclosed :: bool
  jpc :: "nat \<Rightarrow> jpc"

text \<open>The steps: \<open>Begin\<close> acquires the lock (\<open>ABegin\<close>), loads the flag (\<open>ACheck\<close>) and on a closed job
  unlocks (\<open>AFail\<close>); \<open>End\<close> unlocks; \<open>Close\<close> locks, stores the flag and unlocks.\<close>

datatype jaction = ABegin nat | ACheck nat | AFail nat | AEnd nat | AClose nat | AStore nat | AUnlock nat

datatype jevent = BeginRet nat bool | EndRet nat | CloseRet nat

definition set_pc :: "nat \<Rightarrow> jpc \<Rightarrow> 'l job \<Rightarrow> 'l job" where
  "set_pc t p j = j\<lparr>jpc := (jpc j)(t := p)\<rparr>"

text \<open>The methods over a lock: \<open>begin_acq\<close>, \<open>end_rel\<close> for \<open>Begin\<close>/\<open>End\<close>, \<open>close_acq\<close>, \<open>close_rel\<close> for \<open>Close\<close>. With
  \<open>blocking\<close> false, a \<open>Begin\<close> that does not get the lock returns false at once. \<open>None\<close>: the step is
  not possible in this state.\<close>

fun job_step ::
  "('l \<Rightarrow> 'l option) \<Rightarrow> ('l \<Rightarrow> 'l) \<Rightarrow> ('l \<Rightarrow> 'l option) \<Rightarrow> ('l \<Rightarrow> 'l) \<Rightarrow> bool \<Rightarrow>
     jaction \<Rightarrow> 'l job \<Rightarrow> (jevent option \<times> 'l job) option" where
  "job_step begin_acq end_rel close_acq close_rel blocking (ABegin t) j =
     (if jpc j t \<noteq> JIdle then None
      else case begin_acq (jlock j) of
        None \<Rightarrow> if blocking then None else Some (Some (BeginRet t False), j)
      | Some l \<Rightarrow> Some (None, set_pc t JCheck (j\<lparr>jlock := l\<rparr>)))"
| "job_step begin_acq end_rel close_acq close_rel blocking (ACheck t) j =
     (if jpc j t \<noteq> JCheck then None
      else if jclosed j then Some (None, set_pc t JFail j)
      else Some (Some (BeginRet t True), set_pc t JWork j))"
| "job_step begin_acq end_rel close_acq close_rel blocking (AFail t) j =
     (if jpc j t \<noteq> JFail then None
      else Some (Some (BeginRet t False), set_pc t JIdle (j\<lparr>jlock := end_rel (jlock j)\<rparr>)))"
| "job_step begin_acq end_rel close_acq close_rel blocking (AEnd t) j =
     (if jpc j t \<noteq> JWork then None
      else Some (Some (EndRet t), set_pc t JIdle (j\<lparr>jlock := end_rel (jlock j)\<rparr>)))"
| "job_step begin_acq end_rel close_acq close_rel blocking (AClose t) j =
     (if jpc j t \<noteq> JIdle then None
      else case close_acq (jlock j) of
        None \<Rightarrow> None
      | Some l \<Rightarrow> Some (None, set_pc t JCloseLocked (j\<lparr>jlock := l\<rparr>)))"
| "job_step begin_acq end_rel close_acq close_rel blocking (AStore t) j =
     (if jpc j t \<noteq> JCloseLocked then None
      else Some (None, set_pc t JClosing (j\<lparr>jclosed := True\<rparr>)))"
| "job_step begin_acq end_rel close_acq close_rel blocking (AUnlock t) j =
     (if jpc j t \<noteq> JClosing then None
      else Some (Some (CloseRet t), set_pc t JIdle (j\<lparr>jlock := close_rel (jlock j)\<rparr>)))"

definition ExclusiveUnblockJob :: "jaction \<Rightarrow> u32 job \<Rightarrow> (jevent option \<times> u32 job) option" where
  "ExclusiveUnblockJob = job_step Lock_round Unlock Lock_round Unlock False"

definition ExclusiveBlockJob :: "jaction \<Rightarrow> bool job \<Rightarrow> (jevent option \<times> bool job) option" where
  "ExclusiveBlockJob = job_step mutex_Lock mutex_Unlock mutex_Lock mutex_Unlock True"

definition ConcurrentJob :: "jaction \<Rightarrow> rwmutex job \<Rightarrow> (jevent option \<times> rwmutex job) option" where
  "ConcurrentJob = job_step RLock RUnlock rw_Lock rw_Unlock True"

definition new_job :: "'l \<Rightarrow> 'l job" where
  "new_job l = \<lparr>jlock = l, jclosed = False, jpc = (\<lambda>_. JIdle)\<rparr>"

text \<open>An interleaving: the events in order and the final state, or \<open>None\<close> if a step was not possible.\<close>

fun job_run ::
  "(jaction \<Rightarrow> 's \<Rightarrow> (jevent option \<times> 's) option) \<Rightarrow> jaction list \<Rightarrow> 's \<Rightarrow> (jevent list \<times> 's) option" where
  "job_run step [] j = Some ([], j)"
| "job_run step (a # as) j =
     (case step a j of
        None \<Rightarrow> None
      | Some (e, j') \<Rightarrow>
          (case job_run step as j' of
             None \<Rightarrow> None
           | Some (es, j'') \<Rightarrow> Some ((case e of None \<Rightarrow> es | Some e \<Rightarrow> e # es), j'')))"

text \<open>\<open>OnceJob\<close>: one compare-and-swap.\<close>

definition once_Begin :: "bool \<Rightarrow> bool \<times> bool" where
  "once_Begin closed = (\<not> closed, True)"

definition once_Close :: "bool \<Rightarrow> bool" where
  "once_Close closed = True"

section \<open>Invariant\<close>

definition holders :: "'l job \<Rightarrow> nat set" where
  "holders j = {t. jpc j t \<in> {JCheck, JFail, JWork}}"

definition closers :: "'l job \<Rightarrow> nat set" where
  "closers j = {t. jpc j t \<in> {JCloseLocked, JClosing}}"

definition working :: "'l job \<Rightarrow> nat set" where
  "working j = {t. jpc j t = JWork}"

lemma set_pc_sets [simp]:
  "holders (set_pc t p j) = (if p \<in> {JCheck, JFail, JWork} then insert t (holders j) else holders j - {t})"
  "closers (set_pc t p j) = (if p \<in> {JCloseLocked, JClosing} then insert t (closers j) else closers j - {t})"
  "working (set_pc t p j) = (if p = JWork then insert t (working j) else working j - {t})"
  by (auto simp: holders_def closers_def working_def set_pc_def)

lemma set_pc_fields [simp]:
  "jlock (set_pc t p j) = jlock j" "jclosed (set_pc t p j) = jclosed j"
  "jpc (set_pc t p j) = (jpc j)(t := p)"
  by (simp_all add: set_pc_def)

lemma job_update_sets [simp]:
  "holders (j\<lparr>jlock := l\<rparr>) = holders j" "closers (j\<lparr>jlock := l\<rparr>) = closers j"
  "working (j\<lparr>jlock := l\<rparr>) = working j" "holders (j\<lparr>jclosed := c\<rparr>) = holders j"
  "closers (j\<lparr>jclosed := c\<rparr>) = closers j" "working (j\<lparr>jclosed := c\<rparr>) = working j"
  by (simp_all add: holders_def closers_def working_def)

text \<open>What the lock of a job promises. \<open>lock_ok l n c\<close>: the lock is in state \<open>l\<close> while \<open>n\<close> goroutines are
  between \<open>Begin\<close> and \<open>End\<close> and, if \<open>c\<close>, one is inside \<open>Close\<close>; the latter excludes everybody else.\<close>

locale job_lock =
  fixes begin_acq :: "'l \<Rightarrow> 'l option"
    and end_rel :: "'l \<Rightarrow> 'l"
    and close_acq :: "'l \<Rightarrow> 'l option"
    and close_rel :: "'l \<Rightarrow> 'l"
    and lock_ok :: "'l \<Rightarrow> nat \<Rightarrow> bool \<Rightarrow> bool"
    and free :: 'l
  assumes free_law: "lock_ok free 0 False"
    and begin_law: "begin_acq l = Some l' \<Longrightarrow> lock_ok l n c \<Longrightarrow> \<not> c \<and> lock_ok l' (Suc n) False"
    and end_law: "lock_ok l (Suc n) False \<Longrightarrow> lock_ok (end_rel l) n False"
    and close_law: "close_acq l = Some l' \<Longrightarrow> lock_ok l n c \<Longrightarrow> n = 0 \<and> \<not> c \<and> lock_ok l' 0 True"
    and close_rel_law: "lock_ok l 0 True \<Longrightarrow> lock_ok (close_rel l) 0 False"

definition job_ok :: "('l \<Rightarrow> nat \<Rightarrow> bool \<Rightarrow> bool) \<Rightarrow> 'l job \<Rightarrow> bool" where
  "job_ok lock_ok j \<longleftrightarrow>
     finite (holders j) \<and> lock_ok (jlock j) (card (holders j)) (closers j \<noteq> {}) \<and>
     (closers j = {} \<or> (\<exists>t. closers j = {t}) \<and> holders j = {}) \<and>
     (jclosed j \<longrightarrow> working j = {}) \<and> (\<forall>t. jpc j t = JClosing \<longrightarrow> jclosed j)"

text \<open>The goroutines that a sequence of events leaves between a successful \<open>Begin\<close> and its \<open>End\<close>.\<close>

fun active :: "jevent list \<Rightarrow> nat set \<Rightarrow> nat set" where
  "active [] A = A"
| "active (BeginRet t True # es) A = active es (insert t A)"
| "active (EndRet t # es) A = active es (A - {t})"
| "active (_ # es) A = active es A"

lemma job_run_split:
  "job_run step as j = Some (xs @ e # ys, j') \<Longrightarrow>
     \<exists>as1 a as2 j1 j2. job_run step as1 j = Some (xs, j1) \<and> step a j1 = Some (Some e, j2) \<and>
       job_run step as2 j2 = Some (ys, j')"
proof (induction as arbitrary: j xs)
  case (Cons a as)
  then obtain e' j1 es where st: "step a j = Some (e', j1)" and r: "job_run step as j1 = Some (es, j')"
    and xs: "xs @ e # ys = (case e' of None \<Rightarrow> es | Some e \<Rightarrow> e # es)"
    by (auto split: option.splits prod.splits)
  show ?case
  proof (cases "\<exists>e0. e' = Some e0 \<and> xs = []")
    case True
    with xs st r have "job_run step [] j = Some (xs, j)" "step a j = Some (Some e, j1)"
      "job_run step as j1 = Some (ys, j')" by auto
    then show ?thesis by blast
  next
    case False
    define xs' where "xs' = (case e' of None \<Rightarrow> xs | Some _ \<Rightarrow> tl xs)"
    with False xs have "es = xs' @ e # ys" "xs = (case e' of None \<Rightarrow> xs' | Some e0 \<Rightarrow> e0 # xs')"
      by (cases e'; cases xs; simp)+
    with Cons.IH [of j1 xs'] r obtain as1 a' as2 k1 k2 where
      k: "job_run step as1 j1 = Some (xs', k1)" "step a' k1 = Some (Some e, k2)"
        "job_run step as2 k2 = Some (ys, j')" by auto
    with st have "job_run step (a # as1) j = Some (xs, k1)"
      using \<open>xs = (case e' of None \<Rightarrow> xs' | Some e0 \<Rightarrow> e0 # xs')\<close> by (simp split: option.split)
    with k show ?thesis by blast
  qed
qed simp

context job_lock
begin

abbreviation jstep :: "bool \<Rightarrow> jaction \<Rightarrow> 'l job \<Rightarrow> (jevent option \<times> 'l job) option" where
  "jstep \<equiv> job_step begin_acq end_rel close_acq close_rel"

lemma new_job_ok: "job_ok lock_ok (new_job free)"
  using free_law by (simp add: job_ok_def new_job_def holders_def closers_def)

lemma release:
  assumes ok: "job_ok lock_ok j" and t: "t \<in> holders j"
  shows "job_ok lock_ok (set_pc t JIdle (j\<lparr>jlock := end_rel (jlock j)\<rparr>))"
proof -
  have c: "card (holders j) = Suc (card (holders j - {t}))"
    using assms by (intro card.remove) (simp_all add: job_ok_def)
  have e: "closers j = {}" using assms by (auto simp: job_ok_def)
  with ok c have "lock_ok (jlock j) (Suc (card (holders j - {t}))) False" by (simp add: job_ok_def)
  from end_law [OF this] e ok show ?thesis by (auto simp: job_ok_def)
qed

lemma job_ok_step:
  assumes ok: "job_ok lock_ok j"
    and st: "jstep blocking a j = Some (e, j')"
  shows "job_ok lock_ok j'"
proof (cases a)
  case (ABegin t)
  then consider "j' = j" | l where "begin_acq (jlock j) = Some l" "j' = set_pc t JCheck (j\<lparr>jlock := l\<rparr>)" "jpc j t = JIdle"
    using st by (auto split: if_splits option.splits)
  then show ?thesis
  proof cases
    case (2 l)
    then have "t \<notin> holders j" "t \<notin> closers j" "t \<notin> working j"
      by (auto simp: holders_def closers_def working_def)
    with 2 begin_law [OF 2(1), of "card (holders j)" "closers j \<noteq> {}"] ok show ?thesis by (auto simp: job_ok_def)
  qed (use ok in simp)
next
  case (ACheck t)
  then have "jpc j t = JCheck" using st by (auto split: if_splits)
  then have "t \<in> holders j" "t \<notin> closers j" by (auto simp: holders_def closers_def)
  with ACheck st ok show ?thesis by (auto simp: job_ok_def insert_absorb split: if_splits)
next
  case (AFail t)
  then have t: "jpc j t = JFail" and j': "j' = set_pc t JIdle (j\<lparr>jlock := end_rel (jlock j)\<rparr>)"
    using st by (auto split: if_splits)
  then have "t \<in> holders j" by (simp add: holders_def)
  with release [OF ok] j' show ?thesis by simp
next
  case (AEnd t)
  then have t: "jpc j t = JWork" and j': "j' = set_pc t JIdle (j\<lparr>jlock := end_rel (jlock j)\<rparr>)"
    using st by (auto split: if_splits)
  then have "t \<in> holders j" by (simp add: holders_def)
  with release [OF ok] j' show ?thesis by simp
next
  case (AClose t)
  then obtain l where l: "close_acq (jlock j) = Some l" "j' = set_pc t JCloseLocked (j\<lparr>jlock := l\<rparr>)" "jpc j t = JIdle"
    using st by (auto split: if_splits option.splits)
  then have "t \<notin> holders j" "t \<notin> closers j" "t \<notin> working j"
    by (auto simp: holders_def closers_def working_def)
  with l close_law [OF l(1), of "card (holders j)" "closers j \<noteq> {}"] ok show ?thesis by (auto simp: job_ok_def)
next
  case (AStore t)
  then have t: "jpc j t = JCloseLocked" and j': "j' = set_pc t JClosing (j\<lparr>jclosed := True\<rparr>)"
    using st by (auto split: if_splits)
  then have "t \<in> closers j" by (simp add: closers_def)
  moreover have "working j \<subseteq> holders j" by (auto simp: working_def holders_def)
  ultimately show ?thesis using j' ok by (auto simp: job_ok_def insert_absorb)
next
  case (AUnlock t)
  then have t: "jpc j t = JClosing" and j': "j' = set_pc t JIdle (j\<lparr>jlock := close_rel (jlock j)\<rparr>)"
    using st by (auto split: if_splits)
  then have "t \<in> closers j" by (simp add: closers_def)
  with ok have "closers j = {t}" "holders j = {}" by (auto simp: job_ok_def)
  with j' ok close_rel_law [of "jlock j"] show ?thesis by (auto simp: job_ok_def)
qed

lemma job_ok_run:
  "job_ok lock_ok j \<Longrightarrow> job_run (jstep blocking) as j = Some (es, j') \<Longrightarrow> job_ok lock_ok j'"
proof (induction as arbitrary: j es)
  case (Cons a as)
  then show ?case
    using job_ok_step [OF Cons.prems(1)] by (fastforce split: option.splits prod.splits)
qed simp

lemma step_events:
  assumes "jstep blocking a j = Some (e, j')"
  shows "working j' = (case e of None \<Rightarrow> working j | Some e \<Rightarrow> active [e] (working j))"
    and "jclosed j \<Longrightarrow> jclosed j' \<and> (\<forall>t. e \<noteq> Some (BeginRet t True))"
    and "\<And>t. e = Some (CloseRet t) \<Longrightarrow> jpc j t = JClosing"
  using assms by (cases a; force simp: working_def split: if_splits option.splits)+

lemma run_active:
  "job_run (jstep blocking) as j = Some (es, j') \<Longrightarrow> working j' = active es (working j)"
proof (induction as arbitrary: j es)
  case (Cons a as)
  then obtain e j1 es' where st: "jstep blocking a j = Some (e, j1)"
    and r: "job_run (jstep blocking) as j1 = Some (es', j')"
    and es: "es = (case e of None \<Rightarrow> es' | Some e \<Rightarrow> e # es')"
    by (auto split: option.splits prod.splits)
  have "active (x # es') A = active es' (active [x] A)" for x A
    by (cases "(x # es', A)" rule: active.cases) simp_all
  with Cons.IH [OF r] step_events(1) [OF st] es show ?case by (simp split: option.splits)
qed simp

lemma closed_no_begin:
  "jclosed j \<Longrightarrow> job_run (jstep blocking) as j = Some (es, j') \<Longrightarrow> BeginRet t True \<notin> set es"
proof (induction as arbitrary: j es)
  case (Cons a as)
  then obtain e j1 es' where st: "jstep blocking a j = Some (e, j1)"
    and r: "job_run (jstep blocking) as j1 = Some (es', j')"
    and es: "es = (case e of None \<Rightarrow> es' | Some e \<Rightarrow> e # es')"
    by (auto split: option.splits prod.splits)
  with step_events(2) [OF st Cons.prems(1)] Cons.IH [OF _ r] show ?case
    by (auto split: option.splits)
qed simp

text \<open>The contract of a job: \<open>Close\<close> waits until nobody is inside, and nobody gets in afterwards.\<close>

lemma close_contract:
  assumes "job_run (jstep blocking) as (new_job free) = Some (xs @ CloseRet u # ys, j)"
  shows "active xs {} = {} \<and> BeginRet t True \<notin> set ys"
proof -
  from job_run_split [OF assms] obtain as1 a as2 j1 j2 where
    r: "job_run (jstep blocking) as1 (new_job free) = Some (xs, j1)"
      "jstep blocking a j1 = Some (Some (CloseRet u), j2)" "job_run (jstep blocking) as2 j2 = Some (ys, j)"
    by blast
  have ok: "job_ok lock_ok j1" by (rule job_ok_run [OF new_job_ok r(1)])
  have "jpc j1 u = JClosing" using step_events(3) [OF r(2)] by simp
  with ok have cl: "jclosed j1" by (auto simp: job_ok_def)
  with ok have "working j1 = {}" by (simp add: job_ok_def)
  moreover have "working (new_job free) = {}" by (simp add: working_def new_job_def)
  moreover have "jclosed j2" using step_events(2) [OF r(2) cl] by simp
  ultimately show ?thesis
    using run_active [OF r(1)] closed_no_begin [OF _ r(3)] by simp
qed

text \<open>While somebody is inside, nobody can take the lock to close.\<close>

lemma close_blocked:
  assumes "job_run (jstep blocking) as (new_job free) = Some (es, j)" and "active es {} \<noteq> {}"
  shows "jstep blocking (AClose u) j = None"
proof -
  have ok: "job_ok lock_ok j" by (rule job_ok_run [OF new_job_ok assms(1)])
  have "working (new_job free) = {}" by (simp add: working_def new_job_def)
  with run_active [OF assms(1)] assms(2) have "holders j \<noteq> {}" by (auto simp: working_def holders_def)
  with ok have "card (holders j) \<noteq> 0" by (simp add: job_ok_def)
  then have "close_acq (jlock j) = None"
    using close_law [of "jlock j" _ "card (holders j)" "closers j \<noteq> {}"] ok
    by (cases "close_acq (jlock j)") (auto simp: job_ok_def)
  then show ?thesis by simp
qed

end

text \<open>An exclusive lock has room for one.\<close>

locale exclusive_lock = job_lock +
  assumes one: "lock_ok l n c \<Longrightarrow> n \<le> 1"
begin

lemma mutual_exclusion:
  assumes "job_run (jstep blocking) as (new_job free) = Some (es, j)"
  shows "finite (active es {}) \<and> card (active es {}) \<le> 1"
proof -
  have ok: "job_ok lock_ok j" by (rule job_ok_run [OF new_job_ok assms])
  have "working (new_job free) = {}" by (simp add: working_def new_job_def)
  with run_active [OF assms] have a: "active es {} = working j" by simp
  have sub: "working j \<subseteq> holders j" by (auto simp: working_def holders_def)
  have "finite (holders j)" "card (holders j) \<le> 1" using ok one by (auto simp: job_ok_def)
  with sub a show ?thesis by (metis card_mono finite_subset order_trans)
qed

end

definition excl_ok :: "bool \<Rightarrow> nat \<Rightarrow> bool \<Rightarrow> bool" where
  "excl_ok l n c \<longleftrightarrow> (if l then (n = 1 \<and> \<not> c) \<or> (n = 0 \<and> c) else n = 0 \<and> \<not> c)"

interpretation spin_job: exclusive_lock Lock_round Unlock Lock_round Unlock
  "\<lambda>l n c. (l = unlocked \<or> l = locked) \<and> excl_ok (IsLocked l) n c" unlocked
  by unfold_locales (auto simp: excl_ok_def Lock_round_def TryLock_def Unlock_def IsLocked_def
      unlocked_def locked_def split: if_splits)

interpretation mutex_job: exclusive_lock mutex_Lock mutex_Unlock mutex_Lock mutex_Unlock excl_ok False
  by unfold_locales (auto simp: excl_ok_def mutex_Lock_def mutex_Unlock_def split: if_splits)

interpretation rw_job: job_lock RLock RUnlock rw_Lock rw_Unlock
  "\<lambda>l n c. l = (n, c) \<and> (c \<longrightarrow> n = 0)" "(0, False)"
  by unfold_locales (auto simp: RLock_def RUnlock_def rw_Lock_def rw_Unlock_def split: if_splits)

end
