(* ===== verification/Closer.thy ===== *)
theory Closer
  imports Safejob
begin

text \<open>
  Model of \<open>closer.go\<close>: the six jobs of a connection, addressed by an integer key. A step of the
  closer is a step of one of its jobs; a run interleaves the steps of all goroutines on all jobs, and
  its events carry the key of the job.
\<close>

section \<open>State and steps\<close>

definition sysRead :: int where "sysRead = 0"
definition sysWrite :: int where "sysWrite = 1"
definition apiRead :: int where "apiRead = 2"
definition apiWrite :: int where "apiWrite = 3"
definition apiCtrl :: int where "apiCtrl = 4"
definition closeAll :: int where "closeAll = 5"

lemmas key_defs = sysRead_def sysWrite_def apiRead_def apiWrite_def apiCtrl_def closeAll_def

record closer =
  sysReadJob :: "u32 job"
  sysWriteJob :: "u32 job"
  apiReadJob :: "bool job"
  apiWriteJob :: "rwmutex job"
  apiCtrlJob :: "bool job"
  closeAllJob :: bool

definition zero_closer :: closer where
  "zero_closer = \<lparr>sysReadJob = new_job unlocked, sysWriteJob = new_job unlocked,
     apiReadJob = new_job False, apiWriteJob = new_job (0, False), apiCtrlJob = new_job False,
     closeAllJob = False\<rparr>"

definition closed :: "closer \<Rightarrow> bool" where
  "closed c \<longleftrightarrow> closeAllJob c"

fun OnceJob :: "jaction \<Rightarrow> bool \<Rightarrow> (jevent option \<times> bool) option" where
  "OnceJob (ABegin t) j = (case once_Begin j of (ok, j) \<Rightarrow> Some (Some (BeginRet t ok), j))"
| "OnceJob (AEnd t) j = Some (Some (EndRet t), j)"
| "OnceJob (AClose t) j = Some (Some (CloseRet t), once_Close j)"
| "OnceJob _ j = None"

text \<open>\<open>getJob\<close> and the three guarded operations: a key out of range makes \<open>beginJobSafely\<close> return false and
  the others do nothing.\<close>

definition closer_step :: "int \<Rightarrow> jaction \<Rightarrow> closer \<Rightarrow> (jevent option \<times> closer) option" where
  "closer_step k a c =
     (if k < 0 \<or> k > closeAll then
        Some (case a of ABegin t \<Rightarrow> Some (BeginRet t False) | _ \<Rightarrow> None, c)
      else if k = sysRead then
        map_option (\<lambda>(e, j). (e, c\<lparr>sysReadJob := j\<rparr>)) (ExclusiveUnblockJob a (sysReadJob c))
      else if k = sysWrite then
        map_option (\<lambda>(e, j). (e, c\<lparr>sysWriteJob := j\<rparr>)) (ExclusiveUnblockJob a (sysWriteJob c))
      else if k = apiRead then
        map_option (\<lambda>(e, j). (e, c\<lparr>apiReadJob := j\<rparr>)) (ExclusiveBlockJob a (apiReadJob c))
      else if k = apiWrite then
        map_option (\<lambda>(e, j). (e, c\<lparr>apiWriteJob := j\<rparr>)) (ConcurrentJob a (apiWriteJob c))
      else if k = apiCtrl then
        map_option (\<lambda>(e, j). (e, c\<lparr>apiCtrlJob := j\<rparr>)) (ExclusiveBlockJob a (apiCtrlJob c))
      else map_option (\<lambda>(e, j). (e, c\<lparr>closeAllJob := j\<rparr>)) (OnceJob a (closeAllJob c)))"

fun closer_run :: "(int \<times> jaction) list \<Rightarrow> closer \<Rightarrow> ((int \<times> jevent) list \<times> closer) option" where
  "closer_run [] c = Some ([], c)"
| "closer_run ((k, a) # as) c =
     (case closer_step k a c of
        None \<Rightarrow> None
      | Some (e, c') \<Rightarrow>
          (case closer_run as c' of
             None \<Rightarrow> None
           | Some (es, c'') \<Rightarrow> Some ((case e of None \<Rightarrow> es | Some e \<Rightarrow> (k, e) # es), c'')))"

text \<open>\<open>closeAllJobs\<close> as the steps goroutine \<open>t\<close> takes, in program order.\<close>

definition closeAllJobs :: "nat \<Rightarrow> (int \<times> jaction) list" where
  "closeAllJobs t =
     concat (map (\<lambda>k. [(k, AClose t), (k, AStore t), (k, AUnlock t)])
       [sysRead, sysWrite, apiRead, apiWrite, apiCtrl])"

section \<open>Projection to the jobs\<close>

definition events_of :: "int \<Rightarrow> (int \<times> jevent) list \<Rightarrow> jevent list" where
  "events_of k es = map snd (filter (\<lambda>e. fst e = k) es)"

definition actions_of :: "int \<Rightarrow> (int \<times> jaction) list \<Rightarrow> jaction list" where
  "actions_of k as = map snd (filter (\<lambda>a. fst a = k) as)"

lemma events_of_simps [simp]:
  "events_of k [] = []" "events_of k (xs @ ys) = events_of k xs @ events_of k ys"
  "events_of k ((i, e) # es) = (if i = k then e # events_of k es else events_of k es)"
  by (simp_all add: events_of_def)

lemma actions_of_simps [simp]:
  "actions_of k [] = []"
  "actions_of k ((i, a) # as) = (if i = k then a # actions_of k as else actions_of k as)"
  by (simp_all add: actions_of_def)

lemma closer_run_Cons:
  assumes "closer_run ((k, a) # as) c = Some (es, c'')"
  obtains e c' es' where "closer_step k a c = Some (e, c')" and "closer_run as c' = Some (es', c'')"
    and "es = (case e of None \<Rightarrow> es' | Some e \<Rightarrow> (k, e) # es')"
  using assms by (auto split: option.splits prod.splits)

text \<open>A run of the closer is, seen from one job, a run of that job.\<close>

lemma project_run:
  assumes get: "\<And>i a c e c'. closer_step i a c = Some (e, c') \<Longrightarrow>
      (if i = k then step a (get c) = Some (e, get c') else get c' = get c)"
    and run: "closer_run as c = Some (es, c')"
  shows "job_run step (actions_of k as) (get c) = Some (events_of k es, get c')"
  using run
proof (induction as arbitrary: c es)
  case (Cons ka as)
  obtain i a where ka: "ka = (i, a)" by (cases ka)
  obtain e c1 es' where s: "closer_step i a c = Some (e, c1)" "closer_run as c1 = Some (es', c')"
    "es = (case e of None \<Rightarrow> es' | Some e \<Rightarrow> (i, e) # es')"
    using Cons.prems unfolding ka by (rule closer_run_Cons)
  with Cons.IH [OF s(2)] get [OF s(1)] ka show ?case
    by (auto split: option.splits if_splits)
qed simp

lemma closer_step_get:
  assumes "closer_step i a c = Some (e, c')"
  shows "if i = 0 then ExclusiveUnblockJob a (sysReadJob c) = Some (e, sysReadJob c') else sysReadJob c' = sysReadJob c"
    and "if i = 1 then ExclusiveUnblockJob a (sysWriteJob c) = Some (e, sysWriteJob c') else sysWriteJob c' = sysWriteJob c"
    and "if i = 2 then ExclusiveBlockJob a (apiReadJob c) = Some (e, apiReadJob c') else apiReadJob c' = apiReadJob c"
    and "if i = 3 then ConcurrentJob a (apiWriteJob c) = Some (e, apiWriteJob c') else apiWriteJob c' = apiWriteJob c"
    and "if i = 4 then ExclusiveBlockJob a (apiCtrlJob c) = Some (e, apiCtrlJob c') else apiCtrlJob c' = apiCtrlJob c"
    and "if i = 5 then OnceJob a (closeAllJob c) = Some (e, closeAllJob c') else closeAllJob c' = closeAllJob c"
  using assms by (auto simp: closer_step_def key_defs split: if_splits)

lemma job_runs:
  assumes run: "closer_run as zero_closer = Some (es, c)"
  shows "job_run ExclusiveUnblockJob (actions_of 0 as) (new_job unlocked) = Some (events_of 0 es, sysReadJob c)"
    and "job_run ExclusiveUnblockJob (actions_of 1 as) (new_job unlocked) = Some (events_of 1 es, sysWriteJob c)"
    and "job_run ExclusiveBlockJob (actions_of 2 as) (new_job False) = Some (events_of 2 es, apiReadJob c)"
    and "job_run ConcurrentJob (actions_of 3 as) (new_job (0, False)) = Some (events_of 3 es, apiWriteJob c)"
    and "job_run ExclusiveBlockJob (actions_of 4 as) (new_job False) = Some (events_of 4 es, apiCtrlJob c)"
    and "job_run OnceJob (actions_of 5 as) False = Some (events_of 5 es, closeAllJob c)"
  using project_run [where get = sysReadJob and k = 0 and step = ExclusiveUnblockJob, OF closer_step_get(1) run]
    project_run [where get = sysWriteJob and k = 1 and step = ExclusiveUnblockJob, OF closer_step_get(2) run]
    project_run [where get = apiReadJob and k = 2 and step = ExclusiveBlockJob, OF closer_step_get(3) run]
    project_run [where get = apiWriteJob and k = 3 and step = ConcurrentJob, OF closer_step_get(4) run]
    project_run [where get = apiCtrlJob and k = 4 and step = ExclusiveBlockJob, OF closer_step_get(5) run]
    project_run [where get = closeAllJob and k = 5 and step = OnceJob, OF closer_step_get(6) run]
  by (simp_all add: zero_closer_def)

text \<open>Every one of the five jobs keeps the contract of \<open>Close\<close>.\<close>

lemma job_contracts:
  assumes run: "closer_run as zero_closer = Some (es, c)" and k: "0 \<le> k" "k \<le> 4"
    and ev: "events_of k es = xs @ CloseRet u # ys"
  shows "active xs {} = {} \<and> BeginRet t True \<notin> set ys"
proof -
  note runs = job_runs [OF run, unfolded ExclusiveUnblockJob_def ExclusiveBlockJob_def ConcurrentJob_def]
  from k consider "k = 0" | "k = 1" | "k = 2" | "k = 3" | "k = 4" by linarith
  then show ?thesis
  proof cases
    case 1
    show ?thesis by (rule spin_job.close_contract) (use runs(1) ev 1 in simp)
  next
    case 2
    show ?thesis by (rule spin_job.close_contract) (use runs(2) ev 2 in simp)
  next
    case 3
    show ?thesis by (rule mutex_job.close_contract) (use runs(3) ev 3 in simp)
  next
    case 4
    show ?thesis by (rule rw_job.close_contract) (use runs(4) ev 4 in simp)
  next
    case 5
    show ?thesis by (rule mutex_job.close_contract) (use runs(5) ev 5 in simp)
  qed
qed

lemma active_append: "active (xs @ ys) A = active ys (active xs A)"
  by (induction xs A rule: active.induct) simp_all

lemma active_no_begin: "\<forall>t. BeginRet t True \<notin> set es \<Longrightarrow> active es A \<subseteq> A"
  by (induction es A rule: active.induct) auto

lemma once_run:
  "job_run OnceJob as j = Some (es, j') \<Longrightarrow>
     length (filter (\<lambda>e. \<exists>t. e = BeginRet t True) es) \<le> (if j then 0 else 1) \<and> (j \<longrightarrow> j')"
proof (induction as arbitrary: j es)
  case (Cons a as)
  then obtain e j1 es' where s: "OnceJob a j = Some (e, j1)" "job_run OnceJob as j1 = Some (es', j')"
    "es = (case e of None \<Rightarrow> es' | Some e \<Rightarrow> e # es')"
    by (auto split: option.splits prod.splits)
  with Cons.IH [OF s(2)] show ?case
    by (cases a) (auto simp: once_Begin_def once_Close_def split: if_splits)
qed simp

section \<open>Properties\<close>

text \<open>C6. Closing is safe. In any interleaving of any number of goroutines, once \<open>Close\<close> has returned on
  all five jobs (as \<open>closeAllJobs\<close> makes it), no goroutine is between a successful \<open>beginJobSafely\<close> and its
  \<open>endJobSafely\<close> on any of them, and no \<open>beginJobSafely\<close> succeeds from then on.\<close>

theorem closer_quiesces:
  assumes run: "closer_run as zero_closer = Some (xs @ ys, c)"
    and close: "\<forall>k \<in> {sysRead, sysWrite, apiRead, apiWrite, apiCtrl}. \<exists>u. (k, CloseRet u) \<in> set xs"
    and k: "k \<in> {sysRead, sysWrite, apiRead, apiWrite, apiCtrl}"
  shows "active (events_of k xs) {} = {} \<and> (k, BeginRet t True) \<notin> set ys"
proof -
  have k04: "0 \<le> k" "k \<le> 4" using k by (auto simp: key_defs)
  from close k obtain u where "CloseRet u \<in> set (events_of k xs)" by (force simp: events_of_def)
  then obtain p q where xs: "events_of k xs = p @ CloseRet u # q" by (auto simp: in_set_conv_decomp)
  then have "events_of k (xs @ ys) = p @ CloseRet u # (q @ events_of k ys)" by simp
  note con = job_contracts [OF run k04 this]
  have "BeginRet t True \<notin> set (events_of k ys)" using con by simp
  then have "(k, BeginRet t True) \<notin> set ys" by (force simp: events_of_def)
  moreover have "active q {} \<subseteq> {}" using con by (intro active_no_begin) simp
  then have "active (events_of k xs) {} = {}" using con xs by (simp add: active_append)
  ultimately show ?thesis by blast
qed

theorem closer_quiesces_witness:
  "\<exists>xs c. closer_run ([(sysRead, ABegin 0), (sysRead, ACheck 0), (apiWrite, ABegin 3), (sysRead, AEnd 0),
        (apiWrite, ACheck 3), (apiWrite, AEnd 3)] @ closeAllJobs 1) zero_closer = Some (xs @ [], c) \<and>
     active (events_of sysRead xs) {} = {}"
proof -
  let ?as = "[(sysRead, ABegin 0), (sysRead, ACheck 0), (apiWrite, ABegin 3), (sysRead, AEnd 0),
        (apiWrite, ACheck 3), (apiWrite, AEnd 3)] @ closeAllJobs 1"
  let ?xs = "[(0, BeginRet 0 True), (0, EndRet 0), (3, BeginRet 3 True), (3, EndRet 3), (0, CloseRet 1),
      (1, CloseRet 1), (2, CloseRet 1), (3, CloseRet 1), (4, CloseRet 1)]"
  have "\<exists>c. closer_run ?as zero_closer = Some (?xs @ [], c)"
    by (simp add: zero_closer_def closeAllJobs_def closer_step_def key_defs new_job_def
        ExclusiveUnblockJob_def ExclusiveBlockJob_def ConcurrentJob_def Lock_round_def TryLock_def
        unlocked_def locked_def Unlock_def mutex_Lock_def mutex_Unlock_def RLock_def RUnlock_def
        rw_Lock_def rw_Unlock_def)
  then obtain c where "closer_run ?as zero_closer = Some (?xs @ [], c)" by blast
  with closer_quiesces [OF this, of sysRead] show ?thesis by (auto simp: key_defs)
qed

text \<open>C7. Mutual exclusion. In any interleaving at most one goroutine at a time is inside \<open>sysRead\<close>, at most
  one inside \<open>sysWrite\<close>, \<open>apiRead\<close>, \<open>apiCtrl\<close> each; and of all attempts to begin \<open>closeAll\<close> at most one
  succeeds.\<close>

theorem closer_mutual_exclusion:
  assumes run: "closer_run as zero_closer = Some (es, c)" and k: "k \<in> {sysRead, sysWrite, apiRead, apiCtrl}"
  shows "card (active (events_of k es) {}) \<le> 1 \<and>
         length (filter (\<lambda>e. \<exists>t. e = BeginRet t True) (events_of closeAll es)) \<le> 1"
proof -
  note runs = job_runs [OF run, unfolded ExclusiveUnblockJob_def ExclusiveBlockJob_def ConcurrentJob_def]
  have "length (filter (\<lambda>e. \<exists>t. e = BeginRet t True) (events_of closeAll es)) \<le> 1"
    using once_run [OF runs(6)] by (simp add: closeAll_def)
  moreover from k consider "k = 0" | "k = 1" | "k = 2" | "k = 4" by (auto simp: key_defs)
  then have "card (active (events_of k es) {}) \<le> 1"
    using spin_job.mutual_exclusion [OF runs(1)] spin_job.mutual_exclusion [OF runs(2)]
      mutex_job.mutual_exclusion [OF runs(3)] mutex_job.mutual_exclusion [OF runs(5)]
    by cases simp_all
  ultimately show ?thesis by blast
qed

theorem closer_mutual_exclusion_witness:
  "\<exists>es c. closer_run [(sysRead, ABegin 0), (sysRead, ACheck 0), (sysRead, ABegin 1), (closeAll, ABegin 1),
       (closeAll, ABegin 0)] zero_closer = Some (es, c) \<and> card (active (events_of sysRead es) {}) \<le> 1"
proof -
  let ?as = "[(sysRead, ABegin 0), (sysRead, ACheck 0), (sysRead, ABegin 1), (closeAll, ABegin 1), (closeAll, ABegin 0)]"
  have "\<exists>es c. closer_run ?as zero_closer = Some (es, c)"
    by (simp add: zero_closer_def closer_step_def key_defs new_job_def ExclusiveUnblockJob_def
        Lock_round_def TryLock_def unlocked_def locked_def once_Begin_def)
  then obtain es c where "closer_run ?as zero_closer = Some (es, c)" by blast
  with closer_mutual_exclusion [OF this, of sysRead] show ?thesis by auto
qed

text \<open>Closing waits for those inside: in any interleaving, as long as some goroutine is between a successful
  \<open>beginJobSafely(k)\<close> and its \<open>endJobSafely(k)\<close>, no goroutine can start closing job \<open>k\<close>. In particular a
  goroutine that calls \<open>Close\<close> of the connection from inside \<open>sysRead\<close>, as the synchronous handlers do when
  the user's handler fails, waits for itself forever.\<close>

theorem close_waits_for_holder:
  assumes run: "closer_run as zero_closer = Some (es, c)"
    and k: "k \<in> {sysRead, sysWrite, apiRead, apiWrite, apiCtrl}" and t: "t \<in> active (events_of k es) {}"
  shows "closer_step k (AClose u) c = None"
proof -
  note runs = job_runs [OF run, unfolded ExclusiveUnblockJob_def ExclusiveBlockJob_def ConcurrentJob_def]
  note bl = spin_job.close_blocked [OF runs(1), of u] spin_job.close_blocked [OF runs(2), of u]
    mutex_job.close_blocked [OF runs(3), of u] rw_job.close_blocked [OF runs(4), of u]
    mutex_job.close_blocked [OF runs(5), of u]
  have ne: "active (events_of k es) {} \<noteq> {}" using t by blast
  from k consider "k = 0" | "k = 1" | "k = 2" | "k = 3" | "k = 4" by (auto simp: key_defs)
  then show ?thesis
    by cases (use bl ne in \<open>simp_all add: closer_step_def key_defs ExclusiveUnblockJob_def ExclusiveBlockJob_def
        ConcurrentJob_def del: job_step.simps\<close>)
qed

theorem close_waits_for_holder_witness:
  "\<exists>es c. closer_run [(sysRead, ABegin 0), (sysRead, ACheck 0), (closeAll, ABegin 0)] zero_closer = Some (es, c) \<and>
     0 \<in> active (events_of sysRead es) {} \<and> closer_step sysRead (AClose 0) c = None"
proof -
  let ?as = "[(sysRead, ABegin 0), (sysRead, ACheck 0), (closeAll, ABegin 0)]"
  have "\<exists>c. closer_run ?as zero_closer = Some ([(0, BeginRet 0 True), (5, BeginRet 0 True)], c)"
    by (simp add: zero_closer_def closer_step_def key_defs new_job_def ExclusiveUnblockJob_def
        Lock_round_def TryLock_def unlocked_def locked_def once_Begin_def)
  then obtain c where r: "closer_run ?as zero_closer = Some ([(0, BeginRet 0 True), (5, BeginRet 0 True)], c)"
    by blast
  have a: "0 \<in> active (events_of sysRead [(0, BeginRet 0 True), (5, BeginRet 0 True)]) {}"
    by (simp add: key_defs)
  have "closer_step sysRead (AClose 0) c = None"
    by (rule close_waits_for_holder [OF r _ a]) simp
  with r a show ?thesis by blast
qed

end
