(* ===== verification/Metrics.thy ===== *)
theory Metrics
  imports Tnet_Prelude "HOL-Library.Multiset"
begin

text \<open>
  Model of \<open>metrics/metric.go\<close> (the counters; printing is not modelled) and of
  \<open>internal/autopostpone\<close>, the heuristic that switches postponed writing on and off. Counters are 64-bit
  words and wrap; every \<open>Add\<close> is one atomic step.
\<close>

section \<open>Counters\<close>

definition TCPReadvCalls :: int where "TCPReadvCalls = 0"
definition TCPReadvFails :: int where "TCPReadvFails = 1"
definition TCPReadvBytes :: int where "TCPReadvBytes = 2"
definition TCPWritevCalls :: int where "TCPWritevCalls = 3"
definition TCPWritevFails :: int where "TCPWritevFails = 4"
definition TCPWritevBlocks :: int where "TCPWritevBlocks = 5"
definition TCPWriteNotify :: int where "TCPWriteNotify = 6"
definition TCPOnWriteCalls :: int where "TCPOnWriteCalls = 7"
definition TCPFlushCalls :: int where "TCPFlushCalls = 8"
definition TCPConnsCreate :: int where "TCPConnsCreate = 9"
definition TCPConnsClose :: int where "TCPConnsClose = 10"
definition TCPPostponeWriteOff :: int where "TCPPostponeWriteOff = 11"
definition TCPPostponeWriteOn :: int where "TCPPostponeWriteOn = 12"
definition UDPRecvMMsgCalls :: int where "UDPRecvMMsgCalls = 13"
definition UDPRecvMMsgFails :: int where "UDPRecvMMsgFails = 14"
definition UDPRecvMMsgPackets :: int where "UDPRecvMMsgPackets = 15"
definition UDPRecvMsgCalls :: int where "UDPRecvMsgCalls = 16"
definition UDPRecvMsgFails :: int where "UDPRecvMsgFails = 17"
definition UDPRecvMsgPackets :: int where "UDPRecvMsgPackets = 18"
definition UDPWriteToCalls :: int where "UDPWriteToCalls = 19"
definition UDPWriteToFails :: int where "UDPWriteToFails = 20"
definition UDPSendMMsgCalls :: int where "UDPSendMMsgCalls = 21"
definition UDPSendMMsgFails :: int where "UDPSendMMsgFails = 22"
definition UDPSendMMsgPackets :: int where "UDPSendMMsgPackets = 23"
definition EpollWait :: int where "EpollWait = 24"
definition EpollNoWait :: int where "EpollNoWait = 25"
definition EpollEvents :: int where "EpollEvents = 26"
definition TaskAssigned :: int where "TaskAssigned = 27"
definition Max_metric :: int where "Max_metric = 28"
definition TCPOutboundBufferLimitExceeded :: int where "TCPOutboundBufferLimitExceeded = Max_metric"

definition metricNum :: int where
  "metricNum = TCPOutboundBufferLimitExceeded + 1"

lemmas metric_names =
  TCPReadvCalls_def TCPReadvFails_def TCPReadvBytes_def TCPWritevCalls_def TCPWritevFails_def
  TCPWritevBlocks_def TCPWriteNotify_def TCPOnWriteCalls_def TCPFlushCalls_def TCPConnsCreate_def
  TCPConnsClose_def TCPPostponeWriteOff_def TCPPostponeWriteOn_def UDPRecvMMsgCalls_def
  UDPRecvMMsgFails_def UDPRecvMMsgPackets_def UDPRecvMsgCalls_def UDPRecvMsgFails_def
  UDPRecvMsgPackets_def UDPWriteToCalls_def UDPWriteToFails_def UDPSendMMsgCalls_def
  UDPSendMMsgFails_def UDPSendMMsgPackets_def EpollWait_def EpollNoWait_def EpollEvents_def
  TaskAssigned_def Max_metric_def TCPOutboundBufferLimitExceeded_def metricNum_def

type_synonym metrics = "u64 list"

definition zero_metrics :: metrics where
  "zero_metrics = replicate (nat metricNum) 0"

text \<open>A negative name is an index panic; a name beyond the array is ignored.\<close>

definition metrics_Add :: "int \<Rightarrow> u64 \<Rightarrow> metrics \<Rightarrow> fault + metrics" where
  "metrics_Add name delta m =
     (if name \<ge> metricNum then Inr m
      else if name < 0 then Inl IndexRange
      else Inr (m[nat name := m ! nat name + delta]))"

definition metrics_Get :: "int \<Rightarrow> metrics \<Rightarrow> fault + u64" where
  "metrics_Get name m =
     (if name \<ge> metricNum then Inr 0
      else if name < 0 then Inl IndexRange
      else Inr (m ! nat name))"

definition GetAll :: "metrics \<Rightarrow> u64 list" where
  "GetAll m = map (\<lambda>i. m ! i) [0 ..< nat Max_metric]"

text \<open>A sequence of additions.\<close>

fun add_all :: "(int \<times> u64) list \<Rightarrow> metrics \<Rightarrow> fault + metrics" where
  "add_all [] m = Inr m"
| "add_all ((name, d) # as) m =
     (case metrics_Add name d m of Inl f \<Rightarrow> Inl f | Inr m \<Rightarrow> add_all as m)"

lemma add_all_value:
  assumes "length m = nat metricNum" and "list_all (\<lambda>(name, _). 0 \<le> name) as"
  shows "\<exists>m'. add_all as m = Inr m' \<and> length m' = nat metricNum \<and>
    (\<forall>i < nat metricNum. m' ! i = m ! i + (\<Sum>(name, d) \<in># mset as. if name = int i then d else 0))"
  using assms
proof (induction as arbitrary: m)
  case (Cons a as)
  obtain name d where a: "a = (name, d)" by (cases a)
  with Cons.prems have n: "0 \<le> name" by simp
  let ?m = "if name \<ge> metricNum then m else m[nat name := m ! nat name + d]"
  have add: "metrics_Add name d m = Inr ?m" using n by (simp add: metrics_Add_def)
  have len: "length ?m = nat metricNum" using Cons.prems by simp
  from Cons.IH [OF len] Cons.prems obtain m' where m': "add_all as ?m = Inr m'" "length m' = nat metricNum"
    "\<forall>i < nat metricNum. m' ! i = ?m ! i + (\<Sum>(name, d) \<in># mset as. if name = int i then d else 0)"
    by auto
  have "?m ! i = m ! i + (if name = int i then d else 0)" if "i < nat metricNum" for i
    using that n Cons.prems(1) by (auto simp: nth_list_update)
  with m' add a show ?case by (auto simp: add.assoc)
qed simp

section \<open>Postponed writing\<close>

definition consecutiveSamePacketsNumThresh :: nat where
  "consecutiveSamePacketsNumThresh = 70"

definition loopCntThresh :: nat where
  "loopCntThresh = 3"

definition readingLockContentionThresh :: nat where
  "readingLockContentionThresh = 5"

record PostponeWrite =
  prevPacketsNum :: int
  readingTryLockFailed :: u32
  loopCnt :: byte
  consecutiveSamePacketsNumCounts :: byte
  pw_enable :: bool

definition zero_postpone :: PostponeWrite where
  "zero_postpone = \<lparr>prevPacketsNum = 0, readingTryLockFailed = 0, loopCnt = 0,
     consecutiveSamePacketsNumCounts = 0, pw_enable = False\<rparr>"

text \<open>Each operation also returns the metrics it adds to.\<close>

definition CheckAndDisablePostponeWrite ::
  "int \<Rightarrow> PostponeWrite \<Rightarrow> PostponeWrite \<times> (int \<times> u64) list" where
  "CheckAndDisablePostponeWrite packetsNum f =
     (if prevPacketsNum f \<noteq> 0 \<and> prevPacketsNum f \<noteq> packetsNum then
        (f\<lparr>consecutiveSamePacketsNumCounts := 0, prevPacketsNum := packetsNum\<rparr>, [])
      else
        let c = consecutiveSamePacketsNumCounts f + 1 in
        if unat c \<ge> consecutiveSamePacketsNumThresh then
          (f\<lparr>consecutiveSamePacketsNumCounts := 0, pw_enable := False, prevPacketsNum := packetsNum\<rparr>,
           [(TCPPostponeWriteOff, 1)])
        else (f\<lparr>consecutiveSamePacketsNumCounts := c, prevPacketsNum := packetsNum\<rparr>, []))"

definition pw_Set :: "bool \<Rightarrow> PostponeWrite \<Rightarrow> PostponeWrite" where
  "pw_Set b f = f\<lparr>pw_enable := b\<rparr>"

definition pw_Enabled :: "PostponeWrite \<Rightarrow> bool" where
  "pw_Enabled f = pw_enable f"

definition ResetLoopCnt :: "PostponeWrite \<Rightarrow> PostponeWrite" where
  "ResetLoopCnt f = f\<lparr>loopCnt := 0\<rparr>"

definition IncLoopCnt :: "PostponeWrite \<Rightarrow> PostponeWrite" where
  "IncLoopCnt f = (if unat (loopCnt f) < 255 then f\<lparr>loopCnt := loopCnt f + 1\<rparr> else f)"

definition CheckLoopCnt :: "PostponeWrite \<Rightarrow> PostponeWrite \<times> (int \<times> u64) list" where
  "CheckLoopCnt f =
     (if unat (loopCnt f) > loopCntThresh
      then (f\<lparr>pw_enable := True\<rparr>, [(TCPPostponeWriteOn, 1)]) else (f, []))"

definition ResetReadingTryLockFail :: "PostponeWrite \<Rightarrow> PostponeWrite" where
  "ResetReadingTryLockFail f = f\<lparr>readingTryLockFailed := 0\<rparr>"

definition IncReadingTryLockFail :: "PostponeWrite \<Rightarrow> PostponeWrite \<times> (int \<times> u64) list" where
  "IncReadingTryLockFail f =
     (let c = readingTryLockFailed f + 1; f = f\<lparr>readingTryLockFailed := c\<rparr> in
      if unat c > readingLockContentionThresh
      then (ResetReadingTryLockFail (f\<lparr>pw_enable := True\<rparr>), [(TCPPostponeWriteOn, 1)])
      else (f, []))"

text \<open>One round of the check, metrics aside.\<close>

definition check_round :: "int \<Rightarrow> PostponeWrite \<Rightarrow> PostponeWrite" where
  "check_round p f = fst (CheckAndDisablePostponeWrite p f)"

definition pw_ok :: "PostponeWrite \<Rightarrow> bool" where
  "pw_ok f \<longleftrightarrow> unat (consecutiveSamePacketsNumCounts f) < consecutiveSamePacketsNumThresh \<and>
     unat (readingTryLockFailed f) \<le> readingLockContentionThresh"

lemma unat_Suc_byte: "unat (c :: byte) < 255 \<Longrightarrow> unat (c + 1) = Suc (unat c)"
  by (simp add: unat_word_ariths)

lemma check_same:
  assumes ok: "pw_ok f" and "prevPacketsNum f = 0 \<or> prevPacketsNum f = p"
  defines "f' \<equiv> check_round p f"
  shows "prevPacketsNum f' = p \<and> pw_ok f' \<and> (\<not> pw_enable f \<longrightarrow> \<not> pw_enable f') \<and>
    (pw_enable f' \<longrightarrow> unat (consecutiveSamePacketsNumCounts f') = Suc (unat (consecutiveSamePacketsNumCounts f)))"
  using assms unat_Suc_byte [of "consecutiveSamePacketsNumCounts f"]
  by (auto simp: check_round_def CheckAndDisablePostponeWrite_def pw_ok_def consecutiveSamePacketsNumThresh_def Let_def)

lemma check_run:
  assumes "pw_ok f" and "prevPacketsNum f = p"
  shows "let f' = (check_round p ^^ n) f in
    prevPacketsNum f' = p \<and> pw_ok f' \<and>
    (pw_enable f' \<longrightarrow> unat (consecutiveSamePacketsNumCounts f') = unat (consecutiveSamePacketsNumCounts f) + n)"
proof (induction n)
  case (Suc n)
  let ?f = "(check_round p ^^ n) f"
  have "prevPacketsNum ?f = p" "pw_ok ?f" using Suc by (simp_all add: Let_def)
  with check_same [of ?f p] Suc show ?case by (auto simp: Let_def)
qed (use assms in simp)

section \<open>Properties\<close>

text \<open>The counters are exact: whatever order a set of \<open>Add\<close> calls is executed in, each counter ends
  as its start plus the sum of its deltas (modulo \<open>2 ^ 64\<close>), and names beyond the array change nothing.\<close>

theorem metrics_order_irrelevant:
  assumes "length m = nat metricNum" and "list_all (\<lambda>(name, _). 0 \<le> name) as" and "mset as = mset bs"
  shows "add_all as m = add_all bs m \<and> (\<exists>m'. add_all as m = Inr m')"
proof -
  have "list_all (\<lambda>(name, _). 0 \<le> name) bs"
    using assms(2,3) by (metis list_all_iff set_mset_mset)
  then obtain m2 where m2: "add_all bs m = Inr m2" "length m2 = nat metricNum"
    "\<forall>i < nat metricNum. m2 ! i = m ! i + (\<Sum>(name, d) \<in># mset bs. if name = int i then d else 0)"
    using add_all_value [OF assms(1)] by blast
  obtain m1 where m1: "add_all as m = Inr m1" "length m1 = nat metricNum"
    "\<forall>i < nat metricNum. m1 ! i = m ! i + (\<Sum>(name, d) \<in># mset as. if name = int i then d else 0)"
    using add_all_value [OF assms(1,2)] by blast
  have "m1 = m2" using m1 m2 assms(3) by (auto intro: nth_equalityI)
  with m1 m2 show ?thesis by simp
qed

theorem metrics_order_irrelevant_witness:
  "add_all [(TCPReadvCalls, 1), (99, 7), (TCPReadvBytes, 5)] zero_metrics =
   add_all [(TCPReadvBytes, 5), (TCPReadvCalls, 1), (99, 7)] zero_metrics"
  using metrics_order_irrelevant [of zero_metrics "[(TCPReadvCalls, 1), (99, 7), (TCPReadvBytes, 5)]"
      "[(TCPReadvBytes, 5), (TCPReadvCalls, 1), (99, 7)]"]
  by (simp add: zero_metrics_def metric_names)

text \<open>Postponed writing switches off: from any reachable counter state, 71 consecutive rounds with the
  same number of packets leave it disabled (the 8-bit counter never wraps on the way).\<close>

theorem postpone_switches_off:
  assumes "pw_ok f" and "71 \<le> n"
  shows "\<not> pw_Enabled ((check_round p ^^ n) f)"
proof -
  let ?c = "check_round p"
  obtain k where n: "n = Suc k" "70 \<le> k" using assms(2) by (cases n) auto
  let ?f = "?c f"
  have "prevPacketsNum ?f = p" by (simp add: check_round_def CheckAndDisablePostponeWrite_def Let_def)
  moreover have "pw_ok ?f"
    using assms(1) check_same [of f p]
    by (cases "prevPacketsNum f \<noteq> 0 \<and> prevPacketsNum f \<noteq> p")
      (auto simp: check_round_def CheckAndDisablePostponeWrite_def pw_ok_def consecutiveSamePacketsNumThresh_def)
  ultimately have r: "let f' = (?c ^^ k) ?f in pw_ok f' \<and>
      (pw_enable f' \<longrightarrow> unat (consecutiveSamePacketsNumCounts f') = unat (consecutiveSamePacketsNumCounts ?f) + k)"
    using check_run [of ?f p k] by (simp add: Let_def)
  have "(?c ^^ n) f = (?c ^^ k) ?f" unfolding n(1) by (simp add: funpow_swap1)
  with r n(2) show ?thesis
    by (auto simp: Let_def pw_Enabled_def pw_ok_def consecutiveSamePacketsNumThresh_def)
qed

theorem postpone_switches_off_witness:
  "\<not> pw_Enabled ((check_round 4 ^^ 80) (pw_Set True zero_postpone))"
  using postpone_switches_off [of "pw_Set True zero_postpone" 80 4]
  by (simp add: pw_ok_def pw_Set_def zero_postpone_def consecutiveSamePacketsNumThresh_def)

end
