(* ===== verification/Timers.thy ===== *)
theory Timers
  imports Tnet_Prelude
begin

text \<open>
  Model of \<open>internal/timer\<close> (the deadline of a blocking call) and \<open>internal/asynctimer\<close> (the time wheel
  behind the idle timeouts). Times and durations are nanoseconds as integers; the zero \<open>time.Time\<close> is
  \<open>None\<close>. The run-time timer of Go is a deadline it is armed for and a one-place channel.
\<close>

section \<open>Deadline timers\<close>

record rtimer =
  rt_armed :: "int option"
  rt_chan :: bool

text \<open>\<open>time.NewTimer\<close>, \<open>Stop\<close> (true when it was still armed), \<open>Reset\<close>, and the passing of time.\<close>

definition rt_new :: "int \<Rightarrow> rtimer" where
  "rt_new at = \<lparr>rt_armed = Some at, rt_chan = False\<rparr>"

definition rt_stop :: "rtimer \<Rightarrow> bool \<times> rtimer" where
  "rt_stop r = (rt_armed r \<noteq> None, r\<lparr>rt_armed := None\<rparr>)"

definition rt_reset :: "int \<Rightarrow> rtimer \<Rightarrow> rtimer" where
  "rt_reset at r = r\<lparr>rt_armed := Some at\<rparr>"

definition rt_advance :: "int \<Rightarrow> rtimer \<Rightarrow> rtimer" where
  "rt_advance now r =
     (case rt_armed r of
        None \<Rightarrow> r
      | Some at \<Rightarrow> if at \<le> now then \<lparr>rt_armed = None, rt_chan = True\<rparr> else r)"

text \<open>\<open>select { case <-t.timer.C: default: }\<close>\<close>

definition rt_drain :: "rtimer \<Rightarrow> rtimer" where
  "rt_drain r = r\<lparr>rt_chan := False\<rparr>"

record timer =
  tm_deadline :: "int option"
  tm_timer :: "rtimer option"

definition timer_New :: "int option \<Rightarrow> timer" where
  "timer_New t = \<lparr>tm_deadline = t, tm_timer = None\<rparr>"

text \<open>\<open>time.Until\<close> of the zero time is a long time ago, so the timer fires at once: the argument
  \<open>zero_at\<close> is the instant of the zero time.\<close>

definition deadline_at :: "int \<Rightarrow> timer \<Rightarrow> int" where
  "deadline_at zero_at t = (case tm_deadline t of None \<Rightarrow> zero_at | Some d \<Rightarrow> d)"

definition stop_and_drain :: "rtimer \<Rightarrow> rtimer" where
  "stop_and_drain r = (let (active, r) = rt_stop r in if \<not> active then rt_drain r else r)"

definition timer_Start :: "int \<Rightarrow> timer \<Rightarrow> timer" where
  "timer_Start zero_at t =
     (case tm_timer t of
        None \<Rightarrow> t\<lparr>tm_timer := Some (rt_new (deadline_at zero_at t))\<rparr>
      | Some r \<Rightarrow> t\<lparr>tm_timer := Some (rt_reset (deadline_at zero_at t) (stop_and_drain r))\<rparr>)"

definition timer_Stop :: "timer \<Rightarrow> timer" where
  "timer_Stop t =
     (case tm_timer t of
        None \<Rightarrow> t
      | Some r \<Rightarrow> t\<lparr>tm_timer := Some (stop_and_drain r), tm_deadline := None\<rparr>)"

text \<open>\<open>Wait\<close>: whether a receive on the channel would succeed; the channel of a timer that was never
  started is a nil dereference.\<close>

definition timer_Wait :: "timer \<Rightarrow> fault + bool" where
  "timer_Wait t = (case tm_timer t of None \<Rightarrow> Inl NilDeref | Some r \<Rightarrow> Inr (rt_chan r))"

definition timer_Reset :: "int option \<Rightarrow> timer \<Rightarrow> timer" where
  "timer_Reset u t = t\<lparr>tm_deadline := u\<rparr>"

definition timer_Expired :: "int \<Rightarrow> timer \<Rightarrow> bool" where
  "timer_Expired now t = (case tm_deadline t of None \<Rightarrow> False | Some d \<Rightarrow> d < now)"

definition timer_IsZero :: "timer \<Rightarrow> bool" where
  "timer_IsZero t \<longleftrightarrow> tm_deadline t = None"

definition timer_advance :: "int \<Rightarrow> timer \<Rightarrow> timer" where
  "timer_advance now t = t\<lparr>tm_timer := map_option (rt_advance now) (tm_timer t)\<rparr>"

text \<open>The channel never holds a value while the timer is armed: what makes draining once enough.\<close>

definition timer_ok :: "timer \<Rightarrow> bool" where
  "timer_ok t \<longleftrightarrow> (case tm_timer t of None \<Rightarrow> True | Some r \<Rightarrow> rt_armed r \<noteq> None \<longrightarrow> \<not> rt_chan r)"

lemma timer_ok_ops:
  "timer_ok (timer_New d)" "timer_ok t \<Longrightarrow> timer_ok (timer_Start z t)" "timer_ok t \<Longrightarrow> timer_ok (timer_Stop t)"
  "timer_ok t \<Longrightarrow> timer_ok (timer_Reset u t)" "timer_ok t \<Longrightarrow> timer_ok (timer_advance now t)"
  by (auto simp: timer_ok_def timer_New_def timer_Start_def timer_Stop_def timer_Reset_def timer_advance_def
      rt_new_def rt_reset_def stop_and_drain_def rt_stop_def rt_drain_def rt_advance_def Let_def
      split: option.splits if_splits)

section \<open>The time wheel\<close>

record atimer =
  at_begin :: int
  at_circle :: int
  at_delay :: int
  at_timeout :: int
  at_active :: bool
  at_handle :: bool

definition NewTimer :: "bool \<Rightarrow> int \<Rightarrow> atimer" where
  "NewTimer handle timeout =
     \<lparr>at_begin = 0, at_circle = 0, at_delay = timeout, at_timeout = timeout, at_active = False,
      at_handle = handle\<rparr>"

text \<open>Timers are addressed by a number (their pointer). The two channels are FIFO lists; a slot is the
  list of its timers. \<open>w_fired\<close> records the timers handed to \<open>go t.checkExpire\<close>, in order.\<close>

record wheel =
  w_now :: int
  w_timers :: "nat \<Rightarrow> atimer"
  w_toAdd :: "nat list"
  w_toDel :: "nat list"
  w_slotOf :: "nat \<Rightarrow> nat option"
  w_slots :: "nat list list"
  w_interval :: int
  w_slotNum :: nat
  w_currSlot :: nat
  w_fired :: "nat list"

definition NewTimeWheel :: "int \<Rightarrow> (nat \<Rightarrow> atimer) \<Rightarrow> int \<Rightarrow> int \<Rightarrow> err + wheel" where
  "NewTimeWheel now timers interval slotNum =
     (if interval \<le> 0 \<or> slotNum \<le> 0 then Inl ErrInvalidParam
      else Inr \<lparr>w_now = now, w_timers = timers, w_toAdd = [], w_toDel = [], w_slotOf = (\<lambda>_. None),
        w_slots = replicate (nat slotNum) [], w_interval = interval, w_slotNum = nat slotNum,
        w_currSlot = 0, w_fired = []\<rparr>)"

text \<open>\<open>Duration.Round\<close> for a non-negative duration: to the nearest multiple, halves up.\<close>

definition duration_Round :: "int \<Rightarrow> int \<Rightarrow> int" where
  "duration_Round m d = (let r = d mod m in if r + r < m then d - r else d + m - r)"

definition upd_timer :: "nat \<Rightarrow> (atimer \<Rightarrow> atimer) \<Rightarrow> wheel \<Rightarrow> wheel" where
  "upd_timer t f w = w\<lparr>w_timers := (w_timers w)(t := f (w_timers w t))\<rparr>"

definition wheel_Add :: "nat \<Rightarrow> wheel \<Rightarrow> err option \<times> wheel" where
  "wheel_Add t w =
     (let tm = w_timers w t in
      if at_active tm then
        (None, upd_timer t (\<lambda>tm. tm\<lparr>at_begin := w_now w, at_delay := at_timeout tm\<rparr>) w)
      else if at_delay tm < w_interval w then (Some ErrShortDelay, w)
      else
        let w = upd_timer t (\<lambda>tm. tm\<lparr>at_active := True,
                  at_delay := duration_Round (w_interval w) (at_timeout tm), at_begin := w_now w\<rparr>) w
        in (None, w\<lparr>w_toAdd := w_toAdd w @ [t]\<rparr>))"

definition wheel_Del :: "nat \<Rightarrow> wheel \<Rightarrow> wheel" where
  "wheel_Del t w =
     (let w = upd_timer t (\<lambda>tm. tm\<lparr>at_active := False\<rparr>) w in w\<lparr>w_toDel := w_toDel w @ [t]\<rparr>)"

definition wheel_del :: "nat \<Rightarrow> wheel \<Rightarrow> wheel" where
  "wheel_del t w =
     (case w_slotOf w t of
        None \<Rightarrow> w
      | Some i \<Rightarrow> w\<lparr>w_slots := (w_slots w)[i := removeAll t (w_slots w ! i)],
                     w_slotOf := (w_slotOf w)(t := None)\<rparr>)"

definition quitHandle :: "wheel \<Rightarrow> wheel" where
  "quitHandle w = w\<lparr>w_slotOf := (\<lambda>_. None), w_slots := map (\<lambda>_. []) (w_slots w)\<rparr>"

text \<open>\<open>tickHandle\<close>: the timers of the new slot whose circle is zero leave the wheel, the others lose one
  circle.\<close>

definition tickHandle :: "wheel \<Rightarrow> wheel" where
  "tickHandle w =
     (let cur = (w_currSlot w + 1) mod w_slotNum w;
          s = w_slots w ! cur;
          due = filter (\<lambda>t. at_circle (w_timers w t) = 0) s;
          stay = filter (\<lambda>t. at_circle (w_timers w t) \<noteq> 0) s
      in w\<lparr>w_now := w_now w + w_interval w, w_currSlot := cur,
           w_slots := (w_slots w)[cur := stay],
           w_slotOf := (\<lambda>t. if t \<in> set due then None else w_slotOf w t),
           w_timers := (\<lambda>t. if t \<in> set due then (w_timers w t)\<lparr>at_active := False\<rparr>
                            else if t \<in> set stay then (w_timers w t)\<lparr>at_circle := at_circle (w_timers w t) - 1\<rparr>
                            else w_timers w t),
           w_fired := w_fired w @ due\<rparr>)"

text \<open>\<open>checkExpire\<close>: whether the callback is called, and the wheel afterwards.\<close>

definition checkExpire :: "nat \<Rightarrow> wheel \<Rightarrow> bool \<times> wheel" where
  "checkExpire t w =
     (let tm = w_timers w t in
      if \<not> at_handle tm then (False, w)
      else
        let actual = w_now w - at_begin tm in
        if actual \<ge> at_timeout tm then (True, w)
        else
          let w = upd_timer t (\<lambda>tm. tm\<lparr>at_delay := at_timeout tm - actual\<rparr>) w
          in case wheel_Add t w of
               (None, w) \<Rightarrow> (False, w)
             | (Some _, w) \<Rightarrow> (True, w))"

definition Milliseconds :: "int \<Rightarrow> int" where
  "Milliseconds d = go_div d 1000000"

definition calIndexAndCircle :: "nat \<Rightarrow> wheel \<Rightarrow> fault + (int \<times> int)" where
  "calIndexAndCircle t w =
     (let delay = Milliseconds (at_delay (w_timers w t)); interval = Milliseconds (w_interval w) in
      if interval = 0 then Inl DivByZero
      else Inr (go_mod (int (w_currSlot w) + go_div delay interval) (int (w_slotNum w)),
                go_div (go_div (delay - interval) interval) (int (w_slotNum w))))"

definition addTimerHandle :: "nat \<Rightarrow> wheel \<Rightarrow> fault + wheel" where
  "addTimerHandle t w =
     (let w = wheel_del t w in
      case calIndexAndCircle t w of
        Inl f \<Rightarrow> Inl f
      | Inr (i, c) \<Rightarrow>
          let w = upd_timer t (\<lambda>tm. tm\<lparr>at_circle := c\<rparr>) w
          in if i < 0 then Inl IndexRange
             else Inr (w\<lparr>w_slots := (w_slots w)[nat i := t # w_slots w ! nat i],
                    w_slotOf := (w_slotOf w)(t \<mapsto> nat i)\<rparr>))"

definition delTimerHandle :: "nat \<Rightarrow> wheel \<Rightarrow> wheel" where
  "delTimerHandle t w = wheel_del t w"

text \<open>\<open>run\<close>: one round of the loop, for the case that \<open>select\<close> takes. \<open>None\<close> when that case is not ready; the flag says
  whether the loop goes on.\<close>

datatype wheel_case = QuitCase | TickCase | AddCase | DelCase

fun run_round :: "wheel_case \<Rightarrow> wheel \<Rightarrow> (fault + bool \<times> wheel) option" where
  "run_round QuitCase w = Some (Inr (False, quitHandle w))"
| "run_round TickCase w = Some (Inr (True, tickHandle w))"
| "run_round AddCase w =
     (case w_toAdd w of
        [] \<Rightarrow> None
      | t # ts \<Rightarrow> Some (case addTimerHandle t (w\<lparr>w_toAdd := ts\<rparr>) of Inl f \<Rightarrow> Inl f | Inr w \<Rightarrow> Inr (True, w)))"
| "run_round DelCase w =
     (case w_toDel w of [] \<Rightarrow> None | t # ts \<Rightarrow> Some (Inr (True, delTimerHandle t (w\<lparr>w_toDel := ts\<rparr>))))"


section \<open>When a timer fires\<close>

definition wheel_ok :: "wheel \<Rightarrow> bool" where
  "wheel_ok w \<longleftrightarrow>
     0 < w_slotNum w \<and> 0 < w_interval w \<and> length (w_slots w) = w_slotNum w \<and>
     w_currSlot w < w_slotNum w \<and>
     (\<forall>t i. w_slotOf w t = Some i \<longleftrightarrow> i < w_slotNum w \<and> t \<in> set (w_slots w ! i)) \<and>
     (\<forall>t. w_slotOf w t \<noteq> None \<longrightarrow> 0 \<le> at_circle (w_timers w t))"

text \<open>The number of ticks until a timer in slot \<open>i\<close> leaves the wheel.\<close>

definition ticks_left :: "wheel \<Rightarrow> nat \<Rightarrow> nat \<Rightarrow> int" where
  "ticks_left w t i =
     (int i - int (w_currSlot w) - 1) mod int (w_slotNum w) + 1
       + at_circle (w_timers w t) * int (w_slotNum w)"

lemma NewTimeWheel_ok: "NewTimeWheel now ts iv n = Inr w \<Longrightarrow> wheel_ok w"
  by (auto simp: NewTimeWheel_def wheel_ok_def split: if_splits)

lemma next_slot_dist:
  fixes i c n :: nat
  assumes "i < n" and "c < n"
  shows "i = (c + 1) mod n \<Longrightarrow> (int i - int c - 1) mod int n = 0"
    and "i = (c + 1) mod n \<Longrightarrow> (int i - int ((c + 1) mod n) - 1) mod int n = int n - 1"
    and "i \<noteq> (c + 1) mod n \<Longrightarrow>
      (int i - int ((c + 1) mod n) - 1) mod int n = (int i - int c - 1) mod int n - 1"
proof -
  have m: "int ((c + 1) mod n) = (int c + 1) mod int n" by (simp add: zmod_int add.commute)
  show "(int i - int c - 1) mod int n = 0" if "i = (c + 1) mod n"
  proof -
    have "(int i - int c - 1) mod int n = ((int c + 1) mod int n - (int c + 1)) mod int n"
      using that m by (simp add: algebra_simps)
    then show ?thesis by (simp add: mod_diff_left_eq)
  qed
  show "(int i - int ((c + 1) mod n) - 1) mod int n = int n - 1" if "i = (c + 1) mod n"
    using that assms by (cases "n = 1") (simp_all add: zmod_minus1)
  show "(int i - int ((c + 1) mod n) - 1) mod int n = (int i - int c - 1) mod int n - 1" if ne: "i \<noteq> (c + 1) mod n"
  proof -
    let ?d = "(int i - int c - 1) mod int n"
    have "?d \<noteq> 0"
    proof
      assume "?d = 0"
      then have "int i mod int n = (int c + 1) mod int n"
        by (metis (no_types, lifting) diff_diff_eq mod_eq_dvd_iff dvd_eq_mod_eq_0)
      with assms(1) m have "int i = int ((c + 1) mod n)" by simp
      with ne show False by simp
    qed
    moreover have "0 \<le> ?d" "?d < int n" using assms by simp_all
    ultimately have r: "0 \<le> ?d - 1" "?d - 1 < int n" by linarith+
    have "(int i - int ((c + 1) mod n) - 1) mod int n = (int i - 1 - (int c + 1) mod int n) mod int n"
      unfolding m by (simp add: algebra_simps)
    also have "\<dots> = (int i - 1 - (int c + 1)) mod int n" by (rule mod_diff_right_eq)
    also have "\<dots> = (int i - int c - 1 - 1) mod int n" by (simp add: algebra_simps)
    also have "\<dots> = (?d - 1) mod int n" by (rule mod_diff_left_eq [symmetric])
    finally show ?thesis using r by simp
  qed
qed

lemma tick_steps:
  assumes ok: "wheel_ok w" and t: "w_slotOf w t = Some i"
  defines "w' \<equiv> tickHandle w"
  shows "1 \<le> ticks_left w t i"
    and "ticks_left w t i = 1 \<Longrightarrow> w_slotOf w' t = None \<and> (\<exists>xs. w_fired w' = w_fired w @ xs \<and> t \<in> set xs)"
    and "ticks_left w t i \<noteq> 1 \<Longrightarrow> w_slotOf w' t = Some i \<and> ticks_left w' t i = ticks_left w t i - 1 \<and>
      (\<exists>xs. w_fired w' = w_fired w @ xs \<and> t \<notin> set xs)"
proof -
  let ?n = "w_slotNum w" and ?c = "at_circle (w_timers w t)"
  let ?cur = "(w_currSlot w + 1) mod w_slotNum w"
  have i: "i < ?n" "t \<in> set (w_slots w ! i)" and c: "0 \<le> ?c" and cur: "w_currSlot w < ?n"
    using ok t by (auto simp: wheel_ok_def)
  have only: "t \<in> set (w_slots w ! j) \<longleftrightarrow> j = i" if "j < ?n" for j
    using ok t that unfolding wheel_ok_def by (metis option.inject)
  have d: "0 \<le> (int i - int (w_currSlot w) - 1) mod int ?n" using i by simp
  have cn: "0 \<le> ?c * int ?n" using c by simp
  with d show "1 \<le> ticks_left w t i" by (simp add: ticks_left_def)
  have curlt: "?cur < ?n" using i by simp
  consider (due) "i = ?cur" "?c = 0" | (circle) "i = ?cur" "?c \<noteq> 0" | (other) "i \<noteq> ?cur" by blast
  then have "(ticks_left w t i = 1 \<longrightarrow> w_slotOf w' t = None \<and> (\<exists>xs. w_fired w' = w_fired w @ xs \<and> t \<in> set xs)) \<and>
    (ticks_left w t i \<noteq> 1 \<longrightarrow> w_slotOf w' t = Some i \<and> ticks_left w' t i = ticks_left w t i - 1 \<and>
      (\<exists>xs. w_fired w' = w_fired w @ xs \<and> t \<notin> set xs))"
  proof cases
    case due
    then have "ticks_left w t i = 1" using next_slot_dist(1) [OF i(1) cur] by (simp add: ticks_left_def)
    with due i(2) show ?thesis by (simp add: w'_def tickHandle_def Let_def)
  next
    case circle
    then have "1 \<le> ?c" using c by linarith
    then have "1 * int ?n \<le> ?c * int ?n" by (intro mult_right_mono) simp_all
    moreover have "ticks_left w t i = 1 + ?c * int ?n"
      using next_slot_dist(1) [OF i(1) cur] circle by (simp add: ticks_left_def)
    moreover have "ticks_left w' t i = int ?n + (?c - 1) * int ?n"
      using next_slot_dist(2) [OF i(1) cur] circle i(2) by (simp add: ticks_left_def w'_def tickHandle_def Let_def)
    ultimately show ?thesis using circle i t
      by (simp add: w'_def tickHandle_def Let_def algebra_simps)
  next
    case other
    then have nt: "t \<notin> set (w_slots w ! ?cur)" using only curlt by auto
    have r: "0 \<le> (int i - int ?cur - 1) mod int ?n" using i by simp
    have "ticks_left w' t i = ticks_left w t i - 1"
      using next_slot_dist(3) [OF i(1) cur other] nt by (simp add: ticks_left_def w'_def tickHandle_def Let_def)
    moreover have "ticks_left w t i \<noteq> 1"
      using next_slot_dist(3) [OF i(1) cur other] r cn by (simp add: ticks_left_def)
    ultimately show ?thesis using nt t by (simp add: w'_def tickHandle_def Let_def)
  qed
  then show "ticks_left w t i = 1 \<Longrightarrow> w_slotOf w' t = None \<and> (\<exists>xs. w_fired w' = w_fired w @ xs \<and> t \<in> set xs)"
    "ticks_left w t i \<noteq> 1 \<Longrightarrow> w_slotOf w' t = Some i \<and> ticks_left w' t i = ticks_left w t i - 1 \<and>
      (\<exists>xs. w_fired w' = w_fired w @ xs \<and> t \<notin> set xs)" by blast+
qed

lemma tickHandle_ok:
  assumes ok: "wheel_ok w"
  shows "wheel_ok (tickHandle w)"
proof -
  let ?cur = "(w_currSlot w + 1) mod w_slotNum w"
  have n: "0 < w_slotNum w" "?cur < w_slotNum w" using ok by (auto simp: wheel_ok_def)
  have slot: "w_slotOf w t = Some i \<longleftrightarrow> i < w_slotNum w \<and> t \<in> set (w_slots w ! i)" for t i
    using ok by (simp add: wheel_ok_def)
  have uniq: "t \<in> set (w_slots w ! i) \<Longrightarrow> t \<in> set (w_slots w ! j) \<Longrightarrow> i < w_slotNum w \<Longrightarrow> j < w_slotNum w \<Longrightarrow> i = j"
    for t i j using slot by (metis option.inject)
  have circ: "0 \<le> at_circle (w_timers w t)" if "t \<in> set (w_slots w ! i)" "i < w_slotNum w" for t i
    using ok that slot unfolding wheel_ok_def by (metis option.distinct(1))
  show ?thesis
    unfolding wheel_ok_def
  proof (intro conjI allI)
    fix t i
    show "w_slotOf (tickHandle w) t = Some i \<longleftrightarrow>
      i < w_slotNum (tickHandle w) \<and> t \<in> set (w_slots (tickHandle w) ! i)"
      using n ok slot [of t i] uniq [of t i ?cur]
      by (auto simp: tickHandle_def Let_def nth_list_update wheel_ok_def)
  next
    fix t
    show "w_slotOf (tickHandle w) t \<noteq> None \<longrightarrow> 0 \<le> at_circle (w_timers (tickHandle w) t)"
      using n circ [of t ?cur] ok by (auto simp: tickHandle_def Let_def wheel_ok_def)
  qed (use ok n in \<open>auto simp: wheel_ok_def tickHandle_def Let_def\<close>)
qed

lemma ticks_fire:
  assumes "wheel_ok w" and "w_slotOf w t = Some i" and "ticks_left w t i = int k" and "t \<notin> set (w_fired w)"
  shows "t \<in> set (w_fired ((tickHandle ^^ j) w)) \<longleftrightarrow> k \<le> j"
  using assms
proof (induction j arbitrary: w k)
  case 0
  then show ?case using tick_steps(1) [OF 0(1,2)] by simp
next
  case (Suc j)
  have mono: "set (w_fired u) \<subseteq> set (w_fired ((tickHandle ^^ j) u))" for u
    by (induction j) (auto simp: tickHandle_def Let_def)
  note st = tick_steps [OF Suc.prems(1,2)]
  have pow: "(tickHandle ^^ Suc j) w = (tickHandle ^^ j) (tickHandle w)" by (simp add: funpow_swap1)
  show ?case
  proof (cases "k = 1")
    case True
    with st(2) Suc.prems(3) have "t \<in> set (w_fired (tickHandle w))" by auto
    with mono True pow show ?thesis by auto
  next
    case False
    then have k: "w_slotOf (tickHandle w) t = Some i" "ticks_left (tickHandle w) t i = int (k - 1)"
      "t \<notin> set (w_fired (tickHandle w))"
      using st Suc.prems(3,4) by auto
    have "0 < k" using st(1) Suc.prems(3) by simp
    with Suc.IH [OF tickHandle_ok [OF Suc.prems(1)] k] pow show ?thesis by auto
  qed
qed

lemma Milliseconds_exact: "0 \<le> m \<Longrightarrow> Milliseconds (m * 1000000) = m"
  by (simp add: Milliseconds_def go_div_pos)

lemma wheel_del_ok:
  assumes "wheel_ok w"
  shows "wheel_ok (wheel_del t w) \<and> w_slotOf (wheel_del t w) t = None \<and> w_fired (wheel_del t w) = w_fired w \<and>
    w_timers (wheel_del t w) = w_timers w \<and> w_interval (wheel_del t w) = w_interval w"
proof (cases "w_slotOf w t")
  case None
  with assms show ?thesis by (simp add: wheel_del_def)
next
  case (Some i)
  have slot: "w_slotOf w u = Some k \<longleftrightarrow> k < w_slotNum w \<and> u \<in> set (w_slots w ! k)" for u k
    using assms by (simp add: wheel_ok_def)
  from slot [of t i] Some have i: "i < w_slotNum w" by simp
  have only: "t \<notin> set (w_slots w ! k)" if "k < w_slotNum w" "k \<noteq> i" for k
    using slot [of t k] Some that by auto
  define v where "v = w\<lparr>w_slots := (w_slots w)[i := removeAll t (w_slots w ! i)], w_slotOf := (w_slotOf w)(t := None)\<rparr>"
  have eq: "wheel_del t w = v" using Some by (simp add: wheel_del_def v_def)
  have "w_slotOf v u = Some k \<longleftrightarrow> k < w_slotNum v \<and> u \<in> set (w_slots v ! k)" for u k
    using only [of k] slot [of u k] i assms by (auto simp: v_def wheel_ok_def nth_list_update)
  moreover have "0 \<le> at_circle (w_timers v u)" if "w_slotOf v u \<noteq> None" for u
    using that assms by (auto simp: v_def wheel_ok_def split: if_splits)
  moreover have "0 < w_slotNum v" "0 < w_interval v" "length (w_slots v) = w_slotNum v" "w_currSlot v < w_slotNum v"
    using assms by (simp_all add: v_def wheel_ok_def)
  ultimately have "wheel_ok v" unfolding wheel_ok_def by blast
  then show ?thesis unfolding eq by (simp add: v_def)
qed

lemma addTimerHandle_due:
  assumes ok: "wheel_ok w" and iv: "w_interval w = int m * 1000000" and m: "0 < m"
    and k: "at_delay (w_timers w t) = int k * w_interval w" "1 \<le> k"
  shows "\<exists>w' i. addTimerHandle t w = Inr w' \<and> wheel_ok w' \<and> w_slotOf w' t = Some i \<and>
    ticks_left w' t i = int k \<and> w_fired w' = w_fired w"
proof -
  define v where "v = wheel_del t w"
  have v: "wheel_ok v" "w_slotOf v t = None" "w_fired v = w_fired w" "w_timers v = w_timers w"
    "w_interval v = w_interval w" using wheel_del_ok [OF ok, of t] by (simp_all add: v_def)
  let ?n = "w_slotNum v" and ?c = "w_currSlot v"
  have n: "0 < ?n" using v(1) by (simp add: wheel_ok_def)
  define i where "i = (?c + k) mod ?n"
  define c where "c = (k - 1) div ?n"
  have md: "Milliseconds (at_delay (w_timers v t)) = int k * int m" "Milliseconds (w_interval v) = int m"
    using k(1) iv v(4,5) Milliseconds_exact [of "int k * int m"] Milliseconds_exact [of "int m"]
    by (simp_all add: mult.assoc)
  have q1: "go_div (int k * int m) (int m) = int k" using m by (simp add: go_div_pos)
  have "int k * int m - int m = int (k - 1) * int m" using k(2) by (simp add: of_nat_diff algebra_simps)
  then have q2: "go_div (int k * int m - int m) (int m) = int (k - 1)" using m by (simp add: go_div_pos)
  have cal: "calIndexAndCircle t v = Inr (int i, int c)"
    using m n by (simp add: calIndexAndCircle_def Let_def md q1 q2 go_mod_pos go_div_pos i_def c_def zmod_int zdiv_int)
  have i: "i < ?n" using n by (simp add: i_def)
  define w' where "w' = (upd_timer t (\<lambda>tm. tm\<lparr>at_circle := int c\<rparr>) v)
    \<lparr>w_slots := (w_slots v)[i := t # w_slots v ! i], w_slotOf := (w_slotOf v)(t \<mapsto> i)\<rparr>"
  have add: "addTimerHandle t w = Inr w'"
    using cal by (simp add: addTimerHandle_def Let_def v_def [symmetric] w'_def upd_timer_def)
  have none: "t \<notin> set (w_slots v ! k)" if "k < ?n" for k
    using v(1,2) that unfolding wheel_ok_def by (metis option.distinct(1))
  have "w_slotOf w' u = Some k \<longleftrightarrow> k < w_slotNum w' \<and> u \<in> set (w_slots w' ! k)" for u k
    using none [of k] v(1) i by (auto simp: w'_def upd_timer_def wheel_ok_def nth_list_update)
  moreover have "0 \<le> at_circle (w_timers w' u)" if "w_slotOf w' u \<noteq> None" for u
    using that v(1) by (auto simp: w'_def upd_timer_def wheel_ok_def split: if_splits)
  moreover have "0 < w_slotNum w'" "0 < w_interval w'" "length (w_slots w') = w_slotNum w'" "w_currSlot w' < w_slotNum w'"
    using v(1) by (simp_all add: w'_def upd_timer_def wheel_ok_def)
  ultimately have "wheel_ok w'" unfolding wheel_ok_def by blast
  moreover have "ticks_left w' t i = int k"
  proof -
    have "(int i - int ?c - 1) mod int ?n = (int (?c + k) - (int ?c + 1)) mod int ?n"
      by (simp add: i_def zmod_int mod_diff_left_eq diff_diff_eq)
    also have "\<dots> = int ((k - 1) mod ?n)" using k(2) by (simp add: zmod_int of_nat_diff)
    finally have "ticks_left w' t i = int ((k - 1) mod ?n) + 1 + int ((k - 1) div ?n) * int ?n"
      by (simp add: ticks_left_def w'_def upd_timer_def c_def)
    moreover have "int ((k - 1) mod ?n) + int ((k - 1) div ?n) * int ?n = int (k - 1)"
      by (metis mod_div_mult_eq of_nat_add of_nat_mult)
    ultimately show ?thesis using k(2) by simp
  qed
  moreover have "w_slotOf w' t = Some i" "w_fired w' = w_fired w" using v(3) by (simp_all add: w'_def upd_timer_def)
  ultimately show ?thesis using add by blast
qed

lemma duration_Round_multiple:
  assumes "0 < iv" and "iv \<le> d"
  shows "\<exists>k. 1 \<le> k \<and> duration_Round iv d = int k * iv \<and> 2 * \<bar>int k * iv - d\<bar> \<le> iv"
proof -
  let ?r = "d mod iv" and ?q = "d div iv"
  have q: "1 \<le> ?q" using assms by (simp add: pos_imp_zdiv_pos_iff int_one_le_iff_zero_less)
  have r: "0 \<le> ?r" "?r < iv" using assms by simp_all
  have d: "?q * iv = d - ?r" by (simp add: minus_mod_eq_div_mult)
  define j where "j = (if ?r + ?r < iv then ?q else ?q + 1)"
  have "duration_Round iv d = j * iv"
    using d by (auto simp: duration_Round_def Let_def j_def algebra_simps)
  moreover have "2 * \<bar>j * iv - d\<bar> \<le> iv"
  proof (cases "?r + ?r < iv")
    case True
    then have "j * iv - d = - ?r" using d by (simp add: j_def)
    with True r show ?thesis by simp
  next
    case False
    then have "j * iv - d = iv - ?r" using d by (simp add: j_def algebra_simps)
    with False r show ?thesis by simp
  qed
  moreover have "1 \<le> j" using q by (simp add: j_def)
  ultimately show ?thesis by (intro exI [of _ "nat j"]) (simp add: nat_le_eq_zle)
qed

section \<open>Properties\<close>

text \<open>C18. The time wheel is exact. On a wheel whose interval is a whole number of milliseconds, a timer
  with a timeout of at least one interval, once added and taken over by the loop, leaves the wheel at
  exactly the tick its rounded timeout names: never earlier, never later, whatever other timers are on
  the wheel and however many rounds it takes. The rounding moves the timeout by at most half an interval.\<close>

theorem time_wheel_exact:
  assumes "wheel_ok w" and "w_interval w = int m * 1000000" and "\<not> at_active (w_timers w t)"
    and "at_delay (w_timers w t) = at_timeout (w_timers w t)" and "w_interval w \<le> at_timeout (w_timers w t)"
    and "t \<notin> set (w_fired w)"
  shows "\<exists>w1 w2 k. wheel_Add t w = (None, w1) \<and> addTimerHandle t w1 = Inr w2 \<and> wheel_ok w2 \<and>
    2 * \<bar>int k * w_interval w - at_timeout (w_timers w t)\<bar> \<le> w_interval w \<and>
    (\<forall>j. t \<in> set (w_fired ((tickHandle ^^ j) w2)) \<longleftrightarrow> k \<le> j)"
proof -
  let ?iv = "w_interval w" and ?T = "at_timeout (w_timers w t)"
  have iv: "0 < ?iv" using assms(1) by (simp add: wheel_ok_def)
  with assms(2) have m: "0 < m" by simp
  obtain k where k: "1 \<le> k" "duration_Round ?iv ?T = int k * ?iv" "2 * \<bar>int k * ?iv - ?T\<bar> \<le> ?iv"
    using duration_Round_multiple [OF iv assms(5)] by blast
  define w1 where "w1 = (upd_timer t (\<lambda>tm. tm\<lparr>at_active := True, at_delay := duration_Round ?iv (at_timeout tm),
    at_begin := w_now w\<rparr>) w)\<lparr>w_toAdd := w_toAdd w @ [t]\<rparr>"
  have add: "wheel_Add t w = (None, w1)"
    using assms(3-5) by (simp add: wheel_Add_def Let_def w1_def upd_timer_def)
  have w1: "wheel_ok w1" "w_interval w1 = ?iv" "at_delay (w_timers w1 t) = int k * w_interval w1"
    "w_fired w1 = w_fired w"
    using assms(1) k(2) by (auto simp: w1_def upd_timer_def wheel_ok_def)
  obtain w2 i where w2: "addTimerHandle t w1 = Inr w2" "wheel_ok w2" "w_slotOf w2 t = Some i"
    "ticks_left w2 t i = int k" "w_fired w2 = w_fired w1"
    using addTimerHandle_due [OF w1(1) _ m w1(3) k(1)] w1(2) assms(2) by auto
  have "\<forall>j. t \<in> set (w_fired ((tickHandle ^^ j) w2)) \<longleftrightarrow> k \<le> j"
    using ticks_fire [OF w2(2,3,4)] w2(5) w1(4) assms(6) by simp
  with add w2 k(3) show ?thesis by blast
qed

theorem time_wheel_exact_witness:
  "\<exists>w w1 w2 k. NewTimeWheel 0 (\<lambda>_. NewTimer True 150000000000) 1000000000 60 = Inr w \<and>
     wheel_Add 7 w = (None, w1) \<and> addTimerHandle 7 w1 = Inr w2 \<and>
     (\<forall>j. 7 \<in> set (w_fired ((tickHandle ^^ j) w2)) \<longleftrightarrow> k \<le> j)"
proof -
  obtain w where w: "NewTimeWheel 0 (\<lambda>_. NewTimer True 150000000000) 1000000000 60 = Inr w"
    by (simp add: NewTimeWheel_def)
  have ok: "wheel_ok w" by (rule NewTimeWheel_ok [OF w])
  have "w_interval w = int 1000 * 1000000" "w_fired w = []" "w_timers w 7 = NewTimer True 150000000000"
    using w by (auto simp: NewTimeWheel_def)
  with time_wheel_exact [OF ok, of 1000 7] w show ?thesis by (auto simp: NewTimer_def)
qed

text \<open>A deadline timer gives no stale timeout: whatever happened to it before (expired and never
  received, stopped, restarted), after \<open>Start\<close> the channel becomes readable exactly when the current
  deadline has passed.\<close>

theorem timer_start_no_stale:
  assumes "timer_ok t"
  shows "timer_Wait (timer_advance now (timer_Start zero_at t)) = Inr (deadline_at zero_at t \<le> now)"
  using assms
  by (auto simp: timer_ok_def timer_Start_def timer_advance_def timer_Wait_def rt_new_def rt_reset_def
      stop_and_drain_def rt_stop_def rt_drain_def rt_advance_def deadline_at_def Let_def split: option.splits)

theorem timer_start_no_stale_witness:
  "let t = timer_Reset (Some 50) (timer_advance 20 (timer_Start 0 (timer_New (Some 10))))
   in timer_Wait (timer_advance 30 (timer_Start 0 t)) = Inr False"
  using timer_start_no_stale [of "timer_Reset (Some 50) (timer_advance 20 (timer_Start 0 (timer_New (Some 10))))" 30 0]
  by (simp add: timer_ok_ops Let_def) (simp add: deadline_at_def timer_Reset_def)

text \<open>A refreshed timer is not re-armed for the time it has left: when \<open>checkExpire\<close> finds it not yet
  expired, the remaining delay it computes is overwritten in \<open>Add\<close> by the full (rounded) timeout, and the
  start time is reset as well.\<close>

theorem rearm_uses_full_timeout:
  assumes "at_handle (w_timers w t)" and "\<not> at_active (w_timers w t)"
    and "w_now w - at_begin (w_timers w t) < at_timeout (w_timers w t)"
    and "w_interval w \<le> at_timeout (w_timers w t) - (w_now w - at_begin (w_timers w t))"
  shows "\<exists>w'. checkExpire t w = (False, w') \<and> w_toAdd w' = w_toAdd w @ [t] \<and>
    at_delay (w_timers w' t) = duration_Round (w_interval w) (at_timeout (w_timers w t)) \<and>
    at_begin (w_timers w' t) = w_now w"
  using assms by (auto simp: checkExpire_def wheel_Add_def upd_timer_def Let_def)

theorem rearm_uses_full_timeout_witness:
  "let tm = (NewTimer True 10000000000)\<lparr>at_begin := 4000000000\<rparr>;
       w = \<lparr>w_now = 10000000000, w_timers = (\<lambda>_. tm), w_toAdd = [], w_toDel = [], w_slotOf = (\<lambda>_. None),
            w_slots = replicate 60 [], w_interval = 1000000000, w_slotNum = 60, w_currSlot = 10, w_fired = [1]\<rparr>
   in at_delay (w_timers (snd (checkExpire 1 w)) 1) = 10000000000"
  using rearm_uses_full_timeout [of
      "\<lparr>w_now = 10000000000, w_timers = (\<lambda>_. (NewTimer True 10000000000)\<lparr>at_begin := 4000000000\<rparr>), w_toAdd = [],
        w_toDel = [], w_slotOf = (\<lambda>_. None), w_slots = replicate 60 [], w_interval = 1000000000, w_slotNum = 60,
        w_currSlot = 10, w_fired = [1]\<rparr>" 1]
  by (auto simp: NewTimer_def Let_def duration_Round_def)

text \<open>\<open>NewTimeWheel\<close> accepts an interval below one millisecond, but the loop of such a wheel panics with
  a division by zero as soon as it takes over a timer.\<close>

theorem short_interval_panics:
  assumes "NewTimeWheel now timers interval slotNum = Inr w" and "interval < 1000000"
  shows "addTimerHandle t w = Inl DivByZero"
proof -
  have "w_interval w = interval" "0 < interval" "w_slotOf w t = None"
    using assms(1) by (auto simp: NewTimeWheel_def split: if_splits)
  with assms(2) show ?thesis
    by (simp add: addTimerHandle_def wheel_del_def calIndexAndCircle_def Let_def Milliseconds_def go_div_pos)
qed

theorem short_interval_panics_witness:
  "\<exists>w. NewTimeWheel 0 (\<lambda>_. NewTimer True 1000000) 500000 10 = Inr w \<and> addTimerHandle 3 w = Inl DivByZero"
  using short_interval_panics [of 0 "\<lambda>_. NewTimer True 1000000" 500000 10 _ 3]
  by (auto simp: NewTimeWheel_def)

end
