(* ===== verification/Netutil.thy ===== *)
theory Netutil
  imports Tnet_Prelude
begin

text \<open>
  Model of \<open>internal/netutil/addr.go\<close>: conversions between Go addresses, \<open>unix.Sockaddr\<close> values and the raw
  \<open>sockaddr\<close> bytes that UDP packets carry in front of their payload. The host is little-endian (amd64,
  arm64). The network interfaces of the machine are the arguments \<open>byIndex\<close> and \<open>byName\<close> (for
  \<open>net.InterfaceByIndex\<close> and \<open>net.InterfaceByName\<close>). A nil \<open>net.IP\<close> is the empty list.
\<close>

unbundle bit_operations_syntax

section \<open>Byte order\<close>

definition put_le16 :: "u16 \<Rightarrow> byte list" where
  "put_le16 w = [ucast w, ucast (drop_bit 8 w)]"

definition put_be16 :: "u16 \<Rightarrow> byte list" where
  "put_be16 w = [ucast (drop_bit 8 w), ucast w]"

definition get_le16 :: "byte list \<Rightarrow> u16" where
  "get_le16 b = ucast (b ! 0) OR push_bit 8 (ucast (b ! 1))"

definition get_be16 :: "byte list \<Rightarrow> u16" where
  "get_be16 b = ucast (b ! 1) OR push_bit 8 (ucast (b ! 0))"

definition put_be32 :: "u32 \<Rightarrow> byte list" where
  "put_be32 w = [ucast (drop_bit 24 w), ucast (drop_bit 16 w), ucast (drop_bit 8 w), ucast w]"

definition get_le32 :: "byte list \<Rightarrow> u32" where
  "get_le32 b =
     ucast (b ! 0) OR push_bit 8 (ucast (b ! 1)) OR push_bit 16 (ucast (b ! 2)) OR push_bit 24 (ucast (b ! 3))"

definition LittleToBigEndian :: "u16 \<Rightarrow> u16" where
  "LittleToBigEndian i = get_be16 (put_le16 i)"

definition BigToLittleEndian :: "u16 \<Rightarrow> u16" where
  "BigToLittleEndian i = get_le16 (put_be16 i)"

section \<open>Addresses\<close>

definition SockaddrSize :: nat where
  "SockaddrSize = 28"

definition AF_INET :: u16 where
  "AF_INET = 2"

definition AF_INET6 :: u16 where
  "AF_INET6 = 10"

record ipaddr =
  ia_IP :: "byte list"
  ia_Port :: int
  ia_Zone :: string

datatype net_addr = TCPAddr ipaddr | UDPAddr ipaddr | UnixAddr string

datatype sockaddr =
    SockaddrInet4 int "byte list"
  | SockaddrInet6 int "byte list" u32
  | SockaddrUnix string

text \<open>\<open>net.IP.To4\<close> and \<open>To16\<close>: \<open>[]\<close> is nil.\<close>

definition v4InV6Prefix :: "byte list" where
  "v4InV6Prefix = replicate 10 0 @ [0xff, 0xff]"

definition To4 :: "byte list \<Rightarrow> byte list" where
  "To4 ip = (if length ip = 4 then ip
     else if length ip = 16 \<and> take 12 ip = v4InV6Prefix then drop 12 ip else [])"

definition To16 :: "byte list \<Rightarrow> byte list" where
  "To16 ip = (if length ip = 4 then v4InV6Prefix @ ip else if length ip = 16 then ip else [])"

section \<open>Zones\<close>

text \<open>The loop of \<open>int2decimal\<close>, most significant digit first.\<close>

function int2decimal_digits :: "nat \<Rightarrow> string" where
  "int2decimal_digits i = (if i = 0 then [] else int2decimal_digits (i div 10) @ [char_of (48 + i mod 10)])"
  by auto
termination
  by (relation "measure id") auto

declare int2decimal_digits.simps [simp del]

definition int2decimal :: "nat \<Rightarrow> string" where
  "int2decimal i = (if i = 0 then ''0'' else int2decimal_digits i)"

text \<open>\<open>strconv.Atoi\<close>: an optional sign and decimal digits, in the range of a 64-bit integer.\<close>

definition is_digit :: "char \<Rightarrow> bool" where
  "is_digit c \<longleftrightarrow> 48 \<le> (of_char c :: nat) \<and> (of_char c :: nat) \<le> 57"

fun digits_value :: "nat \<Rightarrow> string \<Rightarrow> nat option" where
  "digits_value acc [] = Some acc"
| "digits_value acc (c # cs) = (if is_digit c then digits_value (acc * 10 + (of_char c - 48)) cs else None)"

definition Atoi :: "string \<Rightarrow> err + int" where
  "Atoi s =
     (let (neg, ds) = (case s of
          c # cs \<Rightarrow> if c = CHR ''-'' then (True, cs) else if c = CHR ''+'' then (False, cs) else (False, s)
        | [] \<Rightarrow> (False, []))
      in if ds = [] then Inl (ErrText ''invalid syntax'')
         else case digits_value 0 ds of
           None \<Rightarrow> Inl (ErrText ''invalid syntax'')
         | Some n \<Rightarrow>
             if (if neg then n \<le> 2 ^ 63 else n < 2 ^ 63) then Inr (if neg then - int n else int n)
             else Inl (ErrText ''value out of range''))"

definition IP6ZoneToString :: "(int \<Rightarrow> string option) \<Rightarrow> int \<Rightarrow> string" where
  "IP6ZoneToString byIndex zone =
     (if zone = 0 then ''''
      else case byIndex zone of Some name \<Rightarrow> name | None \<Rightarrow> int2decimal (nat zone))"

definition StringToZoneID :: "(string \<Rightarrow> int option) \<Rightarrow> string \<Rightarrow> err + u32" where
  "StringToZoneID byName zone =
     (if zone = '''' then Inr 0
      else case byName zone of
        Some i \<Rightarrow> Inr (of_int i)
      | None \<Rightarrow> (case Atoi zone of Inl e \<Rightarrow> Inl e | Inr n \<Rightarrow> Inr (of_int n)))"

section \<open>Raw socket addresses\<close>

definition buildSockaddrSliceIPv4 :: "byte list \<Rightarrow> byte list \<Rightarrow> int \<Rightarrow> err + byte list" where
  "buildSockaddrSliceIPv4 sockaddr ip port =
     (if length sockaddr < SockaddrSize then Inl (ErrText ''sockaddr length not enough'')
      else Inr (overwrite 4 (take 4 ip) (overwrite 2 (put_be16 (of_int port)) (overwrite 0 (put_le16 AF_INET) sockaddr))))"

definition buildSockaddrSliceIPv6 :: "byte list \<Rightarrow> byte list \<Rightarrow> int \<Rightarrow> u32 \<Rightarrow> err + byte list" where
  "buildSockaddrSliceIPv6 sockaddr ip port zoneID =
     (if length sockaddr < SockaddrSize then Inl (ErrText ''sockaddr length not enough'')
      else Inr (overwrite 24 (put_be32 zoneID) (overwrite 8 (take 16 ip)
             (overwrite 2 (put_be16 (of_int port)) (overwrite 0 (put_le16 AF_INET6) sockaddr)))))"

definition UDPAddrToSockaddrSlice :: "(string \<Rightarrow> int option) \<Rightarrow> ipaddr \<Rightarrow> err + byte list" where
  "UDPAddrToSockaddrSlice byName addr =
     (let sa = replicate SockaddrSize 0; ipv4 = To4 (ia_IP addr) in
      if ipv4 \<noteq> [] then buildSockaddrSliceIPv4 sa ipv4 (ia_Port addr)
      else case StringToZoneID byName (ia_Zone addr) of
        Inl e \<Rightarrow> Inl e
      | Inr zoneID \<Rightarrow> buildSockaddrSliceIPv6 sa (To16 (ia_IP addr)) (ia_Port addr) zoneID)"

text \<open>The slice is read through \<open>RawSockaddrInet4\<close>/\<open>RawSockaddrInet6\<close>: integers in host order at their
  offsets.\<close>

definition SockaddrSliceToUDPAddr :: "(int \<Rightarrow> string option) \<Rightarrow> byte list \<Rightarrow> err + ipaddr" where
  "SockaddrSliceToUDPAddr byIndex sockaddr =
     (if length sockaddr \<noteq> SockaddrSize then Inl (ErrText ''invalid sockaddr'')
      else
        let family = get_le16 (slice 0 2 sockaddr);
            port = int (unat (BigToLittleEndian (get_le16 (slice 2 4 sockaddr))))
        in if family = AF_INET then
             Inr \<lparr>ia_IP = slice 4 8 sockaddr, ia_Port = port, ia_Zone = ''''\<rparr>
           else if family = AF_INET6 then
             Inr \<lparr>ia_IP = slice 8 24 sockaddr, ia_Port = port,
                  ia_Zone = IP6ZoneToString byIndex (int (unat (get_le32 (slice 24 28 sockaddr))))\<rparr>
           else Inl (ErrText ''unknown net family''))"

definition UnixSockaddrToSockaddrSlice :: "sockaddr \<Rightarrow> byte list \<Rightarrow> err + byte list" where
  "UnixSockaddrToSockaddrSlice us sockaddr =
     (case us of
        SockaddrInet4 port addr \<Rightarrow> buildSockaddrSliceIPv4 sockaddr addr port
      | SockaddrInet6 port addr zone \<Rightarrow> buildSockaddrSliceIPv6 sockaddr addr port zone
      | SockaddrUnix _ \<Rightarrow> Inl (ErrText ''addr type is not support''))"

section \<open>Networks of the machine\<close>

text \<open>The addresses of the interfaces, as \<open>net.InterfaceAddrs\<close> gives them: the IP of an \<open>IPNet\<close>, or nothing for another
  type of address.\<close>

type_synonym iface_addrs = "err + byte list option list"

definition hasIPv4Addr :: "iface_addrs \<Rightarrow> bool" where
  "hasIPv4Addr addrs =
     (case addrs of
        Inl _ \<Rightarrow> False
      | Inr as \<Rightarrow> list_ex (\<lambda>a. case a of None \<Rightarrow> False | Some ip \<Rightarrow> To4 ip \<noteq> []) as)"

definition hasIPv6Addr :: "iface_addrs \<Rightarrow> bool" where
  "hasIPv6Addr addrs =
     (case addrs of
        Inl _ \<Rightarrow> False
      | Inr as \<Rightarrow> list_ex (\<lambda>a. case a of None \<Rightarrow> False | Some ip \<Rightarrow> To4 ip = []) as)"

definition TestableNetwork :: "iface_addrs \<Rightarrow> string \<Rightarrow> bool" where
  "TestableNetwork addrs network =
     (if network = ''unix'' then True
      else if network \<in> {''tcp4'', ''udp4''} then hasIPv4Addr addrs
      else if network \<in> {''tcp6'', ''udp6''} then hasIPv6Addr addrs
      else if network \<in> {''tcp'', ''udp''} then hasIPv6Addr addrs \<or> hasIPv4Addr addrs
      else False)"

section \<open>Socket addresses\<close>

definition sockaddrInet4ToIP :: "byte list \<Rightarrow> byte list" where
  "sockaddrInet4ToIP addr = overwrite 12 (take 4 addr) (overwrite 10 [0xff, 0xff] (replicate 16 0))"

definition sockaddrInet6ToIPAndZone :: "(int \<Rightarrow> string option) \<Rightarrow> byte list \<Rightarrow> u32 \<Rightarrow> byte list \<times> string" where
  "sockaddrInet6ToIPAndZone byIndex addr zone =
     (overwrite 0 (take 16 addr) (replicate 16 0), IP6ZoneToString byIndex (int (unat zone)))"

definition SockaddrToTCPOrUnixAddr :: "(int \<Rightarrow> string option) \<Rightarrow> sockaddr \<Rightarrow> net_addr" where
  "SockaddrToTCPOrUnixAddr byIndex sa =
     (case sa of
        SockaddrInet4 port addr \<Rightarrow> TCPAddr \<lparr>ia_IP = sockaddrInet4ToIP addr, ia_Port = port, ia_Zone = ''''\<rparr>
      | SockaddrInet6 port addr z \<Rightarrow>
          (let (ip, zone) = sockaddrInet6ToIPAndZone byIndex addr z
           in TCPAddr \<lparr>ia_IP = ip, ia_Port = port, ia_Zone = zone\<rparr>)
      | SockaddrUnix name \<Rightarrow> UnixAddr name)"

definition SockaddrToUDPAddr :: "(int \<Rightarrow> string option) \<Rightarrow> sockaddr \<Rightarrow> net_addr option" where
  "SockaddrToUDPAddr byIndex sa =
     (case sa of
        SockaddrInet4 port addr \<Rightarrow> Some (UDPAddr \<lparr>ia_IP = sockaddrInet4ToIP addr, ia_Port = port, ia_Zone = ''''\<rparr>)
      | SockaddrInet6 port addr z \<Rightarrow>
          (let (ip, zone) = sockaddrInet6ToIPAndZone byIndex addr z
           in Some (UDPAddr \<lparr>ia_IP = ip, ia_Port = port, ia_Zone = zone\<rparr>))
      | SockaddrUnix name \<Rightarrow> None)"

definition getFamily :: "byte list \<Rightarrow> u16" where
  "getFamily ip = (if length ip \<le> 4 then AF_INET else if To4 ip \<noteq> [] then AF_INET else AF_INET6)"

definition getAndCompareFamily :: "byte list \<Rightarrow> byte list \<Rightarrow> err + u16" where
  "getAndCompareFamily lIP rIP =
     (if getFamily lIP \<noteq> getFamily rIP then Inl (ErrText ''IP family mismatch'') else Inr (getFamily rIP))"

definition IPv4zero :: "byte list" where
  "IPv4zero = v4InV6Prefix @ replicate 4 0"

definition IPv6zero :: "byte list" where
  "IPv6zero = replicate 16 0"

text \<open>\<open>net.IP.Equal\<close>: an IPv4 address and its IPv4-mapped form are equal.\<close>

definition IP_Equal :: "byte list \<Rightarrow> byte list \<Rightarrow> bool" where
  "IP_Equal a b \<longleftrightarrow>
     (if length a = length b then a = b
      else if length a = 4 \<and> length b = 16 then take 12 b = v4InV6Prefix \<and> drop 12 b = a
      else if length a = 16 \<and> length b = 4 then take 12 a = v4InV6Prefix \<and> drop 12 a = b
      else False)"

definition ipToSockaddr ::
  "(string \<Rightarrow> int option) \<Rightarrow> u16 \<Rightarrow> byte list \<Rightarrow> int \<Rightarrow> string \<Rightarrow> err + sockaddr" where
  "ipToSockaddr byName family ip port zone =
     (if family = AF_INET then
        (let ip = (if ip = [] then IPv4zero else ip); ip4 = To4 ip in
         if ip4 = [] then Inl (ErrText ''non-IPv4 address'')
         else Inr (SockaddrInet4 port (take 4 ip4)))
      else if family = AF_INET6 then
        (let ip = (if ip = [] \<or> IP_Equal ip IPv4zero then IPv6zero else ip); ip6 = To16 ip in
         if ip6 = [] then Inl (ErrText ''non-IPv6 address'')
         else case StringToZoneID byName zone of
           Inl e \<Rightarrow> Inl e
         | Inr zoneID \<Rightarrow> Inr (SockaddrInet6 port (take 16 ip6) zoneID))
      else Inl (ErrText ''invalid address family''))"

definition tcpAddrToSockAddr :: "(string \<Rightarrow> int option) \<Rightarrow> net_addr \<Rightarrow> net_addr \<Rightarrow> err + sockaddr" where
  "tcpAddrToSockAddr byName laddr raddr =
     (case (laddr, raddr) of
        (TCPAddr l, TCPAddr r) \<Rightarrow>
          (case getAndCompareFamily (ia_IP l) (ia_IP r) of
             Inl e \<Rightarrow> Inl e
           | Inr family \<Rightarrow> ipToSockaddr byName family (ia_IP r) (ia_Port r) (ia_Zone r))
      | _ \<Rightarrow> Inl (ErrText ''laddr and raddr are not both tcp addr''))"

definition udpAddrToSockAddr :: "(string \<Rightarrow> int option) \<Rightarrow> net_addr \<Rightarrow> net_addr \<Rightarrow> err + sockaddr" where
  "udpAddrToSockAddr byName laddr raddr =
     (case (laddr, raddr) of
        (UDPAddr l, UDPAddr r) \<Rightarrow>
          (case getAndCompareFamily (ia_IP l) (ia_IP r) of
             Inl e \<Rightarrow> Inl e
           | Inr family \<Rightarrow> ipToSockaddr byName family (ia_IP r) (ia_Port r) (ia_Zone r))
      | _ \<Rightarrow> Inl (ErrText ''laddr and raddr are not both udp addr''))"

definition AddrToSockAddr :: "(string \<Rightarrow> int option) \<Rightarrow> net_addr \<Rightarrow> net_addr \<Rightarrow> err + sockaddr" where
  "AddrToSockAddr byName laddr raddr =
     (case raddr of
        TCPAddr _ \<Rightarrow> tcpAddrToSockAddr byName laddr raddr
      | UDPAddr _ \<Rightarrow> udpAddrToSockAddr byName laddr raddr
      | UnixAddr _ \<Rightarrow> Inl (ErrText ''addr type is not support''))"

definition family2String :: "u16 \<Rightarrow> string" where
  "family2String family = (if family = AF_INET then ''AF_INET'' else if family = AF_INET6 then ''AF_INET6'' else ''UNKOWN'')"

text \<open>Validation of the network name of a listener.\<close>

definition ValidateTCP :: "string \<Rightarrow> err option" where
  "ValidateTCP network = (if network \<in> {''tcp'', ''tcp4'', ''tcp6''} then None else Some (ErrText ''expected listen on TCP''))"

definition ValidateUDP :: "string \<Rightarrow> err option" where
  "ValidateUDP network = (if network \<in> {''udp'', ''udp4'', ''udp6''} then None else Some (ErrText ''expected listen on UDP''))"

section \<open>Lemmas\<close>

lemma length_put [simp]: "length (put_le16 w) = 2" "length (put_be16 w) = 2" "length (put_be32 z) = 4"
  by (simp_all add: put_le16_def put_be16_def put_be32_def)

lemma get_put16: "get_le16 (put_le16 w) = w" "get_be16 (put_be16 w) = w"
  by (rule bit_word_eqI; auto simp: get_le16_def put_le16_def get_be16_def put_be16_def bit_simps)+

lemma swap16: "BigToLittleEndian (get_le16 b) = get_be16 b"
  by (rule bit_word_eqI) (auto simp: BigToLittleEndian_def get_le16_def get_be16_def put_be16_def bit_simps
      dest: bit_imp_le_length)

lemma endian_inverse: "BigToLittleEndian (LittleToBigEndian i) = i" "LittleToBigEndian (BigToLittleEndian i) = i"
  by (rule bit_word_eqI; auto simp: BigToLittleEndian_def LittleToBigEndian_def get_le16_def get_be16_def
      put_be16_def put_le16_def bit_simps)+

lemma IPv4_slice:
  assumes "length ip = 4" and "buildSockaddrSliceIPv4 (replicate SockaddrSize 0) ip port = Inr sa"
  shows "length sa = SockaddrSize" "slice 0 2 sa = put_le16 AF_INET" "slice 2 4 sa = put_be16 (of_int port)"
    "slice 4 8 sa = ip"
proof -
  have "sa = put_le16 AF_INET @ put_be16 (of_int port) @ ip @ replicate 20 0"
    using assms by (simp add: buildSockaddrSliceIPv4_def SockaddrSize_def overwrite_def)
  then show "length sa = SockaddrSize" "slice 0 2 sa = put_le16 AF_INET" "slice 2 4 sa = put_be16 (of_int port)"
    "slice 4 8 sa = ip"
    using assms(1) by (simp_all add: SockaddrSize_def slice_def)
qed

lemma IPv6_slice:
  assumes "length ip = 16" and "buildSockaddrSliceIPv6 (replicate SockaddrSize 0) ip port z = Inr sa"
  shows "length sa = SockaddrSize" "slice 0 2 sa = put_le16 AF_INET6" "slice 2 4 sa = put_be16 (of_int port)"
    "slice 8 24 sa = ip" "slice 24 28 sa = put_be32 z"
proof -
  have "sa = put_le16 AF_INET6 @ put_be16 (of_int port) @ replicate 4 0 @ ip @ put_be32 z"
    using assms by (simp add: buildSockaddrSliceIPv6_def SockaddrSize_def overwrite_def)
  then show "length sa = SockaddrSize" "slice 0 2 sa = put_le16 AF_INET6" "slice 2 4 sa = put_be16 (of_int port)"
    "slice 8 24 sa = ip" "slice 24 28 sa = put_be32 z"
    using assms(1) by (simp_all add: SockaddrSize_def slice_def)
qed

lemma port_bytes:
  assumes "0 \<le> port" and "port < 65536"
  shows "int (unat (BigToLittleEndian (get_le16 (put_be16 (of_int port))))) = port"
proof -
  have "BigToLittleEndian (get_le16 (put_be16 (of_int port))) = of_int port"
    by (simp add: swap16 get_put16)
  moreover have "unat (of_int port :: u16) = nat port"
    using assms by (simp add: unat_eq_nat_uint uint_word_of_int_eq take_bit_int_eq_self)
  ultimately show ?thesis using assms by simp
qed

section \<open>Decimal zones\<close>

lemma int2decimal_digits_ok:
  "digits_value acc (int2decimal_digits i @ s) = digits_value (acc * 10 ^ length (int2decimal_digits i) + i) s"
proof (induction i arbitrary: acc s rule: int2decimal_digits.induct)
  case (1 i)
  show ?case
  proof (cases "i = 0")
    case True
    then show ?thesis by (simp add: int2decimal_digits.simps [of 0])
  next
    case False
    have lt: "48 + i mod 10 < 256" using mod_less_divisor [of 10 i] by linarith
    then have c: "is_digit (char_of (48 + i mod 10))" "of_char (char_of (48 + i mod 10)) = 48 + i mod 10"
      using mod_less_divisor [of 10 i] by (simp_all add: is_digit_def)
    let ?k = "length (int2decimal_digits (i div 10))"
    have e: "int2decimal_digits i = int2decimal_digits (i div 10) @ [char_of (48 + i mod 10)]"
      using False by (simp add: int2decimal_digits.simps [of i])
    have "digits_value acc (int2decimal_digits i @ s) =
        digits_value (acc * 10 ^ ?k + i div 10) (char_of (48 + i mod 10) # s)"
      unfolding e using 1 [OF False] by simp
    also have "\<dots> = digits_value ((acc * 10 ^ ?k + i div 10) * 10 + i mod 10) s"
      using c by simp
    also have "(acc * 10 ^ ?k + i div 10) * 10 + i mod 10 = acc * 10 ^ Suc ?k + i" by (simp add: algebra_simps)
    finally show ?thesis unfolding e by simp
  qed
qed

lemma int2decimal_shape:
  "i \<noteq> 0 \<Longrightarrow> \<exists>c cs. int2decimal_digits i = c # cs \<and> is_digit c"
proof (induction i rule: int2decimal_digits.induct)
  case (1 i)
  have c: "is_digit (char_of (48 + i mod 10))"
    using mod_less_divisor [of 10 i] by (simp add: is_digit_def)
  have e: "int2decimal_digits i = int2decimal_digits (i div 10) @ [char_of (48 + i mod 10)]"
    using 1(2) by (simp add: int2decimal_digits.simps [of i])
  show ?case
  proof (cases "i div 10 = 0")
    case True
    with e c show ?thesis by (simp add: int2decimal_digits.simps [of 0])
  next
    case False
    with 1 e show ?thesis by auto
  qed
qed

lemma Atoi_int2decimal:
  assumes "i < 2 ^ 63"
  shows "Atoi (int2decimal i) = Inr (int i)"
proof (cases "i = 0")
  case True
  then show ?thesis by (simp add: int2decimal_def Atoi_def is_digit_def)
next
  case False
  then obtain c cs where c: "int2decimal_digits i = c # cs" "is_digit c" using int2decimal_shape by blast
  then have "c \<noteq> CHR ''-''" "c \<noteq> CHR ''+''" by (auto simp: is_digit_def)
  moreover have "digits_value 0 (c # cs) = Some i"
    using int2decimal_digits_ok [of 0 i "[]"] c(1) by simp
  ultimately show ?thesis using False assms c(1) by (simp add: Atoi_def int2decimal_def del: digits_value.simps)
qed

section \<open>Properties\<close>

text \<open>C22. An IPv4 or IPv6 address without zone survives the trip through the raw socket address that
  packets carry: same address (IPv4-mapped addresses as 4 bytes), same port, no zone.\<close>

theorem sockaddr_roundtrip:
  assumes "length (ia_IP a) = 4 \<or> length (ia_IP a) = 16" and "0 \<le> ia_Port a" and "ia_Port a < 65536"
    and "ia_Zone a = ''''"
  shows "\<exists>sa. UDPAddrToSockaddrSlice byName a = Inr sa \<and> length sa = SockaddrSize \<and>
    SockaddrSliceToUDPAddr byIndex sa =
      Inr (a\<lparr>ia_IP := (if To4 (ia_IP a) \<noteq> [] then To4 (ia_IP a) else ia_IP a)\<rparr>)"
proof (cases "To4 (ia_IP a) \<noteq> []")
  case True
  then have len: "length (To4 (ia_IP a)) = 4" by (auto simp: To4_def split: if_splits)
  obtain sa where sa: "buildSockaddrSliceIPv4 (replicate SockaddrSize 0) (To4 (ia_IP a)) (ia_Port a) = Inr sa"
    by (simp add: buildSockaddrSliceIPv4_def)
  note sl = IPv4_slice [OF len sa]
  have "SockaddrSliceToUDPAddr byIndex sa = Inr (a\<lparr>ia_IP := To4 (ia_IP a)\<rparr>)"
    using sl port_bytes [OF assms(2,3)] assms(4) get_put16(1) [of AF_INET]
    by (simp add: SockaddrSliceToUDPAddr_def)
  with True sa sl(1) show ?thesis by (simp add: UDPAddrToSockaddrSlice_def Let_def)
next
  case False
  with assms(1) have len: "length (ia_IP a) = 16" by (auto simp: To4_def split: if_splits)
  obtain sa where sa: "buildSockaddrSliceIPv6 (replicate SockaddrSize 0) (ia_IP a) (ia_Port a) 0 = Inr sa"
    by (simp add: buildSockaddrSliceIPv6_def)
  note sl = IPv6_slice [OF len sa]
  have "SockaddrSliceToUDPAddr byIndex sa = Inr a"
    using sl port_bytes [OF assms(2,3)] assms(4) get_put16(1) [of AF_INET6]
    by (simp add: SockaddrSliceToUDPAddr_def AF_INET_def AF_INET6_def put_be32_def get_le32_def IP6ZoneToString_def)
  with False sa sl(1) len assms(4) show ?thesis
    by (simp add: UDPAddrToSockaddrSlice_def Let_def StringToZoneID_def To16_def)
qed

theorem sockaddr_roundtrip_witness:
  "\<exists>sa. UDPAddrToSockaddrSlice (\<lambda>_. None) \<lparr>ia_IP = [127, 0, 0, 1], ia_Port = 8080, ia_Zone = ''''\<rparr> = Inr sa \<and>
     SockaddrSliceToUDPAddr (\<lambda>_. None) sa = Inr \<lparr>ia_IP = [127, 0, 0, 1], ia_Port = 8080, ia_Zone = ''''\<rparr>"
  using sockaddr_roundtrip [of "\<lparr>ia_IP = [127, 0, 0, 1], ia_Port = 8080, ia_Zone = ''''\<rparr>" "\<lambda>_. None" "\<lambda>_. None"]
  by (auto simp: To4_def)

text \<open>Zone identifiers survive the trip through zone strings, by interface name when the interface
  exists and as a decimal number otherwise. Hypotheses on the machine: interface names are not empty,
  looking up the name of an interface gives its index, and no interface is named by the number in question.\<close>

theorem zone_roundtrip:
  assumes "\<And>i name. byIndex i = Some name \<Longrightarrow> name \<noteq> '''' \<and> byName name = Some i"
    and "byIndex z = None \<Longrightarrow> byName (int2decimal (nat z)) = None"
    and "0 \<le> z" and "z < 2 ^ 32"
  shows "StringToZoneID byName (IP6ZoneToString byIndex z) = Inr (of_int z)"
proof (cases "z = 0")
  case False
  then have n0: "int2decimal (nat z) \<noteq> ''''"
    using int2decimal_shape [of "nat z"] assms(3) by (auto simp: int2decimal_def)
  have "Atoi (int2decimal (nat z)) = Inr (int (nat z))"
    using assms(3,4) by (intro Atoi_int2decimal) (simp add: nat_less_iff)
  with False n0 assms show ?thesis
    by (auto simp: StringToZoneID_def IP6ZoneToString_def split: option.splits)
qed (simp add: StringToZoneID_def IP6ZoneToString_def)

theorem zone_roundtrip_witness:
  "StringToZoneID [''eth0'' \<mapsto> 2] (IP6ZoneToString [2 \<mapsto> ''eth0''] 2) = Inr 2"
proof -
  have "StringToZoneID [''eth0'' \<mapsto> 2] (IP6ZoneToString [2 \<mapsto> ''eth0''] 2) = Inr (of_int 2)"
    by (rule zone_roundtrip) (auto split: if_splits)
  then show ?thesis by simp
qed

text \<open>The zone of an IPv6 address does not survive the raw socket address: \<open>buildSockaddrSliceIPv6\<close>
  writes the scope id in big-endian order, but the field is in host order (and is read so), so zone 2
  comes back as zone 33554432.\<close>

theorem zone_bytes_swapped:
  "let a = \<lparr>ia_IP = [0xfe, 0x80] @ replicate 13 0 @ [1], ia_Port = 53, ia_Zone = ''2''\<rparr>
   in (case UDPAddrToSockaddrSlice (\<lambda>_. None) a of Inl e \<Rightarrow> Inl e | Inr sa \<Rightarrow> SockaddrSliceToUDPAddr (\<lambda>_. None) sa)
      = Inr (a\<lparr>ia_Zone := ''33554432''\<rparr>)"
proof -
  let ?a = "\<lparr>ia_IP = [0xfe, 0x80] @ replicate 13 0 @ [1], ia_Port = 53, ia_Zone = ''2''\<rparr>"
  have len: "length (ia_IP ?a) = 16" by simp
  obtain sa where sa: "buildSockaddrSliceIPv6 (replicate SockaddrSize 0) (ia_IP ?a) 53 2 = Inr sa"
    by (simp add: buildSockaddrSliceIPv6_def)
  note sl = IPv6_slice [OF len sa]
  have "char_of (50 :: nat) = CHR ''2''" "char_of (51 :: nat) = CHR ''3''" "char_of (52 :: nat) = CHR ''4''"
    "char_of (53 :: nat) = CHR ''5''" by code_simp+
  then have d: "int2decimal 33554432 = ''33554432''"
    by (simp add: int2decimal_def int2decimal_digits.simps)
  have "SockaddrSliceToUDPAddr (\<lambda>_. None) sa = Inr (?a\<lparr>ia_Zone := ''33554432''\<rparr>)"
    using sl port_bytes [of 53] get_put16(1) [of AF_INET6] d
    by (simp add: SockaddrSliceToUDPAddr_def AF_INET_def AF_INET6_def put_be32_def get_le32_def
        IP6ZoneToString_def)
  moreover have "hd v4InV6Prefix = 0" by (simp add: v4InV6Prefix_def)
  then have "To4 (ia_IP ?a) = []" "To16 (ia_IP ?a) = ia_IP ?a"
    by (auto simp: To4_def To16_def dest: arg_cong [where f = hd])
  moreover have "StringToZoneID (\<lambda>_. None) ''2'' = Inr 2"
    by (simp add: StringToZoneID_def Atoi_def is_digit_def)
  ultimately show ?thesis
    using sa by (simp add: UDPAddrToSockaddrSlice_def Let_def)
qed

end
