(* ===== verification/Desc_Cache.thy ===== *)
theory Desc_Cache
  imports Tnet_Prelude
begin

text \<open>
  Model of \<open>internal/poller\<close> without the event loop: poll descriptors (\<open>desc.go\<close>), the cache that
  allocates and recycles them (\<open>desc_cache.go\<close>), the round-robin balancer
  (\<open>loadbalance_roundrobin.go\<close>), the registry of balancers (\<open>loadbalance.go\<close>) and the manager of
  the pollers (\<open>pollmgr.go\<close>).

  A pointer to a \<open>Desc\<close> is its position in the slice \<open>cache\<close>, where every \<open>Desc\<close> stays for ever. The
  cache operations run under the locks of the cache, so each of them is one step. A poller is named by
  the number of its epoll instance; callbacks and connections are the type parameters \<open>'h\<close> and \<open>'d\<close>.
\<close>

section \<open>Descriptors\<close>

datatype event =
  Readable | ModReadable | Writable | ModWritable | ReadWriteable | ModReadWriteable | Detach | Event int

definition event_String :: "(int \<Rightarrow> string) \<Rightarrow> event \<Rightarrow> string" where
  "event_String sprint e =
     (case e of Readable \<Rightarrow> ''Readable'' | ModReadable \<Rightarrow> ''ModReadable''
      | Writable \<Rightarrow> ''Writeable'' | ModWritable \<Rightarrow> ''ModWriteable''
      | ReadWriteable \<Rightarrow> ''ReadWriteable'' | ModReadWriteable \<Rightarrow> ''ModReadWriteable''
      | Detach \<Rightarrow> ''Detach'' | Event n \<Rightarrow> ''Event('' @ sprint n @ '')'')"

record ('h, 'd) Desc =
  d_next :: "nat option"
  d_poller :: "nat option"
  d_index :: nat
  d_Data :: "'d option"
  d_OnRead :: "'h option"
  d_OnWrite :: "'h option"
  d_OnHup :: "'h option"
  d_FD :: int

definition new_Desc :: "nat \<Rightarrow> ('h, 'd) Desc" where
  "new_Desc i = \<lparr>d_next = None, d_poller = None, d_index = i, d_Data = None, d_OnRead = None,
     d_OnWrite = None, d_OnHup = None, d_FD = 0\<rparr>"

definition Desc_reset :: "('h, 'd) Desc \<Rightarrow> ('h, 'd) Desc" where
  "Desc_reset p = p\<lparr>d_FD := 0, d_Data := None, d_OnRead := None, d_OnWrite := None, d_OnHup := None,
     d_poller := None\<rparr>"

definition blank :: "('h, 'd) Desc \<Rightarrow> bool" where
  "blank p \<longleftrightarrow> d_FD p = 0 \<and> d_Data p = None \<and> d_OnRead p = None \<and> d_OnWrite p = None \<and>
     d_OnHup p = None \<and> d_poller p = None"

section \<open>The cache\<close>

definition pollBlockSize :: nat where
  "pollBlockSize = 4 * 1024"

text \<open>\<open>unsafe.Sizeof(Desc{})\<close> on a 64-bit platform: the read-write mutex (24), \<open>next\<close> (8), \<open>poller\<close> (16),
  \<open>index\<close> padded to 8, \<open>Data\<close> (16), three callbacks (24) and \<open>FD\<close> (8).\<close>

definition pdSize :: nat where
  "pdSize = 24 + 8 + 16 + 8 + 16 + 24 + 8"

record ('h, 'd) descCache =
  dc_first :: "nat option"
  dc_cache :: "('h, 'd) Desc list"
  dc_freeList :: "nat list"

definition empty_cache :: "('h, 'd) descCache" where
  "empty_cache = \<lparr>dc_first = None, dc_cache = [], dc_freeList = []\<rparr>"

fun grow_cache :: "nat \<Rightarrow> nat \<Rightarrow> ('h, 'd) descCache \<Rightarrow> ('h, 'd) descCache" where
  "grow_cache 0 index dc = dc"
| "grow_cache (Suc n) index dc =
     (let pd = (new_Desc index)\<lparr>d_next := dc_first dc\<rparr>
      in grow_cache n (index + 1)
           (dc\<lparr>dc_cache := dc_cache dc @ [pd], dc_first := Some (length (dc_cache dc))\<rparr>))"

definition dc_alloc :: "('h, 'd) descCache \<Rightarrow> (fault + nat) \<times> ('h, 'd) descCache" where
  "dc_alloc dc =
     (let dc = (if dc_first dc = None then
                  let n = pollBlockSize div pdSize; n = (if n = 0 then 1 else n)
                  in grow_cache n (length (dc_cache dc)) dc
                else dc)
      in case dc_first dc of
           None \<Rightarrow> (Inl NilDeref, dc)
         | Some pd \<Rightarrow> (Inr pd, dc\<lparr>dc_first := d_next (dc_cache dc ! pd)\<rparr>))"

definition markFree :: "nat \<Rightarrow> ('h, 'd) descCache \<Rightarrow> ('h, 'd) descCache" where
  "markFree pd dc = dc\<lparr>dc_freeList := dc_freeList dc @ [d_index (dc_cache dc ! pd)]\<rparr>"

fun free_loop :: "nat list \<Rightarrow> ('h, 'd) descCache \<Rightarrow> ('h, 'd) descCache" where
  "free_loop [] dc = dc"
| "free_loop (i # is) dc =
     free_loop is (dc\<lparr>dc_cache := (dc_cache dc)[i := (Desc_reset (dc_cache dc ! i))\<lparr>d_next := dc_first dc\<rparr>],
                      dc_first := Some i\<rparr>)"

definition dc_free :: "('h, 'd) descCache \<Rightarrow> ('h, 'd) descCache" where
  "dc_free dc = (if dc_freeList dc = [] then dc else (free_loop (dc_freeList dc) dc)\<lparr>dc_freeList := []\<rparr>)"

text \<open>A client writes the fields of a descriptor it holds (under the lock of the descriptor).\<close>

definition write_desc :: "nat \<Rightarrow> (('h, 'd) Desc \<Rightarrow> ('h, 'd) Desc) \<Rightarrow> ('h, 'd) descCache \<Rightarrow> ('h, 'd) descCache" where
  "write_desc pd f dc = dc\<lparr>dc_cache := (dc_cache dc)[pd := f (dc_cache dc ! pd)]\<rparr>"

section \<open>Load balancing\<close>

record roundRobinLB =
  lb_pollers :: "nat list"
  lb_accepted :: u64
  lb_pollSize :: int

definition new_roundRobinLB :: roundRobinLB where
  "new_roundRobinLB = \<lparr>lb_pollers = [], lb_accepted = 0, lb_pollSize = 0\<rparr>"

definition RoundRobin :: string where
  "RoundRobin = ''RoundRobinLB''"

definition lb_Register :: "nat \<Rightarrow> roundRobinLB \<Rightarrow> roundRobinLB" where
  "lb_Register poller r = r\<lparr>lb_pollers := lb_pollers r @ [poller], lb_pollSize := lb_pollSize r + 1\<rparr>"

definition lb_Pick :: "roundRobinLB \<Rightarrow> (fault + nat) \<times> roundRobinLB" where
  "lb_Pick r =
     (let r = r\<lparr>lb_accepted := lb_accepted r + 1\<rparr> in
      if lb_pollSize r = 0 then (Inl DivByZero, r)
      else
        let idx = go_mod (sint (lb_accepted r)) (lb_pollSize r)
        in if idx < 0 \<or> int (length (lb_pollers r)) \<le> idx then (Inl IndexRange, r)
           else (Inr (lb_pollers r ! nat idx), r))"

definition lb_Len :: "roundRobinLB \<Rightarrow> int" where
  "lb_Len r = lb_pollSize r"

text \<open>\<open>Iterate\<close>: the pollers are visited in order until \<open>f\<close> answers false.\<close>

fun iterate_loop :: "(nat \<Rightarrow> 'p \<Rightarrow> 's \<Rightarrow> bool \<times> 's) \<Rightarrow> nat \<Rightarrow> 'p list \<Rightarrow> 's \<Rightarrow> 's" where
  "iterate_loop f index [] s = s"
| "iterate_loop f index (p # ps) s =
     (case f index p s of (ok, s) \<Rightarrow> if ok then iterate_loop f (index + 1) ps s else s)"

definition lb_Iterate :: "(nat \<Rightarrow> nat \<Rightarrow> 's \<Rightarrow> bool \<times> 's) \<Rightarrow> roundRobinLB \<Rightarrow> 's \<Rightarrow> 's" where
  "lb_Iterate f r s = iterate_loop f 0 (lb_pollers r) s"

text \<open>The registry of balancers; a builder is a value of the interface \<open>LoadBalance\<close>.\<close>

type_synonym 'lb registry = "string \<rightharpoonup> 'lb"

definition GetBalanceBuilder :: "string \<Rightarrow> 'lb registry \<Rightarrow> 'lb option" where
  "GetBalanceBuilder name lbs = lbs name"

definition RegisterBalanceBuilder :: "string \<Rightarrow> 'lb option \<Rightarrow> 'lb registry \<Rightarrow> fault + 'lb registry" where
  "RegisterBalanceBuilder name builder lbs =
     (case builder of
        None \<Rightarrow> Inl ExplicitPanic
      | Some b \<Rightarrow> if name = '''' then Inl ExplicitPanic else Inr (lbs(name \<mapsto> b)))"

section \<open>The poller manager\<close>

text \<open>The balancer is used through its interface only, so its operations are arguments. Creating a poller
  and starting its goroutine acts on the system \<open>'k\<close>.\<close>

record 'lb PollMgr =
  pm_lb :: 'lb
  pm_ignoreTaskError :: bool

fun pm_run :: "('p \<Rightarrow> 'lb \<Rightarrow> 'lb) \<Rightarrow> (bool \<Rightarrow> 'k \<Rightarrow> (err + 'p) \<times> 'k) \<Rightarrow> ('p \<Rightarrow> 'k \<Rightarrow> 'k) \<Rightarrow> nat \<Rightarrow>
    'lb PollMgr \<Rightarrow> 'k \<Rightarrow> fault option \<times> 'lb PollMgr \<times> 'k" where
  "pm_run register newPoller goWait 0 pm k = (None, pm, k)"
| "pm_run register newPoller goWait (Suc n) pm k =
     (case newPoller (pm_ignoreTaskError pm) k of
        (Inl _, k) \<Rightarrow> (Some ExplicitPanic, pm, k)
      | (Inr p, k) \<Rightarrow>
          pm_run register newPoller goWait n (pm\<lparr>pm_lb := register p (pm_lb pm)\<rparr>) (goWait p k))"

definition pm_SetNumPollers :: "('lb \<Rightarrow> int) \<Rightarrow> ('p \<Rightarrow> 'lb \<Rightarrow> 'lb) \<Rightarrow> (bool \<Rightarrow> 'k \<Rightarrow> (err + 'p) \<times> 'k) \<Rightarrow>
    ('p \<Rightarrow> 'k \<Rightarrow> 'k) \<Rightarrow> int \<Rightarrow> 'lb PollMgr \<Rightarrow> 'k \<Rightarrow> err option \<times> 'lb PollMgr \<times> 'k" where
  "pm_SetNumPollers len register newPoller goWait loops pm k =
     (if loops = 0 \<or> loops < len (pm_lb pm) then
        (Some (ErrText ''loops can't be smaller than current loops''), pm, k)
      else case pm_run register newPoller goWait (nat (loops - len (pm_lb pm))) pm k of
             (f, pm, k) \<Rightarrow> (map_option Fault f, pm, k))"

definition pm_NumPollers :: "('lb \<Rightarrow> int) \<Rightarrow> 'lb PollMgr \<Rightarrow> int" where
  "pm_NumPollers len pm = len (pm_lb pm)"

definition NewPollMgr :: "('lb \<Rightarrow> int) \<Rightarrow> ('p \<Rightarrow> 'lb \<Rightarrow> 'lb) \<Rightarrow> (bool \<Rightarrow> 'k \<Rightarrow> (err + 'p) \<times> 'k) \<Rightarrow>
    ('p \<Rightarrow> 'k \<Rightarrow> 'k) \<Rightarrow> 'lb registry \<Rightarrow> string \<Rightarrow> int \<Rightarrow> bool \<Rightarrow> 'k \<Rightarrow> (err + 'lb PollMgr) \<times> 'k" where
  "NewPollMgr len register newPoller goWait lbs balance loops ignore k =
     (case GetBalanceBuilder balance lbs of
        None \<Rightarrow> (Inl (ErrText (''loadbalance '' @ balance @ '' is not registered'')), k)
      | Some lb \<Rightarrow>
          (case pm_SetNumPollers len register newPoller goWait loops
                  \<lparr>pm_lb = lb, pm_ignoreTaskError = ignore\<rparr> k of
             (Some e, pm, k) \<Rightarrow> (Inl e, k)
           | (None, pm, k) \<Rightarrow> (Inr pm, k)))"

text \<open>\<open>PollMgr.Close\<close> closes every poller and ignores their errors.\<close>

definition pm_Close :: "(nat \<Rightarrow> 'k \<Rightarrow> err option \<times> 'k) \<Rightarrow> roundRobinLB PollMgr \<Rightarrow> 'k \<Rightarrow> 'k" where
  "pm_Close close pm k = lb_Iterate (\<lambda>_ p k. (True, snd (close p k))) (pm_lb pm) k"

text \<open>\<open>PickPollerWithPollMgr\<close> on a descriptor that is not yet bound.\<close>

definition PickPollerWithPollMgr :: "roundRobinLB PollMgr option \<Rightarrow> nat \<Rightarrow> ('h, 'd) descCache \<Rightarrow>
    err option \<times> roundRobinLB PollMgr option \<times> ('h, 'd) descCache" where
  "PickPollerWithPollMgr mgr pd dc =
     (if d_poller (dc_cache dc ! pd) \<noteq> None then (Some (ErrText ''already bind to poller''), mgr, dc)
      else case mgr of
        None \<Rightarrow> (Some (ErrText ''pollMgr is nil''), mgr, dc)
      | Some m \<Rightarrow>
          (case lb_Pick (pm_lb m) of
             (Inl f, lb) \<Rightarrow> (Some (Fault f), Some (m\<lparr>pm_lb := lb\<rparr>), dc)
           | (Inr p, lb) \<Rightarrow>
               (None, Some (m\<lparr>pm_lb := lb\<rparr>), write_desc pd (\<lambda>d. d\<lparr>d_poller := Some p\<rparr>) dc)))"

section \<open>The cache hands out descriptors exclusively\<close>

text \<open>The chain of free descriptors starting at \<open>p\<close>.\<close>

primrec chain :: "('h, 'd) Desc list \<Rightarrow> nat option \<Rightarrow> nat list \<Rightarrow> bool" where
  "chain c p [] \<longleftrightarrow> p = None"
| "chain c p (i # is) \<longleftrightarrow> p = Some i \<and> i < length c \<and> chain c (d_next (c ! i)) is"

lemma chain_append [simp]: "chain c p xs \<Longrightarrow> chain (c @ cs) p xs"
  by (induction xs arbitrary: p) (auto simp: nth_append)

lemma chain_update [simp]: "i \<notin> set xs \<Longrightarrow> chain (c[i := d]) p xs = chain c p xs"
  by (induction xs arbitrary: p) auto

text \<open>The invariant: chain, free list and the descriptors in use partition the cache; a descriptor on the
  chain is blank.\<close>

definition cache_rel :: "nat list \<Rightarrow> nat set \<Rightarrow> ('h, 'd) descCache \<Rightarrow> bool" where
  "cache_rel xs used dc \<longleftrightarrow>
     chain (dc_cache dc) (dc_first dc) xs \<and> distinct (xs @ dc_freeList dc) \<and>
     set xs \<union> set (dc_freeList dc) \<union> used = {..<length (dc_cache dc)} \<and>
     used \<inter> (set xs \<union> set (dc_freeList dc)) = {} \<and>
     (\<forall>i<length (dc_cache dc). d_index (dc_cache dc ! i) = i) \<and> (\<forall>i\<in>set xs. blank (dc_cache dc ! i))"

lemma cache_rel_empty: "cache_rel [] {} empty_cache"
  by (simp add: cache_rel_def empty_cache_def)

lemma grow_step:
  assumes "cache_rel xs used dc"
  shows "cache_rel (length (dc_cache dc) # xs) used
    (dc\<lparr>dc_cache := dc_cache dc @ [(new_Desc (length (dc_cache dc)))\<lparr>d_next := dc_first dc\<rparr>],
       dc_first := Some (length (dc_cache dc))\<rparr>)"
  using assms
  by (auto simp: cache_rel_def new_Desc_def blank_def nth_append lessThan_Suc less_Suc_eq set_eq_iff)

lemma grow_cache_ok:
  assumes "cache_rel xs used dc" and "index = length (dc_cache dc)"
  shows "\<exists>ys. length ys = n \<and> cache_rel (ys @ xs) used (grow_cache n index dc) \<and>
    (\<exists>ds. dc_cache (grow_cache n index dc) = dc_cache dc @ ds)"
  using assms
proof (induction n arbitrary: xs dc index)
  case 0
  then show ?case by auto
next
  case (Suc n)
  note step = grow_step [OF Suc.prems(1)]
  from Suc.IH [OF step] Suc.prems(2) show ?case
    by (fastforce simp: Let_def intro: exI [of _ "ys @ [index]" for ys])
qed

lemma block_descs: "pollBlockSize div pdSize = 39"
  by (simp add: pollBlockSize_def pdSize_def)

lemma pop_chain:
  assumes "cache_rel (i # xs) used dc"
  shows "dc_first dc = Some i" and "i \<notin> used" and "blank (dc_cache dc ! i)" and "i < length (dc_cache dc)"
    and "cache_rel xs (insert i used) (dc\<lparr>dc_first := d_next (dc_cache dc ! i)\<rparr>)"
  using assms by (auto simp: cache_rel_def set_eq_iff)

lemma dc_alloc_ok:
  assumes rel: "cache_rel xs used dc"
  shows "\<exists>i ys dc'. dc_alloc dc = (Inr i, dc') \<and> i \<notin> used \<and> i < length (dc_cache dc') \<and>
    blank (dc_cache dc' ! i) \<and> cache_rel ys (insert i used) dc' \<and>
    (\<forall>j\<in>used. dc_cache dc' ! j = dc_cache dc ! j) \<and>
    (xs = [] \<or> length (dc_cache dc') = length (dc_cache dc))"
proof (cases xs)
  case Nil
  then have none: "dc_first dc = None" using rel by (simp add: cache_rel_def)
  obtain zs where zs: "length zs = 39" "cache_rel zs used (grow_cache 39 (length (dc_cache dc)) dc)"
    and keep: "\<exists>ds. dc_cache (grow_cache 39 (length (dc_cache dc)) dc) = dc_cache dc @ ds"
    using grow_cache_ok [OF rel refl, of 39] Nil by auto
  obtain i js where "zs = i # js" using zs(1) by (cases zs) auto
  note pop = pop_chain [OF zs(2) [unfolded this]]
  have "\<forall>j\<in>used. j < length (dc_cache dc)" using rel by (auto simp: cache_rel_def)
  then have same: "\<forall>j\<in>used. dc_cache (grow_cache 39 (length (dc_cache dc)) dc) ! j = dc_cache dc ! j"
    using keep by (auto simp: nth_append)
  have "dc_alloc dc = (Inr i, (grow_cache 39 (length (dc_cache dc)) dc)\<lparr>dc_first :=
      d_next (dc_cache (grow_cache 39 (length (dc_cache dc)) dc) ! i)\<rparr>)"
    using none pop(1) by (simp add: dc_alloc_def block_descs Let_def)
  with pop same Nil show ?thesis by fastforce
next
  case (Cons i ys)
  note pop = pop_chain [OF rel [unfolded Cons]]
  with Cons show ?thesis by (auto simp: dc_alloc_def)
qed

lemma markFree_ok:
  assumes "cache_rel xs used dc" and "i \<in> used"
  shows "cache_rel xs (used - {i}) (markFree i dc)"
  using assms by (auto simp: cache_rel_def markFree_def set_eq_iff)

lemma free_loop_ok:
  assumes "cache_rel xs used (dc\<lparr>dc_freeList := fl\<rparr>)"
  shows "\<exists>ys. cache_rel ys used ((free_loop fl dc)\<lparr>dc_freeList := []\<rparr>)"
  using assms
proof (induction fl arbitrary: xs dc)
  case Nil
  then show ?case by auto
next
  case (Cons i fl)
  let ?d = "dc\<lparr>dc_cache := (dc_cache dc)[i := (Desc_reset (dc_cache dc ! i))\<lparr>d_next := dc_first dc\<rparr>], dc_first := Some i\<rparr>"
  have len: "i < length (dc_cache dc)" "i \<notin> set xs" "i \<notin> used"
    using Cons.prems by (auto simp: cache_rel_def)
  then have "cache_rel (i # xs) used (?d\<lparr>dc_freeList := fl\<rparr>)"
    using Cons.prems len
    by (auto simp: cache_rel_def set_eq_iff nth_list_update Desc_reset_def blank_def)
  from Cons.IH [OF this] show ?case by simp
qed

lemma dc_free_ok:
  assumes "cache_rel xs used dc"
  shows "\<exists>ys. cache_rel ys used (dc_free dc)" and "dc_freeList (dc_free dc) = []"
  using free_loop_ok [where fl = "dc_freeList dc" and dc = dc] assms by (auto simp: dc_free_def)

lemma write_desc_ok:
  assumes "cache_rel xs used dc" and "i \<in> used" and "\<And>d. d_index (f d) = d_index d"
  shows "cache_rel xs used (write_desc i f dc)"
proof -
  have "i \<notin> set xs" using assms by (auto simp: cache_rel_def)
  with assms show ?thesis by (auto simp: cache_rel_def write_desc_def nth_list_update)
qed

text \<open>Histories of the cache under the discipline of its clients: a descriptor is marked free only by its
  holder, and only its holder writes it (never \<open>next\<close> and \<open>index\<close>, which are private).\<close>

inductive cache_reach :: "nat set \<Rightarrow> ('h, 'd) descCache \<Rightarrow> bool" where
  start: "cache_reach {} empty_cache"
| alloc: "cache_reach used dc \<Longrightarrow> dc_alloc dc = (Inr i, dc') \<Longrightarrow> cache_reach (insert i used) dc'"
| mark: "cache_reach used dc \<Longrightarrow> i \<in> used \<Longrightarrow> cache_reach (used - {i}) (markFree i dc)"
| sweep: "cache_reach used dc \<Longrightarrow> cache_reach used (dc_free dc)"
| store: "cache_reach used dc \<Longrightarrow> i \<in> used \<Longrightarrow> (\<And>d. d_index (f d) = d_index d \<and> d_next (f d) = d_next d) \<Longrightarrow>
    cache_reach used (write_desc i f dc)"

lemma cache_reach_rel: "cache_reach used dc \<Longrightarrow> \<exists>xs. cache_rel xs used dc"
proof (induction rule: cache_reach.induct)
  case start
  then show ?case using cache_rel_empty by blast
next
  case (alloc used dc i dc')
  then show ?case by (metis dc_alloc_ok prod.inject sum.inject(2))
next
  case (mark used dc i)
  then show ?case using markFree_ok by blast
next
  case (sweep used dc)
  then show ?case using dc_free_ok(1) by blast
next
  case (store used dc i f)
  then show ?case using write_desc_ok by metis
qed

lemma desc_alloc_total: "cache_reach used dc \<Longrightarrow> \<exists>i dc'. dc_alloc dc = (Inr i, dc') \<and> i \<notin> used"
  using cache_reach_rel dc_alloc_ok by metis

lemma grow_freeList: "dc_freeList (grow_cache n i dc) = dc_freeList dc"
  by (induction n arbitrary: i dc) (simp_all add: Let_def)

lemma alloc_freeList: "dc_alloc dc = (r, dc') \<Longrightarrow> dc_freeList dc' = dc_freeList dc"
  by (auto simp: dc_alloc_def Let_def grow_freeList split: option.splits if_splits)

text \<open>C14. Whatever the history of the descriptor cache, \<open>alloc\<close> succeeds and returns a descriptor that
  nobody holds, with every public field cleared, and touches no descriptor in use. It takes a new
  block of memory only when every descriptor is in use or waits to be swept.\<close>

theorem desc_cache_exclusive:
  assumes "cache_reach used dc"
  shows "\<exists>i dc'. dc_alloc dc = (Inr i, dc') \<and> i \<notin> used \<and> blank (dc_cache dc' ! i) \<and>
    (\<forall>j\<in>used. dc_cache dc' ! j = dc_cache dc ! j) \<and>
    (length (dc_cache dc') = length (dc_cache dc) \<or>
     {..<length (dc_cache dc)} = used \<union> set (dc_freeList dc))"
proof -
  obtain xs where rel: "cache_rel xs used dc" using cache_reach_rel [OF assms] by blast
  have "xs = [] \<Longrightarrow> {..<length (dc_cache dc)} = used \<union> set (dc_freeList dc)"
    using rel by (auto simp: cache_rel_def)
  with dc_alloc_ok [OF rel] show ?thesis by blast
qed

theorem desc_cache_exclusive_witness:
  "\<exists>i dc'. dc_alloc (empty_cache :: (nat, nat) descCache) = (Inr i, dc') \<and> blank (dc_cache dc' ! i)"
  using desc_cache_exclusive [OF cache_reach.start] by blast

section \<open>Round robin is fair\<close>

text \<open>The sequence of pollers that \<open>m\<close> consecutive calls of \<open>Pick\<close> return.\<close>

fun picks :: "nat \<Rightarrow> roundRobinLB \<Rightarrow> (fault + nat) list" where
  "picks 0 r = []"
| "picks (Suc m) r = (case lb_Pick r of (p, r) \<Rightarrow> p # picks m r)"

definition lb_ok :: "roundRobinLB \<Rightarrow> bool" where
  "lb_ok r \<longleftrightarrow> lb_pollers r \<noteq> [] \<and> lb_pollSize r = int (length (lb_pollers r))"

lemma sint_small: "unat (w :: u64) < 2 ^ 63 \<Longrightarrow> sint w = int (unat w)"
proof -
  assume "unat w < 2 ^ 63"
  then have "uint w < 2 ^ 63" by (simp add: uint_nat)
  moreover have "- (2 ^ 63) \<le> uint w" by (rule order.trans [OF _ uint_ge_0]) simp
  ultimately have "sint w = uint w" using signed_take_bit_int_eq_self [of 63 "uint w"] by (simp add: sint_uint)
  then show ?thesis by (simp add: uint_nat)
qed

lemma lb_Pick_ok:
  assumes "lb_ok r" and "unat (lb_accepted r) + 1 < 2 ^ 63"
  shows "lb_Pick r = (Inr (lb_pollers r ! ((unat (lb_accepted r) + 1) mod length (lb_pollers r))),
      r\<lparr>lb_accepted := lb_accepted r + 1\<rparr>)"
    and "unat (lb_accepted r + 1) = unat (lb_accepted r) + 1"
proof -
  show u: "unat (lb_accepted r + 1) = unat (lb_accepted r) + 1"
    using assms(2) by (simp add: unat_word_ariths)
  have s: "sint (lb_accepted r + 1) = int (unat (lb_accepted r) + 1)"
    using sint_small [of "lb_accepted r + 1"] u assms(2) by simp
  have n: "0 < length (lb_pollers r)" using assms(1) by (simp add: lb_ok_def)
  then have "go_mod (sint (lb_accepted r + 1)) (int (length (lb_pollers r))) =
      int ((unat (lb_accepted r) + 1) mod length (lb_pollers r))"
    unfolding s by (subst go_mod_pos) (simp_all add: zmod_int)
  with n assms(1) show "lb_Pick r = (Inr (lb_pollers r ! ((unat (lb_accepted r) + 1) mod length (lb_pollers r))),
      r\<lparr>lb_accepted := lb_accepted r + 1\<rparr>)"
    by (simp add: lb_Pick_def lb_ok_def Let_def not_le)
qed

lemma picks_nth:
  assumes "lb_ok r" and "unat (lb_accepted r) + m < 2 ^ 63"
  shows "picks m r =
    map (\<lambda>j. Inr (lb_pollers r ! ((unat (lb_accepted r) + 1 + j) mod length (lb_pollers r)))) [0..<m]"
  using assms
proof (induction m arbitrary: r)
  case 0
  then show ?case by simp
next
  case (Suc m)
  note pick = lb_Pick_ok [of r]
  have "picks m (r\<lparr>lb_accepted := lb_accepted r + 1\<rparr>) =
      map (\<lambda>j. Inr (lb_pollers r ! ((unat (lb_accepted r) + 1 + Suc j) mod length (lb_pollers r)))) [0..<m]"
    using Suc.IH [of "r\<lparr>lb_accepted := lb_accepted r + 1\<rparr>"] Suc.prems pick(2) by (simp add: lb_ok_def)
  with Suc.prems pick(1) show ?case
    by (simp add: upt_conv_Cons map_Suc_upt [symmetric] del: upt_Suc)
qed

lemma map_rotation:
  assumes "xs \<noteq> []"
  shows "map (\<lambda>j. xs ! ((a + j) mod length xs)) [0..<k * length xs] = concat (replicate k (rotate a xs))"
proof (induction k)
  case 0
  then show ?case by simp
next
  case (Suc k)
  let ?n = "length xs"
  let ?f = "\<lambda>j. xs ! ((a + j) mod ?n)"
  have "(a + (k * ?n + i)) mod ?n = (a + i) mod ?n" for i
    using mod_mult_self1 [of "a + i" k ?n] by (simp add: ac_simps del: mod_mult_self1)
  then have "map ?f [k * ?n..<k * ?n + ?n] = rotate a xs"
    by (intro nth_equalityI) (simp_all add: nth_rotate)
  moreover have "[0..<Suc k * ?n] = [0..<k * ?n] @ [k * ?n..<k * ?n + ?n]"
    using upt_add_eq_append [of 0 "k * ?n" ?n] by (simp add: add.commute)
  ultimately have "map ?f [0..<Suc k * ?n] = concat (replicate k (rotate a xs)) @ rotate a xs"
    using Suc.IH by simp
  also have "\<dots> = concat (replicate (Suc k) (rotate a xs))"
    by (induction k) simp_all
  finally show ?case .
qed

lemma count_list_distinct: "distinct xs \<Longrightarrow> count_list xs p = (if p \<in> set xs then 1 else 0)"
  by (induction xs) auto

text \<open>Round robin: as long as fewer than \<open>2 ^ 63\<close> descriptors have been bound, \<open>k\<close> times \<open>n\<close>
  consecutive picks among \<open>n\<close> pollers go through the pollers in their order \<open>k\<close> times, from the one after
  the last pick; no pick fails, and every poller is picked exactly \<open>k\<close> times.\<close>

theorem round_robin_fair:
  assumes "lb_pollers r \<noteq> []" and "lb_pollSize r = int (length (lb_pollers r))"
    and "unat (lb_accepted r) + k * length (lb_pollers r) < 2 ^ 63"
  shows "picks (k * length (lb_pollers r)) r =
      map Inr (concat (replicate k (rotate (unat (lb_accepted r) + 1) (lb_pollers r)))) \<and>
    (distinct (lb_pollers r) \<longrightarrow>
      (\<forall>p\<in>set (lb_pollers r). count_list (picks (k * length (lb_pollers r)) r) (Inr p) = k))"
proof -
  have "lb_ok r" using assms(1,2) by (simp add: lb_ok_def)
  from picks_nth [OF this assms(3)] have eq: "picks (k * length (lb_pollers r)) r =
      map Inr (concat (replicate k (rotate (unat (lb_accepted r) + 1) (lb_pollers r))))"
    using map_rotation [OF assms(1), of "unat (lb_accepted r) + 1" k, symmetric] by (simp add: comp_def)
  have "count_list (map Inr (concat (replicate k ys))) (Inr p :: fault + nat) = k * count_list ys p"
    for ys :: "nat list" and p
    by (induction k) (simp_all add: count_list_map_conv [OF inj_Inr])
  then show ?thesis unfolding eq by (simp add: count_list_distinct)
qed

theorem round_robin_fair_witness:
  "picks (2 * length [7, 8, 9]) \<lparr>lb_pollers = [7, 8, 9], lb_accepted = 4, lb_pollSize = 3\<rparr> =
     [Inr 9, Inr 7, Inr 8, Inr 9, Inr 7, Inr 8]"
proof -
  let ?r = "\<lparr>lb_pollers = [7, 8, 9], lb_accepted = 4, lb_pollSize = 3\<rparr>"
  have u: "unat (4 :: u64) = 4" by simp
  have "picks (2 * length [7, 8, 9]) ?r = map Inr (concat (replicate (Suc (Suc 0)) (rotate 5 [7, 8, 9])))"
    using round_robin_fair [of ?r 2] u by (simp add: numeral_2_eq_2 [symmetric])
  then show ?thesis by (simp add: rotate_drop_take)
qed

section \<open>Scaling the pollers\<close>

text \<open>What the manager needs of a balancer: registering adds one poller, at the end.\<close>

locale load_balance =
  fixes len :: "'lb \<Rightarrow> int" and register :: "'p \<Rightarrow> 'lb \<Rightarrow> 'lb" and pollers :: "'lb \<Rightarrow> 'p list"
    and ok :: "'lb \<Rightarrow> bool"
  assumes len_pollers: "ok lb \<Longrightarrow> len lb = int (length (pollers lb))"
    and register_ok: "ok lb \<Longrightarrow> ok (register p lb)"
    and register_pollers: "ok lb \<Longrightarrow> pollers (register p lb) = pollers lb @ [p]"
begin

lemma run_ok:
  assumes "ok (pm_lb pm)" and "pm_run register newPoller goWait n pm k = (f, pm', k')"
  shows "ok (pm_lb pm') \<and> (\<exists>ps. pollers (pm_lb pm') = pollers (pm_lb pm) @ ps \<and> length ps \<le> n \<and>
    (f = None \<longrightarrow> length ps = n)) \<and> pm_ignoreTaskError pm' = pm_ignoreTaskError pm"
  using assms
proof (induction n arbitrary: pm k)
  case 0
  then show ?case by simp
next
  case (Suc n)
  obtain r k1 where np: "newPoller (pm_ignoreTaskError pm) k = (r, k1)" by fastforce
  show ?case
  proof (cases r)
    case (Inl e)
    with Suc.prems np show ?thesis by auto
  next
    case (Inr p)
    let ?pm = "pm\<lparr>pm_lb := register p (pm_lb pm)\<rparr>"
    have "pm_run register newPoller goWait n ?pm (goWait p k1) = (f, pm', k')"
      using Suc.prems(2) np Inr by simp
    from Suc.IH [OF _ this] Suc.prems(1) show ?thesis
      by (auto simp: register_ok register_pollers)
  qed
qed

lemma SetNumPollers_ok:
  assumes ok: "ok (pm_lb pm)"
    and set: "pm_SetNumPollers len register newPoller goWait loops pm k = (e, pm', k')"
  shows "ok (pm_lb pm') \<and> (\<exists>ps. pollers (pm_lb pm') = pollers (pm_lb pm) @ ps) \<and>
    (e = None \<longrightarrow> loops \<noteq> 0 \<and> pm_NumPollers len pm' = loops) \<and>
    (loops = 0 \<or> loops < pm_NumPollers len pm \<longrightarrow> e \<noteq> None \<and> pm' = pm \<and> k' = k)"
proof (cases "loops = 0 \<or> loops < len (pm_lb pm)")
  case True
  with ok set show ?thesis by (auto simp: pm_SetNumPollers_def pm_NumPollers_def)
next
  case False
  obtain f where run: "pm_run register newPoller goWait (nat (loops - len (pm_lb pm))) pm k = (f, pm', k')"
    and e: "e = map_option Fault f"
    using set False by (auto simp: pm_SetNumPollers_def split: prod.splits)
  obtain ps where ok': "ok (pm_lb pm')" and ps: "pollers (pm_lb pm') = pollers (pm_lb pm) @ ps"
    and n: "f = None \<longrightarrow> length ps = nat (loops - len (pm_lb pm))"
    using run_ok [OF ok run] by blast
  have "len (pm_lb pm') = len (pm_lb pm) + int (length ps)"
    using len_pollers [OF ok'] len_pollers [OF ok] ps by simp
  with False n e have "e = None \<longrightarrow> len (pm_lb pm') = loops" by simp
  with False ok' ps show ?thesis unfolding pm_NumPollers_def by blast
qed

end

definition rr_ok :: "roundRobinLB \<Rightarrow> bool" where
  "rr_ok r \<longleftrightarrow> lb_pollSize r = int (length (lb_pollers r))"

interpretation rr: load_balance lb_Len lb_Register lb_pollers rr_ok
  by unfold_locales (auto simp: lb_Len_def lb_Register_def rr_ok_def)

text \<open>Scaling the pollers of a round-robin manager: no poller is ever dropped; a call that returns no
  error leaves exactly the number asked for; a request for none, or for fewer than there are, is refused and
  changes nothing.\<close>

theorem set_num_pollers:
  assumes "lb_pollSize (pm_lb pm) = int (length (lb_pollers (pm_lb pm)))"
    and "pm_SetNumPollers lb_Len lb_Register newPoller goWait loops pm k = (e, pm', k')"
  shows "(\<exists>ps. lb_pollers (pm_lb pm') = lb_pollers (pm_lb pm) @ ps) \<and>
    (e = None \<longrightarrow> loops \<noteq> 0 \<and> pm_NumPollers lb_Len pm' = loops \<and>
       int (length (lb_pollers (pm_lb pm'))) = loops) \<and>
    (loops = 0 \<or> loops < pm_NumPollers lb_Len pm \<longrightarrow> e \<noteq> None \<and> pm' = pm \<and> k' = k)"
  using rr.SetNumPollers_ok [OF _ assms(2)] assms(1)
  by (auto simp: rr_ok_def pm_NumPollers_def lb_Len_def)

theorem set_num_pollers_witness:
  "\<exists>e pm' k'. pm_SetNumPollers lb_Len lb_Register (\<lambda>_ k. (Inr k, k + 1)) (\<lambda>_ k. k) 2
       \<lparr>pm_lb = \<lparr>lb_pollers = [4], lb_accepted = 0, lb_pollSize = 1\<rparr>, pm_ignoreTaskError = False\<rparr> 5 = (e, pm', k') \<and>
     e = None \<and> int (length (lb_pollers (pm_lb pm'))) = 2"
proof -
  let ?pm = "\<lparr>pm_lb = \<lparr>lb_pollers = [4], lb_accepted = 0, lb_pollSize = 1\<rparr>, pm_ignoreTaskError = False\<rparr>"
  obtain e pm' k' where run: "pm_SetNumPollers lb_Len lb_Register (\<lambda>_ k. (Inr k, k + 1)) (\<lambda>_ k. k) 2 ?pm 5 = (e, pm', k')"
    using prod_cases3 by blast
  then have "e = None" by (auto simp: pm_SetNumPollers_def lb_Len_def lb_Register_def)
  with run set_num_pollers [OF _ run] show ?thesis by auto
qed

end
