(* ===== verification/Epoll.thy ===== *)
theory Epoll
  imports Desc_Cache Metrics Iovec
begin

unbundle bit_operations_syntax

text \<open>
  Model of \<open>internal/poller/poller_epoll.go\<close>: the event loop of a poller.

  The system calls are the fields of a record \<open>'k kern\<close>, functions on the state \<open>'k\<close> of everything
  outside the poller package. The callbacks of a descriptor are names \<open>'h\<close>; a record
  \<open>('h, 'd, 'k) callbacks\<close> says what calling one does: it may change descriptors, system and connections
  alike. A goroutine started for a hang-up is an entry of \<open>w_spawned\<close>. Wrapping an error with a text keeps
  the error it wraps.
\<close>

section \<open>System calls, callbacks and state\<close>

definition EPOLLIN :: u32 where "EPOLLIN = 1"
definition EPOLLPRI :: u32 where "EPOLLPRI = 2"
definition EPOLLOUT :: u32 where "EPOLLOUT = 4"
definition EPOLLERR :: u32 where "EPOLLERR = 8"
definition EPOLLHUP :: u32 where "EPOLLHUP = 0x10"
definition EPOLLRDHUP :: u32 where "EPOLLRDHUP = 0x2000"

lemmas epoll_flags = EPOLLIN_def EPOLLPRI_def EPOLLOUT_def EPOLLERR_def EPOLLHUP_def EPOLLRDHUP_def

definition rflags :: u32 where
  "rflags = EPOLLIN OR EPOLLRDHUP OR EPOLLHUP OR EPOLLERR OR EPOLLPRI"

definition wflags :: u32 where
  "wflags = EPOLLOUT OR EPOLLHUP OR EPOLLERR"

definition defaultEventCount :: nat where
  "defaultEventCount = 64"

definition EINTR :: err where
  "EINTR = Errno 4"

datatype ctl_op = EPOLL_CTL_ADD | EPOLL_CTL_DEL | EPOLL_CTL_MOD

text \<open>An epoll event: its flags and the pointer to the descriptor.\<close>

type_synonym ep_event = "u32 \<times> nat"

record 'k kern =
  k_epoll_create1 :: "'k \<Rightarrow> (err + int) \<times> 'k"
  k_eventfd :: "'k \<Rightarrow> (err + int) \<times> 'k"
  k_epoll_ctl :: "int \<Rightarrow> ctl_op \<Rightarrow> int \<Rightarrow> ep_event option \<Rightarrow> 'k \<Rightarrow> err option \<times> 'k"
  k_epoll_pwait :: "int \<Rightarrow> nat \<Rightarrow> int \<Rightarrow> 'k \<Rightarrow> u64 \<times> err option \<times> ep_event list \<times> 'k"
  k_read :: "int \<Rightarrow> nat \<Rightarrow> 'k \<Rightarrow> (err + byte list) \<times> 'k"
  k_write :: "int \<Rightarrow> byte list \<Rightarrow> 'k \<Rightarrow> err option \<times> 'k"
  k_close :: "int \<Rightarrow> 'k \<Rightarrow> err option \<times> 'k"

record ('h, 'd, 'k) world =
  w_cache :: "('h, 'd) descCache"
  w_kernel :: 'k
  w_spawned :: "('h \<times> 'd) list"

record ('h, 'd, 'k) callbacks =
  cb_read :: "'h \<Rightarrow> 'd \<Rightarrow> iodata \<Rightarrow> ('h, 'd, 'k) world \<Rightarrow> err option \<times> iodata \<times> ('h, 'd, 'k) world"
  cb_write :: "'h \<Rightarrow> 'd \<Rightarrow> ('h, 'd, 'k) world \<Rightarrow> err option \<times> ('h, 'd, 'k) world"

record epoll =
  ep_desc :: nat
  ep_ioData :: iodata
  ep_buf :: "byte list"
  ep_fd :: int
  ep_notified :: int
  ep_ignoreTaskError :: bool
  ep_freeDescCounter :: u16

abbreviation desc_at :: "('h, 'd, 'k) world \<Rightarrow> nat \<Rightarrow> ('h, 'd) Desc" where
  "desc_at w pd \<equiv> dc_cache (w_cache w) ! pd"

text \<open>A system call that returns only an error, on the system part of the world.\<close>

definition on_kernel :: "('k \<Rightarrow> 'a \<times> 'k) \<Rightarrow> ('h, 'd, 'k) world \<Rightarrow> 'a \<times> ('h, 'd, 'k) world" where
  "on_kernel f w = (case f (w_kernel w) of (r, k) \<Rightarrow> (r, w\<lparr>w_kernel := k\<rparr>))"

section \<open>Registering descriptors\<close>

definition ep_insert :: "'k kern \<Rightarrow> epoll \<Rightarrow> int \<Rightarrow> ep_event \<Rightarrow> ('h, 'd, 'k) world \<Rightarrow> err option \<times> ('h, 'd, 'k) world" where
  "ep_insert S ep fd evt w = on_kernel (k_epoll_ctl S (ep_fd ep) EPOLL_CTL_ADD fd (Some evt)) w"

definition ep_interest :: "'k kern \<Rightarrow> epoll \<Rightarrow> int \<Rightarrow> ep_event \<Rightarrow> ('h, 'd, 'k) world \<Rightarrow> err option \<times> ('h, 'd, 'k) world" where
  "ep_interest S ep fd evt w = on_kernel (k_epoll_ctl S (ep_fd ep) EPOLL_CTL_MOD fd (Some evt)) w"

definition ep_remove :: "'k kern \<Rightarrow> epoll \<Rightarrow> int \<Rightarrow> ('h, 'd, 'k) world \<Rightarrow> err option \<times> ('h, 'd, 'k) world" where
  "ep_remove S ep fd w = on_kernel (k_epoll_ctl S (ep_fd ep) EPOLL_CTL_DEL fd None) w"

definition ep_Control :: "'k kern \<Rightarrow> epoll \<Rightarrow> nat \<Rightarrow> event \<Rightarrow> ('h, 'd, 'k) world \<Rightarrow> err option \<times> ('h, 'd, 'k) world" where
  "ep_Control S ep pd e w =
     (let fd = d_FD (desc_at w pd) in
      case e of
        Readable \<Rightarrow> ep_insert S ep fd (rflags, pd) w
      | Writable \<Rightarrow> ep_insert S ep fd (wflags, pd) w
      | ReadWriteable \<Rightarrow> ep_insert S ep fd (rflags OR wflags, pd) w
      | ModReadable \<Rightarrow> ep_interest S ep fd (rflags, pd) w
      | ModWritable \<Rightarrow> ep_interest S ep fd (wflags, pd) w
      | ModReadWriteable \<Rightarrow> ep_interest S ep fd (rflags OR wflags, pd) w
      | Detach \<Rightarrow> ep_remove S ep fd w
      | Event _ \<Rightarrow> (Some (ErrText ''Event not support''), w))"

text \<open>\<open>Desc.Control\<close> and \<open>Desc.Close\<close> go to the poller the descriptor is bound to; \<open>eps\<close> gives the poller
  of a number.\<close>

definition Desc_Control :: "'k kern \<Rightarrow> (nat \<Rightarrow> epoll) \<Rightarrow> nat \<Rightarrow> event \<Rightarrow> ('h, 'd, 'k) world \<Rightarrow>
    err option \<times> ('h, 'd, 'k) world" where
  "Desc_Control S eps pd e w =
     (case d_poller (desc_at w pd) of
        None \<Rightarrow> (Some (ErrText ''invalid Desc''), w)
      | Some p \<Rightarrow> ep_Control S (eps p) pd e w)"

definition Desc_Close :: "'k kern \<Rightarrow> (nat \<Rightarrow> epoll) \<Rightarrow> nat \<Rightarrow> ('h, 'd, 'k) world \<Rightarrow>
    err option \<times> ('h, 'd, 'k) world" where
  "Desc_Close S eps pd w =
     (case d_poller (desc_at w pd) of
        None \<Rightarrow> (Some (Fault NilDeref), w)
      | Some p \<Rightarrow> ep_Control S (eps p) pd Detach w)"

section \<open>Creating, closing and waking a poller\<close>

definition newPoller :: "'k kern \<Rightarrow> bool \<Rightarrow> ('h, 'd, 'k) world \<Rightarrow> (err + epoll) \<times> ('h, 'd, 'k) world" where
  "newPoller S ignoreTaskError w =
     (case on_kernel (k_epoll_create1 S) w of
        (Inl e, w) \<Rightarrow> (Inl e, w)
      | (Inr fd, w) \<Rightarrow>
          (case on_kernel (k_eventfd S) w of
             (Inl e, w) \<Rightarrow> (Inl e, w)
           | (Inr efd, w) \<Rightarrow>
               (case dc_alloc (w_cache w) of
                  (Inl f, dc) \<Rightarrow> (Inl (Fault f), w\<lparr>w_cache := dc\<rparr>)
                | (Inr pd, dc) \<Rightarrow>
                    let w = w\<lparr>w_cache := write_desc pd (\<lambda>d. d\<lparr>d_FD := efd\<rparr>) dc\<rparr>;
                        ep = \<lparr>ep_desc = pd, ep_ioData = IOData_Reset (NewIOData []), ep_buf = replicate 8 0,
                              ep_fd = fd, ep_notified = 0, ep_ignoreTaskError = ignoreTaskError,
                              ep_freeDescCounter = 0\<rparr>
                    in (Inr ep, snd (ep_Control S ep pd Readable w)))))"

definition ep_Close :: "'k kern \<Rightarrow> epoll \<Rightarrow> ('h, 'd, 'k) world \<Rightarrow> err option \<times> ('h, 'd, 'k) world" where
  "ep_Close S ep w =
     (case on_kernel (k_close S (ep_fd ep)) w of
        (Some e, w) \<Rightarrow> (Some e, w)
      | (None, w) \<Rightarrow> on_kernel (k_close S (d_FD (desc_at w (ep_desc ep)))) w)"

text \<open>\<open>notify\<close> repeats the write while it is interrupted or would block, possibly for ever.\<close>

partial_function (option) ep_notify ::
    "'k kern \<Rightarrow> epoll \<Rightarrow> ('h, 'd, 'k) world \<Rightarrow> (err option \<times> ('h, 'd, 'k) world) option" where
  "ep_notify S ep w =
     (let r = on_kernel (k_write S (d_FD (desc_at w (ep_desc ep))) (ep_buf ep)) w in
      if fst r \<noteq> Some EINTR \<and> fst r \<noteq> Some EAGAIN then Some r
      else ep_notify S ep (snd r))"

definition ep_Trigger :: "'k kern \<Rightarrow> epoll \<Rightarrow> ('h, 'd, 'k) world \<Rightarrow>
    (err option \<times> epoll \<times> ('h, 'd, 'k) world) option" where
  "ep_Trigger S ep w =
     (if ep_notified ep = 0 then
        map_option (\<lambda>(e, w). (e, ep\<lparr>ep_notified := 1\<rparr>, w)) (ep_notify S ep w)
      else Some (None, ep, w))"

definition runAsyncTasks :: "epoll \<Rightarrow> epoll" where
  "runAsyncTasks ep = ep\<lparr>ep_notified := 0\<rparr>"

section \<open>The event loop\<close>

text \<open>One event of the batch. The state is the poller, the world, the descriptors to detach and whether the
  poller was woken.\<close>

definition hup_flags :: "u32 \<Rightarrow> bool" where
  "hup_flags flags \<longleftrightarrow> flags AND (EPOLLHUP OR EPOLLRDHUP OR EPOLLERR) \<noteq> 0"

definition readable_flags :: "u32 \<Rightarrow> bool" where
  "readable_flags flags \<longleftrightarrow> flags AND (EPOLLIN OR EPOLLPRI) \<noteq> 0"

definition writable_flags :: "u32 \<Rightarrow> bool" where
  "writable_flags flags \<longleftrightarrow> flags AND EPOLLOUT \<noteq> 0"

definition call_write :: "('h, 'd, 'k) callbacks \<Rightarrow> bool \<Rightarrow> 'h option \<Rightarrow> 'd option \<Rightarrow> ('h, 'd, 'k) world \<Rightarrow>
    err option \<times> ('h, 'd, 'k) world" where
  "call_write cb writable onWrite data w =
     (case (onWrite, data) of
        (Some h, Some d) \<Rightarrow> if writable then cb_write cb h d w else (None, w)
      | _ \<Rightarrow> (None, w))"

definition call_read :: "('h, 'd, 'k) callbacks \<Rightarrow> bool \<Rightarrow> 'h option \<Rightarrow> 'd option \<Rightarrow> epoll \<Rightarrow> ('h, 'd, 'k) world \<Rightarrow>
    err option \<times> epoll \<times> ('h, 'd, 'k) world" where
  "call_read cb readable onRead data ep w =
     (case (onRead, data) of
        (Some h, Some d) \<Rightarrow>
          if readable then
            case cb_read cb h d (ep_ioData ep) w of
              (e, io, w) \<Rightarrow> (e, ep\<lparr>ep_ioData := IOData_Reset io\<rparr>, w)
          else (None, ep, w)
      | _ \<Rightarrow> (None, ep, w))"

definition handle_event :: "'k kern \<Rightarrow> ('h, 'd, 'k) callbacks \<Rightarrow> ep_event \<Rightarrow>
    epoll \<times> ('h, 'd, 'k) world \<times> nat list \<times> bool \<Rightarrow> epoll \<times> ('h, 'd, 'k) world \<times> nat list \<times> bool" where
  "handle_event S cb ev st =
     (case (ev, st) of ((flags, pd), (ep, w, hups, wakeUp)) \<Rightarrow>
        if d_FD (desc_at w pd) = d_FD (desc_at w (ep_desc ep)) then
          case on_kernel (k_read S (d_FD (desc_at w (ep_desc ep))) (length (ep_buf ep))) w of
            (Inl _, w) \<Rightarrow> (ep, w, hups, True)
          | (Inr bs, w) \<Rightarrow> (ep\<lparr>ep_buf := overwrite 0 bs (ep_buf ep)\<rparr>, w, hups, True)
        else
          let inHup = hup_flags flags;
              onRead = d_OnRead (desc_at w pd); onWrite = d_OnWrite (desc_at w pd); data = d_Data (desc_at w pd)
          in case call_write cb (writable_flags flags) onWrite data w of
               (we, w) \<Rightarrow>
                 (case call_read cb (readable_flags flags) onRead data ep w of
                    (re, ep, w) \<Rightarrow>
                      let inHup = (inHup \<or> (we \<noteq> None \<or> re \<noteq> None) \<and> \<not> ep_ignoreTaskError ep)
                      in (ep, w, if inHup then hups @ [pd] else hups, wakeUp)))"

fun detach_control :: "'k kern \<Rightarrow> epoll \<Rightarrow> nat list \<Rightarrow> ('h, 'd, 'k) world \<Rightarrow> ('h, 'd, 'k) world" where
  "detach_control S ep [] w = w"
| "detach_control S ep (pd # pds) w = detach_control S ep pds (snd (ep_Control S ep pd Detach w))"

definition hup_call :: "('h, 'd) Desc \<Rightarrow> ('h \<times> 'd) list" where
  "hup_call desc = (case (d_Data desc, d_OnHup desc) of (Some d, Some h) \<Rightarrow> [(h, d)] | _ \<Rightarrow> [])"

fun detach_hup :: "nat list \<Rightarrow> ('h, 'd, 'k) world \<Rightarrow> ('h, 'd, 'k) world" where
  "detach_hup [] w = w"
| "detach_hup (pd # pds) w = detach_hup pds (w\<lparr>w_spawned := w_spawned w @ hup_call (desc_at w pd)\<rparr>)"

definition ep_detach :: "'k kern \<Rightarrow> epoll \<Rightarrow> nat list \<Rightarrow> ('h, 'd, 'k) world \<Rightarrow> ('h, 'd, 'k) world" where
  "ep_detach S ep hups w = detach_hup hups (detach_control S ep hups w)"

definition freeDesc :: "('h, 'd, 'k) world \<Rightarrow> ('h, 'd, 'k) world" where
  "freeDesc w = w\<lparr>w_cache := dc_free (w_cache w)\<rparr>"

definition counterTriggerValue :: u16 where
  "counterTriggerValue = 1000"

definition ep_handle :: "'k kern \<Rightarrow> ('h, 'd, 'k) callbacks \<Rightarrow> ep_event list \<Rightarrow> epoll \<Rightarrow> ('h, 'd, 'k) world \<Rightarrow>
    epoll \<times> ('h, 'd, 'k) world" where
  "ep_handle S cb evs ep w =
     (case fold (handle_event S cb) evs (ep, w, [], False) of
        (ep, w, hups, wakeUp) \<Rightarrow>
          let ep = (if wakeUp then runAsyncTasks ep else ep) in
          if hups \<noteq> [] then
            (ep\<lparr>ep_freeDescCounter := 0\<rparr>, freeDesc (ep_detach S ep hups w))
          else
            let ep = ep\<lparr>ep_freeDescCounter := ep_freeDescCounter ep + 1\<rparr> in
            if ep_freeDescCounter ep > counterTriggerValue then
              (ep\<lparr>ep_freeDescCounter := 0\<rparr>, freeDesc w)
            else (ep, w))"

text \<open>\<open>epollWait\<close> returns the count the system call reported, its error, the events and the additions to the
  metrics.\<close>

definition epollWait :: "'k kern \<Rightarrow> epoll \<Rightarrow> int \<Rightarrow> ('h, 'd, 'k) world \<Rightarrow>
    int \<times> err option \<times> ep_event list \<times> (int \<times> u64) list \<times> ('h, 'd, 'k) world" where
  "epollWait S ep msec w =
     (case k_epoll_pwait S (ep_fd ep) defaultEventCount msec (w_kernel w) of
        (r0, e, evs, k) \<Rightarrow>
          (sint r0, e, evs,
           (if msec = 0 then [(EpollNoWait, 1)] else []) @ [(EpollWait, 1), (EpollEvents, r0)],
           w\<lparr>w_kernel := k\<rparr>))"

text \<open>One round of the loop of \<open>Wait\<close>: an error other than an interruption ends it.\<close>

definition Wait_round :: "'k kern \<Rightarrow> ('h, 'd, 'k) callbacks \<Rightarrow> int \<times> epoll \<times> ('h, 'd, 'k) world \<Rightarrow>
    err + (int \<times> epoll \<times> ('h, 'd, 'k) world)" where
  "Wait_round S cb st =
     (case st of (msec, ep, w) \<Rightarrow>
        case epollWait S ep msec w of
          (n, e, evs, _, w) \<Rightarrow>
            if e \<noteq> None \<and> e \<noteq> Some EINTR then Inl (the e)
            else if n \<le> 0 then Inr (-1, ep, w)
            else case ep_handle S cb (take (nat n) evs) ep w of (ep, w) \<Rightarrow> Inr (0, ep, w))"

text \<open>\<open>Wait\<close>: not to return is \<open>None\<close>.\<close>

partial_function (option) ep_Wait :: "'k kern \<Rightarrow> ('h, 'd, 'k) callbacks \<Rightarrow>
    int \<times> epoll \<times> ('h, 'd, 'k) world \<Rightarrow> err option" where
  "ep_Wait S cb st = (case Wait_round S cb st of Inl e \<Rightarrow> Some e | Inr st \<Rightarrow> ep_Wait S cb st)"

section \<open>Sweeping\<close>

lemma freeList_dc_free [simp]: "dc_freeList (dc_free dc) = []"
  by (simp add: dc_free_def)

lemma call_read_ep:
  "call_read cb r h d ep w = (e, ep', w') \<Longrightarrow>
     ep_freeDescCounter ep' = ep_freeDescCounter ep \<and> ep_desc ep' = ep_desc ep \<and>
     ep_ignoreTaskError ep' = ep_ignoreTaskError ep"
  by (auto simp: call_read_def split: option.splits if_splits prod.splits)

lemma handle_event_ep:
  "handle_event S cb ev (ep, w, hups, wk) = (ep', w', hups', wk') \<Longrightarrow>
     ep_freeDescCounter ep' = ep_freeDescCounter ep \<and> ep_desc ep' = ep_desc ep \<and>
     ep_ignoreTaskError ep' = ep_ignoreTaskError ep"
  by (auto simp: handle_event_def Let_def split: prod.splits if_splits sum.splits dest: call_read_ep)

lemma handle_fold_ep:
  "fold (handle_event S cb) evs (ep, w, hups, wk) = (ep', w', hups', wk') \<Longrightarrow>
     ep_freeDescCounter ep' = ep_freeDescCounter ep"
proof (induction evs arbitrary: ep w hups wk)
  case (Cons ev evs)
  obtain ep1 w1 h1 k1 where ev: "handle_event S cb ev (ep, w, hups, wk) = (ep1, w1, h1, k1)"
    by (metis prod_cases4)
  with Cons.prems have "fold (handle_event S cb) evs (ep1, w1, h1, k1) = (ep', w', hups', wk')" by simp
  from Cons.IH [OF this] handle_event_ep [OF ev] show ?case by simp
qed simp

lemma handle_counter:
  assumes "ep_handle S cb evs ep w = (ep', w')" and "unat (ep_freeDescCounter ep) \<le> 1000"
  shows "ep_freeDescCounter ep' = 0 \<and> dc_freeList (w_cache w') = [] \<or>
    unat (ep_freeDescCounter ep') = unat (ep_freeDescCounter ep) + 1 \<and> unat (ep_freeDescCounter ep') \<le> 1000"
proof -
  obtain ep1 w1 hups wk where f: "fold (handle_event S cb) evs (ep, w, [], False) = (ep1, w1, hups, wk)"
    by (metis prod_cases4)
  note c = handle_fold_ep [OF f]
  have u: "unat (ep_freeDescCounter ep + 1) = unat (ep_freeDescCounter ep) + 1"
    using assms(2) by (simp add: unat_word_ariths)
  have le: "ep_freeDescCounter ep + 1 > counterTriggerValue \<longleftrightarrow> unat (ep_freeDescCounter ep) + 1 > 1000"
    by (simp add: word_less_nat_alt u counterTriggerValue_def)
  show ?thesis
    using assms(1) f c u le
    by (auto simp: ep_handle_def Let_def runAsyncTasks_def freeDesc_def split: if_splits)
qed

text \<open>The rounds of a poller: before each batch the rest of the program has changed the world by some
  \<open>env\<close>.\<close>

fun rounds :: "'k kern \<Rightarrow> ('h, 'd, 'k) callbacks \<Rightarrow>
    ((('h, 'd, 'k) world \<Rightarrow> ('h, 'd, 'k) world) \<times> ep_event list) list \<Rightarrow>
    epoll \<times> ('h, 'd, 'k) world \<Rightarrow> epoll \<times> ('h, 'd, 'k) world" where
  "rounds S cb [] st = st"
| "rounds S cb ((env, evs) # bs) (ep, w) = rounds S cb bs (ep_handle S cb evs ep (env w))"

lemma rounds_counter:
  assumes "unat (ep_freeDescCounter ep) \<le> 1000" and "rounds S cb bs (ep, w) = (ep', w')"
  shows "unat (ep_freeDescCounter ep') \<le> 1000"
  using assms
proof (induction bs arbitrary: ep w)
  case (Cons b bs)
  obtain env evs where b: "b = (env, evs)" by (cases b)
  obtain ep1 w1 where h: "ep_handle S cb evs ep (env w) = (ep1, w1)" by fastforce
  have "unat (ep_freeDescCounter ep1) \<le> 1000"
    using handle_counter [OF h Cons.prems(1)] by auto
  with Cons.IH Cons.prems(2) b h show ?case by simp
qed simp

lemma rounds_sweep:
  assumes "unat (ep_freeDescCounter ep) \<le> 1000" and "1001 - unat (ep_freeDescCounter ep) \<le> length bs"
  shows "\<exists>k \<le> 1001 - unat (ep_freeDescCounter ep). 0 < k \<and>
    dc_freeList (w_cache (snd (rounds S cb (take k bs) (ep, w)))) = []"
  using assms
proof (induction bs arbitrary: ep w)
  case (Cons b bs)
  obtain env evs where b: "b = (env, evs)" by (cases b)
  obtain ep1 w1 where h: "ep_handle S cb evs ep (env w) = (ep1, w1)" by fastforce
  from handle_counter [OF h Cons.prems(1)] show ?case
  proof
    assume "ep_freeDescCounter ep1 = 0 \<and> dc_freeList (w_cache w1) = []"
    then have "dc_freeList (w_cache (snd (rounds S cb (take 1 (b # bs)) (ep, w)))) = []"
      using b h by simp
    moreover have "1 \<le> 1001 - unat (ep_freeDescCounter ep)" using Cons.prems(1) by simp
    ultimately show ?thesis by (intro exI [of _ 1]) simp
  next
    assume c: "unat (ep_freeDescCounter ep1) = unat (ep_freeDescCounter ep) + 1 \<and> unat (ep_freeDescCounter ep1) \<le> 1000"
    with Cons.prems(2) have "1001 - unat (ep_freeDescCounter ep1) \<le> length bs" by simp
    with c obtain k where "k \<le> 1001 - unat (ep_freeDescCounter ep1)" "0 < k"
      "dc_freeList (w_cache (snd (rounds S cb (take k bs) (ep1, w1)))) = []"
      using Cons.IH [of ep1 w1] by blast
    with c b h Cons.prems(1) show ?thesis by (intro exI [of _ "Suc k"]) simp
  qed
qed simp

text \<open>Whatever happens around it, a poller sweeps the list of freed descriptors at least once in any 1001
  consecutive batches of events, and the 16-bit counter that ensures it never passes 1000.\<close>

theorem swept_within_1001:
  assumes "unat (ep_freeDescCounter ep) \<le> 1000" and "1001 \<le> length bs"
  shows "(\<exists>k \<le> 1001. 0 < k \<and> dc_freeList (w_cache (snd (rounds S cb (take k bs) (ep, w)))) = []) \<and>
    unat (ep_freeDescCounter (fst (rounds S cb bs (ep, w)))) \<le> 1000"
proof -
  have "1001 - unat (ep_freeDescCounter ep) \<le> length bs" using assms(2) by simp
  from rounds_sweep [OF assms(1) this]
  obtain k where "k \<le> 1001 - unat (ep_freeDescCounter ep)" and k: "0 < k"
    "dc_freeList (w_cache (snd (rounds S cb (take k bs) (ep, w)))) = []" by blast
  then have "k \<le> 1001" by simp
  with k rounds_counter [OF assms(1) prod.collapse [symmetric]] show ?thesis by blast
qed

text \<open>A system in which every call succeeds and does nothing, for concrete instances.\<close>

definition idle_kern :: "'k kern" where
  "idle_kern = \<lparr>k_epoll_create1 = (\<lambda>k. (Inr 3, k)), k_eventfd = (\<lambda>k. (Inr 4, k)),
     k_epoll_ctl = (\<lambda>_ _ _ _ k. (None, k)), k_epoll_pwait = (\<lambda>_ _ _ k. (0, None, [], k)),
     k_read = (\<lambda>_ _ k. (Inr [], k)), k_write = (\<lambda>_ _ k. (None, k)), k_close = (\<lambda>_ k. (None, k))\<rparr>"

definition idle_callbacks :: "(string, nat, unit) callbacks" where
  "idle_callbacks = \<lparr>cb_read = (\<lambda>_ _ io w. (None, io, w)), cb_write = (\<lambda>_ _ w. (None, w))\<rparr>"

definition idle_poller :: epoll where
  "idle_poller = \<lparr>ep_desc = 0, ep_ioData = nil_iodata, ep_buf = replicate 8 0, ep_fd = 3, ep_notified = 0,
     ep_ignoreTaskError = False, ep_freeDescCounter = 0\<rparr>"

definition idle_world :: "(string, nat, unit) world" where
  "idle_world = \<lparr>w_cache = \<lparr>dc_first = None,
     dc_cache = [(new_Desc 0)\<lparr>d_FD := 4\<rparr>, (new_Desc 1)\<lparr>d_FD := 9, d_Data := Some 1, d_OnHup := Some ''onHup'',
                  d_OnRead := Some ''onRead'', d_poller := Some 0\<rparr>],
     dc_freeList = []\<rparr>, w_kernel = (), w_spawned = []\<rparr>"

theorem swept_within_1001_witness:
  "\<exists>k \<le> 1001. 0 < k \<and> dc_freeList (w_cache (snd (rounds idle_kern idle_callbacks
     (take k (replicate 1001 (\<lambda>w. w, []))) (idle_poller, idle_world)))) = []"
  using swept_within_1001 [of idle_poller "replicate 1001 (\<lambda>w. w, [])" idle_kern idle_callbacks idle_world]
  by (simp add: idle_poller_def)

section \<open>Hang-ups\<close>

text \<open>When an event makes its descriptor hang up: the system reports it, or a callback that applies fails and
  the poller does not ignore the errors of callbacks.\<close>

definition hung :: "bool \<Rightarrow> ('h \<Rightarrow> 'd \<Rightarrow> bool) \<Rightarrow> ('h \<Rightarrow> 'd \<Rightarrow> bool) \<Rightarrow> ('h, 'd) Desc \<Rightarrow> u32 \<Rightarrow> bool" where
  "hung ignore wfails rfails desc flags \<longleftrightarrow>
     hup_flags flags \<or>
     \<not> ignore \<and>
       (writable_flags flags \<and> (\<exists>h d. d_OnWrite desc = Some h \<and> d_Data desc = Some d \<and> wfails h d) \<or>
        readable_flags flags \<and> (\<exists>h d. d_OnRead desc = Some h \<and> d_Data desc = Some d \<and> rfails h d))"

definition quiet :: "('h, 'd, 'k) callbacks \<Rightarrow> ('h \<Rightarrow> 'd \<Rightarrow> bool) \<Rightarrow> ('h \<Rightarrow> 'd \<Rightarrow> bool) \<Rightarrow> bool" where
  "quiet cb wfails rfails \<longleftrightarrow>
     (\<forall>h d w e w'. cb_write cb h d w = (e, w') \<longrightarrow>
        (e \<noteq> None) = wfails h d \<and> w_cache w' = w_cache w \<and> w_spawned w' = w_spawned w) \<and>
     (\<forall>h d io w e io' w'. cb_read cb h d io w = (e, io', w') \<longrightarrow>
        (e \<noteq> None) = rfails h d \<and> w_cache w' = w_cache w \<and> w_spawned w' = w_spawned w)"

lemma quiet_write:
  assumes "quiet cb wfails rfails" and "call_write cb r h d w = (e, w')"
  shows "w_cache w' = w_cache w \<and> w_spawned w' = w_spawned w \<and>
    (e \<noteq> None \<longleftrightarrow> r \<and> (\<exists>h' d'. h = Some h' \<and> d = Some d' \<and> wfails h' d'))"
proof (cases "r \<and> h \<noteq> None \<and> d \<noteq> None")
  case True
  then obtain h' d' where hd: "h = Some h'" "d = Some d'" by blast
  with True assms(2) have "cb_write cb h' d' w = (e, w')" by (simp add: call_write_def)
  with assms(1) have "(e \<noteq> None) = wfails h' d' \<and> w_cache w' = w_cache w \<and> w_spawned w' = w_spawned w"
    unfolding quiet_def by blast
  with True hd show ?thesis by simp
next
  case False
  then have "call_write cb r h d w = (None, w)" by (cases h; cases d) (simp_all add: call_write_def)
  with False assms(2) show ?thesis by auto
qed

lemma quiet_read:
  assumes "quiet cb wfails rfails" and "call_read cb r h d ep w = (e, ep', w')"
  shows "w_cache w' = w_cache w \<and> w_spawned w' = w_spawned w \<and>
    (e \<noteq> None \<longleftrightarrow> r \<and> (\<exists>h' d'. h = Some h' \<and> d = Some d' \<and> rfails h' d'))"
proof (cases "r \<and> h \<noteq> None \<and> d \<noteq> None")
  case True
  then obtain h' d' where hd: "h = Some h'" "d = Some d'" by blast
  obtain e1 io1 w1 where cb: "cb_read cb h' d' (ep_ioData ep) w = (e1, io1, w1)"
    using prod_cases3 by blast
  with True hd assms(2) have eq: "e1 = e" "w1 = w'" by (simp_all add: call_read_def)
  have "(e \<noteq> None) = rfails h' d' \<and> w_cache w' = w_cache w \<and> w_spawned w' = w_spawned w"
    using assms(1) [unfolded quiet_def, THEN conjunct2, rule_format, OF cb] eq by simp
  with True hd show ?thesis by simp
next
  case False
  then have "call_read cb r h d ep w = (None, ep, w)" by (cases h; cases d) (simp_all add: call_read_def)
  with False assms(2) show ?thesis by auto
qed

text \<open>What one event contributes to the goroutines started for hang-ups.\<close>

definition hup_calls :: "('h, 'd) descCache \<Rightarrow> nat \<Rightarrow> bool \<Rightarrow> ('h \<Rightarrow> 'd \<Rightarrow> bool) \<Rightarrow> ('h \<Rightarrow> 'd \<Rightarrow> bool) \<Rightarrow>
    ep_event \<Rightarrow> nat list" where
  "hup_calls dc self ignore wfails rfails ev =
     (case ev of (flags, pd) \<Rightarrow>
        if d_FD (dc_cache dc ! pd) \<noteq> d_FD (dc_cache dc ! self) \<and>
           hung ignore wfails rfails (dc_cache dc ! pd) flags
        then [pd] else [])"

lemma handle_event_quiet:
  assumes q: "quiet cb wfails rfails" and ev: "handle_event S cb ev (ep, w, hups, wk) = (ep', w', hups', wk')"
  shows "w_cache w' = w_cache w \<and> w_spawned w' = w_spawned w \<and>
    hups' = hups @ hup_calls (w_cache w) (ep_desc ep) (ep_ignoreTaskError ep) wfails rfails ev"
proof -
  obtain flags pd where evt: "ev = (flags, pd)" by (cases ev)
  show ?thesis
  proof (cases "d_FD (desc_at w pd) = d_FD (desc_at w (ep_desc ep))")
    case True
    with ev evt show ?thesis
      by (auto simp: handle_event_def hup_calls_def on_kernel_def split: prod.splits sum.splits)
  next
    case False
    let ?d = "desc_at w pd"
    obtain we w1 where wr: "call_write cb (writable_flags flags) (d_OnWrite ?d) (d_Data ?d) w = (we, w1)"
      by fastforce
    obtain re ep2 w2 where rd: "call_read cb (readable_flags flags) (d_OnRead ?d) (d_Data ?d) ep w1 = (re, ep2, w2)"
      using prod_cases3 by blast
    have eq: "w' = w2" "hups' = (if hup_flags flags \<or> (we \<noteq> None \<or> re \<noteq> None) \<and> \<not> ep_ignoreTaskError ep
        then hups @ [pd] else hups)"
      using ev evt False wr rd call_read_ep [OF rd] by (simp_all add: handle_event_def Let_def)
    have "hup_flags flags \<or> (we \<noteq> None \<or> re \<noteq> None) \<and> \<not> ep_ignoreTaskError ep \<longleftrightarrow>
        hung (ep_ignoreTaskError ep) wfails rfails ?d flags"
      using quiet_write [OF q wr] quiet_read [OF q rd] unfolding hung_def by blast
    with eq evt False quiet_write [OF q wr] quiet_read [OF q rd] show ?thesis
      by (simp add: hup_calls_def)
  qed
qed

lemma handle_fold_quiet:
  assumes q: "quiet cb wfails rfails"
    and "fold (handle_event S cb) evs (ep, w, hups, wk) = (ep', w', hups', wk')"
  shows "w_cache w' = w_cache w \<and> w_spawned w' = w_spawned w \<and>
    hups' = hups @ concat (map (hup_calls (w_cache w) (ep_desc ep) (ep_ignoreTaskError ep) wfails rfails) evs)"
  using assms(2)
proof (induction evs arbitrary: ep w hups wk)
  case (Cons ev evs)
  obtain ep1 w1 h1 k1 where ev: "handle_event S cb ev (ep, w, hups, wk) = (ep1, w1, h1, k1)"
    by (metis prod_cases4)
  with Cons.prems have "fold (handle_event S cb) evs (ep1, w1, h1, k1) = (ep', w', hups', wk')" by simp
  from Cons.IH [OF this] handle_event_quiet [OF q ev] handle_event_ep [OF ev] show ?case by simp
qed simp

lemma on_kernel_frame [simp]:
  "w_cache (snd (on_kernel f w)) = w_cache w" "w_spawned (snd (on_kernel f w)) = w_spawned w"
  "w_kernel (snd (on_kernel f w)) = snd (f (w_kernel w))"
  by (simp_all add: on_kernel_def split: prod.splits)

lemma Control_frame [simp]:
  "w_cache (snd (ep_Control S ep pd e w)) = w_cache w" "w_spawned (snd (ep_Control S ep pd e w)) = w_spawned w"
  by (simp_all add: ep_Control_def ep_insert_def ep_interest_def ep_remove_def Let_def split: event.splits)

lemma detach_control_frame [simp]:
  "w_cache (detach_control S ep pds w) = w_cache w" "w_spawned (detach_control S ep pds w) = w_spawned w"
  by (induction pds arbitrary: w) simp_all

lemma detach_hup_spawned:
  "w_spawned (detach_hup pds w) = w_spawned w @ concat (map (\<lambda>pd. hup_call (desc_at w pd)) pds)"
  by (induction pds arbitrary: w) simp_all



section \<open>Stale events\<close>

text \<open>How a connection fills its descriptor (\<open>netFD.Schedule\<close>).\<close>

definition bind_desc :: "int \<Rightarrow> 'd \<Rightarrow> 'h option \<Rightarrow> 'h option \<Rightarrow> 'h option \<Rightarrow> ('h, 'd) Desc \<Rightarrow> ('h, 'd) Desc" where
  "bind_desc fd conn onRead onWrite onHup d =
     d\<lparr>d_FD := fd, d_Data := Some conn, d_OnRead := onRead, d_OnWrite := onWrite, d_OnHup := onHup\<rparr>"

lemma call_not_ready [simp]:
  "call_write cb False h d w = (None, w)" "call_read cb False h d ep w = (None, ep, w)"
  by (simp_all add: call_write_def call_read_def split: option.splits)

text \<open>C30. The events of a batch hold pointers to descriptors, and another poller may sweep and reuse a
  descriptor between the system call and the dispatch: after its connection is closed (\<open>markFree\<close>), a sweep
  and the next allocation return the same descriptor, and a hang-up of the old connection that is still in
  the batch starts the hang-up handler of the new one.\<close>

theorem stale_event_hits_new_owner:
  assumes "cache_reach used dc" and "i \<in> used" and "dc_freeList dc = []"
    and "fd \<noteq> d_FD (dc_cache dc ! ep_desc ep)" and "ep_desc ep \<in> used" and "ep_desc ep \<noteq> i"
  shows "\<exists>dc'. dc_alloc (dc_free (markFree i dc)) = (Inr i, dc') \<and>
    w_spawned (snd (ep_handle S cb [(EPOLLHUP, i)] ep
      \<lparr>w_cache = write_desc i (bind_desc fd B onRead onWrite (Some h)) dc', w_kernel = k, w_spawned = []\<rparr>)) = [(h, B)]"
proof -
  obtain xs where rel: "cache_rel xs used dc" using cache_reach_rel [OF assms(1)] by blast
  have i: "i < length (dc_cache dc)" and ind: "d_index (dc_cache dc ! i) = i"
    using rel assms(2) by (auto simp: cache_rel_def)
  define dc' where "dc' = dc\<lparr>dc_cache := (dc_cache dc)[i := (Desc_reset (dc_cache dc ! i))\<lparr>d_next := dc_first dc\<rparr>]\<rparr>"
  have alloc: "dc_alloc (dc_free (markFree i dc)) = (Inr i, dc')"
    using i ind assms(3) by (simp add: dc_alloc_def dc_free_def markFree_def dc'_def)
  have flags: "hup_flags EPOLLHUP" "\<not> readable_flags EPOLLHUP" "\<not> writable_flags EPOLLHUP"
    by (simp_all add: hup_flags_def readable_flags_def writable_flags_def epoll_flags)
  let ?w = "\<lparr>w_cache = write_desc i (bind_desc fd B onRead onWrite (Some h)) dc', w_kernel = k, w_spawned = []\<rparr>"
  have d: "desc_at ?w i = bind_desc fd B onRead onWrite (Some h) (dc_cache dc' ! i)" "desc_at ?w (ep_desc ep) = dc_cache dc ! ep_desc ep"
    using i assms(6) by (simp_all add: write_desc_def dc'_def)
  have "handle_event S cb (EPOLLHUP, i) (ep, ?w, [], False) = (ep, ?w, [i], False)"
    using flags d assms(4) by (simp add: handle_event_def bind_desc_def)
  then have "w_spawned (snd (ep_handle S cb [(EPOLLHUP, i)] ep ?w)) = hup_call (desc_at ?w i)"
    by (simp add: ep_handle_def Let_def freeDesc_def ep_detach_def detach_hup_spawned)
  also have "\<dots> = [(h, B)]" using d(1) by (simp add: hup_call_def bind_desc_def)
  finally show ?thesis using alloc by blast
qed

lemma two_descs:
  "\<exists>dc i j. cache_reach {i, j} (dc :: (string, nat) descCache) \<and> i \<noteq> j \<and> dc_freeList dc = [] \<and> d_FD (dc_cache dc ! j) = 4"
proof -
  define f :: "(string, nat) Desc \<Rightarrow> (string, nat) Desc" where "f = (\<lambda>d. d\<lparr>d_FD := 4\<rparr>)"
  obtain j dc1 where a1: "dc_alloc (empty_cache :: (string, nat) descCache) = (Inr j, dc1)"
    using desc_alloc_total [OF cache_reach.start] by blast
  have r1: "cache_reach {j} (write_desc j f dc1)"
    by (rule cache_reach.store [OF cache_reach.alloc [OF cache_reach.start a1]]) (simp_all add: f_def)
  obtain i dc2 where a2: "dc_alloc (write_desc j f dc1) = (Inr i, dc2)" and ne: "i \<noteq> j"
    using desc_alloc_total [OF r1] by blast
  have r2: "cache_reach {i, j} (write_desc j f dc2)"
    by (rule cache_reach.store [OF cache_reach.alloc [OF r1 a2]]) (simp_all add: f_def)
  have "j < length (dc_cache dc2)" using cache_reach_rel [OF r2] by (auto simp: cache_rel_def write_desc_def)
  moreover have "dc_freeList dc2 = []"
    using alloc_freeList [OF a1] alloc_freeList [OF a2] by (simp add: write_desc_def empty_cache_def)
  ultimately show ?thesis using r2 ne
    by (intro exI [of _ "write_desc j f dc2"] exI [of _ i] exI [of _ j]) (simp add: write_desc_def f_def)
qed

theorem stale_event_hits_new_owner_witness:
  "\<exists>dc dc' i ep. dc_alloc (dc_free (markFree i dc)) = (Inr i, dc') \<and>
    w_spawned (snd (ep_handle idle_kern idle_callbacks [(EPOLLHUP, i)] ep
      \<lparr>w_cache = write_desc i (bind_desc 12 2 None None (Some ''onHup'')) dc', w_kernel = (), w_spawned = []\<rparr>)) =
    [(''onHup'', 2)]"
proof -
  obtain dc :: "(string, nat) descCache" and i j where "cache_reach {i, j} dc" "i \<noteq> j" "dc_freeList dc = []"
    "d_FD (dc_cache dc ! j) = 4" using two_descs by blast
  with stale_event_hits_new_owner [of "{i, j}" dc i 12 "idle_poller\<lparr>ep_desc := j\<rparr>" idle_kern idle_callbacks 2
      None None "''onHup''" "()"]
  show ?thesis by fastforce
qed

section \<open>Waking up and counting\<close>

text \<open>The documented behaviour of a write to an event descriptor: it adds the number written to its counter.\<close>

definition eventfd_adds :: "'k kern \<Rightarrow> ('k \<Rightarrow> nat) \<Rightarrow> bool" where
  "eventfd_adds S counter \<longleftrightarrow>
     (\<forall>fd bs k. counter (snd (k_write S fd bs k)) = counter k + horner_sum unat 256 bs)"

lemma horner_zero: "horner_sum unat 256 (replicate n 0 :: byte list) = (0 :: nat)"
  by (induction n) simp_all

lemma notify_zero:
  fixes S :: "'k kern" and w :: "('h, 'd, 'k) world"
  assumes "ep_notify S ep w = Some r"
  shows "eventfd_adds S counter \<longrightarrow> ep_buf ep = replicate 8 0 \<longrightarrow>
    counter (w_kernel (snd r)) = counter (w_kernel w)"
proof (rule ep_notify.raw_induct [OF _ assms])
  fix notify :: "'k kern \<Rightarrow> epoll \<Rightarrow> ('h, 'd, 'k) world \<Rightarrow> (err option \<times> ('h, 'd, 'k) world) option"
    and S :: "'k kern" and ep :: epoll and w :: "('h, 'd, 'k) world" and r
  let ?P = "\<lambda>S (ep :: epoll) (w :: ('h, 'd, 'k) world) (r :: err option \<times> ('h, 'd, 'k) world). eventfd_adds S counter \<longrightarrow> ep_buf ep = replicate 8 0 \<longrightarrow>
    counter (w_kernel (snd r)) = counter (w_kernel w)"
  assume IH: "\<And>S ep w r. notify S ep w = Some r \<Longrightarrow> ?P S ep w r"
  let ?r = "on_kernel (k_write S (d_FD (desc_at w (ep_desc ep))) (ep_buf ep)) w"
  have one: "eventfd_adds S counter \<longrightarrow> ep_buf ep = replicate 8 0 \<longrightarrow>
      counter (w_kernel (snd ?r)) = counter (w_kernel w)"
    by (simp add: eventfd_adds_def horner_zero)
  assume body: "(let r = ?r in if fst r \<noteq> Some EINTR \<and> fst r \<noteq> Some EAGAIN then Some r else notify S ep (snd r)) = Some r"
  show "?P S ep w r"
  proof (cases "fst ?r \<noteq> Some EINTR \<and> fst ?r \<noteq> Some EAGAIN")
    case True
    with body have "r = ?r" by (simp add: Let_def)
    with one show ?thesis by (simp only:)
  next
    case False
    with body have "notify S ep (snd ?r) = Some r" by (auto simp: Let_def)
    from IH [OF this] one show ?thesis by simp
  qed
qed

text \<open>\<open>Trigger\<close> does not wake the poller: the eight bytes it writes to the event descriptor are those of a
  buffer that is all zero from the creation of the poller on, and a write adds the number written to the
  counter of the descriptor, so the counter stays as it is and the descriptor does not become readable.\<close>

theorem trigger_adds_nothing:
  assumes "eventfd_adds S counter" and "ep_buf ep = replicate 8 0" and "ep_Trigger S ep w = Some (e, ep', w')"
  shows "counter (w_kernel w') = counter (w_kernel w) \<and> ep_notified ep' \<noteq> 0"
proof (cases "ep_notified ep = 0")
  case True
  then obtain r where "ep_notify S ep w = Some r" "ep' = ep\<lparr>ep_notified := 1\<rparr>" "w' = snd r"
    using assms(3) by (auto simp: ep_Trigger_def)
  with notify_zero [of S ep w r counter] assms(1,2) show ?thesis by simp
next
  case False
  with assms(3) show ?thesis by (simp add: ep_Trigger_def)
qed

definition counting_kern :: "nat kern" where
  "counting_kern = \<lparr>k_epoll_create1 = (\<lambda>k. (Inr 3, k)), k_eventfd = (\<lambda>k. (Inr 4, k)),
     k_epoll_ctl = (\<lambda>_ _ _ _ k. (None, k)), k_epoll_pwait = (\<lambda>_ _ _ k. (0, None, [], k)),
     k_read = (\<lambda>_ _ k. (Inr [], 0)), k_write = (\<lambda>_ bs k. (None, k + horner_sum unat 256 bs)),
     k_close = (\<lambda>_ k. (None, k))\<rparr>"

theorem trigger_adds_nothing_witness:
  "\<exists>w'. ep_Trigger counting_kern idle_poller
      \<lparr>w_cache = (empty_cache :: (string, nat) descCache), w_kernel = 0, w_spawned = []\<rparr> =
      Some (None, idle_poller\<lparr>ep_notified := 1\<rparr>, w') \<and> w_kernel w' = 0"
proof -
  let ?w = "\<lparr>w_cache = (empty_cache :: (string, nat) descCache), w_kernel = 0, w_spawned = []\<rparr>"
  have "eventfd_adds counting_kern (\<lambda>k. k)" by (simp add: eventfd_adds_def counting_kern_def)
  moreover obtain w' where t: "ep_Trigger counting_kern idle_poller ?w = Some (None, idle_poller\<lparr>ep_notified := 1\<rparr>, w')"
    by (subst (asm) ep_Trigger_def, subst (asm) ep_notify.simps)
       (simp add: idle_poller_def counting_kern_def on_kernel_def)
  moreover have "ep_buf idle_poller = replicate 8 0" by (simp add: idle_poller_def)
  ultimately show ?thesis using trigger_adds_nothing [OF _ _ t] by auto
qed

text \<open>A failed \<open>epoll_pwait\<close> returns the all-ones word, which \<open>epollWait\<close> adds to the counter of events as
  it is: every interruption counts one event down.\<close>

theorem failed_wait_uncounts:
  assumes "k_epoll_pwait S (ep_fd ep) defaultEventCount msec (w_kernel w) = (-1, Some EINTR, evs, k)"
    and "epollWait S ep msec w = (n, e, evs', adds, w')" and "length m = nat metricNum"
  shows "\<exists>m'. add_all adds m = Inr m' \<and> m' ! nat EpollEvents = m ! nat EpollEvents - 1"
proof -
  have "adds = (if msec = 0 then [(EpollNoWait, 1)] else []) @ [(EpollWait, 1), (EpollEvents, -1)]"
    using assms(1,2) by (auto simp: epollWait_def)
  with assms(3) show ?thesis
    by (auto simp: metrics_Add_def EpollEvents_def EpollWait_def EpollNoWait_def metricNum_def
        TCPOutboundBufferLimitExceeded_def Max_metric_def)
qed

theorem failed_wait_uncounts_witness:
  "\<exists>m'. add_all (fst (snd (snd (snd (epollWait (idle_kern\<lparr>k_epoll_pwait := (\<lambda>_ _ _ k. (-1, Some EINTR, [], k))\<rparr>)
       idle_poller (-1) idle_world))))) zero_metrics = Inr m' \<and> m' ! nat EpollEvents = - 1"
proof -
  let ?S = "idle_kern\<lparr>k_epoll_pwait := (\<lambda>_ _ _ k. (-1, Some EINTR, [], k))\<rparr>"
  obtain n e evs adds w' where w: "epollWait ?S idle_poller (-1) idle_world = (n, e, evs, adds, w')"
    using prod_cases5 by blast
  have "\<exists>m'. add_all adds zero_metrics = Inr m' \<and> m' ! nat EpollEvents = zero_metrics ! nat EpollEvents - 1"
    by (rule failed_wait_uncounts [OF _ w]) (simp_all add: zero_metrics_def)
  with w show ?thesis by (simp add: zero_metrics_def metric_names)
qed

end
