(* ===== verification/Netfd.thy ===== *)
theory Netfd
  imports Epoll Netutil
begin

text \<open>
  Model of \<open>netfd.go\<close>: the file descriptor of a connection or listener, its registration with a poller
  and its system calls. Every operation that touches the descriptor holds the mutex of the \<open>netFD\<close>, so it
  is one step. The system calls and the socket of the Go library are the fields of \<open>'k nsys\<close>.
\<close>

section \<open>State\<close>

datatype fdType = fdTCP | fdUDP | fdListen

record netFD =
  nf_desc :: "nat option"
  nf_sock :: bool
  nf_laddr :: net_addr
  nf_raddr :: "net_addr option"
  nf_network :: string
  nf_fd :: int
  nf_fdtype :: fdType
  nf_closed :: bool
  nf_udpBufferSize :: int
  nf_exactUDPBufferSizeEnabled :: bool

record 'k nsys =
  n_sock_close :: "int \<Rightarrow> 'k \<Rightarrow> 'k"
  n_setsockopt :: "int \<Rightarrow> string \<Rightarrow> int \<Rightarrow> 'k \<Rightarrow> err option \<times> 'k"
  n_readv :: "int \<Rightarrow> nat list \<Rightarrow> 'k \<Rightarrow> (err + byte list) \<times> 'k"
  n_writev :: "int \<Rightarrow> byte list list \<Rightarrow> 'k \<Rightarrow> (err + nat) \<times> 'k"
  n_sendto :: "int \<Rightarrow> byte list \<Rightarrow> sockaddr \<Rightarrow> 'k \<Rightarrow> err option \<times> 'k"

definition defaultUDPBufferSize :: int where
  "defaultUDPBufferSize = 65535"

definition defaultExactUDPBufferSizeEnabled :: bool where
  "defaultExactUDPBufferSizeEnabled = False"

definition udpPacketNum :: nat where
  "udpPacketNum = 32"

section \<open>Registration and closing\<close>

text \<open>The two poller managers: the one of connections and the one of listeners.\<close>

type_synonym mgrs = "roundRobinLB PollMgr \<times> roundRobinLB PollMgr"

definition nfd_Control :: "'k kern \<Rightarrow> (nat \<Rightarrow> epoll) \<Rightarrow> event \<Rightarrow> netFD \<Rightarrow> ('h, 'd, 'k) world \<Rightarrow>
    err option \<times> ('h, 'd, 'k) world" where
  "nfd_Control S eps e nfd w =
     (if nf_closed nfd then (Some ErrConnClosed, w)
      else case nf_desc nfd of
        None \<Rightarrow> (Some (ErrText ''netFD is not add to poller''), w)
      | Some pd \<Rightarrow> Desc_Control S eps pd e w)"

definition FreeDesc :: "nat \<Rightarrow> ('h, 'd, 'k) world \<Rightarrow> ('h, 'd, 'k) world" where
  "FreeDesc pd w = w\<lparr>w_cache := markFree pd (w_cache w)\<rparr>"

definition nfd_close :: "'k kern \<Rightarrow> 'k nsys \<Rightarrow> (nat \<Rightarrow> epoll) \<Rightarrow> netFD \<Rightarrow> ('h, 'd, 'k) world \<Rightarrow>
    netFD \<times> ('h, 'd, 'k) world" where
  "nfd_close S N eps nfd w =
     (if nf_closed nfd then (nfd, w)
      else
        let nfd = nfd\<lparr>nf_closed := True\<rparr>;
            (nfd, w) = (case nf_desc nfd of
               None \<Rightarrow> (nfd, w)
             | Some pd \<Rightarrow> (nfd\<lparr>nf_desc := None\<rparr>, FreeDesc pd (snd (Desc_Close S eps pd w))));
            k = (if nf_sock nfd then n_sock_close N (nf_fd nfd) (w_kernel w)
                 else snd (k_close S (nf_fd nfd) (w_kernel w)))
        in (nfd, w\<lparr>w_kernel := k\<rparr>))"

definition pick_mgr :: "fdType \<Rightarrow> mgrs \<Rightarrow> roundRobinLB PollMgr" where
  "pick_mgr t ms = (if t = fdListen then snd ms else fst ms)"

definition set_mgr :: "fdType \<Rightarrow> roundRobinLB PollMgr \<Rightarrow> mgrs \<Rightarrow> mgrs" where
  "set_mgr t m ms = (if t = fdListen then (fst ms, m) else (m, snd ms))"

definition Schedule :: "'k kern \<Rightarrow> (nat \<Rightarrow> epoll) \<Rightarrow> 'h option \<Rightarrow> 'h option \<Rightarrow> 'h option \<Rightarrow> 'd \<Rightarrow>
    netFD \<Rightarrow> mgrs \<Rightarrow> ('h, 'd, 'k) world \<Rightarrow> err option \<times> netFD \<times> mgrs \<times> ('h, 'd, 'k) world" where
  "Schedule S eps onRead onWrite onHup conn nfd ms w =
     (if nf_desc nfd \<noteq> None then (Some (ErrText ''already in poller system''), nfd, ms, w)
      else case dc_alloc (w_cache w) of
        (Inl f, dc) \<Rightarrow> (Some (Fault f), nfd, ms, w\<lparr>w_cache := dc\<rparr>)
      | (Inr pd, dc) \<Rightarrow>
          let dc = write_desc pd (bind_desc (nf_fd nfd) conn onRead onWrite onHup) dc in
          case PickPollerWithPollMgr (Some (pick_mgr (nf_fdtype nfd) ms)) pd dc of
            (e, m, dc) \<Rightarrow>
              let ms = set_mgr (nf_fdtype nfd) (the m) ms; w = w\<lparr>w_cache := dc\<rparr> in
              (case e of
                 Some e \<Rightarrow> (Some e, nfd, ms, FreeDesc pd w)
               | None \<Rightarrow>
                   let nfd = nfd\<lparr>nf_desc := Some pd\<rparr> in
                   case nfd_Control S eps Readable nfd w of (e, w) \<Rightarrow> (e, nfd, ms, w)))"

section \<open>Input and output\<close>

definition nfd_FD :: "netFD \<Rightarrow> int" where
  "nfd_FD nfd = nf_fd nfd"

definition nfd_LocalAddr :: "netFD \<Rightarrow> net_addr" where
  "nfd_LocalAddr nfd = nf_laddr nfd"

definition nfd_RemoteAddr :: "netFD \<Rightarrow> net_addr option" where
  "nfd_RemoteAddr nfd = nf_raddr nfd"

definition SetKeepAlive :: "'k nsys \<Rightarrow> int \<Rightarrow> int \<Rightarrow> 'k \<Rightarrow> err option \<times> 'k" where
  "SetKeepAlive N fd secs k =
     (case n_setsockopt N fd ''SO_KEEPALIVE'' 1 k of
        (Some e, k) \<Rightarrow> (Some e, k)
      | (None, k) \<Rightarrow>
          (case n_setsockopt N fd ''TCP_KEEPINTVL'' secs k of
             (Some e, k) \<Rightarrow> (Some e, k)
           | (None, k) \<Rightarrow> n_setsockopt N fd ''TCP_KEEPIDLE'' secs k))"

definition nfd_SetKeepAlive :: "'k nsys \<Rightarrow> int \<Rightarrow> netFD \<Rightarrow> 'k \<Rightarrow> err option \<times> 'k" where
  "nfd_SetKeepAlive N secs nfd k = SetKeepAlive N (nf_fd nfd) secs k"

definition SetNoDelay :: "'k nsys \<Rightarrow> bool \<Rightarrow> netFD \<Rightarrow> 'k \<Rightarrow> err option \<times> 'k" where
  "SetNoDelay N noDelay nfd k = n_setsockopt N (nf_fd nfd) ''TCP_NODELAY'' (if noDelay then 1 else 0) k"

text \<open>\<open>Readv\<close> and \<open>Writev\<close> with the additions to the metrics. A failed system call returns -1.\<close>

definition nfd_Readv :: "'k nsys \<Rightarrow> nat list \<Rightarrow> netFD \<Rightarrow> 'k \<Rightarrow> byte list \<times> err option \<times> (int \<times> u64) list \<times> 'k" where
  "nfd_Readv N ivs nfd k =
     (if ivs = [] then ([], None, [], k)
      else case n_readv N (nf_fd nfd) ivs k of
        (Inl e, k) \<Rightarrow> ([], Some e, [(TCPReadvCalls, 1), (TCPReadvFails, 1)], k)
      | (Inr bs, k) \<Rightarrow> (bs, None, [(TCPReadvCalls, 1), (TCPReadvBytes, of_nat (length bs))], k))"

definition nfd_Writev :: "'k nsys \<Rightarrow> byte list list \<Rightarrow> netFD \<Rightarrow> 'k \<Rightarrow> int \<times> err option \<times> (int \<times> u64) list \<times> 'k" where
  "nfd_Writev N ivs nfd k =
     (if ivs = [] then (0, None, [], k)
      else case n_writev N (nf_fd nfd) ivs k of
        (Inl e, k) \<Rightarrow> (-1, Some e, [(TCPWritevCalls, 1), (TCPWritevFails, 1)], k)
      | (Inr n, k) \<Rightarrow> (int n, None, [(TCPWritevCalls, 1), (TCPWritevBlocks, of_nat (length ivs))], k))"

definition EMSGSIZE :: err where
  "EMSGSIZE = Errno 90"

definition nfd_WriteTo :: "(string \<Rightarrow> int option) \<Rightarrow> 'k nsys \<Rightarrow> byte list \<Rightarrow> net_addr option \<Rightarrow> netFD \<Rightarrow> 'k \<Rightarrow>
    nat \<times> err option \<times> 'k" where
  "nfd_WriteTo byName N data addr nfd k =
     (if data = [] then (0, None, k)
      else case addr of
        None \<Rightarrow> (0, Some (ErrText ''address can't be nil''), k)
      | Some a \<Rightarrow>
          if int (length data) > nf_udpBufferSize nfd then (0, Some EMSGSIZE, k)
          else case AddrToSockAddr byName (nf_laddr nfd) a of
            Inl e \<Rightarrow> (0, Some e, k)
          | Inr sa \<Rightarrow> (case n_sendto N (nf_fd nfd) data sa k of (e, k) \<Rightarrow> (length data, e, k)))"

section \<open>The descriptor is given back once\<close>

text \<open>The operations that other goroutines may interleave on one \<open>netFD\<close> after it was scheduled.\<close>

datatype nfd_op = NControl event | NClose

fun nfd_run :: "'k kern \<Rightarrow> 'k nsys \<Rightarrow> (nat \<Rightarrow> epoll) \<Rightarrow> nfd_op list \<Rightarrow> netFD \<Rightarrow> ('h, 'd, 'k) world \<Rightarrow>
    err option list \<times> netFD \<times> ('h, 'd, 'k) world" where
  "nfd_run S N eps [] nfd w = ([], nfd, w)"
| "nfd_run S N eps (NControl e # ops) nfd w =
     (case nfd_Control S eps e nfd w of (r, w) \<Rightarrow>
        case nfd_run S N eps ops nfd w of (rs, nfd, w) \<Rightarrow> (r # rs, nfd, w))"
| "nfd_run S N eps (NClose # ops) nfd w =
     (case nfd_close S N eps nfd w of (nfd, w) \<Rightarrow>
        case nfd_run S N eps ops nfd w of (rs, nfd, w) \<Rightarrow> (None # rs, nfd, w))"

lemma Desc_Control_cache [simp]: "w_cache (snd (Desc_Control S eps pd e w)) = w_cache w"
  by (simp add: Desc_Control_def split: option.splits)

lemma Desc_Close_cache [simp]: "w_cache (snd (Desc_Close S eps pd w)) = w_cache w"
  by (simp add: Desc_Close_def split: option.splits)

lemma nfd_Control_cache [simp]: "w_cache (snd (nfd_Control S eps e nfd w)) = w_cache w"
  by (simp add: nfd_Control_def split: option.splits)

lemma nfd_run_closed:
  assumes "nf_closed nfd"
  shows "\<exists>rs. nfd_run S N eps ops nfd w = (rs, nfd, w) \<and> length rs = length ops \<and>
    (\<forall>i < length ops. rs ! i = (case ops ! i of NControl _ \<Rightarrow> Some ErrConnClosed | NClose \<Rightarrow> None))"
proof (induction ops)
  case (Cons op ops)
  with assms show ?case
    by (cases op) (auto simp: nfd_Control_def nfd_close_def nth_Cons split: nat.splits)
qed simp

lemma nfd_close_effect:
  assumes "\<not> nf_closed nfd" and "nf_desc nfd = Some pd"
  shows "\<exists>k. nfd_close S N eps nfd w =
    (nfd\<lparr>nf_closed := True, nf_desc := None\<rparr>,
     (FreeDesc pd (snd (Desc_Close S eps pd w)))\<lparr>w_kernel := k\<rparr>)"
  using assms by (auto simp: nfd_close_def Let_def)


definition idle_nsys :: "'k nsys" where
  "idle_nsys = \<lparr>n_sock_close = (\<lambda>_ k. k), n_setsockopt = (\<lambda>_ _ _ k. (None, k)), n_readv = (\<lambda>_ _ k. (Inr [], k)),
     n_writev = (\<lambda>_ _ k. (Inr 0, k)), n_sendto = (\<lambda>_ _ _ k. (None, k))\<rparr>"

definition scheduled_nfd :: netFD where
  "scheduled_nfd = \<lparr>nf_desc = Some 1, nf_sock = False, nf_laddr = UnixAddr ''l'', nf_raddr = None, nf_network = ''tcp'',
     nf_fd = 9, nf_fdtype = fdTCP, nf_closed = False, nf_udpBufferSize = 0, nf_exactUDPBufferSizeEnabled = False\<rparr>"


end
