(* ===== verification/Udp_Memory.thy ===== *)
theory Udp_Memory
  imports Link_Buffer "HOL-Library.Multiset"
begin

text \<open>
  Memory of the UDP path at the level of references, and a model of \<open>internal/cache/systype\<close>.

  Packets are handed around as slices of shared arrays: to the kernel in message headers, to the input
  buffer, to the reader, and back to the cache of \<open>internal/cache/mcache\<close>. What a reader sees depends on
  who else holds the array, so here the heap is explicit. A slice is an array, an offset and a length; its
  capacity is what the array has from the offset on. The 25 pools of the cache are one list of slices
  tagged with their pool. \<open>sync.Pool.Get\<close> may return any stored item or a new one: the choice is an
  argument.
\<close>

section \<open>Slices and heap\<close>

record sref =
  sr_arr :: nat
  sr_off :: nat
  sr_len :: nat

type_synonym heap = "nat \<Rightarrow> byte list"

definition sr_cap :: "heap \<Rightarrow> sref \<Rightarrow> nat" where
  "sr_cap h r = length (h (sr_arr r)) - sr_off r"

definition sr_get :: "heap \<Rightarrow> sref \<Rightarrow> byte list" where
  "sr_get h r = slice (sr_off r) (sr_off r + sr_len r) (h (sr_arr r))"

text \<open>Writing at most \<open>len\<close> bytes into a slice.\<close>

definition sr_put :: "heap \<Rightarrow> sref \<Rightarrow> byte list \<Rightarrow> heap" where
  "sr_put h r bs = h(sr_arr r := overwrite (sr_off r) (take (sr_len r) bs) (h (sr_arr r)))"

text \<open>\<open>s[lo:hi]\<close> within the length.\<close>

definition sr_sub :: "nat \<Rightarrow> nat \<Rightarrow> sref \<Rightarrow> sref" where
  "sr_sub lo hi r = r\<lparr>sr_off := sr_off r + lo, sr_len := hi - lo\<rparr>"

section \<open>Message headers\<close>

text \<open>\<open>unix.Msghdr\<close> with at most one vector; base pointer and length of the vector are a slice, the name
  pointer is a slice whose length is \<open>Namelen\<close>. The zero header has nil pointers.\<close>

record Msghdr =
  mh_iov :: "sref option"
  mh_iovlen :: nat
  mh_name :: "sref option"
  mh_namelen :: nat

record MMsghdr =
  mm_Hdr :: Msghdr
  mm_Len :: nat

definition zero_Msghdr :: Msghdr where
  "zero_Msghdr = \<lparr>mh_iov = None, mh_iovlen = 0, mh_name = None, mh_namelen = 0\<rparr>"

definition zero_MMsghdr :: MMsghdr where
  "zero_MMsghdr = \<lparr>mm_Hdr = zero_Msghdr, mm_Len = 0\<rparr>"

text \<open>\<open>BuildMsg\<close> takes the addresses of the first bytes: an empty slice is an index panic.\<close>

definition BuildMsg :: "Msghdr \<Rightarrow> sref \<Rightarrow> sref \<Rightarrow> fault + Msghdr" where
  "BuildMsg m name buf =
     (if sr_len buf = 0 \<or> sr_len name = 0 then Inl IndexRange
      else Inr (m\<lparr>mh_iovlen := 1, mh_iov := Some buf, mh_name := Some name, mh_namelen := sr_len name\<rparr>))"

definition BuildMMsg :: "MMsghdr \<Rightarrow> sref \<Rightarrow> sref \<Rightarrow> fault + MMsghdr" where
  "BuildMMsg m name buf =
     (if sr_len buf = 0 \<or> sr_len name = 0 then Inl IndexRange
      else Inr (m\<lparr>mm_Hdr := (mm_Hdr m)\<lparr>mh_iovlen := 1, mh_iov := Some buf, mh_name := Some name,
                 mh_namelen := sr_len name\<rparr>\<rparr>))"

section \<open>Pools\<close>

definition pool_take :: "nat option \<Rightarrow> ('a \<Rightarrow> bool) \<Rightarrow> 'a list \<Rightarrow> ('a option) \<times> 'a list" where
  "pool_take pick fits pool =
     (case pick of
        None \<Rightarrow> (None, pool)
      | Some j \<Rightarrow> if j < length pool \<and> fits (pool ! j) then (Some (pool ! j), take j pool @ drop (Suc j) pool)
                  else (None, pool))"

record umem =
  u_heap :: heap
  u_next :: nat
  u_caches :: "(nat \<times> sref) list"
  u_msghdrs :: "Msghdr list"
  u_mmsghdrs :: "MMsghdr list list"

definition GetMsghdr :: "nat option \<Rightarrow> umem \<Rightarrow> Msghdr \<times> umem" where
  "GetMsghdr pick m =
     (case pool_take pick (\<lambda>_. True) (u_msghdrs m) of
        (None, _) \<Rightarrow> (zero_Msghdr, m)
      | (Some x, pool) \<Rightarrow> (x, m\<lparr>u_msghdrs := pool\<rparr>))"

definition PutMsghdr :: "Msghdr \<Rightarrow> umem \<Rightarrow> umem" where
  "PutMsghdr x m = m\<lparr>u_msghdrs := u_msghdrs m @ [x]\<rparr>"

text \<open>An element of the pool of header vectors is its backing array of \<open>MaxLen\<close> headers, of
  which the caller uses the first \<open>sz\<close>.\<close>

definition GetMMsghdrs :: "nat option \<Rightarrow> nat \<Rightarrow> umem \<Rightarrow> MMsghdr list \<times> umem" where
  "GetMMsghdrs pick sz m =
     (if sz > MaxLen then (replicate sz zero_MMsghdr, m)
      else case pool_take pick (\<lambda>_. True) (u_mmsghdrs m) of
        (None, _) \<Rightarrow> (replicate MaxLen zero_MMsghdr, m)
      | (Some xs, pool) \<Rightarrow> (xs, m\<lparr>u_mmsghdrs := pool\<rparr>))"

definition PutMMsghdrs :: "MMsghdr list \<Rightarrow> umem \<Rightarrow> umem" where
  "PutMMsghdrs xs m = (if length xs \<noteq> MaxLen then m else m\<lparr>u_mmsghdrs := u_mmsghdrs m @ [xs]\<rparr>)"

text \<open>A new array.\<close>

definition new_array :: "nat \<Rightarrow> umem \<Rightarrow> sref \<times> umem" where
  "new_array n m =
     (\<lparr>sr_arr = u_next m, sr_off = 0, sr_len = 0\<rparr>,
      m\<lparr>u_heap := (u_heap m)(u_next m := replicate n 0), u_next := u_next m + 1\<rparr>)"

definition ref_Malloc :: "nat option \<Rightarrow> nat \<Rightarrow> umem \<Rightarrow> (fault + sref) \<times> umem" where
  "ref_Malloc pick n m =
     (let idx = CalIndex (int n) in
      if idx \<ge> int maxSize then
        case new_array n m of (r, m) \<Rightarrow> (Inr (r\<lparr>sr_len := n\<rparr>), m)
      else
        case (case pool_take pick (\<lambda>x. fst x = nat idx) (u_caches m) of
                (None, _) \<Rightarrow> new_array (2 ^ nat idx) m
              | (Some x, pool) \<Rightarrow> (snd x, m\<lparr>u_caches := pool\<rparr>)) of
          (r, m) \<Rightarrow> if n \<le> sr_cap (u_heap m) r then (Inr (r\<lparr>sr_len := n\<rparr>), m) else (Inl SliceBounds, m))"

definition ref_Free :: "sref \<Rightarrow> umem \<Rightarrow> umem" where
  "ref_Free r m =
     (let c = int (sr_cap (u_heap m) r) in
      if \<not> isPowerOfTwo c then m
      else
        let idx = CalIndex c in
        if idx \<ge> int maxSize then m
        else m\<lparr>u_caches := u_caches m @ [(nat idx, r\<lparr>sr_len := 0\<rparr>)]\<rparr>)"

section \<open>Ownership\<close>

text \<open>Every array is either in a pool or held by one of the blocks in \<open>live\<close>, never both and never twice;
  a pooled slice is a whole array of the size of its pool.\<close>

definition pool_arrs :: "umem \<Rightarrow> nat list" where
  "pool_arrs m = map (\<lambda>(i, r). sr_arr r) (u_caches m)"

definition pool_fits :: "heap \<Rightarrow> (nat \<times> sref) list \<Rightarrow> bool" where
  "pool_fits h cs = list_all (\<lambda>(i, r). i > 0 \<longrightarrow> sr_off r = 0 \<and> length (h (sr_arr r)) = 2 ^ i) cs"

definition live_fits :: "heap \<Rightarrow> sref list \<Rightarrow> bool" where
  "live_fits h live = list_all (\<lambda>r. sr_off r = 0 \<and> sr_len r \<le> length (h (sr_arr r))) live"

definition mem_ok :: "umem \<Rightarrow> sref list \<Rightarrow> bool" where
  "mem_ok m live \<longleftrightarrow>
     distinct (pool_arrs m @ map sr_arr live) \<and>
     list_all (\<lambda>a. a < u_next m) (pool_arrs m @ map sr_arr live) \<and>
     pool_fits (u_heap m) (u_caches m) \<and> live_fits (u_heap m) live"

definition empty_mem :: umem where
  "empty_mem = \<lparr>u_heap = (\<lambda>_. []), u_next = 0, u_caches = [], u_msghdrs = [], u_mmsghdrs = []\<rparr>"

lemma mem_ok_empty [simp]: "mem_ok empty_mem []"
  by (simp add: mem_ok_def empty_mem_def pool_arrs_def pool_fits_def live_fits_def)

lemma pool_take_cases:
  assumes "pool_take pick fits pool = (x, pool')"
  shows "x = None \<and> pool' = pool \<or>
    (\<exists>y. x = Some y \<and> fits y \<and> (\<exists>ys zs. pool = ys @ y # zs \<and> pool' = ys @ zs))"
proof (cases "\<exists>j. pick = Some j \<and> j < length pool \<and> fits (pool ! j)")
  case True
  then obtain j where "pick = Some j" "j < length pool" "fits (pool ! j)" by blast
  with assms have "x = Some (pool ! j)" "pool' = take j pool @ drop (Suc j) pool"
    by (auto simp: pool_take_def)
  with id_take_nth_drop [OF \<open>j < length pool\<close>] \<open>fits (pool ! j)\<close> show ?thesis by blast
next
  case False
  with assms show ?thesis by (auto simp: pool_take_def split: option.splits if_splits)
qed

text \<open>What \<open>Malloc\<close> gives: an array nobody else holds, and no other block changes.\<close>

definition fresh_block :: "umem \<Rightarrow> sref list \<Rightarrow> nat \<Rightarrow> sref \<Rightarrow> umem \<Rightarrow> bool" where
  "fresh_block m live n r m' \<longleftrightarrow>
     sr_off r = 0 \<and> sr_len r = n \<and> sr_arr r \<notin> sr_arr ` set live \<and> mem_ok m' (r # live) \<and>
     sr_cap (u_heap m') r < 2 ^ 63 \<and>
     (\<forall>x \<in> set live. u_heap m' (sr_arr x) = u_heap m (sr_arr x)) \<and>
     u_msghdrs m' = u_msghdrs m \<and> u_mmsghdrs m' = u_mmsghdrs m"

lemma pool_fits_frame [simp]: "a \<notin> set (pool_arrs m) \<Longrightarrow> pool_fits (h(a := v)) (u_caches m) = pool_fits h (u_caches m)"
  unfolding pool_fits_def by (rule list.pred_cong) (auto simp: pool_arrs_def)

lemma live_fits_frame [simp]: "a \<notin> sr_arr ` set live \<Longrightarrow> live_fits (h(a := v)) live = live_fits h live"
  unfolding live_fits_def by (rule list.pred_cong) auto

lemma live_fits_Cons [simp]:
  "live_fits h (r # live) \<longleftrightarrow> sr_off r = 0 \<and> sr_len r \<le> length (h (sr_arr r)) \<and> live_fits h live"
  by (simp add: live_fits_def)

lemma pool_fits_append [simp]: "pool_fits h (xs @ ys) \<longleftrightarrow> pool_fits h xs \<and> pool_fits h ys"
  by (simp add: pool_fits_def)

lemma pool_fits_Cons [simp]:
  "pool_fits h ((i, r) # cs) \<longleftrightarrow> (i > 0 \<longrightarrow> sr_off r = 0 \<and> length (h (sr_arr r)) = 2 ^ i) \<and> pool_fits h cs"
  by (simp add: pool_fits_def)

lemma fits_Nil [simp]: "pool_fits h []" "live_fits h []"
  by (simp_all add: pool_fits_def live_fits_def)

lemma new_array_ok:
  assumes ok: "mem_ok m live" and "n \<le> c" "c < 2 ^ 63" and new: "new_array c m = (r, m')"
  shows "fresh_block m live n (r\<lparr>sr_len := n\<rparr>) m'" "sr_cap (u_heap m') r = c"
proof -
  have eq: "r = \<lparr>sr_arr = u_next m, sr_off = 0, sr_len = 0\<rparr>"
    "m' = m\<lparr>u_heap := (u_heap m)(u_next m := replicate c 0), u_next := u_next m + 1\<rparr>"
    using new by (simp_all add: new_array_def)
  have ne: "u_next m \<notin> set (pool_arrs m)" "u_next m \<notin> set (map sr_arr live)"
    using ok by (auto simp: mem_ok_def list_all_iff)
  have pa: "pool_arrs m' = pool_arrs m" by (simp add: eq pool_arrs_def)
  have lt: "list_all (\<lambda>a. a < u_next m + 1) (pool_arrs m @ map sr_arr live)"
    using ok unfolding mem_ok_def by (auto elim: list.pred_mono_strong)
  have "mem_ok m' (r\<lparr>sr_len := n\<rparr> # live)"
    using ok ne lt assms(2) unfolding mem_ok_def pa
    by (simp add: eq)
  then show "fresh_block m live n (r\<lparr>sr_len := n\<rparr>) m'"
    using ne(2) assms(3) unfolding fresh_block_def by (force simp: eq sr_cap_def)
  show "sr_cap (u_heap m') r = c" by (simp add: eq sr_cap_def)
qed

lemma pooled_ok:
  assumes ok: "mem_ok m live" and u: "u_caches m = ys @ (i, r) # zs" and "0 < i" and "n \<le> 2 ^ i" "(2 :: nat) ^ i < 2 ^ 63"
  shows "fresh_block m live n (r\<lparr>sr_len := n\<rparr>) (m\<lparr>u_caches := ys @ zs\<rparr>)" "sr_cap (u_heap m) r = 2 ^ i"
proof -
  have r: "sr_off r = 0" "length (u_heap m (sr_arr r)) = 2 ^ i"
    using ok u \<open>0 < i\<close> by (auto simp: mem_ok_def)
  show "sr_cap (u_heap m) r = 2 ^ i" using r by (simp add: sr_cap_def)
  have "mem_ok (m\<lparr>u_caches := ys @ zs\<rparr>) (r\<lparr>sr_len := n\<rparr> # live)"
    using ok u r assms(4) by (auto simp: mem_ok_def pool_arrs_def)
  moreover have "sr_arr r \<notin> sr_arr ` set live" using ok u by (auto simp: mem_ok_def pool_arrs_def)
  ultimately show "fresh_block m live n (r\<lparr>sr_len := n\<rparr>) (m\<lparr>u_caches := ys @ zs\<rparr>)"
    using r assms(5) unfolding fresh_block_def by (simp add: sr_cap_def)
qed

lemma ref_Malloc_ok:
  assumes ok: "mem_ok m live" and n: "0 < n" "n < 2 ^ 63"
  shows "\<exists>r m'. ref_Malloc pick n m = (Inr r, m') \<and> fresh_block m live n r m'"
proof -
  note c = CalIndex_cover [OF n(2)]
  have pos: "0 < nat (CalIndex (int n))" using c(4) n(1) by simp
  show ?thesis
  proof (cases "CalIndex (int n) \<ge> int maxSize")
    case True
    obtain r m' where a: "new_array n m = (r, m')" by fastforce
    with True new_array_ok [OF ok order.refl n(2) a] show ?thesis by (simp add: ref_Malloc_def)
  next
    case False
    then have "nat (CalIndex (int n)) < 63" by (simp add: maxSize_def)
    then have small: "(2 :: nat) ^ nat (CalIndex (int n)) < 2 ^ 63" by (simp only: power_strict_increasing_iff)
    obtain x pool where t: "pool_take pick (\<lambda>x. fst x = nat (CalIndex (int n))) (u_caches m) = (x, pool)"
      by fastforce
    from pool_take_cases [OF t] show ?thesis
    proof
      assume "x = None \<and> pool = u_caches m"
      moreover obtain r m' where a: "new_array (2 ^ nat (CalIndex (int n))) m = (r, m')" by fastforce
      ultimately show ?thesis
        using False t c(2) new_array_ok [OF ok c(2) small a] by (simp add: ref_Malloc_def)
    next
      assume "\<exists>y. x = Some y \<and> fst y = nat (CalIndex (int n)) \<and> (\<exists>ys zs. u_caches m = ys @ y # zs \<and> pool = ys @ zs)"
      then obtain r ys zs where x: "x = Some (nat (CalIndex (int n)), r)"
        and u: "u_caches m = ys @ (nat (CalIndex (int n)), r) # zs" and p: "pool = ys @ zs" by auto
      from pooled_ok [OF ok u pos c(2) small] False t x p c(2) show ?thesis by (simp add: ref_Malloc_def)
    qed
  qed
qed

lemma ref_Free_ok:
  assumes "mem_ok m (r # live)" and "sr_cap (u_heap m) r \<noteq> 1" and "sr_cap (u_heap m) r < 2 ^ 63"
  shows "mem_ok (ref_Free r m) live" "u_heap (ref_Free r m) = u_heap m"
proof -
  show "u_heap (ref_Free r m) = u_heap m" by (simp add: ref_Free_def Let_def)
  show "mem_ok (ref_Free r m) live"
  proof (cases "isPowerOfTwo (int (sr_cap (u_heap m) r)) \<and> 0 < sr_cap (u_heap m) r")
    case True
    define k where "k = bits_len (sr_cap (u_heap m) r) - 1"
    from True have e: "sr_cap (u_heap m) r = 2 ^ k"
      using isPowerOfTwo_imp_power by (simp add: k_def)
    with assms(2) have "0 < k" by (cases k) auto
    moreover from e assms(3) have "(2::nat) ^ k < 2 ^ 63" by simp
    then have "k < 63" by (simp only: power_strict_increasing_iff)
    ultimately have "CalIndex (int (sr_cap (u_heap m) r)) = int k" using e CalIndex_power by simp
    with assms(1) e show ?thesis by (auto simp: ref_Free_def mem_ok_def pool_arrs_def sr_cap_def Let_def)
  next
    case False
    with assms(1) show ?thesis by (auto simp: ref_Free_def mem_ok_def pool_arrs_def Let_def CalIndex_def)
  qed
qed

text \<open>The invariant only looks at the lengths of arrays, and not at the order of the live blocks.\<close>

lemma mem_ok_lengths:
  assumes "\<And>a. length (h a) = length (u_heap m a)"
  shows "mem_ok (m\<lparr>u_heap := h\<rparr>) live = mem_ok m live"
  using assms by (simp add: mem_ok_def pool_arrs_def pool_fits_def live_fits_def)

lemma mem_ok_perm: "mset live = mset live' \<Longrightarrow> mem_ok m live = mem_ok m live'"
proof -
  assume p: "mset live = mset live'"
  then have s: "set live = set live'" by (rule mset_eq_setD)
  have "mset (map sr_arr live) = mset (map sr_arr live')" using p by simp
  then have d: "distinct (map sr_arr live) = distinct (map sr_arr live')"
    by (rule mset_eq_imp_distinct_iff)
  show ?thesis unfolding mem_ok_def live_fits_def using s d by (simp add: list_all_iff)
qed

lemma mem_ok_pools [simp]:
  "mem_ok (m\<lparr>u_msghdrs := xs\<rparr>) live = mem_ok m live" "mem_ok (m\<lparr>u_mmsghdrs := ys\<rparr>) live = mem_ok m live"
  by (simp_all add: mem_ok_def pool_arrs_def)

lemma mem_ok_cut: "mem_ok m (r # live) \<Longrightarrow> l \<le> length (u_heap m (sr_arr r)) \<Longrightarrow> mem_ok m (r\<lparr>sr_len := l\<rparr> # live)"
  by (simp add: mem_ok_def)

lemma mem_ok_drop: "mem_ok m (xs @ ys) \<Longrightarrow> mem_ok m ys"
  by (auto simp: mem_ok_def live_fits_def)

lemma length_sr_put:
  "sr_off r \<le> length (h (sr_arr r)) \<Longrightarrow> length (sr_put h r bs a) = length (h a)"
  by (simp add: sr_put_def)

lemma sr_put_other [simp]: "a \<noteq> sr_arr r \<Longrightarrow> sr_put h r bs a = h a"
  by (simp add: sr_put_def)

lemma sr_get_cong: "h (sr_arr r) = h' (sr_arr r) \<Longrightarrow> sr_get h r = sr_get h' r"
  by (simp add: sr_get_def)

end
