(* ===== verification/Netfd_Udp.thy ===== *)
theory Netfd_Udp
  imports Netfd Udp_Memory
begin

text \<open>
  Model of \<open>netfd_linux.go\<close>: receiving and sending batches of UDP packets. A packet is a block: 28 bytes
  of socket address, then the payload. The input and output buffers appear as the list of their blocks,
  references into the heap; that appending blocks and reading them back keeps them whole and in order is
  the contract of the linked buffer (\<open>Buffer_Queue\<close>). The system calls are the fields of \<open>'k usys\<close>; they
  read and write the heap through message headers.
\<close>

section \<open>System calls\<close>

record 'k usys =
  s_recvmsg :: "int \<Rightarrow> Msghdr \<Rightarrow> bool \<Rightarrow> 'k \<times> heap \<Rightarrow> (err + nat) \<times> Msghdr \<times> 'k \<times> heap"
  s_recvmmsg :: "int \<Rightarrow> MMsghdr list \<Rightarrow> 'k \<times> heap \<Rightarrow> (err + nat) \<times> MMsghdr list \<times> 'k \<times> heap"
  s_sendmmsg :: "int \<Rightarrow> MMsghdr list \<Rightarrow> heap \<Rightarrow> 'k \<Rightarrow> int \<times> err option \<times> 'k"

section \<open>Building headers\<close>

fun buildMMsgs_loop :: "MMsghdr list \<Rightarrow> sref list \<Rightarrow> err option \<times> MMsghdr list" where
  "buildMMsgs_loop (x # xs) (b # bs) =
     (if sr_len b < SockaddrSize then (Some (ErrText ''invalid buffer size''), x # xs)
      else case BuildMMsg x (sr_sub 0 SockaddrSize b) (sr_sub SockaddrSize (sr_len b) b) of
        Inl f \<Rightarrow> (Some (Fault f), x # xs)
      | Inr x \<Rightarrow> (case buildMMsgs_loop xs bs of (e, xs) \<Rightarrow> (e, x # xs)))"
| "buildMMsgs_loop xs bs = (None, xs)"

definition buildMMsgs :: "MMsghdr list \<Rightarrow> sref list \<Rightarrow> err option \<times> MMsghdr list" where
  "buildMMsgs mmsgs bufs =
     (if length mmsgs \<noteq> length bufs then
        (Some (ErrText ''buffers length is not equal to MMsghdrs length''), mmsgs)
      else buildMMsgs_loop mmsgs bufs)"

definition buildMsg :: "Msghdr \<Rightarrow> sref \<Rightarrow> err option \<times> Msghdr" where
  "buildMsg msg buf =
     (if sr_len buf < SockaddrSize then (Some (ErrText ''invalid buffer size''), msg)
      else case BuildMsg msg (sr_sub 0 SockaddrSize buf) (sr_sub SockaddrSize (sr_len buf) buf) of
        Inl f \<Rightarrow> (Some (Fault f), msg)
      | Inr msg \<Rightarrow> (None, msg))"

text \<open>The callers ignore an error of building headers, but not a panic.\<close>

definition panics :: "err option \<Rightarrow> bool" where
  "panics e \<longleftrightarrow> (case e of Some (Fault _) \<Rightarrow> True | _ \<Rightarrow> False)"

section \<open>Receiving\<close>

fun malloc_bufs :: "(nat \<Rightarrow> nat option) \<Rightarrow> nat \<Rightarrow> nat \<Rightarrow> umem \<Rightarrow> (fault + sref list) \<times> umem" where
  "malloc_bufs pks n 0 m = (Inr [], m)"
| "malloc_bufs pks n (Suc c) m =
     (case ref_Malloc (pks c) n m of
        (Inl f, m) \<Rightarrow> (Inl f, m)
      | (Inr r, m) \<Rightarrow>
          (case malloc_bufs pks n c m of
             (Inl f, m) \<Rightarrow> (Inl f, m)
           | (Inr rs, m) \<Rightarrow> (Inr (r # rs), m)))"

definition FillToBuffer_batch :: "'k usys \<Rightarrow> nat option \<Rightarrow> (nat \<Rightarrow> nat option) \<Rightarrow> netFD \<Rightarrow> sref list \<Rightarrow> umem \<times> 'k \<Rightarrow>
    err option \<times> sref list \<times> (int \<times> u64) list \<times> umem \<times> 'k" where
  "FillToBuffer_batch U pick pks nfd b st =
     (case st of (m, k) \<Rightarrow>
        let (backing, m) = GetMMsghdrs pick udpPacketNum m;
            n = nat (nf_udpBufferSize nfd + int SockaddrSize)
        in case malloc_bufs pks n udpPacketNum m of
             (Inl f, m) \<Rightarrow> (Some (Fault f), b, [], PutMMsghdrs backing m, k)
           | (Inr bufs, m) \<Rightarrow>
               (case buildMMsgs (take udpPacketNum backing) bufs of
                  (e, mmsgs) \<Rightarrow>
                    let put = (\<lambda>mm. PutMMsghdrs (mm @ drop udpPacketNum backing)) in
                    if panics e then (e, b, [], put mmsgs m, k)
                    else case s_recvmmsg U (nf_fd nfd) mmsgs (k, u_heap m) of
                      (Inl e, mmsgs, k, h) \<Rightarrow>
                        (Some e, b, [(UDPRecvMMsgCalls, 1), (UDPRecvMMsgFails, 1)], put mmsgs (m\<lparr>u_heap := h\<rparr>), k)
                    | (Inr r, mmsgs, k, h) \<Rightarrow>
                        let got = map (\<lambda>(x, buf). buf\<lparr>sr_len := SockaddrSize + mm_Len x\<rparr>) (zip (take r mmsgs) bufs);
                            m = fold ref_Free (drop r bufs) (m\<lparr>u_heap := h\<rparr>)
                        in (None, b @ got, [(UDPRecvMMsgCalls, 1), (UDPRecvMMsgPackets, of_nat r)], put mmsgs m, k)))"

definition fillToExactBuffer :: "'k usys \<Rightarrow> nat option \<Rightarrow> nat option \<Rightarrow> netFD \<Rightarrow> sref list \<Rightarrow> umem \<times> 'k \<Rightarrow>
    err option \<times> sref list \<times> (int \<times> u64) list \<times> umem \<times> 'k" where
  "fillToExactBuffer U pick pick' nfd b st =
     (case st of (m, k) \<Rightarrow>
        case GetMsghdr pick m of (msg, m) \<Rightarrow>
          (case s_recvmsg U (nf_fd nfd) msg True (k, u_heap m) of
             (Inl e, msg, k, h) \<Rightarrow>
               (Some e, b, [(UDPRecvMsgCalls, 1), (UDPRecvMsgFails, 1)], PutMsghdr msg (m\<lparr>u_heap := h\<rparr>), k)
           | (Inr sz, msg, k, h) \<Rightarrow>
               (case ref_Malloc pick' (sz + SockaddrSize) (m\<lparr>u_heap := h\<rparr>) of
                  (Inl f, m) \<Rightarrow> (Some (Fault f), b, [(UDPRecvMsgCalls, 1)], PutMsghdr msg m, k)
                | (Inr buf, m) \<Rightarrow>
                    (case buildMsg msg buf of
                       (e, msg) \<Rightarrow>
                         if panics e then (e, b, [(UDPRecvMsgCalls, 1)], PutMsghdr msg m, k)
                         else case s_recvmsg U (nf_fd nfd) msg False (k, u_heap m) of
                           (Inl e, msg, k, h) \<Rightarrow>
                             (Some e, b, [(UDPRecvMsgCalls, 1), (UDPRecvMsgFails, 1)], PutMsghdr msg (m\<lparr>u_heap := h\<rparr>), k)
                         | (Inr _, msg, k, h) \<Rightarrow>
                             (None, b @ [buf\<lparr>sr_len := SockaddrSize + sz\<rparr>],
                              [(UDPRecvMsgCalls, 1), (UDPRecvMsgPackets, 1)], PutMsghdr msg (m\<lparr>u_heap := h\<rparr>), k)))))"

definition FillToBuffer :: "'k usys \<Rightarrow> nat option \<Rightarrow> (nat \<Rightarrow> nat option) \<Rightarrow> netFD \<Rightarrow> sref list \<Rightarrow> umem \<times> 'k \<Rightarrow>
    err option \<times> sref list \<times> (int \<times> u64) list \<times> umem \<times> 'k" where
  "FillToBuffer U pick pks nfd b st =
     (if nf_exactUDPBufferSizeEnabled nfd then fillToExactBuffer U pick (pks 0) nfd b st
      else FillToBuffer_batch U pick pks nfd b st)"

section \<open>Sending\<close>

text \<open>The blocks of the output buffer in order. \<open>SkipBlocks n\<close> fails, without effect, when the buffer is empty
  or has fewer than \<open>n\<close> blocks.\<close>

definition blocks_skip :: "nat \<Rightarrow> sref list \<Rightarrow> err option \<times> sref list" where
  "blocks_skip n b = (if b = [] \<or> length b < n then (Some ErrNoEnoughData, b) else (None, drop n b))"

definition sendMMsg :: "'k usys \<Rightarrow> nat option \<Rightarrow> netFD \<Rightarrow> sref list \<Rightarrow> umem \<times> 'k \<Rightarrow>
    err option \<times> sref list \<times> (int \<times> u64) list \<times> umem \<times> 'k" where
  "sendMMsg U pick nfd b st =
     (case st of (m, k) \<Rightarrow>
        let (backing, m) = GetMMsghdrs pick udpPacketNum m;
            bufs = take udpPacketNum b; l = length bufs
        in if l = 0 then (None, b, [], PutMMsghdrs backing m, k)
           else case buildMMsgs (take l backing) bufs of
             (e, mmsgs) \<Rightarrow>
               let m = PutMMsghdrs (mmsgs @ drop l backing) m in
               if panics e then (e, b, [], m, k)
               else case s_sendmmsg U (nf_fd nfd) mmsgs (u_heap m) k of
                 (n, e, k) \<Rightarrow>
                   let adds = (UDPSendMMsgCalls, 1) # (if n > 0 then [(UDPSendMMsgPackets, of_int n)] else []) in
                   (case (if n > 0 then blocks_skip (nat n) b else (None, b)) of
                      (Some skipErr, b) \<Rightarrow> (Some skipErr, b, adds, m, k)
                    | (None, b) \<Rightarrow>
                        (case e of
                           None \<Rightarrow> (None, b, adds, m, k)
                         | Some e \<Rightarrow>
                             let adds = adds @ [(UDPSendMMsgFails, 1)] in
                             if e = EAGAIN then (Some e, b, adds, m, k)
                             else if b \<noteq> [] then
                               (case blocks_skip 1 b of (e', b) \<Rightarrow> (e', b, adds, m, k))
                             else (None, b, adds, m, k))))"

section \<open>What the system calls do\<close>

text \<open>How the kernel stores a datagram, a source address and a payload, through a header: as much of the
  address as fits the name buffer, as much of the payload as fits the vector.\<close>

definition deliver :: "Msghdr \<Rightarrow> byte list \<times> byte list \<Rightarrow> heap \<Rightarrow> heap" where
  "deliver hdr pkt h =
     (let h = (case mh_name hdr of None \<Rightarrow> h | Some r \<Rightarrow> sr_put h (r\<lparr>sr_len := mh_namelen hdr\<rparr>) (fst pkt)) in
      case mh_iov hdr of
        None \<Rightarrow> h
      | Some r \<Rightarrow> if mh_iovlen hdr = 0 then h else sr_put h r (snd pkt))"

text \<open>The documented behaviour of \<open>recvmsg\<close> on a socket whose next datagram is \<open>pkt\<close>: with
  \<open>MSG_PEEK | MSG_TRUNC\<close> it stores the datagram, returns its full length and leaves it in the socket;
  without flags it stores it and takes it off. The length of the name is set to that of the address.\<close>

definition next_datagram :: "'k usys \<Rightarrow> int \<Rightarrow> 'k \<Rightarrow> byte list \<times> byte list \<Rightarrow> 'k \<Rightarrow> bool" where
  "next_datagram U fd k pkt k' \<longleftrightarrow>
     (\<forall>hdr h. \<exists>nl. (mh_name hdr \<noteq> None \<longrightarrow> nl = length (fst pkt)) \<and>
        s_recvmsg U fd hdr True (k, h) =
          (Inr (length (snd pkt)), hdr\<lparr>mh_namelen := nl\<rparr>, k, deliver hdr pkt h)) \<and>
     (\<forall>hdr h. \<exists>nl n. (mh_name hdr \<noteq> None \<longrightarrow> nl = length (fst pkt)) \<and>
        s_recvmsg U fd hdr False (k, h) = (Inr n, hdr\<lparr>mh_namelen := nl\<rparr>, k', deliver hdr pkt h))"

text \<open>And of \<open>recvmmsg\<close> on a socket that holds the datagrams \<open>pkts\<close>, no more than there are headers.\<close>

definition iov_room :: "MMsghdr \<Rightarrow> nat" where
  "iov_room x = (case mh_iov (mm_Hdr x) of None \<Rightarrow> 0 | Some r \<Rightarrow> sr_len r)"

definition deliver_all :: "MMsghdr list \<Rightarrow> (byte list \<times> byte list) list \<Rightarrow> heap \<Rightarrow> heap" where
  "deliver_all xs pkts h = fold (\<lambda>(x, pkt). deliver (mm_Hdr x) pkt) (zip xs pkts) h"

definition next_datagrams :: "'k usys \<Rightarrow> int \<Rightarrow> 'k \<Rightarrow> (byte list \<times> byte list) list \<Rightarrow> 'k \<Rightarrow> bool" where
  "next_datagrams U fd k pkts k' \<longleftrightarrow>
     (\<forall>xs h. length pkts \<le> length xs \<longrightarrow>
        (\<exists>xs'. s_recvmmsg U fd xs (k, h) = (Inr (length pkts), xs', k', deliver_all xs pkts h) \<and>
           length xs' = length xs \<and>
           (\<forall>i < length pkts. mm_Len (xs' ! i) = min (length (snd (pkts ! i))) (iov_room (xs ! i)))))"

text \<open>The header that building makes for a block, and what delivering through it does.\<close>

definition block_hdr :: "Msghdr \<Rightarrow> sref \<Rightarrow> Msghdr" where
  "block_hdr hdr b = hdr\<lparr>mh_iovlen := 1, mh_iov := Some (sr_sub SockaddrSize (sr_len b) b),
     mh_name := Some (sr_sub 0 SockaddrSize b), mh_namelen := SockaddrSize\<rparr>"

definition packet_bytes :: "nat \<Rightarrow> byte list \<times> byte list \<Rightarrow> byte list \<Rightarrow> byte list" where
  "packet_bytes l pkt old =
     overwrite SockaddrSize (take (l - SockaddrSize) (snd pkt)) (overwrite 0 (take SockaddrSize (fst pkt)) old)"

lemma deliver_block:
  assumes "sr_off b = 0"
  shows "deliver (block_hdr hdr b) pkt h = h(sr_arr b := packet_bytes (sr_len b) pkt (h (sr_arr b)))"
  using assms by (simp add: deliver_def block_hdr_def sr_sub_def sr_put_def packet_bytes_def)

lemma buildMMsgs_loop_ok:
  assumes "length xs = length bs" and "list_all (\<lambda>b. SockaddrSize < sr_len b) bs"
  shows "buildMMsgs_loop xs bs = (None, map2 (\<lambda>x b. x\<lparr>mm_Hdr := block_hdr (mm_Hdr x) b\<rparr>) xs bs)"
  using assms
  by (induction xs bs rule: list_induct2)
     (simp_all add: BuildMMsg_def block_hdr_def sr_sub_def SockaddrSize_def)

lemma buildMsg_ok:
  "SockaddrSize < sr_len b \<Longrightarrow> buildMsg msg b = (None, block_hdr msg b)"
  by (simp add: buildMsg_def BuildMsg_def block_hdr_def sr_sub_def SockaddrSize_def)

lemma deliver_all_blocks:
  assumes "distinct (map sr_arr bs)" and "list_all (\<lambda>b. sr_off b = 0) bs"
    and "length xs = length bs" and "length pkts \<le> length bs"
  shows "deliver_all (map2 (\<lambda>x b. x\<lparr>mm_Hdr := block_hdr (mm_Hdr x) b\<rparr>) xs bs) pkts h a =
    (case find (\<lambda>(b, pkt). sr_arr b = a) (zip bs pkts) of
       None \<Rightarrow> h a
     | Some (b, pkt) \<Rightarrow> packet_bytes (sr_len b) pkt (h a))"
  using assms(3,1,2,4)
proof (induction xs bs arbitrary: pkts h rule: list_induct2)
  case Nil
  then show ?case by (simp add: deliver_all_def)
next
  case (Cons x xs b bs)
  show ?case
  proof (cases pkts)
    case Nil
    then show ?thesis by (simp add: deliver_all_def)
  next
    case (Cons pkt ps)
    let ?h = "h(sr_arr b := packet_bytes (sr_len b) pkt (h (sr_arr b)))"
    have IH: "deliver_all (map2 (\<lambda>x b. x\<lparr>mm_Hdr := block_hdr (mm_Hdr x) b\<rparr>) xs bs) ps ?h a =
      (case find (\<lambda>(b, pkt). sr_arr b = a) (zip bs ps) of None \<Rightarrow> ?h a
       | Some (b, pkt) \<Rightarrow> packet_bytes (sr_len b) pkt (?h a))"
      by (rule Cons.IH) (use Cons.prems Cons in simp_all)
    have none: "sr_arr b = a \<Longrightarrow> find (\<lambda>(b, pkt). sr_arr b = a) (zip bs ps) = None"
      using Cons.prems(1) by (auto simp: find_None_iff) (metis image_eqI set_zip_leftD)
    show ?thesis
      using Cons.prems(2) Cons IH none
      by (auto simp: deliver_all_def deliver_block split: option.splits)
  qed
qed

section \<open>Receiving a batch\<close>

lemma malloc_bufs_ok:
  assumes "mem_ok m live" and "0 < n" "n < 2 ^ 63"
  shows "\<exists>bufs m'. malloc_bufs pks n c m = (Inr bufs, m') \<and> length bufs = c \<and> mem_ok m' (bufs @ live) \<and>
    list_all (\<lambda>r. sr_off r = 0 \<and> sr_len r = n \<and> sr_cap (u_heap m') r < 2 ^ 63) bufs \<and>
    (\<forall>x \<in> set live. u_heap m' (sr_arr x) = u_heap m (sr_arr x)) \<and>
    u_msghdrs m' = u_msghdrs m \<and> u_mmsghdrs m' = u_mmsghdrs m"
  using assms(1)
proof (induction c arbitrary: m live)
  case 0
  then show ?case by auto
next
  case (Suc c)
  obtain r m1 where r: "ref_Malloc (pks c) n m = (Inr r, m1)" and f: "fresh_block m live n r m1"
    using ref_Malloc_ok [OF Suc.prems assms(2,3)] by blast
  have ok1: "mem_ok m1 (r # live)" using f by (simp add: fresh_block_def)
  obtain bufs m2 where b: "malloc_bufs pks n c m1 = (Inr bufs, m2)" "length bufs = c"
    and ok2: "mem_ok m2 (bufs @ r # live)"
    and all: "list_all (\<lambda>r. sr_off r = 0 \<and> sr_len r = n \<and> sr_cap (u_heap m2) r < 2 ^ 63) bufs"
    and frame: "\<forall>x \<in> set (r # live). u_heap m2 (sr_arr x) = u_heap m1 (sr_arr x)"
    and pools: "u_msghdrs m2 = u_msghdrs m1" "u_mmsghdrs m2 = u_mmsghdrs m1"
    using Suc.IH [OF ok1] by blast
  have "mem_ok m2 ((r # bufs) @ live)" using ok2 mem_ok_perm [of "bufs @ r # live" "(r # bufs) @ live" m2] by simp
  moreover have "sr_cap (u_heap m2) r < 2 ^ 63" using f frame by (auto simp: fresh_block_def sr_cap_def)
  moreover have "\<forall>x \<in> set live. u_heap m2 (sr_arr x) = u_heap m (sr_arr x)"
    using f frame by (simp add: fresh_block_def)
  ultimately show ?case using r b all f pools by (simp add: fresh_block_def)
qed

lemma fold_Free_ok:
  assumes "mem_ok m (bufs @ live)"
    and "list_all (\<lambda>r. sr_cap (u_heap m) r \<noteq> 1 \<and> sr_cap (u_heap m) r < 2 ^ 63) bufs"
  shows "mem_ok (fold ref_Free bufs m) live \<and> u_heap (fold ref_Free bufs m) = u_heap m"
  using assms
proof (induction bufs arbitrary: m)
  case (Cons r bufs)
  note f = ref_Free_ok [of m r "bufs @ live"]
  from Cons.IH [of "ref_Free r m"] Cons.prems f show ?case by simp
qed simp

definition hdr_pool_ok :: "umem \<Rightarrow> bool" where
  "hdr_pool_ok m \<longleftrightarrow> list_all (\<lambda>xs. length xs = MaxLen) (u_mmsghdrs m)"

lemma GetMMsghdrs_ok:
  assumes "hdr_pool_ok m" and "GetMMsghdrs pick udpPacketNum m = (xs, m')"
  shows "length xs = MaxLen \<and> hdr_pool_ok m' \<and> u_heap m' = u_heap m \<and> mem_ok m' live = mem_ok m live"
proof -
  obtain x pool where t: "pool_take pick (\<lambda>_. True) (u_mmsghdrs m) = (x, pool)" by fastforce
  from pool_take_cases [OF t] assms t show ?thesis
    by (auto simp: GetMMsghdrs_def hdr_pool_ok_def udpPacketNum_def MaxLen_def)
qed

lemma length_packet_bytes:
  "SockaddrSize \<le> length old \<Longrightarrow> length (packet_bytes l pkt old) = length old"
  by (simp add: packet_bytes_def)

text \<open>The payload of a block and the bytes of its address.\<close>

definition block_payload :: "heap \<Rightarrow> sref \<Rightarrow> byte list" where
  "block_payload h r = drop SockaddrSize (sr_get h r)"

definition block_addr :: "heap \<Rightarrow> sref \<Rightarrow> byte list" where
  "block_addr h r = take SockaddrSize (sr_get h r)"

lemma packet_bytes_get:
  assumes "h (sr_arr r) = packet_bytes l pkt old" and "sr_off r = 0" and "SockaddrSize < l" and "l \<le> length old"
    and "length (fst pkt) \<le> SockaddrSize" and "sr_len r = SockaddrSize + min (length (snd pkt)) (l - SockaddrSize)"
  shows "block_payload h r = take (l - SockaddrSize) (snd pkt)"
    and "take (length (fst pkt)) (block_addr h r) = fst pkt"
proof -
  have g: "sr_get h r = take (sr_len r) (packet_bytes l pkt old)"
    using assms(1,2) by (simp add: sr_get_def)
  have "packet_bytes l pkt old = take SockaddrSize (overwrite 0 (take SockaddrSize (fst pkt)) old) @
      take (l - SockaddrSize) (snd pkt) @ drop (SockaddrSize + length (take (l - SockaddrSize) (snd pkt)))
        (overwrite 0 (take SockaddrSize (fst pkt)) old)"
    using assms(3,4) unfolding packet_bytes_def by (subst overwrite_def) simp
  moreover have len: "length (take SockaddrSize (overwrite 0 (take SockaddrSize (fst pkt)) old)) = SockaddrSize"
    using assms(3,4) by simp
  ultimately have g2: "sr_get h r = take SockaddrSize (overwrite 0 (take SockaddrSize (fst pkt)) old) @
      take (l - SockaddrSize) (snd pkt)"
    unfolding g using assms(6) by (simp add: min_def)
  then show "block_payload h r = take (l - SockaddrSize) (snd pkt)"
    using len by (simp add: block_payload_def)
  have "overwrite 0 (take SockaddrSize (fst pkt)) old = fst pkt @ drop (length (fst pkt)) old"
    using assms(3,4,5) by (simp add: overwrite_def)
  with g2 len assms(5) show "take (length (fst pkt)) (block_addr h r) = fst pkt"
    by (simp add: block_addr_def)
qed

lemma find_block:
  assumes "distinct (map sr_arr bufs)" and "i < length pkts" and "length pkts \<le> length bufs"
  shows "find (\<lambda>(b, pkt). sr_arr b = sr_arr (bufs ! i)) (zip bufs pkts) = Some (bufs ! i, pkts ! i)"
proof -
  have "\<forall>j < i. sr_arr (bufs ! j) \<noteq> sr_arr (bufs ! i)"
    using assms nth_eq_iff_index_eq [OF assms(1)] by simp
  with assms(2,3) show ?thesis
    by (subst find_Some_iff) (auto intro!: exI [of _ i])
qed

lemma find_no_block:
  "a \<notin> sr_arr ` set bufs \<Longrightarrow> find (\<lambda>(b, pkt). sr_arr b = a) (zip bufs pkts) = None"
  by (auto simp: find_None_iff dest!: set_zip_leftD)

lemma mem_ok_same_arrs:
  "mem_ok m (ys @ live) \<Longrightarrow> map sr_arr xs = map sr_arr ys \<Longrightarrow> live_fits (u_heap m) xs \<Longrightarrow> mem_ok m (xs @ live)"
  by (simp add: mem_ok_def live_fits_def)

text \<open>The heap after the datagrams were stored in a batch of blocks.\<close>

lemma delivered_batch:
  fixes h :: heap
  assumes ok: "mem_ok m (bufs @ live)" and h: "h = u_heap m"
    and all: "list_all (\<lambda>r. sr_off r = 0 \<and> sr_len r = l) bufs" and "SockaddrSize < l"
    and "length xs = length bufs" and n: "length pkts \<le> length bufs"
  defines "h' \<equiv> deliver_all (map2 (\<lambda>x b. x\<lparr>mm_Hdr := block_hdr (mm_Hdr x) b\<rparr>) xs bufs) pkts h"
  shows "\<And>i. i < length pkts \<Longrightarrow> h' (sr_arr (bufs ! i)) = packet_bytes l (pkts ! i) (h (sr_arr (bufs ! i)))"
    and "\<And>r. r \<in> set live \<Longrightarrow> h' (sr_arr r) = h (sr_arr r)"
    and "\<And>a. length (h' a) = length (h a)"
proof -
  have d: "distinct (map sr_arr bufs)" and off: "list_all (\<lambda>b. sr_off b = 0) bufs"
    using ok all by (auto simp: mem_ok_def list_all_iff)
  note del = deliver_all_blocks [OF d off assms(5) n, of h, folded h'_def]
  show "h' (sr_arr (bufs ! i)) = packet_bytes l (pkts ! i) (h (sr_arr (bufs ! i)))" if "i < length pkts" for i
  proof -
    have "sr_len (bufs ! i) = l" using all that n by (simp add: list_all_length)
    then show ?thesis unfolding del find_block [OF d that n] by simp
  qed
  show "h' (sr_arr r) = h (sr_arr r)" if "r \<in> set live" for r
  proof -
    have "sr_arr r \<notin> sr_arr ` set bufs" using ok that by (auto simp: mem_ok_def)
    then show ?thesis unfolding del by (simp add: find_no_block)
  qed
  show "length (h' a) = length (h a)" for a
  proof (cases "find (\<lambda>(b, pkt). sr_arr b = a) (zip bufs pkts)")
    case None
    then show ?thesis unfolding del by simp
  next
    case (Some bp)
    then have "fst bp \<in> set bufs" "sr_arr (fst bp) = a"
      by (auto simp: find_Some_iff in_set_zip dest: nth_mem)
    then have "l \<le> length (h a)"
      using ok all h by (auto simp: mem_ok_def live_fits_def list_all_iff)
    with assms(4) Some show ?thesis unfolding del by (simp add: length_packet_bytes split_def)
  qed
qed

text \<open>What a reader finds in the blocks that a fill appended.\<close>

definition holds_packet :: "heap \<Rightarrow> nat \<Rightarrow> sref \<Rightarrow> byte list \<times> byte list \<Rightarrow> bool" where
  "holds_packet h room r pkt \<longleftrightarrow> SockaddrSize \<le> sr_len r \<and>
     block_payload h r = take room (snd pkt) \<and> take (length (fst pkt)) (block_addr h r) = fst pkt"

lemma holds_packet_cong: "h (sr_arr r) = h' (sr_arr r) \<Longrightarrow> holds_packet h room r pkt = holds_packet h' room r pkt"
  by (simp add: holds_packet_def block_payload_def block_addr_def sr_get_cong [of h r h'])

lemma batch_blocks:
  assumes ok: "mem_ok m (bufs @ live)" and all: "list_all (\<lambda>r. sr_off r = 0 \<and> sr_len r = l) bufs"
    and l: "SockaddrSize < l" and len: "length xs = length bufs" "length pkts \<le> length bufs" "length xs' = length bufs"
    and addr: "list_all (\<lambda>pkt. length (fst pkt) \<le> SockaddrSize) pkts"
    and h': "h' = deliver_all (map2 (\<lambda>x b. x\<lparr>mm_Hdr := block_hdr (mm_Hdr x) b\<rparr>) xs bufs) pkts (u_heap m)"
    and lens: "\<forall>i < length pkts. mm_Len (xs' ! i) = min (length (snd (pkts ! i))) (l - SockaddrSize)"
    and got: "got = map (\<lambda>(x, buf). buf\<lparr>sr_len := SockaddrSize + mm_Len x\<rparr>) (zip (take (length pkts) xs') bufs)"
  shows "list_all2 (holds_packet h' (l - SockaddrSize)) got pkts"
    and "mem_ok (m\<lparr>u_heap := h'\<rparr>) (drop (length pkts) bufs @ got @ live)"
proof -
  note d = delivered_batch [OF ok refl all l len(1,2), folded h']
  let ?n = "length pkts"
  have ng: "length got = ?n" using got len by simp
  have nth: "got ! i = (bufs ! i)\<lparr>sr_len := SockaddrSize + min (length (snd (pkts ! i))) (l - SockaddrSize)\<rparr>" if "i < ?n" for i
    using that got len lens by simp
  have fit: "l \<le> length (u_heap m (sr_arr (bufs ! i)))" "sr_off (bufs ! i) = 0" if "i < ?n" for i
  proof -
    have "bufs ! i \<in> set bufs" using that len(2) by simp
    moreover have "live_fits (u_heap m) bufs" using ok by (simp add: mem_ok_def live_fits_def)
    ultimately show "l \<le> length (u_heap m (sr_arr (bufs ! i)))" "sr_off (bufs ! i) = 0"
      using all by (auto simp: live_fits_def list_all_iff)
  qed
  show "list_all2 (holds_packet h' (l - SockaddrSize)) got pkts"
  proof (rule list_all2_all_nthI [OF ng])
    fix i
    assume "i < length got"
    then have i: "i < ?n" using ng by simp
    have "length (fst (pkts ! i)) \<le> SockaddrSize" using addr i by (simp add: list_all_length)
    with packet_bytes_get [of h' "got ! i" l "pkts ! i" "u_heap m (sr_arr (bufs ! i))"] d(1) [OF i] fit [OF i] l nth [OF i]
    show "holds_packet h' (l - SockaddrSize) (got ! i) (pkts ! i)" by (simp add: holds_packet_def)
  qed
  have "mset (bufs @ live) = mset (take ?n bufs @ drop ?n bufs @ live)"
    by (metis append.assoc append_take_drop_id)
  with ok have "mem_ok m (take ?n bufs @ drop ?n bufs @ live)" using mem_ok_perm by blast
  moreover have "map sr_arr got = map sr_arr (take ?n bufs)"
    using nth ng len by (intro nth_equalityI) simp_all
  moreover have "live_fits (u_heap m) got"
  proof -
    have "sr_off (got ! i) = 0 \<and> sr_len (got ! i) \<le> length (u_heap m (sr_arr (got ! i)))" if "i < ?n" for i
      using nth [OF that] fit [OF that] l by auto
    then show ?thesis using ng by (simp add: live_fits_def list_all_length)
  qed
  ultimately have "mem_ok m (got @ drop ?n bufs @ live)" by (rule mem_ok_same_arrs)
  then have "mem_ok m (drop ?n bufs @ got @ live)"
    using mem_ok_perm [of "got @ drop ?n bufs @ live" "drop ?n bufs @ got @ live" m] by simp
  then show "mem_ok (m\<lparr>u_heap := h'\<rparr>) (drop ?n bufs @ got @ live)"
    using mem_ok_lengths [OF d(3)] by blast
qed

lemma fill_batch_ok:
  assumes ok: "mem_ok m b" "hdr_pool_ok m" and sz: "0 < nf_udpBufferSize nfd" "nf_udpBufferSize nfd < 2 ^ 32"
    and k: "next_datagrams U (nf_fd nfd) k pkts k'" and n: "length pkts \<le> udpPacketNum"
    and addr: "list_all (\<lambda>pkt. length (fst pkt) \<le> SockaddrSize) pkts"
  shows "\<exists>got adds m' hdrs m0 bufs m1. FillToBuffer_batch U pick pks nfd b (m, k) = (None, b @ got, adds, m', k') \<and>
    list_all2 (holds_packet (u_heap m') (nat (nf_udpBufferSize nfd))) got pkts \<and>
    (\<forall>r \<in> set b. sr_get (u_heap m') r = sr_get (u_heap m) r) \<and> mem_ok m' (b @ got) \<and>
    GetMMsghdrs pick udpPacketNum m = (hdrs, m0) \<and>
    malloc_bufs pks (nat (nf_udpBufferSize nfd + int SockaddrSize)) udpPacketNum m0 = (Inr bufs, m1) \<and>
    map sr_arr got = map sr_arr (take (length pkts) bufs)"
proof -
  let ?l = "nat (nf_udpBufferSize nfd + int SockaddrSize)"
  have l: "SockaddrSize < ?l" "0 < ?l" "?l < 2 ^ 63" "?l - SockaddrSize = nat (nf_udpBufferSize nfd)"
    using sz by (auto simp: SockaddrSize_def)
  obtain backing m0 where g: "GetMMsghdrs pick udpPacketNum m = (backing, m0)" by fastforce
  note g' = GetMMsghdrs_ok [OF ok(2) g]
  obtain bufs m1 where b: "malloc_bufs pks ?l udpPacketNum m0 = (Inr bufs, m1)" "length bufs = udpPacketNum"
    and ok1: "mem_ok m1 (bufs @ b)" and caps: "list_all (\<lambda>r. sr_off r = 0 \<and> sr_len r = ?l \<and> sr_cap (u_heap m1) r < 2 ^ 63) bufs"
    and fr: "\<forall>x \<in> set b. u_heap m1 (sr_arr x) = u_heap m0 (sr_arr x)"
    using malloc_bufs_ok [of m0 b ?l pks udpPacketNum] g' ok(1) l by blast
  have all: "list_all (\<lambda>r. sr_off r = 0 \<and> sr_len r = ?l) bufs" using caps by (auto simp: list_all_iff)
  let ?xs = "take udpPacketNum backing"
  let ?mm = "map2 (\<lambda>x b. x\<lparr>mm_Hdr := block_hdr (mm_Hdr x) b\<rparr>) ?xs bufs"
  have lx: "length ?xs = length bufs" using g' b(2) by (simp add: MaxLen_def udpPacketNum_def)
  have bm: "buildMMsgs ?xs bufs = (None, ?mm)"
    using lx all l(1) by (simp add: buildMMsgs_def buildMMsgs_loop_ok list_all_iff)
  have lm: "length pkts \<le> length ?mm" using lx n b(2) by simp
  define h' where "h' = deliver_all ?mm pkts (u_heap m1)"
  obtain xs' where r: "s_recvmmsg U (nf_fd nfd) ?mm (k, u_heap m1) = (Inr (length pkts), xs', k', h')"
    and xs': "length xs' = length ?mm"
      "\<forall>i < length pkts. mm_Len (xs' ! i) = min (length (snd (pkts ! i))) (iov_room (?mm ! i))"
    using k [unfolded next_datagrams_def, rule_format, OF lm, of "u_heap m1"] unfolding h'_def by blast
  have room: "\<forall>i < length pkts. mm_Len (xs' ! i) = min (length (snd (pkts ! i))) (?l - SockaddrSize)"
    using xs'(2) lx n b(2) all by (simp add: iov_room_def block_hdr_def sr_sub_def list_all_length)
  define got where "got = map (\<lambda>(x, buf). buf\<lparr>sr_len := SockaddrSize + mm_Len x\<rparr>) (zip (take (length pkts) xs') bufs)"
  have lxs: "length pkts \<le> length bufs" "length xs' = length bufs" using n b(2) xs'(1) lx by simp_all
  note bb = batch_blocks [OF ok1 all l(1) lx lxs addr h'_def room got_def]
  note d = delivered_batch [OF ok1 refl all l(1) lx lxs(1), folded h'_def]
  have "list_all (\<lambda>r. sr_cap (u_heap (m1\<lparr>u_heap := h'\<rparr>)) r \<noteq> 1 \<and> sr_cap (u_heap (m1\<lparr>u_heap := h'\<rparr>)) r < 2 ^ 63)
      (drop (length pkts) bufs)"
  proof -
    have "live_fits (u_heap m1) bufs" using ok1 by (simp add: mem_ok_def live_fits_def)
    with caps l(1) have "\<forall>r \<in> set bufs. sr_cap (u_heap (m1\<lparr>u_heap := h'\<rparr>)) r \<noteq> 1 \<and> sr_cap (u_heap (m1\<lparr>u_heap := h'\<rparr>)) r < 2 ^ 63"
      by (auto simp: sr_cap_def d(3) live_fits_def list_all_iff SockaddrSize_def)
    then show ?thesis by (auto simp: list_all_iff dest: in_set_dropD)
  qed
  from fold_Free_ok [OF bb(2) this] have fin: "mem_ok (fold ref_Free (drop (length pkts) bufs) (m1\<lparr>u_heap := h'\<rparr>)) (got @ b)"
    "u_heap (fold ref_Free (drop (length pkts) bufs) (m1\<lparr>u_heap := h'\<rparr>)) = h'" by simp_all
  let ?m' = "PutMMsghdrs (xs' @ drop udpPacketNum backing) (fold ref_Free (drop (length pkts) bufs) (m1\<lparr>u_heap := h'\<rparr>))"
  have m': "u_heap ?m' = h'" "mem_ok ?m' (b @ got)"
    using fin mem_ok_perm [of "got @ b" "b @ got"] by (simp_all add: PutMMsghdrs_def)
  have keep: "\<forall>r \<in> set b. sr_get h' r = sr_get (u_heap m) r"
    using d(2) fr g' by (simp add: sr_get_def)
  have "FillToBuffer_batch U pick pks nfd b (m, k) =
      (None, b @ got, [(UDPRecvMMsgCalls, 1), (UDPRecvMMsgPackets, of_nat (length pkts))], ?m', k')"
    unfolding FillToBuffer_batch_def using g b(1) bm r by (simp add: Let_def panics_def got_def)
  moreover have "map sr_arr got = map sr_arr (take (length pkts) bufs)"
    unfolding got_def using lxs by (intro nth_equalityI) simp_all
  ultimately show ?thesis using g b(1) m' keep bb(1) l(4) by auto
qed

text \<open>C19. Receiving a batch: if the socket holds the datagrams \<open>pkts\<close> (at most 32), a fill without exact sizes
  appends one block per datagram, in order, with its payload (cut to the buffer size) and its source address;
  the packets that were waiting are untouched, and every array is again owned once: by a packet, or by the
  cache.\<close>

theorem fill_appends_packets:
  assumes ok: "mem_ok m b" "hdr_pool_ok m" and sz: "0 < nf_udpBufferSize nfd" "nf_udpBufferSize nfd < 2 ^ 32"
    and k: "next_datagrams U (nf_fd nfd) k pkts k'" and n: "length pkts \<le> udpPacketNum"
    and addr: "list_all (\<lambda>pkt. length (fst pkt) \<le> SockaddrSize) pkts"
  shows "\<exists>got adds m'. FillToBuffer_batch U pick pks nfd b (m, k) = (None, b @ got, adds, m', k') \<and>
    list_all2 (holds_packet (u_heap m') (nat (nf_udpBufferSize nfd))) got pkts \<and>
    (\<forall>r \<in> set b. sr_get (u_heap m') r = sr_get (u_heap m) r) \<and> mem_ok m' (b @ got)"
  using fill_batch_ok [OF assms, of pick pks] by blast

text \<open>A socket as a queue of datagrams, for concrete instances.\<close>

definition queue_usys :: "(byte list \<times> byte list) list usys" where
  "queue_usys = \<lparr>
     s_recvmsg = (\<lambda>fd hdr peek (k, h). case k of [] \<Rightarrow> (Inl EAGAIN, hdr, k, h)
       | pkt # ks \<Rightarrow> (Inr (length (snd pkt)), hdr\<lparr>mh_namelen := length (fst pkt)\<rparr>, if peek then k else ks, deliver hdr pkt h)),
     s_recvmmsg = (\<lambda>fd xs (k, h). let n = min (length k) (length xs) in
       if n = 0 then (Inl EAGAIN, xs, k, h)
       else (Inr n, map2 (\<lambda>x pkt. x\<lparr>mm_Len := min (length (snd pkt)) (iov_room x)\<rparr>) (take n xs) k @ drop n xs,
             drop n k, deliver_all xs (take n k) h)),
     s_sendmmsg = (\<lambda>fd xs h k. (int (length xs), None, k))\<rparr>"

lemma queue_next_datagram: "next_datagram queue_usys fd (pkt # ks) pkt ks"
  by (auto simp: next_datagram_def queue_usys_def)

lemma queue_next_datagrams: "k \<noteq> [] \<Longrightarrow> next_datagrams queue_usys fd k k []"
  by (auto simp: next_datagrams_def queue_usys_def Let_def min_def nth_append)

definition udp_nfd :: netFD where
  "udp_nfd = \<lparr>nf_desc = None, nf_sock = False, nf_laddr = UnixAddr ''l'', nf_raddr = None, nf_network = ''udp'',
     nf_fd = 9, nf_fdtype = fdUDP, nf_closed = False, nf_udpBufferSize = 100, nf_exactUDPBufferSizeEnabled = False\<rparr>"

theorem fill_appends_packets_witness:
  "\<exists>got adds m'. FillToBuffer_batch queue_usys None (\<lambda>_. None) udp_nfd [] (empty_mem, [([2, 0], [7, 8]), ([2, 0], [9])]) =
      (None, got, adds, m', []) \<and> map (block_payload (u_heap m')) got = [[7, 8], [9]]"
proof -
  let ?k = "[([2, 0], [7, 8]), ([2, 0], [9])] :: (byte list \<times> byte list) list"
  have k: "next_datagrams queue_usys (nf_fd udp_nfd) ?k ?k []" by (rule queue_next_datagrams) simp
  obtain got adds m' where f: "FillToBuffer_batch queue_usys None (\<lambda>_. None) udp_nfd [] (empty_mem, ?k) = (None, got, adds, m', [])"
    and h: "list_all2 (holds_packet (u_heap m') (nat (nf_udpBufferSize udp_nfd))) got ?k"
    using fill_appends_packets [OF mem_ok_empty _ _ _ k, of None "\<lambda>_. None"]
    by (auto simp: hdr_pool_ok_def empty_mem_def udp_nfd_def udpPacketNum_def SockaddrSize_def)
  from h have "map (block_payload (u_heap m')) got = [[7, 8], [9]]"
    by (auto simp: list_all2_Cons2 holds_packet_def udp_nfd_def)
  with f show ?thesis by (intro exI conjI)
qed

section \<open>Receiving with exact sizes\<close>

definition hdr_ok :: "heap \<Rightarrow> Msghdr \<Rightarrow> bool" where
  "hdr_ok h hdr \<longleftrightarrow> (\<forall>r. mh_name hdr = Some r \<or> mh_iov hdr = Some r \<longrightarrow> sr_off r \<le> length (h (sr_arr r)))"

lemma deliver_lengths: "hdr_ok h hdr \<Longrightarrow> length (deliver hdr pkt h a) = length (h a)"
  by (auto simp: deliver_def hdr_ok_def Let_def length_sr_put split: option.splits)

lemma deliver_stale:
  assumes "sr_off r = 0" and "length (fst pkt) \<le> SockaddrSize"
  shows "deliver ((block_hdr x r)\<lparr>mh_namelen := length (fst pkt)\<rparr>) pkt h =
    h(sr_arr r := packet_bytes (sr_len r) pkt (h (sr_arr r)))"
  using assms by (simp add: deliver_def block_hdr_def sr_sub_def sr_put_def packet_bytes_def)

lemma exact_fill_step:
  assumes ok: "mem_ok m live" and get: "GetMsghdr pick m = (msg, m0)" and hdr: "hdr_ok (u_heap m) msg"
    and nd: "next_datagram U (nf_fd nfd) k pkt k'"
    and p: "0 < length (snd pkt)" "length (snd pkt) < 2 ^ 32" and a: "length (fst pkt) \<le> SockaddrSize"
  shows "\<exists>r m' x adds. fillToExactBuffer U pick pick' nfd b (m, k) = (None, b @ [r], adds, m', k') \<and>
    sr_off r = 0 \<and> sr_len r = SockaddrSize + length (snd pkt) \<and> sr_arr r \<notin> sr_arr ` set live \<and> mem_ok m' (r # live) \<and>
    (\<forall>y \<in> set live. u_heap m' (sr_arr y) = deliver msg pkt (u_heap m) (sr_arr y)) \<and>
    holds_packet (u_heap m') (length (snd pkt)) r pkt \<and>
    u_msghdrs m' = u_msghdrs m0 @ [(block_hdr x r)\<lparr>mh_namelen := length (fst pkt)\<rparr>]"
proof -
  let ?sz = "length (snd pkt) + SockaddrSize"
  obtain x pool where t: "pool_take pick (\<lambda>_. True) (u_msghdrs m) = (x, pool)" by fastforce
  from get t have m0: "u_heap m0 = u_heap m" "mem_ok m0 live"
    using ok by (auto simp: GetMsghdr_def split: option.splits)
  obtain nl where r1: "s_recvmsg U (nf_fd nfd) msg True (k, u_heap m0) =
      (Inr (length (snd pkt)), msg\<lparr>mh_namelen := nl\<rparr>, k, deliver msg pkt (u_heap m0))"
    using nd unfolding next_datagram_def by blast
  let ?m1 = "m0\<lparr>u_heap := deliver msg pkt (u_heap m0)\<rparr>"
  have ok1: "mem_ok ?m1 live" using m0 hdr mem_ok_lengths [of "deliver msg pkt (u_heap m0)" m0 live] by (simp add: deliver_lengths)
  have sz: "0 < ?sz" "?sz < 2 ^ 63" using p by (simp_all add: SockaddrSize_def)
  obtain r m2 where mal: "ref_Malloc pick' ?sz ?m1 = (Inr r, m2)" and f: "fresh_block ?m1 live ?sz r m2"
    using ref_Malloc_ok [OF ok1 sz] by blast
  let ?msg = "msg\<lparr>mh_namelen := nl\<rparr>"
  have b1: "buildMsg ?msg r = (None, block_hdr ?msg r)" using f p by (simp add: buildMsg_ok fresh_block_def)
  have off: "sr_off r = 0" "sr_len r = ?sz" using f by (simp_all add: fresh_block_def)
  define h2 where "h2 = (u_heap m2)(sr_arr r := packet_bytes ?sz pkt (u_heap m2 (sr_arr r)))"
  have name: "mh_name (block_hdr ?msg r) \<noteq> None" by (simp add: block_hdr_def)
  obtain n nl2 where "nl2 = length (fst pkt)" "s_recvmsg U (nf_fd nfd) (block_hdr ?msg r) False (k, u_heap m2) =
      (Inr n, (block_hdr ?msg r)\<lparr>mh_namelen := nl2\<rparr>, k', deliver (block_hdr ?msg r) pkt (u_heap m2))"
    using nd name unfolding next_datagram_def by blast
  then have r2: "s_recvmsg U (nf_fd nfd) (block_hdr ?msg r) False (k, u_heap m2) =
      (Inr n, (block_hdr ?msg r)\<lparr>mh_namelen := length (fst pkt)\<rparr>, k', h2)"
    using off deliver_block [of r ?msg pkt "u_heap m2"] by (simp add: h2_def)
  have fit: "?sz \<le> length (u_heap m2 (sr_arr r))" using f by (simp add: fresh_block_def mem_ok_def)
  then have lens: "\<And>a. length (h2 a) = length (u_heap m2 a)" by (simp add: h2_def length_packet_bytes)
  let ?r = "r\<lparr>sr_len := SockaddrSize + length (snd pkt)\<rparr>"
  have rr: "?r = r" using off by (cases r) simp
  have "mem_ok (m2\<lparr>u_heap := h2\<rparr>) (r # live)"
    using f mem_ok_lengths [OF lens, of "r # live"] by (simp add: fresh_block_def)
  moreover have "holds_packet h2 (length (snd pkt)) r pkt"
    using packet_bytes_get [of h2 r ?sz pkt "u_heap m2 (sr_arr r)"] off p a fit by (simp add: holds_packet_def h2_def)
  moreover have "\<forall>y \<in> set live. h2 (sr_arr y) = deliver msg pkt (u_heap m) (sr_arr y)"
  proof
    fix y
    assume y: "y \<in> set live"
    then have "sr_arr y \<noteq> sr_arr r" using f unfolding fresh_block_def by (metis image_eqI)
    with y f m0(1) show "h2 (sr_arr y) = deliver msg pkt (u_heap m) (sr_arr y)" by (simp add: fresh_block_def h2_def)
  qed
  moreover have "fillToExactBuffer U pick pick' nfd b (m, k) =
      (None, b @ [r], [(UDPRecvMsgCalls, 1), (UDPRecvMsgPackets, 1)],
       PutMsghdr ((block_hdr ?msg r)\<lparr>mh_namelen := length (fst pkt)\<rparr>) (m2\<lparr>u_heap := h2\<rparr>), k')"
    unfolding fillToExactBuffer_def using get r1 mal b1 r2 rr by (simp add: panics_def)
  ultimately show ?thesis
    using f off unfolding PutMsghdr_def by (force simp: fresh_block_def)
qed

text \<open>C24. Receiving with exact sizes loses packets: the header that the pool hands out still points into the
  block of the packet before, and peeking for the size of the next packet stores that packet there. When two
  datagrams of one size arrive before the first is read, and the second fill gets the header of the first
  back, the reader finds the second datagram twice, address included, and the first is gone.\<close>

theorem exact_fill_overwrites:
  assumes ok: "mem_ok m b" and nd: "next_datagram U (nf_fd nfd) k (a1, p1) k1" "next_datagram U (nf_fd nfd) k1 (a2, p2) k2"
    and p: "0 < length p1" "length p1 < 2 ^ 32" "length p2 = length p1"
    and a: "length a1 \<le> SockaddrSize" "length a2 = length a1"
  shows "\<exists>r1 r2 adds1 adds2 m1 m2.
    fillToExactBuffer U None pick1 nfd b (m, k) = (None, b @ [r1], adds1, m1, k1) \<and>
    holds_packet (u_heap m1) (length p1) r1 (a1, p1) \<and>
    fillToExactBuffer U (Some (length (u_msghdrs m))) pick2 nfd (b @ [r1]) (m1, k1) =
      (None, b @ [r1, r2], adds2, m2, k2) \<and>
    holds_packet (u_heap m2) (length p1) r1 (a2, p2) \<and> holds_packet (u_heap m2) (length p1) r2 (a2, p2)"
proof -
  have g1: "GetMsghdr None m = (zero_Msghdr, m)" by (simp add: GetMsghdr_def pool_take_def)
  have z: "hdr_ok h zero_Msghdr" for h by (simp add: hdr_ok_def zero_Msghdr_def)
  obtain r1 m1 x adds1 where f1: "fillToExactBuffer U None pick1 nfd b (m, k) = (None, b @ [r1], adds1, m1, k1)"
    and r1: "sr_off r1 = 0" "sr_len r1 = SockaddrSize + length p1" and ok1: "mem_ok m1 (r1 # b)"
    and h1: "holds_packet (u_heap m1) (length p1) r1 (a1, p1)"
    and hdrs: "u_msghdrs m1 = u_msghdrs m @ [(block_hdr x r1)\<lparr>mh_namelen := length a1\<rparr>]"
    using exact_fill_step [OF ok g1 z nd(1), of pick1 b] p a by auto
  let ?hdr = "(block_hdr x r1)\<lparr>mh_namelen := length a1\<rparr>"
  obtain m0 where g2: "GetMsghdr (Some (length (u_msghdrs m))) m1 = (?hdr, m0)"
    using hdrs by (simp add: GetMsghdr_def pool_take_def)
  have fit: "SockaddrSize + length p1 \<le> length (u_heap m1 (sr_arr r1))"
    using ok1 r1 by (simp add: mem_ok_def)
  then have hok: "hdr_ok (u_heap m1) ?hdr"
    using r1 by (auto simp: hdr_ok_def block_hdr_def sr_sub_def)
  have eq: "deliver ?hdr (a2, p2) (u_heap m1) =
      (u_heap m1)(sr_arr r1 := packet_bytes (sr_len r1) (a2, p2) (u_heap m1 (sr_arr r1)))"
    using deliver_stale [of r1 "(a2, p2)" x "u_heap m1"] r1 a by simp
  obtain r2 m2 adds2 where
    f2: "fillToExactBuffer U (Some (length (u_msghdrs m))) pick2 nfd (b @ [r1]) (m1, k1) =
      (None, (b @ [r1]) @ [r2], adds2, m2, k2)"
    and fr: "\<forall>y \<in> set (r1 # b). u_heap m2 (sr_arr y) = deliver ?hdr (a2, p2) (u_heap m1) (sr_arr y)"
    and h2: "holds_packet (u_heap m2) (length p2) r2 (a2, p2)"
    using exact_fill_step [OF ok1 g2 hok nd(2), of pick2 "b @ [r1]"] p a by auto
  have "u_heap m2 (sr_arr r1) = packet_bytes (SockaddrSize + length p1) (a2, p2) (u_heap m1 (sr_arr r1))"
    using fr eq r1(2) by simp
  with packet_bytes_get [of "u_heap m2" r1 "SockaddrSize + length p1" "(a2, p2)" "u_heap m1 (sr_arr r1)"] fit p a r1
  have "holds_packet (u_heap m2) (length p1) r1 (a2, p2)" by (simp add: holds_packet_def)
  with f1 h1 f2 h2 p(3) show ?thesis by simp
qed

theorem exact_fill_overwrites_witness:
  "\<exists>r1 r2 adds1 adds2 m1 m2.
    fillToExactBuffer queue_usys None None udp_nfd [] (empty_mem, [([1], [7, 8]), ([2], [5, 6])]) =
      (None, [r1], adds1, m1, [([2], [5, 6])]) \<and> block_payload (u_heap m1) r1 = [7, 8] \<and>
    fillToExactBuffer queue_usys (Some 0) None udp_nfd [r1] (m1, [([2], [5, 6])]) = (None, [r1, r2], adds2, m2, []) \<and>
    map (block_payload (u_heap m2)) [r1, r2] = [[5, 6], [5, 6]]"
  using exact_fill_overwrites [OF mem_ok_empty queue_next_datagram queue_next_datagram,
      of "[7, 8]" "[5, 6]" "[1]" "[2]" None udp_nfd "[]" None]
  by (simp add: holds_packet_def SockaddrSize_def empty_mem_def) blast

text \<open>An empty datagram, which any peer can send, makes receiving with exact sizes panic: taking the address
  of the first byte of its empty payload is out of range.\<close>

theorem exact_fill_empty_panics:
  assumes "mem_ok m live" and "list_all (hdr_ok (u_heap m)) (u_msghdrs m)"
    and "next_datagram U (nf_fd nfd) k (a, []) k'"
  shows "fst (fillToExactBuffer U pick pick' nfd b (m, k)) = Some (Fault IndexRange)"
proof -
  obtain msg m0 where get: "GetMsghdr pick m = (msg, m0)" by fastforce
  obtain x pool where t: "pool_take pick (\<lambda>_. True) (u_msghdrs m) = (x, pool)" by fastforce
  have hdr: "hdr_ok (u_heap m) msg" and m0: "u_heap m0 = u_heap m" "mem_ok m0 live"
    using pool_take_cases [OF t] get t assms(1,2)
    by (auto simp: GetMsghdr_def hdr_ok_def zero_Msghdr_def split: option.splits)
  obtain nl where r: "s_recvmsg U (nf_fd nfd) msg True (k, u_heap m0) =
      (Inr 0, msg\<lparr>mh_namelen := nl\<rparr>, k, deliver msg (a, []) (u_heap m0))"
    using assms(3) unfolding next_datagram_def by fastforce
  let ?m1 = "m0\<lparr>u_heap := deliver msg (a, []) (u_heap m0)\<rparr>"
  have "mem_ok ?m1 live"
    using m0 hdr mem_ok_lengths [of "deliver msg (a, []) (u_heap m0)" m0 live] by (simp add: deliver_lengths)
  then obtain buf m2 where mal: "ref_Malloc pick' SockaddrSize ?m1 = (Inr buf, m2)"
    and f: "fresh_block ?m1 live SockaddrSize buf m2"
    using ref_Malloc_ok [of ?m1 live SockaddrSize pick'] by (auto simp: SockaddrSize_def)
  have "buildMsg (msg\<lparr>mh_namelen := nl\<rparr>) buf = (Some (Fault IndexRange), msg\<lparr>mh_namelen := nl\<rparr>)"
    using f by (simp add: buildMsg_def BuildMsg_def sr_sub_def fresh_block_def)
  with get r mal show ?thesis by (simp add: fillToExactBuffer_def panics_def)
qed

theorem exact_fill_empty_panics_witness:
  "fst (fillToExactBuffer queue_usys None None udp_nfd [] (empty_mem, [([1], [])])) = Some (Fault IndexRange)"
  by (rule exact_fill_empty_panics [OF mem_ok_empty _ queue_next_datagram]) (simp add: empty_mem_def)

section \<open>Sending a batch\<close>

text \<open>The documented results of \<open>sendmmsg\<close>: the number of messages sent, or an error when not even the
  first could be sent.\<close>

definition sendmmsg_result :: "nat \<Rightarrow> int \<Rightarrow> err option \<Rightarrow> bool" where
  "sendmmsg_result l n e \<longleftrightarrow> (case e of None \<Rightarrow> 0 \<le> n \<and> n \<le> int l | Some _ \<Rightarrow> n \<le> 0)"

text \<open>C32. Sending: the system call gets the first 32 packets waiting, in order, each with its own address and
  payload. Those it sent are taken off the buffer; when the socket is full nothing is taken off; when it
  refuses the first packet for another reason that packet alone is dropped and the error stays inside, so the
  poller does not detach the socket.\<close>

theorem send_batch:
  assumes "b \<noteq> []" and "list_all (\<lambda>r. SockaddrSize < sr_len r) b" and "hdr_pool_ok m"
    and "\<And>mm. sendmmsg_result (length mm) (fst (s_sendmmsg U (nf_fd nfd) mm (u_heap m) k))
           (fst (snd (s_sendmmsg U (nf_fd nfd) mm (u_heap m) k)))"
  shows "\<exists>mm n e k' adds m' err b'. s_sendmmsg U (nf_fd nfd) mm (u_heap m) k = (n, e, k') \<and>
    map (\<lambda>x. (mh_name (mm_Hdr x), mh_iov (mm_Hdr x))) mm =
      map (\<lambda>r. (Some (sr_sub 0 SockaddrSize r), Some (sr_sub SockaddrSize (sr_len r) r))) (take udpPacketNum b) \<and>
    sendMMsg U pick nfd b (m, k) = (err, b', adds, m', k') \<and>
    (case e of
       None \<Rightarrow> err = None \<and> b' = drop (nat n) b
     | Some x \<Rightarrow> if x = EAGAIN then err = Some EAGAIN \<and> b' = b else err = None \<and> b' = tl b)"
proof -
  obtain backing m0 where g: "GetMMsghdrs pick udpPacketNum m = (backing, m0)" by fastforce
  note g' = GetMMsghdrs_ok [OF assms(3) g]
  let ?bufs = "take udpPacketNum b" let ?l = "length ?bufs"
  let ?mm = "map2 (\<lambda>x b. x\<lparr>mm_Hdr := block_hdr (mm_Hdr x) b\<rparr>) (take ?l backing) ?bufs"
  have l: "0 < ?l" "length (take ?l backing) = ?l"
    using assms(1) g' by (auto simp: udpPacketNum_def MaxLen_def)
  have "list_all (\<lambda>r. SockaddrSize < sr_len r) ?bufs" using assms(2) by (rule list_all_take_drop)
  then have bm: "buildMMsgs (take ?l backing) ?bufs = (None, ?mm)"
    using l(2) by (simp only: buildMMsgs_def buildMMsgs_loop_ok) simp
  have lm: "length ?mm = ?l" using l(2) by simp
  obtain n e k' where s: "s_sendmmsg U (nf_fd nfd) ?mm (u_heap m) k = (n, e, k')" using prod_cases3 by blast
  have res: "sendmmsg_result ?l n e" using assms(4) [of ?mm] s lm by simp
  have hdrs: "map (\<lambda>x. (mh_name (mm_Hdr x), mh_iov (mm_Hdr x))) ?mm =
      map (\<lambda>r. (Some (sr_sub 0 SockaddrSize r), Some (sr_sub SockaddrSize (sr_len r) r))) ?bufs"
    using l(2) by (intro nth_equalityI) (simp_all add: block_hdr_def)
  have hp: "u_heap (PutMMsghdrs (?mm @ drop ?l backing) m0) = u_heap m" using g' by (simp add: PutMMsghdrs_def)
  have skip1: "blocks_skip (Suc 0) b = (None, tl b)"
    using assms(1) by (cases b) (simp_all add: blocks_skip_def)
  have "\<exists>adds m' err b'. sendMMsg U pick nfd b (m, k) = (err, b', adds, m', k') \<and>
      (case e of None \<Rightarrow> err = None \<and> b' = drop (nat n) b
       | Some x \<Rightarrow> if x = EAGAIN then err = Some EAGAIN \<and> b' = b else err = None \<and> b' = tl b)"
  proof (cases e)
    case None
    with res have n: "0 \<le> n" "n \<le> int ?l" by (simp_all add: sendmmsg_result_def)
    then have "0 < n \<Longrightarrow> blocks_skip (nat n) b = (None, drop (nat n) b)"
      using assms(1) by (simp add: blocks_skip_def)
    then show ?thesis
      unfolding sendMMsg_def using None g l(1) bm s hp n
      by (cases "n > 0") (simp_all add: Let_def panics_def)
  next
    case (Some x)
    with res have "\<not> 0 < n" by (simp add: sendmmsg_result_def)
    then show ?thesis
      unfolding sendMMsg_def using Some g l(1) bm s hp skip1 assms(1)
      by (cases "x = EAGAIN") (simp_all add: Let_def panics_def)
  qed
  with s hdrs show ?thesis by blast
qed

theorem send_batch_witness:
  "\<exists>adds m' k'. sendMMsg queue_usys None udp_nfd [\<lparr>sr_arr = 0, sr_off = 0, sr_len = 30\<rparr>] (empty_mem, []) =
     (None, [], adds, m', k')"
proof -
  let ?b = "[\<lparr>sr_arr = 0, sr_off = 0, sr_len = 30\<rparr>]"
  have r: "sendmmsg_result (length mm) (fst (s_sendmmsg queue_usys (nf_fd udp_nfd) mm (u_heap empty_mem) []))
      (fst (snd (s_sendmmsg queue_usys (nf_fd udp_nfd) mm (u_heap empty_mem) [])))" for mm
    by (simp add: queue_usys_def sendmmsg_result_def)
  have b: "?b \<noteq> []" "list_all (\<lambda>r. SockaddrSize < sr_len r) ?b" "hdr_pool_ok empty_mem"
    by (simp_all add: SockaddrSize_def hdr_pool_ok_def empty_mem_def)
  obtain mm n e k' adds m' err b' where s: "s_sendmmsg queue_usys (nf_fd udp_nfd) mm (u_heap empty_mem) [] = (n, e, k')"
    and mm: "map (\<lambda>x. (mh_name (mm_Hdr x), mh_iov (mm_Hdr x))) mm =
      map (\<lambda>r. (Some (sr_sub 0 SockaddrSize r), Some (sr_sub SockaddrSize (sr_len r) r))) (take udpPacketNum ?b)"
    and f: "sendMMsg queue_usys None udp_nfd ?b (empty_mem, []) = (err, b', adds, m', k')"
    and c: "case e of None \<Rightarrow> err = None \<and> b' = drop (nat n) ?b
       | Some x \<Rightarrow> if x = EAGAIN then err = Some EAGAIN \<and> b' = ?b else err = None \<and> b' = tl ?b"
    using send_batch [OF b r, of None] by blast
  have "length mm = 1" using arg_cong [OF mm, of length] by (simp add: udpPacketNum_def)
  with s have "e = None" "n = 1" by (simp_all add: queue_usys_def)
  with f c show ?thesis by simp
qed

end
