(* ===== verification/Conn_Common.thy ===== *)
theory Conn_Common
  imports Netfd_Udp Timers Closer
begin

text \<open>
  What TCP and UDP connections share: the code they call that is not their own, the outcome of waiting for
  data, deadlines, and handing a connection to the goroutine pool (\<open>taskpool.go\<close>).
\<close>

section \<open>The environment\<close>

text \<open>The code a connection calls that is not its own: the system calls, the pollers, the interfaces of the
  machine and the goroutine pool.\<close>

record 'k ext =
  x_kern :: "'k kern"
  x_nsys :: "'k nsys"
  x_usys :: "'k usys"
  x_eps :: "nat \<Rightarrow> epoll"
  x_byName :: "string \<Rightarrow> int option"
  x_byIndex :: "int \<Rightarrow> string option"
  x_write :: "int \<Rightarrow> byte list \<Rightarrow> 'k \<Rightarrow> (err + nat) \<times> 'k"
  x_invoke :: "'k \<Rightarrow> err option \<times> 'k"

type_synonym adds = "(int \<times> u64) list"

section \<open>Waiting and tasks\<close>

text \<open>A wait for data ends, fails, or leaves the goroutine blocked on the trigger.\<close>

datatype wait = Ready | Failed err | Blocked

definition timer_passed :: "int \<Rightarrow> timer option \<Rightarrow> bool" where
  "timer_passed now t = (case t of None \<Rightarrow> False | Some t \<Rightarrow> timer_Expired now t)"

definition doTask :: "'k ext \<Rightarrow> 'k \<Rightarrow> err option \<times> adds \<times> 'k" where
  "doTask X k = (case x_invoke X k of (e, k) \<Rightarrow> (e, [(TaskAssigned, 1)], k))"

text \<open>An environment in which every call succeeds and does nothing, for concrete instances.\<close>

definition idle_ext :: "'k usys \<Rightarrow> 'k ext" where
  "idle_ext U = \<lparr>x_kern = idle_kern, x_nsys = idle_nsys, x_usys = U, x_eps = (\<lambda>_. idle_poller), x_byName = (\<lambda>_. None),
     x_byIndex = (\<lambda>_. None), x_write = (\<lambda>_ bs k. (Inr (length bs), k)), x_invoke = (\<lambda>k. (None, k))\<rparr>"

end
