(* ===== verification/Udpconn.thy ===== *)
theory Udpconn
  imports Conn_Common
begin

text \<open>
  Model of \<open>udpconn.go\<close>: a UDP connection. Packets are references into the heap of \<open>Udp_Memory\<close>, so that
  what the caller of a read holds can be followed after the read. Of the jobs of the closer the state keeps
  whether the connection is active and whether the calling goroutine is inside \<open>sysRead\<close>; their
  interleaving is the subject of \<open>Closer\<close>, that of writers of \<open>Write_Path\<close>. Operations that may not return
  have the value \<open>None\<close> then.
\<close>

section \<open>State\<close>

record ('f, 'm) udpconn =
  uc_metaData :: "'m option"
  uc_reqHandle :: "'f option"
  uc_closeHandle :: "'f option"
  uc_inBuffer :: "sref list"
  uc_outBuffer :: "sref list"
  uc_nfd :: netFD
  uc_active :: bool
  uc_nonblocking :: bool
  uc_rtimer :: "timer option"
  uc_wtimer :: "timer option"
  uc_readTrigger :: nat
  uc_triggerClosed :: bool
  uc_postpone :: PostponeWrite
  uc_reading :: u32
  uc_writing :: u32
  uc_closeService :: "int option"
  uc_sysRead :: bool

type_synonym ('f, 'm, 'h, 'd, 'k) uds = "('f, 'm) udpconn \<times> umem \<times> ('h, 'd, 'k) world"

text \<open>The readable bytes of a buffer of blocks.\<close>

definition blocks_len :: "sref list \<Rightarrow> nat" where
  "blocks_len b = sum_list (map sr_len b)"

section \<open>Packets\<close>

definition getUDPData :: "sref \<Rightarrow> err + sref" where
  "getUDPData block =
     (if sr_len block < SockaddrSize then Inl (ErrText ''invalid UDP packet'')
      else Inr (sr_sub SockaddrSize (sr_len block) block))"

text \<open>The address of a packet: the IP is a slice of the packet itself, port and zone are values.\<close>

record uaddr =
  ua_IP :: sref
  ua_Port :: int
  ua_Zone :: string

definition getUDPAddr :: "(int \<Rightarrow> string option) \<Rightarrow> heap \<Rightarrow> sref \<Rightarrow> err + uaddr" where
  "getUDPAddr byIndex h block =
     (if sr_len block < SockaddrSize then Inl (ErrText ''invalid UDP packet'')
      else
        let sockaddr = sr_sub 0 SockaddrSize block in
        case SockaddrSliceToUDPAddr byIndex (sr_get h sockaddr) of
          Inl e \<Rightarrow> Inl e
        | Inr a \<Rightarrow>
            Inr \<lparr>ua_IP = (if get_le16 (take 2 (sr_get h sockaddr)) = AF_INET then sr_sub 4 8 sockaddr else sr_sub 8 24 sockaddr),
                 ua_Port = ia_Port a, ua_Zone = ia_Zone a\<rparr>)"

definition getUDPDataAndAddr :: "(int \<Rightarrow> string option) \<Rightarrow> heap \<Rightarrow> sref \<Rightarrow> err + (sref \<times> uaddr)" where
  "getUDPDataAndAddr byIndex h block =
     (case getUDPAddr byIndex h block of
        Inl e \<Rightarrow> Inl e
      | Inr a \<Rightarrow> (case getUDPData block of Inl e \<Rightarrow> Inl e | Inr d \<Rightarrow> Inr (d, a)))"

text \<open>\<open>parcel\<close>: address and payload in one new array.\<close>

definition parcel :: "(string \<Rightarrow> int option) \<Rightarrow> byte list \<Rightarrow> net_addr \<Rightarrow> err + byte list" where
  "parcel byName buf addr =
     (case addr of
        UDPAddr a \<Rightarrow>
          (case UDPAddrToSockaddrSlice byName a of Inl e \<Rightarrow> Inl e | Inr sockaddr \<Rightarrow> Inr (sockaddr @ buf))
      | _ \<Rightarrow> Inl (ErrText ''only UDPAddr can be parceled''))"

definition packet_Data :: "sref \<Rightarrow> err + sref" where
  "packet_Data block = getUDPData block"

definition packet_Free :: "sref \<Rightarrow> umem \<Rightarrow> umem" where
  "packet_Free block m = ref_Free block m"

section \<open>Reading\<close>

definition udp_waitReadWithTimeout :: "int \<Rightarrow> timer \<Rightarrow> ('f, 'm) udpconn \<Rightarrow> wait \<times> timer" where
  "udp_waitReadWithTimeout now t uc =
     (let t = timer_Start now t in
      if timer_Wait t = Inr True then (Failed ErrTimeout, t)
      else if blocks_len (uc_inBuffer uc) \<noteq> 0 then (Ready, t)
      else if \<not> uc_active uc then (Failed ErrConnClosed, t)
      else (Blocked, t))"

definition udp_waitRead :: "int \<Rightarrow> ('f, 'm) udpconn \<Rightarrow> wait \<times> ('f, 'm) udpconn" where
  "udp_waitRead now uc =
     (if \<not> uc_active uc then (Failed ErrConnClosed, uc)
      else if blocks_len (uc_inBuffer uc) > 0 then (Ready, uc)
      else if uc_nonblocking uc then (Failed ErrAgain, uc)
      else case uc_rtimer uc of
        Some t \<Rightarrow>
          if \<not> timer_IsZero t then
            case udp_waitReadWithTimeout now t uc of (r, t) \<Rightarrow> (r, uc\<lparr>uc_rtimer := Some t\<rparr>)
          else (Blocked, uc)
      | None \<Rightarrow> (Blocked, uc))"

text \<open>\<open>readBlock\<close> once the wait is over: the first block leaves the buffer.\<close>

definition udp_readBlock :: "int \<Rightarrow> ('f, 'm) udpconn \<Rightarrow> (wait + sref) \<times> ('f, 'm) udpconn" where
  "udp_readBlock now uc =
     (case udp_waitRead now uc of
        (Ready, uc) \<Rightarrow>
          (case dropWhile (\<lambda>r. sr_len r = 0) (uc_inBuffer uc) of
             [] \<Rightarrow> (Inl (Failed ErrNoEnoughData), uc)
           | r # rs \<Rightarrow> (Inr r, uc\<lparr>uc_inBuffer := rs\<rparr>))
      | (w, uc) \<Rightarrow> (Inl w, uc))"

definition ReadPacket :: "(int \<Rightarrow> string option) \<Rightarrow> int \<Rightarrow> ('f, 'm) udpconn \<times> umem \<Rightarrow> (wait + (sref \<times> uaddr)) \<times> ('f, 'm) udpconn \<times> umem" where
  "ReadPacket byIndex now st =
     (case st of (uc, m) \<Rightarrow>
        if \<not> uc_active uc then (Inl (Failed ErrConnClosed), uc, m)
        else case udp_readBlock now uc of
          (Inl w, uc) \<Rightarrow> (Inl w, uc, m)
        | (Inr block, uc) \<Rightarrow>
            (case getUDPAddr byIndex (u_heap m) block of
               Inl e \<Rightarrow> (Inl (Failed e), uc, m)
             | Inr addr \<Rightarrow> (Inr (block, addr), uc, m)))"

text \<open>\<open>ReadFrom(b)\<close> with \<open>len(b) = n\<close>: the bytes copied and the address; the block goes back to the cache
  when the call returns.\<close>

definition ReadFrom :: "(int \<Rightarrow> string option) \<Rightarrow> int \<Rightarrow> nat \<Rightarrow> ('f, 'm) udpconn \<times> umem \<Rightarrow>
    (wait + (byte list \<times> uaddr option)) \<times> ('f, 'm) udpconn \<times> umem" where
  "ReadFrom byIndex now n st =
     (case st of (uc, m) \<Rightarrow>
        if n = 0 then (Inr ([], None), uc, m)
        else if \<not> uc_active uc then (Inl (Failed ErrConnClosed), uc, m)
        else case udp_readBlock now uc of
          (Inl w, uc) \<Rightarrow> (Inl w, uc, m)
        | (Inr block, uc) \<Rightarrow>
            (case getUDPDataAndAddr byIndex (u_heap m) block of
               Inl e \<Rightarrow> (Inl (Failed e), uc, ref_Free block m)
             | Inr (s, addr) \<Rightarrow> (Inr (take n (sr_get (u_heap m) s), Some addr), uc, ref_Free block m)))"

definition udp_Read :: "(int \<Rightarrow> string option) \<Rightarrow> int \<Rightarrow> nat \<Rightarrow> ('f, 'm) udpconn \<times> umem \<Rightarrow>
    (wait + byte list) \<times> ('f, 'm) udpconn \<times> umem" where
  "udp_Read byIndex now n st =
     (case ReadFrom byIndex now n st of
        (Inl w, st) \<Rightarrow> (Inl w, st)
      | (Inr (bs, _), st) \<Rightarrow> (Inr bs, st))"

section \<open>Registration\<close>

text \<open>The callbacks are named by the value of \<open>'h\<close> that stands for them.\<close>

definition udp_schedule :: "'k ext \<Rightarrow> 'h \<Rightarrow> 'h \<Rightarrow> 'd \<Rightarrow> mgrs \<Rightarrow> ('f, 'm, 'h, 'd, 'k) uds \<Rightarrow>
    err option \<times> mgrs \<times> ('f, 'm, 'h, 'd, 'k) uds" where
  "udp_schedule X onRead onWrite conn ms st =
     (case st of (uc, m, w) \<Rightarrow>
        case Schedule (x_kern X) (x_eps X) (Some onRead) (Some onWrite) None conn (uc_nfd uc) ms w of
          (e, nfd, ms, w) \<Rightarrow> (e, ms, uc\<lparr>uc_nfd := nfd\<rparr>, m, w))"

section \<open>Writing\<close>

definition udp_Control :: "'k ext \<Rightarrow> event \<Rightarrow> ('f, 'm, 'h, 'd, 'k) uds \<Rightarrow> err option \<times> ('f, 'm, 'h, 'd, 'k) uds" where
  "udp_Control X e st =
     (case st of (uc, m, w) \<Rightarrow>
        case nfd_Control (x_kern X) (x_eps X) e (uc_nfd uc) w of (r, w) \<Rightarrow> (r, uc, m, w))"

text \<open>The check that ends every write: if packets are queued and nobody holds \<open>writing\<close>, take it and ask for
  the write event.\<close>

definition udp_recheck :: "'k ext \<Rightarrow> err option \<Rightarrow> ('f, 'm, 'h, 'd, 'k) uds \<Rightarrow> err option \<times> ('f, 'm, 'h, 'd, 'k) uds" where
  "udp_recheck X err st =
     (case st of (uc, m, w) \<Rightarrow>
        if blocks_len (uc_outBuffer uc) \<noteq> 0 then
          (case TryLock (uc_writing uc) of
             (True, l) \<Rightarrow> udp_Control X ModReadWriteable (uc\<lparr>uc_writing := l\<rparr>, m, w)
           | (False, _) \<Rightarrow> (err, st))
        else (err, st))"

definition udp_writeToNetFD :: "'k ext \<Rightarrow> byte list \<Rightarrow> net_addr option \<Rightarrow> ('f, 'm, 'h, 'd, 'k) uds \<Rightarrow>
    int \<times> err option \<times> adds \<times> ('f, 'm, 'h, 'd, 'k) uds" where
  "udp_writeToNetFD X p addr st =
     (case st of (uc, m, w) \<Rightarrow>
        case TryLock (uc_writing uc) of
          (False, _) \<Rightarrow> (0, None, [], st)
        | (True, l) \<Rightarrow>
            (case nfd_WriteTo (x_byName X) (x_nsys X) p addr (uc_nfd uc) (w_kernel w) of
               (n, Some e, k) \<Rightarrow>
                 (int n, Some e, [(UDPWriteToCalls, 1), (UDPWriteToFails, 1)],
                  uc\<lparr>uc_writing := Unlock l\<rparr>, m, w\<lparr>w_kernel := k\<rparr>)
             | (n, None, k) \<Rightarrow>
                 (case udp_recheck X None (uc\<lparr>uc_writing := Unlock l\<rparr>, m, w\<lparr>w_kernel := k\<rparr>) of
                    (e, st) \<Rightarrow> (int n, e, [(UDPWriteToCalls, 1)], st))))"

text \<open>A packet to send becomes a block of its own array at the end of the output buffer.\<close>

definition queue_block :: "byte list \<Rightarrow> ('f, 'm, 'h, 'd, 'k) uds \<Rightarrow> ('f, 'm, 'h, 'd, 'k) uds" where
  "queue_block bs st =
     (case st of (uc, m, w) \<Rightarrow>
        case new_array (length bs) m of (r, m) \<Rightarrow>
          let r = r\<lparr>sr_len := length bs\<rparr>; m = m\<lparr>u_heap := sr_put (u_heap m) r bs\<rparr> in
          (uc\<lparr>uc_outBuffer := uc_outBuffer uc @ [r]\<rparr>, m, w))"

definition udp_writeToBuffer :: "'k ext \<Rightarrow> byte list \<Rightarrow> net_addr option \<Rightarrow> ('f, 'm, 'h, 'd, 'k) uds \<Rightarrow>
    int \<times> err option \<times> ('f, 'm, 'h, 'd, 'k) uds" where
  "udp_writeToBuffer X p addr st =
     (case (case addr of None \<Rightarrow> Inl (ErrText ''only UDPAddr can be parceled'') | Some a \<Rightarrow> parcel (x_byName X) p a) of
        Inl e \<Rightarrow> (0, Some e, st)
      | Inr block \<Rightarrow>
          let (uc, m, w) = queue_block block st;
              n = int (length block) - int SockaddrSize
          in case TryLock (uc_writing uc) of
               (False, _) \<Rightarrow> (n, None, uc, m, w)
             | (True, l) \<Rightarrow>
                 if blocks_len (uc_outBuffer uc) \<noteq> 0 then
                   (case udp_Control X ModReadWriteable (uc\<lparr>uc_writing := l\<rparr>, m, w) of (e, st) \<Rightarrow> (n, e, st))
                 else
                   (case udp_recheck X None (uc\<lparr>uc_writing := Unlock l\<rparr>, m, w) of (e, st) \<Rightarrow> (n, e, st)))"

definition udp_WriteTo :: "'k ext \<Rightarrow> int \<Rightarrow> byte list \<Rightarrow> net_addr option \<Rightarrow> ('f, 'm, 'h, 'd, 'k) uds \<Rightarrow>
    int \<times> err option \<times> adds \<times> ('f, 'm, 'h, 'd, 'k) uds" where
  "udp_WriteTo X now p addr st =
     (case st of (uc, m, w) \<Rightarrow>
        if p = [] then (0, None, [], st)
        else if timer_passed now (uc_wtimer uc) then (0, Some ErrTimeout, [], st)
        else if \<not> uc_active uc then (0, Some ErrConnClosed, [], st)
        else if pw_Enabled (uc_postpone uc) then
          (case udp_writeToBuffer X p addr st of (n, e, st) \<Rightarrow> (n, e, [], st))
        else
          case udp_writeToNetFD X p addr st of (n, e, adds, st) \<Rightarrow>
            if n = 0 \<and> e = None \<or> e = Some EAGAIN then
              (case udp_writeToBuffer X p addr st of (n, e, st) \<Rightarrow> (n, e, adds, st))
            else (n, e, adds, st))"

text \<open>\<open>Write\<close>, on a connected socket, goes to the system call directly.\<close>

definition udp_Write :: "'k ext \<Rightarrow> int \<Rightarrow> byte list \<Rightarrow> ('f, 'm, 'h, 'd, 'k) uds \<Rightarrow>
    int \<times> err option \<times> ('f, 'm, 'h, 'd, 'k) uds" where
  "udp_Write X now b st =
     (case st of (uc, m, w) \<Rightarrow>
        if nfd_RemoteAddr (uc_nfd uc) = None then (0, Some (ErrText ''miss remote address''), st)
        else if timer_passed now (uc_wtimer uc) then (0, Some ErrTimeout, st)
        else if \<not> uc_active uc then (0, Some ErrConnClosed, st)
        else case x_write X (nf_fd (uc_nfd uc)) b (w_kernel w) of
          (Inl e, k) \<Rightarrow> (-1, Some e, uc, m, w\<lparr>w_kernel := k\<rparr>)
        | (Inr n, k) \<Rightarrow> (int n, None, uc, m, w\<lparr>w_kernel := k\<rparr>))"

section \<open>Settings\<close>

definition udp_IsActive :: "('f, 'm) udpconn \<Rightarrow> bool" where
  "udp_IsActive uc = uc_active uc"

definition udp_LocalAddr :: "('f, 'm) udpconn \<Rightarrow> net_addr" where
  "udp_LocalAddr uc = nfd_LocalAddr (uc_nfd uc)"

definition udp_RemoteAddr :: "('f, 'm) udpconn \<Rightarrow> net_addr option" where
  "udp_RemoteAddr uc = nfd_RemoteAddr (uc_nfd uc)"

definition udp_SetReadDeadline :: "int option \<Rightarrow> ('f, 'm) udpconn \<Rightarrow> err option \<times> ('f, 'm) udpconn" where
  "udp_SetReadDeadline t uc =
     (if \<not> uc_active uc then (Some ErrConnClosed, uc)
      else (None, uc\<lparr>uc_rtimer := Some (case uc_rtimer uc of None \<Rightarrow> timer_New t | Some r \<Rightarrow> timer_Reset t r)\<rparr>))"

definition udp_SetWriteDeadline :: "int option \<Rightarrow> ('f, 'm) udpconn \<Rightarrow> err option \<times> ('f, 'm) udpconn" where
  "udp_SetWriteDeadline t uc =
     (if \<not> uc_active uc then (Some ErrConnClosed, uc)
      else (None, uc\<lparr>uc_wtimer := Some (case uc_wtimer uc of None \<Rightarrow> timer_New t | Some r \<Rightarrow> timer_Reset t r)\<rparr>))"

definition udp_SetDeadline :: "int option \<Rightarrow> ('f, 'm) udpconn \<Rightarrow> err option \<times> ('f, 'm) udpconn" where
  "udp_SetDeadline t uc =
     (case udp_SetReadDeadline t uc of
        (Some e, uc) \<Rightarrow> (Some e, uc)
      | (None, uc) \<Rightarrow> udp_SetWriteDeadline t uc)"

definition SetMaxPacketSize :: "int \<Rightarrow> ('f, 'm) udpconn \<Rightarrow> ('f, 'm) udpconn" where
  "SetMaxPacketSize sz uc = uc\<lparr>uc_nfd := (uc_nfd uc)\<lparr>nf_udpBufferSize := sz\<rparr>\<rparr>"

definition SetExactUDPBufferSizeEnabled :: "bool \<Rightarrow> ('f, 'm) udpconn \<Rightarrow> ('f, 'm) udpconn" where
  "SetExactUDPBufferSizeEnabled b uc = uc\<lparr>uc_nfd := (uc_nfd uc)\<lparr>nf_exactUDPBufferSizeEnabled := b\<rparr>\<rparr>"

definition udp_SetNonBlocking :: "bool \<Rightarrow> ('f, 'm) udpconn \<Rightarrow> ('f, 'm) udpconn" where
  "udp_SetNonBlocking b uc = uc\<lparr>uc_nonblocking := b\<rparr>"

definition udp_Len :: "('f, 'm) udpconn \<Rightarrow> nat" where
  "udp_Len uc = (if \<not> uc_active uc then 0 else blocks_len (uc_inBuffer uc))"

definition udp_SetOnClosed :: "'f option \<Rightarrow> ('f, 'm) udpconn \<Rightarrow> err option \<times> ('f, 'm) udpconn" where
  "udp_SetOnClosed handle uc =
     (if \<not> uc_active uc then (Some ErrConnClosed, uc)
      else case handle of
        None \<Rightarrow> (Some (ErrText ''onClosed can't be nil''), uc)
      | Some f \<Rightarrow> (None, uc\<lparr>uc_closeHandle := Some f\<rparr>))"

definition udp_SetOnRequest :: "'f option \<Rightarrow> ('f, 'm) udpconn \<Rightarrow> err option \<times> ('f, 'm) udpconn" where
  "udp_SetOnRequest handle uc =
     (case handle of
        None \<Rightarrow> (Some (ErrText ''handle can't be nil''), uc)
      | Some f \<Rightarrow> (None, uc\<lparr>uc_reqHandle := Some f\<rparr>))"

definition udp_SetMetaData :: "'m option \<Rightarrow> ('f, 'm) udpconn \<Rightarrow> ('f, 'm) udpconn" where
  "udp_SetMetaData v uc = uc\<lparr>uc_metaData := v\<rparr>"

definition udp_GetMetaData :: "('f, 'm) udpconn \<Rightarrow> 'm option" where
  "udp_GetMetaData uc = uc_metaData uc"

section \<open>Closing\<close>

text \<open>\<open>Close\<close> for the goroutine that wins \<open>closeAll\<close>. Closing \<open>sysRead\<close> waits for whoever is inside; if that
  is the caller itself, \<open>Close\<close> never returns. \<open>onClosed\<close> runs the handler that was set.\<close>

definition udp_Close :: "'k ext \<Rightarrow> ('f \<Rightarrow> ('f, 'm, 'h, 'd, 'k) uds \<Rightarrow> ('f, 'm, 'h, 'd, 'k) uds) \<Rightarrow>
    ('f, 'm, 'h, 'd, 'k) uds \<Rightarrow> ('f, 'm, 'h, 'd, 'k) uds option" where
  "udp_Close X onClosed st =
     (case st of (uc, m, w) \<Rightarrow>
        if \<not> uc_active uc then Some st
        else if uc_sysRead uc then None
        else
          let st = (uc\<lparr>uc_active := False, uc_triggerClosed := True\<rparr>, m, w);
              (uc, m, w) = (case uc_closeHandle uc of None \<Rightarrow> st | Some f \<Rightarrow> onClosed f st);
              uc = uc\<lparr>uc_metaData := None, uc_rtimer := map_option timer_Stop (uc_rtimer uc),
                 uc_wtimer := map_option timer_Stop (uc_wtimer uc),
                 uc_closeService := map_option (\<lambda>n. n - 1) (uc_closeService uc)\<rparr>;
              (nfd, w) = nfd_close (x_kern X) (x_nsys X) (x_eps X) (uc_nfd uc) w
          in Some (uc\<lparr>uc_nfd := nfd\<rparr>, m, w))"

section \<open>Events\<close>

text \<open>The user's handlers: what they do to the state and the error they return, or \<open>None\<close> if they do not
  return.\<close>

record ('f, 'm, 'h, 'd, 'k) uhandlers =
  h_request :: "'f \<Rightarrow> ('f, 'm, 'h, 'd, 'k) uds \<Rightarrow> (err option \<times> ('f, 'm, 'h, 'd, 'k) uds) option"
  h_closed :: "'f \<Rightarrow> ('f, 'm, 'h, 'd, 'k) uds \<Rightarrow> ('f, 'm, 'h, 'd, 'k) uds"

definition udp_has_data :: "('f, 'm, 'h, 'd, 'k) uds \<Rightarrow> bool" where
  "udp_has_data st \<longleftrightarrow> udp_Len (fst st) > 0 \<and> udp_IsActive (fst st)"

definition on_uc :: "(('f, 'm) udpconn \<Rightarrow> ('f, 'm) udpconn) \<Rightarrow> ('f, 'm, 'h, 'd, 'k) uds \<Rightarrow> ('f, 'm, 'h, 'd, 'k) uds" where
  "on_uc g st = (case st of (uc, m, w) \<Rightarrow> (g uc, m, w))"

partial_function (option) udp_sync_loop :: "'k ext \<Rightarrow> ('f, 'm, 'h, 'd, 'k) uhandlers \<Rightarrow> 'f \<Rightarrow>
    ('f, 'm, 'h, 'd, 'k) uds \<Rightarrow> (err option \<times> ('f, 'm, 'h, 'd, 'k) uds) option" where
  "udp_sync_loop X H handler st =
     (if udp_has_data st then
        Option.bind (h_request H handler (on_uc (\<lambda>uc. uc\<lparr>uc_postpone := IncLoopCnt (uc_postpone uc)\<rparr>) st))
          (\<lambda>r. if fst r = None then udp_sync_loop X H handler (snd r)
               else Option.bind (udp_Close X (h_closed H) (snd r)) (\<lambda>st. Some (fst r, st)))
      else Some (None, st))"

definition udpSyncHandle :: "'k ext \<Rightarrow> ('f, 'm, 'h, 'd, 'k) uhandlers \<Rightarrow> ('f, 'm, 'h, 'd, 'k) uds \<Rightarrow>
    (err option \<times> adds \<times> ('f, 'm, 'h, 'd, 'k) uds) option" where
  "udpSyncHandle X H st =
     (case uc_reqHandle (fst st) of
        None \<Rightarrow> Some (Some (Fault ExplicitPanic), [], st)
      | Some handler \<Rightarrow>
          Option.bind (udp_sync_loop X H handler (on_uc (\<lambda>uc. uc\<lparr>uc_postpone := ResetLoopCnt (uc_postpone uc)\<rparr>) st))
            (\<lambda>(e, st). case e of
               Some e \<Rightarrow> Some (Some e, [], st)
             | None \<Rightarrow> (case CheckLoopCnt (uc_postpone (fst st)) of
                 (p, adds) \<Rightarrow> Some (None, adds, on_uc (\<lambda>uc. uc\<lparr>uc_postpone := p\<rparr>) st))))"

text \<open>The inner loop of \<open>udpAsyncHandler\<close> returns whether the handler failed.\<close>

partial_function (option) udp_async_inner :: "'k ext \<Rightarrow> ('f, 'm, 'h, 'd, 'k) uhandlers \<Rightarrow> 'f \<Rightarrow>
    ('f, 'm, 'h, 'd, 'k) uds \<Rightarrow> (bool \<times> ('f, 'm, 'h, 'd, 'k) uds) option" where
  "udp_async_inner X H handler st =
     (if udp_has_data st then
        Option.bind (h_request H handler st)
          (\<lambda>r. if fst r = None then udp_async_inner X H handler (snd r)
               else Option.bind (udp_Close X (h_closed H) (on_uc (\<lambda>uc. uc\<lparr>uc_reading := Unlock (uc_reading uc)\<rparr>) (snd r)))
                 (\<lambda>st. Some (True, st)))
      else Some (False, st))"

partial_function (option) udp_async_loop :: "'k ext \<Rightarrow> ('f, 'm, 'h, 'd, 'k) uhandlers \<Rightarrow> 'f \<Rightarrow>
    ('f, 'm, 'h, 'd, 'k) uds \<Rightarrow> ('f, 'm, 'h, 'd, 'k) uds option" where
  "udp_async_loop X H handler st =
     Option.bind (udp_async_inner X H handler st)
       (\<lambda>r. if fst r then Some (snd r)
            else
              let st = on_uc (\<lambda>uc. uc\<lparr>uc_reading := Unlock (uc_reading uc),
                         uc_postpone := ResetReadingTryLockFail (uc_postpone uc)\<rparr>) (snd r);
                  lk = TryLock (uc_reading (fst st))
              in if udp_Len (fst st) = 0 then Some st
                 else if \<not> fst lk then Some st
                 else udp_async_loop X H handler (on_uc (\<lambda>uc. uc\<lparr>uc_reading := snd lk\<rparr>) st))"

definition udpAsyncHandler :: "'k ext \<Rightarrow> ('f, 'm, 'h, 'd, 'k) uhandlers \<Rightarrow> ('f, 'm, 'h, 'd, 'k) uds \<Rightarrow>
    ('f, 'm, 'h, 'd, 'k) uds option" where
  "udpAsyncHandler X H st =
     (case uc_reqHandle (fst st) of None \<Rightarrow> Some st | Some handler \<Rightarrow> udp_async_loop X H handler st)"

text \<open>\<open>udpOnRead\<close>. The calling goroutine is inside \<open>sysRead\<close> until it returns. Sending on the trigger, a channel
  with room for one, is dropped when the channel is full.\<close>

definition udpOnRead_task :: "'k ext \<Rightarrow> ('f, 'm, 'h, 'd, 'k) uds \<Rightarrow>
    err option \<times> adds \<times> ('f, 'm, 'h, 'd, 'k) uds" where
  "udpOnRead_task X st =
     (case st of (uc, m, w) \<Rightarrow>
        let uc = uc\<lparr>uc_readTrigger := min 1 (uc_readTrigger uc + 1)\<rparr> in
        if uc_reqHandle uc = None then (None, [], uc, m, w)
        else case TryLock (uc_reading uc) of
          (False, _) \<Rightarrow>
            (case IncReadingTryLockFail (uc_postpone uc) of
               (p, adds) \<Rightarrow> (None, adds, uc\<lparr>uc_postpone := p\<rparr>, m, w))
        | (True, l) \<Rightarrow>
            (case doTask X (w_kernel w) of
               (e, adds, k) \<Rightarrow> (e, adds, uc\<lparr>uc_reading := l\<rparr>, m, w\<lparr>w_kernel := k\<rparr>)))"

definition udpOnRead :: "'k ext \<Rightarrow> ('f, 'm, 'h, 'd, 'k) uhandlers \<Rightarrow> nat option \<Rightarrow> (nat \<Rightarrow> nat option) \<Rightarrow>
    ('f, 'm, 'h, 'd, 'k) uds \<Rightarrow> (err option \<times> adds \<times> ('f, 'm, 'h, 'd, 'k) uds) option" where
  "udpOnRead X H pick pks st =
     (case st of (uc, m, w) \<Rightarrow>
        if \<not> uc_active uc then Some (None, [], st)
        else
          let uc = uc\<lparr>uc_sysRead := True\<rparr> in
          case FillToBuffer (x_usys X) pick pks (uc_nfd uc) (uc_inBuffer uc) (m, w_kernel w) of
            (e, b, adds, m, k) \<Rightarrow>
              let st = (uc\<lparr>uc_inBuffer := b\<rparr>, m, w\<lparr>w_kernel := k\<rparr>);
                  leave = on_uc (\<lambda>uc. uc\<lparr>uc_sysRead := False\<rparr>)
              in case e of
                Some e \<Rightarrow> Some (Some e, adds, leave st)
              | None \<Rightarrow>
                  if uc_nonblocking uc then
                    map_option (\<lambda>(e, adds', st). (e, adds @ adds', leave st)) (udpSyncHandle X H st)
                  else (case udpOnRead_task X st of (e, adds', st) \<Rightarrow> Some (e, adds @ adds', leave st)))"

definition udpOnWrite :: "'k ext \<Rightarrow> nat option \<Rightarrow> ('f, 'm, 'h, 'd, 'k) uds \<Rightarrow>
    err option \<times> adds \<times> ('f, 'm, 'h, 'd, 'k) uds" where
  "udpOnWrite X pick st =
     (case st of (uc, m, w) \<Rightarrow>
        if \<not> uc_active uc then (None, [], st)
        else case sendMMsg (x_usys X) pick (uc_nfd uc) (uc_outBuffer uc) (m, w_kernel w) of
          (e, b, adds, m, k) \<Rightarrow>
            let st = (uc\<lparr>uc_outBuffer := b\<rparr>, m, w\<lparr>w_kernel := k\<rparr>) in
            (case e of
               Some e \<Rightarrow> if e = EAGAIN then (None, adds, st) else (Some e, adds, st)
             | None \<Rightarrow>
                 if blocks_len b \<noteq> 0 then (None, adds, st)
                 else case udp_Control X ModReadable st of
                   (Some e, st) \<Rightarrow> (Some e, adds, st)
                 | (None, st) \<Rightarrow>
                     (case udp_recheck X None (on_uc (\<lambda>uc. uc\<lparr>uc_writing := Unlock (uc_writing uc)\<rparr>) st) of
                        (e, st) \<Rightarrow> (e, adds, st))))"

section \<open>Reading a packet\<close>

lemma ReadFrom_block:
  assumes "uc_active uc" and "0 < n" and "uc_inBuffer uc = r # rs" and "SockaddrSize \<le> sr_len r"
    and "sr_off r = 0" and "sr_len r \<le> length (u_heap m (sr_arr r))"
    and "SockaddrSliceToUDPAddr byIndex (block_addr (u_heap m) r) = Inr a"
  shows "\<exists>addr. ReadFrom byIndex now n (uc, m) =
      (Inr (take n (block_payload (u_heap m) r), Some addr), uc\<lparr>uc_inBuffer := rs\<rparr>, ref_Free r m) \<and>
    sr_arr (ua_IP addr) = sr_arr r \<and> ua_Port addr = ia_Port a \<and> ua_Zone addr = ia_Zone a \<and>
    sr_get (u_heap m) (ua_IP addr) = ia_IP a \<and>
    ua_IP addr = (if get_le16 (take 2 (block_addr (u_heap m) r)) = AF_INET then sr_sub 4 8 r else sr_sub 8 24 r)"
proof -
  have len: "SockaddrSize \<le> length (u_heap m (sr_arr r))" using assms(4,6) by simp
  have g: "sr_get (u_heap m) (sr_sub 0 SockaddrSize r) = block_addr (u_heap m) r"
    using assms(4,5) by (simp add: sr_get_def sr_sub_def block_addr_def slice_def min_def)
  have p: "sr_get (u_heap m) (sr_sub SockaddrSize (sr_len r) r) = block_payload (u_heap m) r"
    using assms(4,5) by (simp add: sr_get_def sr_sub_def block_payload_def slice_def drop_take)
  have s: "sr_get (u_heap m) (sr_sub lo hi r) = slice lo hi (block_addr (u_heap m) r)"
    if "lo \<le> hi" "hi \<le> SockaddrSize" for lo hi
    using that assms(4,5) by (simp add: sr_get_def sr_sub_def block_addr_def slice_def min_def drop_take)
  have t: "slice 0 2 (block_addr (u_heap m) r) = take 2 (block_addr (u_heap m) r)" by (simp add: slice_def)
  have pos: "0 < sr_len r" using assms(4) by (simp add: SockaddrSize_def)
  let ?u = "uc\<lparr>uc_inBuffer := rs\<rparr>"
  have rb: "udp_readBlock now uc = (Inr r, ?u)"
    using assms(1,3) pos by (simp add: udp_readBlock_def udp_waitRead_def blocks_len_def)
  have sub: "sr_sub lo hi (sr_sub 0 SockaddrSize r) = sr_sub lo hi r" for lo hi
    by (simp add: sr_sub_def)
  define ip where "ip = (if get_le16 (take 2 (block_addr (u_heap m) r)) = AF_INET then sr_sub 4 8 r else sr_sub 8 24 r)"
  have ia: "sr_get (u_heap m) ip = ia_IP a" "sr_arr ip = sr_arr r"
    using assms(7) s [of 4 8] s [of 8 24] t
    by (auto simp: ip_def SockaddrSliceToUDPAddr_def Let_def SockaddrSize_def sr_sub_def AF_INET_def AF_INET6_def split: if_splits)
  have "getUDPDataAndAddr byIndex (u_heap m) r =
      Inr (sr_sub SockaddrSize (sr_len r) r, \<lparr>ua_IP = ip, ua_Port = ia_Port a, ua_Zone = ia_Zone a\<rparr>)"
    using assms(4,7) g unfolding getUDPDataAndAddr_def getUDPAddr_def getUDPData_def Let_def sub ip_def by simp
  then have "ReadFrom byIndex now n (uc, m) =
      (Inr (take n (block_payload (u_heap m) r), Some \<lparr>ua_IP = ip, ua_Port = ia_Port a, ua_Zone = ia_Zone a\<rparr>), ?u, ref_Free r m)"
    using assms(1,2) rb p by (simp add: ReadFrom_def)
  with ia show ?thesis by (intro exI [of _ "\<lparr>ua_IP = ip, ua_Port = ia_Port a, ua_Zone = ia_Zone a\<rparr>"]) (simp add: ip_def)
qed

section \<open>Receiving and reading\<close>

text \<open>The addresses the kernel writes: 16 bytes for IPv4, 28 for IPv6. The code reads 28 bytes; \<open>source_addr\<close> is
  the address they stand for.\<close>

definition kernel_addr :: "byte list \<Rightarrow> bool" where
  "kernel_addr a \<longleftrightarrow>
     length a = 16 \<and> get_le16 (take 2 a) = AF_INET \<or> length a = SockaddrSize \<and> get_le16 (take 2 a) = AF_INET6"

definition source_addr :: "(int \<Rightarrow> string option) \<Rightarrow> byte list \<Rightarrow> err + ipaddr" where
  "source_addr byIndex a = SockaddrSliceToUDPAddr byIndex (a @ replicate (SockaddrSize - length a) 0)"

lemma slice_prefix: "take n bs = take n cs \<Longrightarrow> hi \<le> n \<Longrightarrow> slice lo hi bs = slice lo hi cs"
  by (metis drop_take min.absorb1 slice_def take_take)

lemma source_addr_prefix:
  assumes "kernel_addr a" and "take (length a) bs = a" and "length bs = SockaddrSize"
  shows "\<exists>x. SockaddrSliceToUDPAddr byIndex bs = Inr x \<and> source_addr byIndex a = Inr x"
proof -
  let ?cs = "a @ replicate (SockaddrSize - length a) 0"
  have cs: "length ?cs = SockaddrSize" "take (length a) bs = take (length a) ?cs"
    using assms by (auto simp: kernel_addr_def SockaddrSize_def)
  note sl = slice_prefix [OF cs(2)]
  have fam: "slice 0 2 bs = take 2 a" "slice 0 2 ?cs = take 2 a"
    using assms(1) sl [of 2 0] by (auto simp: kernel_addr_def SockaddrSize_def)
  have h: "hi \<le> length a \<Longrightarrow> slice lo hi bs = slice lo hi ?cs" for lo hi by (rule sl)
  show ?thesis
    using assms(1) [unfolded kernel_addr_def]
  proof (elim disjE conjE)
    assume a: "length a = 16" "get_le16 (take 2 a) = AF_INET"
    have "slice 2 4 bs = slice 2 4 ?cs" "slice 4 8 bs = slice 4 8 ?cs" using a(1) by (intro h; simp)+
    with a fam assms(3) cs(1) show ?thesis by (simp add: SockaddrSliceToUDPAddr_def source_addr_def Let_def)
  next
    assume a: "length a = SockaddrSize" "get_le16 (take 2 a) = AF_INET6"
    with assms have "bs = ?cs" by simp
    with a fam(2) cs(1) show ?thesis
      by (simp add: SockaddrSliceToUDPAddr_def source_addr_def Let_def AF_INET_def AF_INET6_def)
  qed
qed

text \<open>\<open>c\<close> reads in a row, each with the bytes and the address as they are when the read returns.\<close>

fun udp_reads :: "(int \<Rightarrow> string option) \<Rightarrow> int \<Rightarrow> nat \<Rightarrow> nat \<Rightarrow> ('f, 'm) udpconn \<times> umem \<Rightarrow>
    (byte list \<times> ipaddr) list \<times> ('f, 'm) udpconn \<times> umem" where
  "udp_reads byIndex now n 0 st = ([], st)"
| "udp_reads byIndex now n (Suc c) st =
     (case ReadFrom byIndex now n st of
        (Inr (bs, Some a), uc, m) \<Rightarrow>
          (case udp_reads byIndex now n c (uc, m) of
             (rs, st) \<Rightarrow> ((bs, \<lparr>ia_IP = sr_get (u_heap m) (ua_IP a), ia_Port = ua_Port a, ia_Zone = ua_Zone a\<rparr>) # rs, st))
      | (_, st) \<Rightarrow> ([], st))"

lemma ref_Free_heap [simp]: "u_heap (ref_Free r m) = u_heap m"
  by (simp add: ref_Free_def Let_def)

lemma udp_reads_blocks:
  assumes "uc_active uc" and "0 < n" and "uc_inBuffer uc = got @ rest" and "live_fits h got" and m: "u_heap m = h"
    and "list_all2 (holds_packet h room) got pkts"
    and "list_all (\<lambda>p. kernel_addr (fst p)) pkts"
  shows "\<exists>uc' m'. udp_reads byIndex now n (length pkts) (uc, m) =
      (map (\<lambda>p. (take n (take room (snd p)), projr (source_addr byIndex (fst p)))) pkts, uc', m') \<and>
    uc_inBuffer uc' = rest"
  using assms(6,1,3,4,5,7)
proof (induction got pkts arbitrary: uc m rule: list_all2_induct)
  case Nil
  then show ?case by simp
next
  case (Cons r got p pkts)
  have r: "sr_off r = 0" "sr_len r \<le> length (u_heap m (sr_arr r))" "SockaddrSize \<le> sr_len r"
    using Cons.prems(3,4) Cons.hyps(1) by (simp_all add: holds_packet_def)
  have len: "length (block_addr (u_heap m) r) = SockaddrSize"
    using r by (simp add: block_addr_def sr_get_def min_def)
  have h: "block_payload (u_heap m) r = take room (snd p)"
    "take (length (fst p)) (block_addr (u_heap m) r) = fst p" using Cons.hyps(1) Cons.prems(4) by (simp_all add: holds_packet_def)
  obtain x where x: "SockaddrSliceToUDPAddr byIndex (block_addr (u_heap m) r) = Inr x"
    "source_addr byIndex (fst p) = Inr x"
    using source_addr_prefix [OF _ h(2) len] Cons.prems(5) by auto
  obtain addr where rf: "ReadFrom byIndex now n (uc, m) =
      (Inr (take n (block_payload (u_heap m) r), Some addr), uc\<lparr>uc_inBuffer := got @ rest\<rparr>, ref_Free r m)"
    and addr: "ua_Port addr = ia_Port x" "ua_Zone addr = ia_Zone x" "sr_get (u_heap m) (ua_IP addr) = ia_IP x"
    using ReadFrom_block [OF Cons.prems(1) assms(2) _ r(3,1,2) x(1), where rs = "got @ rest" and now = now] Cons.prems(2)
    by auto
  have "\<exists>uc' m'. udp_reads byIndex now n (length pkts) (uc\<lparr>uc_inBuffer := got @ rest\<rparr>, ref_Free r m) =
      (map (\<lambda>p. (take n (take room (snd p)), projr (source_addr byIndex (fst p)))) pkts, uc', m') \<and>
    uc_inBuffer uc' = rest"
    by (rule Cons.IH) (use Cons.prems Cons.hyps(2) in \<open>simp_all\<close>)
  then show ?case using rf addr h(1) x(2) by auto
qed

text \<open>C11. UDP reception, from the socket to the caller: when the read event of an active, blocking connection
  finds the datagrams \<open>pkts\<close> (at most 32) in the socket, then as many calls of \<open>ReadFrom\<close> return exactly these
  datagrams in order, each with its payload (cut to the packet size of the connection and to the caller's
  buffer) and its source address, and leave the packets of the next event to the next calls.\<close>

theorem udp_receive_in_order:
  assumes "uc_active uc" "\<not> uc_nonblocking uc" "uc_reqHandle uc = None" "\<not> nf_exactUDPBufferSizeEnabled (uc_nfd uc)"
    and "uc_inBuffer uc = []" and ok: "mem_ok m []" "hdr_pool_ok m"
    and sz: "0 < nf_udpBufferSize (uc_nfd uc)" "nf_udpBufferSize (uc_nfd uc) < 2 ^ 32"
    and k: "next_datagrams (x_usys X) (nf_fd (uc_nfd uc)) (w_kernel w) pkts k'"
    and n: "length pkts \<le> udpPacketNum" "0 < n"
    and addr: "list_all (\<lambda>p. kernel_addr (fst p)) pkts"
  shows "\<exists>adds uc1 m1 w1 uc2 m2. udpOnRead X H pick pks (uc, m, w) = Some (None, adds, uc1, m1, w1) \<and>
    w_kernel w1 = k' \<and> uc_readTrigger uc1 = 1 \<and>
    udp_reads byIndex now n (length pkts) (uc1, m1) =
      (map (\<lambda>p. (take n (take (nat (nf_udpBufferSize (uc_nfd uc))) (snd p)), projr (source_addr byIndex (fst p)))) pkts, uc2, m2) \<and>
    uc_inBuffer uc2 = []"
proof -
  have al: "list_all (\<lambda>pkt. length (fst pkt) \<le> SockaddrSize) pkts"
    using addr by (auto simp: list_all_iff kernel_addr_def SockaddrSize_def)
  obtain got adds m1 where f: "FillToBuffer_batch (x_usys X) pick pks (uc_nfd uc) [] (m, w_kernel w) = (None, [] @ got, adds, m1, k')"
    and h: "list_all2 (holds_packet (u_heap m1) (nat (nf_udpBufferSize (uc_nfd uc)))) got pkts" and ok1: "mem_ok m1 ([] @ got)"
    using fill_batch_ok [OF ok sz k n(1) al, of pick pks] by blast
  let ?u = "uc\<lparr>uc_sysRead := False, uc_inBuffer := got, uc_readTrigger := 1\<rparr>"
  have r: "udpOnRead X H pick pks (uc, m, w) = Some (None, adds, ?u, m1, w\<lparr>w_kernel := k'\<rparr>)"
    using assms(1-5) f
    by (simp add: udpOnRead_def udpOnRead_task_def FillToBuffer_def Let_def on_uc_def)
  have "live_fits (u_heap m1) got" using ok1 by (simp add: mem_ok_def)
  then have "\<exists>uc' m'. udp_reads byIndex now n (length pkts) (?u, m1) =
      (map (\<lambda>p. (take n (take (nat (nf_udpBufferSize (uc_nfd uc))) (snd p)), projr (source_addr byIndex (fst p)))) pkts, uc', m') \<and>
    uc_inBuffer uc' = []"
    by (intro udp_reads_blocks [OF _ n(2) _ _ refl h addr]) (use assms(1) in simp_all)
  with r show ?thesis by fastforce
qed

section \<open>The address a read returns\<close>

lemma freed_in_cache:
  assumes "sr_cap (u_heap m) r = 2 ^ i" and "0 < i" "i < maxSize"
  shows "u_caches (ref_Free r m) = u_caches m @ [(i, r\<lparr>sr_len := 0\<rparr>)]"
    and "(2 :: nat) ^ i < 2 ^ 63" and "(2 :: nat) ^ i \<noteq> 1"
proof -
  have i: "i < 63" using assms(3) by (simp add: maxSize_def)
  then show "(2 :: nat) ^ i < 2 ^ 63" by (simp only: power_strict_increasing_iff)
  show "(2 :: nat) ^ i \<noteq> 1" using assms(2) by simp
  have "isPowerOfTwo (int (2 ^ i))" using isPowerOfTwo_power [of i] by simp
  with assms i CalIndex_power [OF assms(2) i] show "u_caches (ref_Free r m) = u_caches m @ [(i, r\<lparr>sr_len := 0\<rparr>)]"
    by (simp add: ref_Free_def Let_def)
qed

lemma first_buf_reused:
  assumes cap: "sr_cap (u_heap m) r = 2 ^ i" and i: "CalIndex (l + int SockaddrSize) = int i" "0 < i" "i < maxSize"
    and l: "0 < l" "l < 2 ^ 32" and pks: "pks 31 = Some (length (u_caches m))"
    and mb: "malloc_bufs pks (nat (l + int SockaddrSize)) udpPacketNum (ref_Free r m) = (Inr bufs, m3)"
  shows "bufs \<noteq> [] \<and> sr_arr (hd bufs) = sr_arr r"
proof -
  let ?n = "nat (l + int SockaddrSize)"
  have n: "?n < 2 ^ 63" using l by (simp add: SockaddrSize_def)
  have ci: "CalIndex (int ?n) = int i" using i(1) l by simp
  have le: "?n \<le> 2 ^ i" using CalIndex_cover(2) [OF n] ci by simp
  have "pool_take (pks 31) (\<lambda>x. fst x = i) (u_caches (ref_Free r m)) = (Some (i, r\<lparr>sr_len := 0\<rparr>), u_caches m)"
    using pks freed_in_cache(1) [OF cap i(2,3)] by (simp add: pool_take_def)
  then have "ref_Malloc (pks 31) ?n (ref_Free r m) = (Inr (r\<lparr>sr_len := ?n\<rparr>), (ref_Free r m)\<lparr>u_caches := u_caches m\<rparr>)"
    using ci i(3) le cap unfolding ref_Malloc_def by (simp add: sr_cap_def)
  moreover have u: "udpPacketNum = Suc 31" by (simp add: udpPacketNum_def)
  ultimately show ?thesis using mb unfolding u malloc_bufs.simps by (auto split: prod.splits sum.splits)
qed

text \<open>C37. The address \<open>ReadFrom\<close> returns does not last. Its IP is a slice of the packet's block, and the block
  goes back to the cache when \<open>ReadFrom\<close> returns; a later read event may take the same block for the next
  datagram, and then the address the caller still holds reads as that datagram's.\<close>

theorem readfrom_address_changes:
  assumes act: "uc_active uc" "0 < n" and b: "uc_inBuffer uc = r # rs"
    and ok: "mem_ok m (r # rs)" "hdr_pool_ok m" and len: "SockaddrSize \<le> sr_len r"
    and inet: "get_le16 (take 2 (block_addr (u_heap m) r)) = AF_INET"
    and sz: "0 < nf_udpBufferSize (uc_nfd uc)" "nf_udpBufferSize (uc_nfd uc) < 2 ^ 32"
    and i: "CalIndex (nf_udpBufferSize (uc_nfd uc) + int SockaddrSize) = int i" "i < maxSize"
    and cap: "sr_cap (u_heap m) r = 2 ^ i"
    and k: "next_datagrams U (nf_fd (uc_nfd uc)) k [(a, d)] k'" and a: "8 \<le> length a" "length a \<le> SockaddrSize"
  shows "\<exists>addr uc1 m1. ReadFrom byIndex now n (uc, m) = (Inr (take n (block_payload (u_heap m) r), Some addr), uc1, m1) \<and>
    sr_get (u_heap m1) (ua_IP addr) = slice 4 8 (block_addr (u_heap m) r) \<and>
    (\<exists>pks b2 adds m2. FillToBuffer_batch U None pks (uc_nfd uc1) (uc_inBuffer uc1) (m1, k) = (None, b2, adds, m2, k') \<and>
       sr_get (u_heap m2) (ua_IP addr) = slice 4 8 a)"
proof -
  have r: "sr_off r = 0" "sr_len r \<le> length (u_heap m (sr_arr r))" using ok(1) by (simp_all add: mem_ok_def)
  have bl: "length (block_addr (u_heap m) r) = SockaddrSize"
    using r len by (simp add: block_addr_def sr_get_def min_def)
  obtain x where x: "SockaddrSliceToUDPAddr byIndex (block_addr (u_heap m) r) = Inr x"
    "ia_IP x = slice 4 8 (block_addr (u_heap m) r)"
    using inet bl by (simp add: SockaddrSliceToUDPAddr_def Let_def)
  let ?u = "uc\<lparr>uc_inBuffer := rs\<rparr>" and ?m = "ref_Free r m"
  obtain addr where rf: "ReadFrom byIndex now n (uc, m) = (Inr (take n (block_payload (u_heap m) r), Some addr), ?u, ?m)"
    and ip: "sr_get (u_heap m) (ua_IP addr) = ia_IP x" "ua_IP addr = sr_sub 4 8 r"
    using ReadFrom_block [OF act b len r x(1), where now = now] inet by auto
  have i0: "0 < i" using CalIndex_cover(4) [of "nat (nf_udpBufferSize (uc_nfd uc) + int SockaddrSize)"] i(1) sz
    by (simp add: SockaddrSize_def)
  have ok1: "mem_ok ?m rs" "hdr_pool_ok ?m"
    using ref_Free_ok(1) [OF ok(1)] cap ok(2) freed_in_cache(2,3) [OF cap i0 i(2)]
    by (simp_all add: hdr_pool_ok_def ref_Free_def Let_def)
  define pks where "pks = (\<lambda>c :: nat. if c = 31 then Some (length (u_caches m)) else None)"
  obtain got adds m2 hdrs m0 bufs m3 where
    f: "FillToBuffer_batch U None pks (uc_nfd uc) rs (?m, k) = (None, rs @ got, adds, m2, k')"
    and h: "list_all2 (holds_packet (u_heap m2) (nat (nf_udpBufferSize (uc_nfd uc)))) got [(a, d)]"
    and ok2: "mem_ok m2 (rs @ got)" and g: "GetMMsghdrs None udpPacketNum ?m = (hdrs, m0)"
    and mb: "malloc_bufs pks (nat (nf_udpBufferSize (uc_nfd uc) + int SockaddrSize)) udpPacketNum m0 = (Inr bufs, m3)"
    and arr: "map sr_arr got = map sr_arr (take (length [(a, d)]) bufs)"
    using fill_batch_ok [OF ok1 sz k, of None pks] a(2) by (auto simp: udpPacketNum_def)
  have "m0 = ?m" using g by (simp add: GetMMsghdrs_def pool_take_def MaxLen_def udpPacketNum_def)
  then have hd: "sr_arr (hd bufs) = sr_arr r" "bufs \<noteq> []"
    using first_buf_reused [OF cap i(1) i0 i(2) sz, of pks] mb by (auto simp: pks_def)
  obtain q where q: "got = [q]" "sr_arr q = sr_arr r" using arr hd by (cases bufs) (auto simp: map_eq_Cons_conv)
  have "sr_off q = 0" "SockaddrSize \<le> sr_len q" "take (length a) (block_addr (u_heap m2) q) = a"
    using ok2 h q by (simp_all add: mem_ok_def live_fits_def holds_packet_def)
  then have "take (length a) (u_heap m2 (sr_arr r)) = take (length a) a"
    using a q(2) by (simp add: block_addr_def sr_get_def min_def)
  from slice_prefix [OF this a(1), of 4] have "sr_get (u_heap m2) (ua_IP addr) = slice 4 8 a"
    using ip(2) r(1) by (simp add: sr_get_def sr_sub_def)
  with rf ip(1) x(2) f show ?thesis by fastforce
qed

section \<open>Instances\<close>

definition new_udpconn :: "(nat, nat) udpconn" where
  "new_udpconn = \<lparr>uc_metaData = None, uc_reqHandle = None, uc_closeHandle = None, uc_inBuffer = [], uc_outBuffer = [],
     uc_nfd = udp_nfd, uc_active = True, uc_nonblocking = False, uc_rtimer = None, uc_wtimer = None, uc_readTrigger = 0,
     uc_triggerClosed = False, uc_postpone = zero_postpone, uc_reading = unlocked, uc_writing = unlocked,
     uc_closeService = None, uc_sysRead = False\<rparr>"

definition queue_world :: "'k \<Rightarrow> (nat, nat, 'k) world" where
  "queue_world k = \<lparr>w_cache = \<lparr>dc_first = None, dc_cache = [], dc_freeList = []\<rparr>, w_kernel = k, w_spawned = []\<rparr>"

definition ipv4_bytes :: "byte \<Rightarrow> byte list" where
  "ipv4_bytes x = [2, 0, 0, 80, 10, 0, 0, x] @ replicate 8 0"

theorem udp_receive_in_order_witness:
  "\<exists>adds uc1 m1 w1 uc2 m2. udpOnRead (idle_ext queue_usys) \<lparr>h_request = \<lambda>_ st. None, h_closed = \<lambda>_ st. st\<rparr> None (\<lambda>_. None)
      (new_udpconn, empty_mem, queue_world [(ipv4_bytes 1, [7, 8, 9]), (ipv4_bytes 2, [])]) = Some (None, adds, uc1, m1, w1) \<and>
    udp_reads (\<lambda>_. None) 0 2 2 (uc1, m1) =
      ([([7, 8], \<lparr>ia_IP = [10, 0, 0, 1], ia_Port = 80, ia_Zone = ''''\<rparr>),
        ([], \<lparr>ia_IP = [10, 0, 0, 2], ia_Port = 80, ia_Zone = ''''\<rparr>)], uc2, m2)"
proof -
  let ?k = "[(ipv4_bytes 1, [7, 8, 9]), (ipv4_bytes 2, [])] :: (byte list \<times> byte list) list"
  let ?H = "\<lparr>h_request = \<lambda>_ st. None, h_closed = \<lambda>_ st. st\<rparr> :: (nat, nat, nat, nat, (byte list \<times> byte list) list) uhandlers"
  have k: "next_datagrams (x_usys (idle_ext queue_usys)) (nf_fd (uc_nfd new_udpconn)) (w_kernel (queue_world ?k)) ?k []"
    using queue_next_datagrams [of ?k] by (simp add: idle_ext_def queue_world_def)
  have ka: "kernel_addr (ipv4_bytes x)" for x
    by (simp add: kernel_addr_def ipv4_bytes_def get_le16_def AF_INET_def)
  have so: "source_addr (\<lambda>_. None) (ipv4_bytes x) = Inr \<lparr>ia_IP = [10, 0, 0, x], ia_Port = 80, ia_Zone = ''''\<rparr>" for x
    by (simp add: source_addr_def ipv4_bytes_def SockaddrSliceToUDPAddr_def SockaddrSize_def Let_def slice_def get_le16_def
        AF_INET_def BigToLittleEndian_def put_be16_def)
  have u: "uc_active new_udpconn" "\<not> uc_nonblocking new_udpconn" "uc_reqHandle new_udpconn = None"
    "\<not> nf_exactUDPBufferSizeEnabled (uc_nfd new_udpconn)" "uc_inBuffer new_udpconn = []"
    by (simp_all add: new_udpconn_def udp_nfd_def)
  have sz: "0 < nf_udpBufferSize (uc_nfd new_udpconn)" "nf_udpBufferSize (uc_nfd new_udpconn) < 2 ^ 32"
    by (simp_all add: new_udpconn_def udp_nfd_def)
  have pool: "hdr_pool_ok empty_mem" by (simp add: hdr_pool_ok_def empty_mem_def)
  have n: "length ?k \<le> udpPacketNum" "0 < (2 :: nat)" by (simp_all add: udpPacketNum_def)
  have addr: "list_all (\<lambda>p. kernel_addr (fst p)) ?k" using ka by simp
  obtain adds uc1 m1 w1 uc2 m2 where
    r: "udpOnRead (idle_ext queue_usys) ?H None (\<lambda>_. None) (new_udpconn, empty_mem, queue_world ?k) = Some (None, adds, uc1, m1, w1)"
    and rd: "udp_reads (\<lambda>_. None) 0 2 (length ?k) (uc1, m1) =
      (map (\<lambda>p. (take 2 (take (nat (nf_udpBufferSize (uc_nfd new_udpconn))) (snd p)), projr (source_addr (\<lambda>_. None) (fst p)))) ?k, uc2, m2)"
    using udp_receive_in_order [OF u mem_ok_empty pool sz k n addr, of ?H None "\<lambda>_. None" "\<lambda>_. None" 0] by blast
  from rd so have "udp_reads (\<lambda>_. None) 0 2 2 (uc1, m1) =
      ([([7, 8], \<lparr>ia_IP = [10, 0, 0, 1], ia_Port = 80, ia_Zone = ''''\<rparr>),
        ([], \<lparr>ia_IP = [10, 0, 0, 2], ia_Port = 80, ia_Zone = ''''\<rparr>)], uc2, m2)"
    by (simp add: new_udpconn_def udp_nfd_def numeral_2_eq_2)
  with r show ?thesis by blast
qed

theorem readfrom_address_changes_witness:
  "\<exists>addr uc1 m1 uc m. ReadFrom (\<lambda>_. None) 0 50 (uc :: (nat, nat) udpconn, m) = (Inr ([0, 0], Some addr), uc1, m1) \<and>
    sr_get (u_heap m1) (ua_IP addr) = [10, 0, 0, 1] \<and>
    (\<exists>pks b2 adds m2. FillToBuffer_batch queue_usys None pks (uc_nfd uc1) (uc_inBuffer uc1) (m1, [(ipv4_bytes 2, [5])]) =
       (None, b2, adds, m2, []) \<and> sr_get (u_heap m2) (ua_IP addr) = [10, 0, 0, 2])"
proof -
  define r where "r = \<lparr>sr_arr = 0, sr_off = 0, sr_len = 30\<rparr>"
  define m where "m = empty_mem\<lparr>u_heap := (\<lambda>_. [])(0 := ipv4_bytes 1 @ replicate 112 0), u_next := 1\<rparr>"
  define uc where "uc = new_udpconn\<lparr>uc_inBuffer := [r]\<rparr>"
  have h: "u_heap m (sr_arr r) = ipv4_bytes 1 @ replicate 112 0" by (simp add: m_def r_def)
  have bytes: "length (ipv4_bytes x) = 16" "slice 4 8 (ipv4_bytes x) = [10, 0, 0, x]" "take 2 (ipv4_bytes x) = [2, 0]" for x
    by (simp_all add: ipv4_bytes_def slice_def)
  have ba: "block_addr (u_heap m) r = ipv4_bytes 1 @ replicate 12 0"
    using h bytes(1) by (simp add: block_addr_def sr_get_def r_def SockaddrSize_def)
  have bp: "block_payload (u_heap m) r = [0, 0]"
    using h bytes(1) by (simp add: block_payload_def sr_get_def r_def SockaddrSize_def numeral_2_eq_2)
  have s: "slice 4 8 (block_addr (u_heap m) r) = [10, 0, 0, 1]"
    using slice_prefix [of 16 "ipv4_bytes 1 @ replicate 12 0" "ipv4_bytes 1" 8 4] bytes ba by simp
  have inet: "get_le16 (take 2 (block_addr (u_heap m) r)) = AF_INET"
    using bytes by (simp add: ba get_le16_def AF_INET_def)
  have uc: "uc_active uc" "uc_inBuffer uc = r # []" "0 < nf_udpBufferSize (uc_nfd uc)" "nf_udpBufferSize (uc_nfd uc) < 2 ^ 32"
    "nf_fd (uc_nfd uc) = 9"
    by (simp_all add: uc_def new_udpconn_def udp_nfd_def)
  have ok: "mem_ok m (r # [])" "hdr_pool_ok m"
    using h bytes(1) by (simp_all add: mem_ok_def m_def r_def empty_mem_def pool_arrs_def hdr_pool_ok_def)
  have ci: "CalIndex (nf_udpBufferSize (uc_nfd uc) + int SockaddrSize) = int 7"
    using CalIndex_power [of 7] by (simp add: uc_def new_udpconn_def udp_nfd_def SockaddrSize_def)
  have cap: "sr_cap (u_heap m) r = 2 ^ 7" "7 < maxSize" "SockaddrSize \<le> sr_len r"
    using h bytes(1) by (simp_all add: sr_cap_def r_def maxSize_def SockaddrSize_def)
  have k: "next_datagrams queue_usys (nf_fd (uc_nfd uc)) [(ipv4_bytes 2, [5])] [(ipv4_bytes 2, [5])] []"
    by (rule queue_next_datagrams) simp
  have len: "8 \<le> length (ipv4_bytes 2)" "length (ipv4_bytes 2) \<le> SockaddrSize" "0 < (50 :: nat)"
    using bytes(1) by (simp_all add: SockaddrSize_def)
  show ?thesis
    using readfrom_address_changes [OF uc(1) len(3) uc(2) ok cap(3) inet uc(3,4) ci cap(2,1) k len(1,2), of "\<lambda>_. None" 0]
    unfolding s bp bytes(2) by fastforce
qed

end
