(* ===== verification/Tcpconn.thy ===== *)
theory Tcpconn
  imports Conn_Common Buffer_Queue Fixed_Buffer
begin

text \<open>
  Model of \<open>tcpconn.go\<close>: a TCP connection over the linked buffer, the fixed buffer that keeps what was
  received before closing, the timers and the \<open>netFD\<close>. Each operation is a function of the connection and
  its environment. Of the jobs of the closer the state keeps whether the connection is active and whether the
  calling goroutine is inside \<open>sysRead\<close>; their interleaving is in \<open>Closer\<close>, that of writers and the poller in
  \<open>Write_Path\<close>. Operations that may not return have the value \<open>None\<close> then.
\<close>

section \<open>State\<close>

definition defaultTCPKeepAlive :: int where
  "defaultTCPKeepAlive = 15 * 10 ^ 9"

definition DefaultCleanUpThrottle :: int where
  "DefaultCleanUpThrottle = 10000"

record ('f, 'm) tcpconn =
  tc_service :: bool
  tc_metaData :: "'m option"
  tc_reqHandle :: "'f option"
  tc_closeHandle :: "'f option"
  tc_readTrigger :: nat
  tc_triggerClosed :: bool
  tc_closedFinished :: bool
  tc_inBuffer :: buffer
  tc_outBuffer :: buffer
  tc_closedReadBuf :: fixed
  tc_rtimer :: "timer option"
  tc_wtimer :: "timer option"
  tc_idleTimer :: "nat option"
  tc_writeIdleTimer :: "nat option"
  tc_readIdleTimer :: "nat option"
  tc_writevData :: iodata
  tc_nfd :: netFD
  tc_active :: bool
  tc_sysRead :: bool
  tc_postpone :: PostponeWrite
  tc_waitReadLen :: u32
  tc_reading :: u32
  tc_writing :: u32
  tc_nonblocking :: bool
  tc_safeWrite :: bool
  tc_outboundBufferLimit :: int

text \<open>What connections share: the pollers and the kernel, the default time wheel with its timers, the table of
  connections of the service they belong to, the blocks \<open>mcache\<close> hands out and the flag \<open>buffer.cleanUp\<close>.\<close>

record ('h, 'd, 'k) tenv =
  e_world :: "('h, 'd, 'k) world"
  e_wheel :: wheel
  e_nextTimer :: nat
  e_conns :: "int \<rightharpoonup> nat"
  e_alloc :: "nat \<Rightarrow> byte list"
  e_cleanUp :: bool

type_synonym ('f, 'm, 'h, 'd, 'k) tcs = "('f, 'm) tcpconn \<times> ('h, 'd, 'k) tenv"

definition on_tc :: "(('f, 'm) tcpconn \<Rightarrow> ('f, 'm) tcpconn) \<Rightarrow> ('f, 'm, 'h, 'd, 'k) tcs \<Rightarrow> ('f, 'm, 'h, 'd, 'k) tcs" where
  "on_tc g st = (g (fst st), snd st)"

definition set_kernel :: "'k \<Rightarrow> ('h, 'd, 'k) tenv \<Rightarrow> ('h, 'd, 'k) tenv" where
  "set_kernel k e = e\<lparr>e_world := (e_world e)\<lparr>w_kernel := k\<rparr>\<rparr>"

abbreviation kernel :: "('h, 'd, 'k) tenv \<Rightarrow> 'k" where
  "kernel e \<equiv> w_kernel (e_world e)"

section \<open>Buffer clean-up\<close>

text \<open>One tick of \<open>checkAndSetBufferCleanUp\<close>: what it stores into \<open>buffer.cleanUp\<close> and \<open>MassiveConnections\<close>. The
  difference of the counters is a 64-bit one.\<close>

definition checkAndSetBufferCleanUp :: "metrics \<Rightarrow> fault + bool" where
  "checkAndSetBufferCleanUp m =
     (case metrics_Get TCPConnsCreate m of
        Inl f \<Rightarrow> Inl f
      | Inr c \<Rightarrow>
          (case metrics_Get TCPConnsClose m of
             Inl f \<Rightarrow> Inl f
           | Inr d \<Rightarrow> Inr (c - d \<ge> of_int DefaultCleanUpThrottle)))"

section \<open>Waiting for data\<close>

definition tcp_IsActive :: "('f, 'm) tcpconn \<Rightarrow> bool" where
  "tcp_IsActive tc = tc_active tc"

definition tcp_waitReadWithTimeout :: "int \<Rightarrow> int \<Rightarrow> timer \<Rightarrow> ('f, 'm) tcpconn \<Rightarrow> wait \<times> timer" where
  "tcp_waitReadWithTimeout now n t tc =
     (let t = timer_Start now t in
      if timer_Wait t = Inr True then (Failed ErrTimeout, t)
      else if int (LenRead (tc_inBuffer tc)) \<ge> n then (Ready, t)
      else if \<not> tcp_IsActive tc then (Failed ErrConnClosed, t)
      else (Blocked, t))"

definition tcp_waitRead :: "int \<Rightarrow> int \<Rightarrow> ('f, 'm) tcpconn \<Rightarrow> wait \<times> ('f, 'm) tcpconn" where
  "tcp_waitRead now n tc =
     (if \<not> tcp_IsActive tc then (Failed ErrConnClosed, tc)
      else if int (LenRead (tc_inBuffer tc)) \<ge> n then (Ready, tc)
      else
        let tc = tc\<lparr>tc_waitReadLen := of_int n\<rparr> in
        if tc_nonblocking tc then (Failed ErrAgain, tc)
        else
          let (r, tc) = (case tc_rtimer tc of
             Some t \<Rightarrow>
               if \<not> timer_IsZero t then
                 case tcp_waitReadWithTimeout now n t tc of (r, t) \<Rightarrow> (r, tc\<lparr>tc_rtimer := Some t\<rparr>)
               else (Blocked, tc)
           | None \<Rightarrow> (Blocked, tc))
          in (r, if r = Blocked then tc else tc\<lparr>tc_waitReadLen := 0\<rparr>))"

text \<open>What a goroutine that blocked in \<open>waitRead\<close> does next: it takes the token of the trigger (or sees it closed)
  and looks at the buffer again, or its timer fires; if both happened, \<open>timer_first\<close> is the choice of
  \<open>select\<close>.\<close>

definition tcp_recheck :: "int \<Rightarrow> ('f, 'm) tcpconn \<Rightarrow> wait" where
  "tcp_recheck n tc =
     (if int (LenRead (tc_inBuffer tc)) \<ge> n then Ready
      else if \<not> tcp_IsActive tc then Failed ErrConnClosed
      else Blocked)"

definition tcp_wake :: "bool \<Rightarrow> int \<Rightarrow> ('f, 'm) tcpconn \<Rightarrow> wait \<times> ('f, 'm) tcpconn" where
  "tcp_wake timer_first n tc =
     (let timed = (case tc_rtimer tc of Some t \<Rightarrow> \<not> timer_IsZero t \<and> timer_Wait t = Inr True | None \<Rightarrow> False);
          token = (tc_readTrigger tc > 0 \<or> tc_triggerClosed tc);
          r = (if timed \<and> (timer_first \<or> \<not> token) then
                 if int (LenRead (tc_inBuffer tc)) \<ge> n then Ready else Failed ErrTimeout
               else if token then tcp_recheck n tc else Blocked);
          tc = (if token \<and> \<not> (timed \<and> timer_first) then tc\<lparr>tc_readTrigger := tc_readTrigger tc - 1\<rparr> else tc)
      in (r, if r = Blocked then tc else tc\<lparr>tc_waitReadLen := 0\<rparr>))"

section \<open>Reading\<close>

text \<open>Whether a read falls back to the bytes saved by \<open>Close\<close>.\<close>

definition needReadFromClosedReadBuf :: "err option \<Rightarrow> ('f, 'm) tcpconn \<Rightarrow> bool" where
  "needReadFromClosedReadBuf e tc \<longleftrightarrow> \<not> tcp_IsActive tc \<and> e = Some ErrConnClosed"

text \<open>The five reading operations share one shape: inside \<open>apiRead\<close>, wait for \<open>n\<close> bytes and use the input buffer;
  after leaving \<open>apiRead\<close>, on a closed connection use the saved bytes. The first component is \<open>None\<close> while the
  caller is blocked.\<close>

definition tcp_read_op :: "int \<Rightarrow> int \<Rightarrow> (buffer \<Rightarrow> 'r \<times> err option \<times> buffer) \<Rightarrow> (fixed \<Rightarrow> 'r \<times> err option \<times> fixed) \<Rightarrow> 'r \<Rightarrow>
    ('f, 'm) tcpconn \<Rightarrow> ('r \<times> err option) option \<times> ('f, 'm) tcpconn" where
  "tcp_read_op now n op_in op_closed none tc =
     (let closed = (\<lambda>e tc. if needReadFromClosedReadBuf e tc then
            case op_closed (tc_closedReadBuf tc) of (r, e, c) \<Rightarrow> (Some (r, e), tc\<lparr>tc_closedReadBuf := c\<rparr>)
          else (Some (none, e), tc))
      in if \<not> tc_active tc then closed (Some ErrConnClosed) tc
         else case tcp_waitRead now n tc of
           (Blocked, tc) \<Rightarrow> (None, tc)
         | (Failed e, tc) \<Rightarrow> closed (Some e) tc
         | (Ready, tc) \<Rightarrow> (case op_in (tc_inBuffer tc) of (r, e, b) \<Rightarrow> (Some (r, e), tc\<lparr>tc_inBuffer := b\<rparr>)))"

definition tcp_Read :: "bool \<Rightarrow> int \<Rightarrow> nat \<Rightarrow> ('f, 'm) tcpconn \<Rightarrow> ((nat \<times> byte list) \<times> err option) option \<times> ('f, 'm) tcpconn" where
  "tcp_Read cleanUp now m tc =
     (if m = 0 then (Some ((0, []), None), tc)
      else tcp_read_op now 1 (buffer_Read cleanUp m) (fixed_Read m) (0, []) tc)"

definition tcp_ReadN :: "bool \<Rightarrow> int \<Rightarrow> int \<Rightarrow> ('f, 'm) tcpconn \<Rightarrow> (byte list \<times> err option) option \<times> ('f, 'm) tcpconn" where
  "tcp_ReadN cleanUp now n tc =
     tcp_read_op now n
       (\<lambda>b. if n < 0 then ([], Some (Fault SliceBounds), b)
            else case buffer_Read cleanUp (nat n) b of
              ((c, p), Some e, b) \<Rightarrow> ([], Some e, b)
            | ((c, p), None, b) \<Rightarrow> (p @ replicate (nat n - length p) 0, None, b))
       (fixed_ReadN n) [] tc"

definition tcp_Next :: "int \<Rightarrow> int \<Rightarrow> ('f, 'm) tcpconn \<Rightarrow> (byte list \<times> err option) option \<times> ('f, 'm) tcpconn" where
  "tcp_Next now n tc = tcp_read_op now n (Next n) (fixed_Next n) [] tc"

definition tcp_Peek :: "int \<Rightarrow> int \<Rightarrow> ('f, 'm) tcpconn \<Rightarrow> (byte list \<times> err option) option \<times> ('f, 'm) tcpconn" where
  "tcp_Peek now n tc = tcp_read_op now n (Peek n) (fixed_Peek n) [] tc"

definition tcp_Skip :: "int \<Rightarrow> int \<Rightarrow> ('f, 'm) tcpconn \<Rightarrow> (unit \<times> err option) option \<times> ('f, 'm) tcpconn" where
  "tcp_Skip now n tc =
     tcp_read_op now n (\<lambda>b. case Skip n b of (e, b) \<Rightarrow> ((), e, b)) (\<lambda>c. case fixed_Skip n c of (e, c) \<Rightarrow> ((), e, c)) () tc"

definition tcp_Release :: "bool \<Rightarrow> ('f, 'm) tcpconn \<Rightarrow> err option \<times> ('f, 'm) tcpconn" where
  "tcp_Release cleanUp tc =
     (if \<not> tc_active tc then (None, tc)
      else case Release cleanUp (tc_inBuffer tc) of (e, b) \<Rightarrow> (e, tc\<lparr>tc_inBuffer := b\<rparr>))"

definition tcp_Len :: "('f, 'm) tcpconn \<Rightarrow> nat" where
  "tcp_Len tc = (if \<not> tc_active tc then 0 else LenRead (tc_inBuffer tc))"

section \<open>Idle timers\<close>

text \<open>The package-level \<open>Add\<close> and \<open>Del\<close> of \<open>asynctimer\<close> work on the default wheel. A new timer is a new pointer;
  its callback is \<open>tcpOnIdle\<close>.\<close>

definition new_idle_timer :: "int \<Rightarrow> ('h, 'd, 'k) tenv \<Rightarrow> nat \<times> ('h, 'd, 'k) tenv" where
  "new_idle_timer d e =
     (e_nextTimer e,
      e\<lparr>e_wheel := upd_timer (e_nextTimer e) (\<lambda>_. NewTimer True d) (e_wheel e), e_nextTimer := e_nextTimer e + 1\<rparr>)"

definition asynctimer_Add :: "nat \<Rightarrow> ('h, 'd, 'k) tenv \<Rightarrow> err option \<times> ('h, 'd, 'k) tenv" where
  "asynctimer_Add t e = (case wheel_Add t (e_wheel e) of (r, w) \<Rightarrow> (r, e\<lparr>e_wheel := w\<rparr>))"

definition asynctimer_Del :: "nat \<Rightarrow> ('h, 'd, 'k) tenv \<Rightarrow> ('h, 'd, 'k) tenv" where
  "asynctimer_Del t e = e\<lparr>e_wheel := wheel_Del t (e_wheel e)\<rparr>"

definition del_timer :: "nat option \<Rightarrow> ('h, 'd, 'k) tenv \<Rightarrow> ('h, 'd, 'k) tenv" where
  "del_timer t e = (case t of None \<Rightarrow> e | Some t \<Rightarrow> asynctimer_Del t e)"

text \<open>The body that the three setters share: the timer the connection has before, and the new one if there is
  one.\<close>

definition set_idle :: "nat option \<Rightarrow> int \<Rightarrow> ('h, 'd, 'k) tenv \<Rightarrow> err option \<times> nat option \<times> ('h, 'd, 'k) tenv" where
  "set_idle old d e =
     (let e = del_timer old e in
      if d \<le> 0 then (None, old, e)
      else
        let (t, e) = new_idle_timer d e in
        case asynctimer_Add t e of (r, e) \<Rightarrow> (r, Some t, e))"

definition tcp_SetIdleTimeout :: "int \<Rightarrow> ('f, 'm, 'h, 'd, 'k) tcs \<Rightarrow> err option \<times> ('f, 'm, 'h, 'd, 'k) tcs" where
  "tcp_SetIdleTimeout d st =
     (case st of (tc, e) \<Rightarrow>
        if \<not> tcp_IsActive tc then (Some ErrConnClosed, st)
        else case set_idle (tc_idleTimer tc) d e of (r, t, e) \<Rightarrow> (r, tc\<lparr>tc_idleTimer := t\<rparr>, e))"

definition tcp_SetWriteIdleTimeout :: "int \<Rightarrow> ('f, 'm, 'h, 'd, 'k) tcs \<Rightarrow> err option \<times> ('f, 'm, 'h, 'd, 'k) tcs" where
  "tcp_SetWriteIdleTimeout d st =
     (case st of (tc, e) \<Rightarrow>
        if \<not> tcp_IsActive tc then (Some ErrConnClosed, st)
        else case set_idle (tc_writeIdleTimer tc) d e of (r, t, e) \<Rightarrow> (r, tc\<lparr>tc_writeIdleTimer := t\<rparr>, e))"

definition tcp_SetReadIdleTimeout :: "int \<Rightarrow> ('f, 'm, 'h, 'd, 'k) tcs \<Rightarrow> err option \<times> ('f, 'm, 'h, 'd, 'k) tcs" where
  "tcp_SetReadIdleTimeout d st =
     (case st of (tc, e) \<Rightarrow>
        if \<not> tcp_IsActive tc then (Some ErrConnClosed, st)
        else case set_idle (tc_readIdleTimer tc) d e of (r, t, e) \<Rightarrow> (r, tc\<lparr>tc_readIdleTimer := t\<rparr>, e))"

definition refresh :: "nat option \<Rightarrow> ('h, 'd, 'k) tenv \<Rightarrow> err option \<times> ('h, 'd, 'k) tenv" where
  "refresh t e = (case t of None \<Rightarrow> (None, e) | Some t \<Rightarrow> asynctimer_Add t e)"

definition refreshConn :: "('f, 'm) tcpconn \<Rightarrow> ('h, 'd, 'k) tenv \<Rightarrow> err option \<times> ('h, 'd, 'k) tenv" where
  "refreshConn tc e = refresh (tc_idleTimer tc) e"

definition refreshWriteIdleTimeout :: "('f, 'm) tcpconn \<Rightarrow> ('h, 'd, 'k) tenv \<Rightarrow> err option \<times> ('h, 'd, 'k) tenv" where
  "refreshWriteIdleTimeout tc e = refresh (tc_writeIdleTimer tc) e"

definition refreshReadIdleTimeout :: "('f, 'm) tcpconn \<Rightarrow> ('h, 'd, 'k) tenv \<Rightarrow> err option \<times> ('h, 'd, 'k) tenv" where
  "refreshReadIdleTimeout tc e = refresh (tc_readIdleTimer tc) e"

section \<open>Closing\<close>

definition storeReadBuffer :: "bool \<Rightarrow> ('f, 'm) tcpconn \<Rightarrow> err option \<times> ('f, 'm) tcpconn" where
  "storeReadBuffer cleanUp tc =
     (let rlen = LenRead (tc_inBuffer tc) in
      if rlen = 0 then (None, tc)
      else case buffer_Read cleanUp rlen (tc_inBuffer tc) of
        ((n, p), Some e, b) \<Rightarrow> (Some e, tc\<lparr>tc_inBuffer := b\<rparr>)
      | ((n, p), None, b) \<Rightarrow>
          (None, tc\<lparr>tc_inBuffer := b,
             tc_closedReadBuf := fixed_Initialize (take n p) (Some ErrConnClosed) (tc_closedReadBuf tc)\<rparr>))"

definition deleteConn :: "int \<Rightarrow> ('h, 'd, 'k) tenv \<Rightarrow> ('h, 'd, 'k) tenv" where
  "deleteConn fd e = (if e_conns e fd = None then e else e\<lparr>e_conns := (e_conns e)(fd := None)\<rparr>)"

text \<open>\<open>Close\<close> for the goroutine that wins \<open>closeAll\<close>, up to the user's closing handler and from there to the end.
  Closing \<open>sysRead\<close> waits for whoever is inside; if that is the caller itself, \<open>Close\<close> never returns.\<close>

definition tcp_close_jobs :: "('f, 'm, 'h, 'd, 'k) tcs \<Rightarrow> ('f, 'm, 'h, 'd, 'k) tcs" where
  "tcp_close_jobs st =
     (case st of (tc, e) \<Rightarrow>
        let tc = tc\<lparr>tc_active := False, tc_triggerClosed := True\<rparr>;
            (_, tc) = storeReadBuffer (e_cleanUp e) tc
        in (tc\<lparr>tc_closedFinished := True\<rparr>, e))"

definition tcp_close_rest :: "'k ext \<Rightarrow> ('f, 'm, 'h, 'd, 'k) tcs \<Rightarrow> ('f, 'm, 'h, 'd, 'k) tcs" where
  "tcp_close_rest X st =
     (case st of (tc, e) \<Rightarrow>
        let tc = tc\<lparr>tc_rtimer := map_option timer_Stop (tc_rtimer tc), tc_wtimer := map_option timer_Stop (tc_wtimer tc)\<rparr>;
            e = (if tc_service tc then deleteConn (nfd_FD (tc_nfd tc)) e else e);
            e = del_timer (tc_readIdleTimer tc) (del_timer (tc_writeIdleTimer tc) (del_timer (tc_idleTimer tc) e));
            (nfd, w) = nfd_close (x_kern X) (x_nsys X) (x_eps X) (tc_nfd tc) (e_world e)
        in (tc\<lparr>tc_nfd := nfd, tc_inBuffer := buffer_Free (tc_inBuffer tc), tc_outBuffer := buffer_Free (tc_outBuffer tc)\<rparr>,
            e\<lparr>e_world := w\<rparr>))"

definition tcp_Close :: "'k ext \<Rightarrow> ('f \<Rightarrow> ('f, 'm, 'h, 'd, 'k) tcs \<Rightarrow> ('f, 'm, 'h, 'd, 'k) tcs) \<Rightarrow>
    ('f, 'm, 'h, 'd, 'k) tcs \<Rightarrow> (adds \<times> ('f, 'm, 'h, 'd, 'k) tcs) option" where
  "tcp_Close X onClosed st =
     (if \<not> tc_active (fst st) then Some ([], st)
      else if tc_sysRead (fst st) then None
      else
        let st = tcp_close_jobs st;
            st = (case tc_closeHandle (fst st) of None \<Rightarrow> st | Some f \<Rightarrow> onClosed f st)
        in Some ([(TCPConnsClose, 1)], tcp_close_rest X st))"

section \<open>Writing\<close>

definition writeToOutboundBuffer :: "byte list list \<Rightarrow> ('f, 'm, 'h, 'd, 'k) tcs \<Rightarrow> nat \<times> err option \<times> ('f, 'm, 'h, 'd, 'k) tcs" where
  "writeToOutboundBuffer p st =
     (case st of (tc, e) \<Rightarrow>
        if tc_outboundBufferLimit tc \<le> 0 then
          (case Writev (e_alloc e) (tc_safeWrite tc) p (tc_outBuffer tc) of
             (n, r, b) \<Rightarrow> (n, r, tc\<lparr>tc_outBuffer := b\<rparr>, e))
        else
          case WritevLimited (e_alloc e) (tc_safeWrite tc) (tc_outboundBufferLimit tc) p (Some (tc_outBuffer tc)) of
            (n, r, b) \<Rightarrow>
              (n, (case r of
                     Some (Fault f) \<Rightarrow> Some (Fault f)
                   | Some _ \<Rightarrow> Some ErrOutboundBufferLimitExceeded
                   | None \<Rightarrow> None),
               tc\<lparr>tc_outBuffer := the b\<rparr>, e))"

text \<open>Both ways of handing the blocks of the output buffer to \<open>writev\<close>: the number of bytes taken, the error and
  the additions to the metrics.\<close>

definition writeWithCachedIOData :: "'k ext \<Rightarrow> ('f, 'm, 'h, 'd, 'k) tcs \<Rightarrow> int \<times> err option \<times> adds \<times> ('f, 'm, 'h, 'd, 'k) tcs" where
  "writeWithCachedIOData X st =
     (case st of (tc, e) \<Rightarrow>
        case PeekBlocks MaxLen (tc_outBuffer tc) of
          Inl r \<Rightarrow> (0, Some r, [], st)
        | Inr bs \<Rightarrow>
            let (p, adds) = CheckAndDisablePostponeWrite (int (length bs)) (tc_postpone tc);
                ivs = filter (\<lambda>b. b \<noteq> []) bs;
                (n, r, adds', k) = nfd_Writev (x_nsys X) ivs (tc_nfd tc) (kernel e);
                st = (tc\<lparr>tc_postpone := p\<rparr>, set_kernel k e)
            in (if r \<noteq> None then 0 else n, r, adds @ adds', st))"

definition writeWithAdhocIOData :: "'k ext \<Rightarrow> ('f, 'm, 'h, 'd, 'k) tcs \<Rightarrow> int \<times> err option \<times> adds \<times> ('f, 'm, 'h, 'd, 'k) tcs" where
  "writeWithAdhocIOData X st =
     (case st of (tc, e) \<Rightarrow>
        let bv = vec (ByteVec (tc_writevData tc)) in
        case PeekBlocks (length bv) (tc_outBuffer tc) of
          Inl r \<Rightarrow> (0, Some r, [], st)
        | Inr bs \<Rightarrow>
            let l = length bs;
                d = (tc_writevData tc)\<lparr>ByteVec := Some (bs @ drop l bv)\<rparr>;
                (p, adds) = CheckAndDisablePostponeWrite (int l) (tc_postpone tc)
            in (case SetIOVec l d of
                  (Some r, d) \<Rightarrow> (0, Some r, adds, tc\<lparr>tc_postpone := p, tc_writevData := d\<rparr>, e)
                | (None, d) \<Rightarrow>
                    let ivs = map (\<lambda>v. case fst v of None \<Rightarrow> [] | Some b \<Rightarrow> b) (take l (vec (IOVec d)));
                        (n, r, adds', k) = nfd_Writev (x_nsys X) ivs (tc_nfd tc) (kernel e)
                    in (case r of
                          Some r \<Rightarrow> (0, Some r, adds @ adds', tc\<lparr>tc_postpone := p, tc_writevData := d\<rparr>, set_kernel k e)
                        | None \<Rightarrow> (n, None, adds @ adds',
                            tc\<lparr>tc_postpone := p, tc_writevData := IOData_Release l d\<rparr>, set_kernel k e))))"

definition tcp_writeToNetFD :: "'k ext \<Rightarrow> ('f, 'm, 'h, 'd, 'k) tcs \<Rightarrow> err option \<times> adds \<times> ('f, 'm, 'h, 'd, 'k) tcs" where
  "tcp_writeToNetFD X st =
     (case st of (tc, e) \<Rightarrow>
        let e = snd (refreshConn tc e); e = snd (refreshWriteIdleTimeout tc e) in
        case (if IsNil (tc_writevData tc) then writeWithCachedIOData X (tc, e) else writeWithAdhocIOData X (tc, e)) of
          (n, Some r, adds, st) \<Rightarrow> (Some r, adds, st)
        | (n, None, adds, tc, e) \<Rightarrow>
            (case Skip n (tc_outBuffer tc) of
               (Some r, b) \<Rightarrow> (Some r, adds, tc\<lparr>tc_outBuffer := b\<rparr>, e)
             | (None, b) \<Rightarrow>
                 (case Release (e_cleanUp e) b of (r, b) \<Rightarrow> (r, adds, tc\<lparr>tc_outBuffer := b\<rparr>, e))))"

definition tcp_Control :: "'k ext \<Rightarrow> event \<Rightarrow> ('f, 'm, 'h, 'd, 'k) tcs \<Rightarrow> err option \<times> ('f, 'm, 'h, 'd, 'k) tcs" where
  "tcp_Control X ev st =
     (case st of (tc, e) \<Rightarrow>
        case nfd_Control (x_kern X) (x_eps X) ev (tc_nfd tc) (e_world e) of (r, w) \<Rightarrow> (r, tc, e\<lparr>e_world := w\<rparr>))"

definition notify :: "'k ext \<Rightarrow> ('f, 'm, 'h, 'd, 'k) tcs \<Rightarrow> err option \<times> adds \<times> ('f, 'm, 'h, 'd, 'k) tcs" where
  "notify X st =
     (case TryLock (tc_writing (fst st)) of
        (False, _) \<Rightarrow> (None, [], st)
      | (True, l) \<Rightarrow>
          (case tcp_Control X ModReadWriteable (on_tc (\<lambda>tc. tc\<lparr>tc_writing := l\<rparr>) st) of
             (r, st) \<Rightarrow> (r, [(TCPWriteNotify, 1)], st)))"

text \<open>The end of \<open>flush\<close> and of \<open>tcpOnWrite\<close>: unlock, and take the lock again if data came in meanwhile.\<close>

definition unlock_recheck :: "'k ext \<Rightarrow> ('f, 'm, 'h, 'd, 'k) tcs \<Rightarrow> err option \<times> adds \<times> ('f, 'm, 'h, 'd, 'k) tcs" where
  "unlock_recheck X st =
     (let st = on_tc (\<lambda>tc. tc\<lparr>tc_writing := Unlock (tc_writing tc)\<rparr>) st in
      if LenRead (tc_outBuffer (fst st)) \<noteq> 0 then notify X st else (None, [], st))"

definition flush :: "'k ext \<Rightarrow> ('f, 'm, 'h, 'd, 'k) tcs \<Rightarrow> err option \<times> adds \<times> ('f, 'm, 'h, 'd, 'k) tcs" where
  "flush X st =
     (case TryLock (tc_writing (fst st)) of
        (False, _) \<Rightarrow> (None, [], st)
      | (True, l) \<Rightarrow>
          (case tcp_writeToNetFD X (on_tc (\<lambda>tc. tc\<lparr>tc_writing := l\<rparr>) st) of
             (Some r, adds, st) \<Rightarrow>
               if r \<noteq> EAGAIN then (Some r, adds, st)
               else (case tcp_Control X ModReadWriteable st of (r, st) \<Rightarrow> (r, adds @ [(TCPWriteNotify, 1)], st))
           | (None, adds, st) \<Rightarrow>
               let adds = adds @ [(TCPFlushCalls, 1)] in
               if LenRead (tc_outBuffer (fst st)) \<noteq> 0 then
                 (case tcp_Control X ModReadWriteable st of (r, st) \<Rightarrow> (r, adds @ [(TCPWriteNotify, 1)], st))
               else (case unlock_recheck X st of (r, adds', st) \<Rightarrow> (r, adds @ adds', st))))"

text \<open>\<open>Writev\<close>: the bytes accepted, the error and the additions to the metrics. A failed write closes the
  connection.\<close>

definition tcp_Writev :: "'k ext \<Rightarrow> ('f \<Rightarrow> ('f, 'm, 'h, 'd, 'k) tcs \<Rightarrow> ('f, 'm, 'h, 'd, 'k) tcs) \<Rightarrow> int \<Rightarrow> byte list list \<Rightarrow>
    ('f, 'm, 'h, 'd, 'k) tcs \<Rightarrow> (nat \<times> err option \<times> adds \<times> ('f, 'm, 'h, 'd, 'k) tcs) option" where
  "tcp_Writev X onClosed now p st =
     (if timer_passed now (tc_wtimer (fst st)) then Some (0, Some ErrTimeout, [], st)
      else if \<not> tc_active (fst st) then Some (0, Some ErrConnClosed, [], st)
      else case writeToOutboundBuffer p st of
        (n, Some r, st) \<Rightarrow>
          map_option (\<lambda>(adds, st). (n, Some r, (TCPOutboundBufferLimitExceeded, 1) # adds, st)) (tcp_Close X onClosed st)
      | (n, None, st) \<Rightarrow>
          (case (if pw_Enabled (tc_postpone (fst st)) then notify X st else flush X st) of
             (Some r, adds, st) \<Rightarrow>
               map_option (\<lambda>(adds', st). (n, Some r, adds @ adds', st)) (tcp_Close X onClosed st)
           | (None, adds, st) \<Rightarrow> Some (n, None, adds, st)))"

definition tcp_Write :: "'k ext \<Rightarrow> ('f \<Rightarrow> ('f, 'm, 'h, 'd, 'k) tcs \<Rightarrow> ('f, 'm, 'h, 'd, 'k) tcs) \<Rightarrow> int \<Rightarrow> byte list \<Rightarrow>
    ('f, 'm, 'h, 'd, 'k) tcs \<Rightarrow> (nat \<times> err option \<times> adds \<times> ('f, 'm, 'h, 'd, 'k) tcs) option" where
  "tcp_Write X onClosed now b st = tcp_Writev X onClosed now [b] st"

section \<open>Settings\<close>

definition tcp_LocalAddr :: "('f, 'm) tcpconn \<Rightarrow> net_addr" where
  "tcp_LocalAddr tc = nfd_LocalAddr (tc_nfd tc)"

definition tcp_RemoteAddr :: "('f, 'm) tcpconn \<Rightarrow> net_addr option" where
  "tcp_RemoteAddr tc = nfd_RemoteAddr (tc_nfd tc)"

definition tcp_SetOnClosed :: "'f option \<Rightarrow> ('f, 'm) tcpconn \<Rightarrow> err option \<times> ('f, 'm) tcpconn" where
  "tcp_SetOnClosed handle tc =
     (if \<not> tcp_IsActive tc then (Some ErrConnClosed, tc)
      else case handle of
        None \<Rightarrow> (Some (ErrText ''onClosed can't be nil''), tc)
      | Some f \<Rightarrow> (None, tc\<lparr>tc_closeHandle := Some f\<rparr>))"

definition tcp_SetOnRequest :: "'f option \<Rightarrow> ('f, 'm) tcpconn \<Rightarrow> err option \<times> ('f, 'm) tcpconn" where
  "tcp_SetOnRequest handle tc =
     (case handle of
        None \<Rightarrow> (Some (ErrText ''handle can't be nil''), tc)
      | Some f \<Rightarrow> (None, tc\<lparr>tc_reqHandle := Some f\<rparr>))"

definition tcp_SetReadDeadline :: "int option \<Rightarrow> ('f, 'm) tcpconn \<Rightarrow> err option \<times> ('f, 'm) tcpconn" where
  "tcp_SetReadDeadline t tc =
     (if \<not> tcp_IsActive tc then (Some ErrConnClosed, tc)
      else (None, tc\<lparr>tc_rtimer := Some (case tc_rtimer tc of None \<Rightarrow> timer_New t | Some r \<Rightarrow> timer_Reset t r)\<rparr>))"

definition tcp_SetWriteDeadline :: "int option \<Rightarrow> ('f, 'm) tcpconn \<Rightarrow> err option \<times> ('f, 'm) tcpconn" where
  "tcp_SetWriteDeadline t tc =
     (if \<not> tcp_IsActive tc then (Some ErrConnClosed, tc)
      else (None, tc\<lparr>tc_wtimer := Some (case tc_wtimer tc of None \<Rightarrow> timer_New t | Some r \<Rightarrow> timer_Reset t r)\<rparr>))"

definition tcp_SetDeadline :: "int option \<Rightarrow> ('f, 'm) tcpconn \<Rightarrow> err option \<times> ('f, 'm) tcpconn" where
  "tcp_SetDeadline t tc =
     (case tcp_SetReadDeadline t tc of
        (Some e, tc) \<Rightarrow> (Some e, tc)
      | (None, tc) \<Rightarrow> tcp_SetWriteDeadline t tc)"

text \<open>The interval in whole seconds, rounded up.\<close>

definition ceil_seconds :: "int \<Rightarrow> int" where
  "ceil_seconds t = (t + 10 ^ 9 - 1) div 10 ^ 9"

definition tcp_SetKeepAlive :: "'k ext \<Rightarrow> int \<Rightarrow> ('f, 'm, 'h, 'd, 'k) tcs \<Rightarrow> err option \<times> ('f, 'm, 'h, 'd, 'k) tcs" where
  "tcp_SetKeepAlive X t st =
     (case st of (tc, e) \<Rightarrow>
        if \<not> tcp_IsActive tc then (Some ErrConnClosed, st)
        else if t \<le> 0 then (None, st)
        else case nfd_SetKeepAlive (x_nsys X) (ceil_seconds t) (tc_nfd tc) (kernel e) of
          (r, k) \<Rightarrow> (r, tc, set_kernel k e))"

definition tcp_SetNonBlocking :: "bool \<Rightarrow> ('f, 'm) tcpconn \<Rightarrow> ('f, 'm) tcpconn" where
  "tcp_SetNonBlocking b tc = tc\<lparr>tc_nonblocking := b\<rparr>"

definition tcp_SetSafeWrite :: "bool \<Rightarrow> ('f, 'm) tcpconn \<Rightarrow> ('f, 'm) tcpconn" where
  "tcp_SetSafeWrite b tc = tc\<lparr>tc_safeWrite := b\<rparr>"

definition tcp_SetMetaData :: "'m option \<Rightarrow> ('f, 'm) tcpconn \<Rightarrow> ('f, 'm) tcpconn" where
  "tcp_SetMetaData v tc = tc\<lparr>tc_metaData := v\<rparr>"

definition tcp_GetMetaData :: "('f, 'm) tcpconn \<Rightarrow> 'm option" where
  "tcp_GetMetaData tc = tc_metaData tc"

section \<open>Handlers\<close>

text \<open>The user's handlers: what they do to the state and the error they return, or \<open>None\<close> if they do not
  return.\<close>

record ('f, 'm, 'h, 'd, 'k) thandlers =
  th_request :: "'f \<Rightarrow> ('f, 'm, 'h, 'd, 'k) tcs \<Rightarrow> (err option \<times> ('f, 'm, 'h, 'd, 'k) tcs) option"
  th_closed :: "'f \<Rightarrow> ('f, 'm, 'h, 'd, 'k) tcs \<Rightarrow> ('f, 'm, 'h, 'd, 'k) tcs"

definition tcp_has_data :: "('f, 'm, 'h, 'd, 'k) tcs \<Rightarrow> bool" where
  "tcp_has_data st \<longleftrightarrow> tcp_Len (fst st) > 0 \<and> tcp_IsActive (fst st)"

text \<open>The loop of \<open>tcpSyncHandle\<close>: the error that ended it, if a handler failed.\<close>

partial_function (option) tcp_sync_loop :: "('f, 'm, 'h, 'd, 'k) thandlers \<Rightarrow> 'f \<Rightarrow>
    ('f, 'm, 'h, 'd, 'k) tcs \<Rightarrow> (err option \<times> ('f, 'm, 'h, 'd, 'k) tcs) option" where
  "tcp_sync_loop H handler st =
     (if tcp_has_data st then
        Option.bind (th_request H handler (on_tc (\<lambda>tc. tc\<lparr>tc_postpone := IncLoopCnt (tc_postpone tc)\<rparr>) st))
          (\<lambda>r. if fst r = None then tcp_sync_loop H handler (snd r) else Some r)
      else Some (None, st))"

definition tcpSyncHandle :: "('f, 'm, 'h, 'd, 'k) thandlers \<Rightarrow> ('f, 'm, 'h, 'd, 'k) tcs \<Rightarrow>
    (err option \<times> adds \<times> ('f, 'm, 'h, 'd, 'k) tcs) option" where
  "tcpSyncHandle H st =
     (case tc_reqHandle (fst st) of
        None \<Rightarrow> Some (Some (ErrText ''no OnRequest handler''), [], st)
      | Some handler \<Rightarrow>
          map_option
            (\<lambda>(e, st). case e of
               Some ErrAgain \<Rightarrow> (None, [], st)
             | Some e \<Rightarrow> (Some e, [], st)
             | None \<Rightarrow> (case CheckLoopCnt (tc_postpone (fst st)) of
                 (p, adds) \<Rightarrow> (None, adds, on_tc (\<lambda>tc. tc\<lparr>tc_postpone := p\<rparr>) st)))
            (tcp_sync_loop H handler (on_tc (\<lambda>tc. tc\<lparr>tc_postpone := ResetLoopCnt (tc_postpone tc)\<rparr>) st)))"

text \<open>\<open>tcpAsyncHandler\<close>: the inner loop returns whether the handler failed, in which case the connection has been
  closed.\<close>

partial_function (option) tcp_async_inner :: "'k ext \<Rightarrow> ('f, 'm, 'h, 'd, 'k) thandlers \<Rightarrow> 'f \<Rightarrow>
    ('f, 'm, 'h, 'd, 'k) tcs \<Rightarrow> (bool \<times> ('f, 'm, 'h, 'd, 'k) tcs) option" where
  "tcp_async_inner X H handler st =
     (if tcp_has_data st then
        Option.bind (th_request H handler st)
          (\<lambda>r. if fst r = None then tcp_async_inner X H handler (snd r)
               else Option.bind (tcp_Close X (th_closed H) (on_tc (\<lambda>tc. tc\<lparr>tc_reading := Unlock (tc_reading tc)\<rparr>) (snd r)))
                 (\<lambda>c. Some (True, snd c)))
      else Some (False, st))"

partial_function (option) tcp_async_loop :: "'k ext \<Rightarrow> ('f, 'm, 'h, 'd, 'k) thandlers \<Rightarrow> 'f \<Rightarrow>
    ('f, 'm, 'h, 'd, 'k) tcs \<Rightarrow> ('f, 'm, 'h, 'd, 'k) tcs option" where
  "tcp_async_loop X H handler st =
     Option.bind (tcp_async_inner X H handler st)
       (\<lambda>r. if fst r then Some (snd r)
            else
              let st = on_tc (\<lambda>tc. tc\<lparr>tc_reading := Unlock (tc_reading tc),
                         tc_postpone := ResetReadingTryLockFail (tc_postpone tc)\<rparr>) (snd r);
                  lk = TryLock (tc_reading (fst st))
              in if tcp_Len (fst st) = 0 then Some st
                 else if \<not> fst lk then Some st
                 else tcp_async_loop X H handler (on_tc (\<lambda>tc. tc\<lparr>tc_reading := snd lk\<rparr>) st))"

definition tcpAsyncHandler :: "'k ext \<Rightarrow> ('f, 'm, 'h, 'd, 'k) thandlers \<Rightarrow> ('f, 'm, 'h, 'd, 'k) tcs \<Rightarrow>
    ('f, 'm, 'h, 'd, 'k) tcs option" where
  "tcpAsyncHandler X H st =
     (case tc_reqHandle (fst st) of None \<Rightarrow> Some st | Some handler \<Rightarrow> tcp_async_loop X H handler st)"

section \<open>Events\<close>

text \<open>The lengths of the slices that \<open>Fill\<close> hands to \<open>readv\<close> when the poller passes a reset vector: the free space
  of the nodes from the write node on. They determine the system call and its effect on the kernel.\<close>

definition fill_lens :: "(nat \<Rightarrow> byte list) \<Rightarrow> int \<Rightarrow> buffer \<Rightarrow> nat list" where
  "fill_lens alloc n b =
     (if LenRead b > MaxBufferSize then []
      else case prepareFill alloc b of
        (Some _, _) \<Rightarrow> []
      | (None, b) \<Rightarrow>
          (case calNodes n b of
             Inl _ \<Rightarrow> []
           | Inr nodeNum \<Rightarrow>
               (case malloc alloc nodeNum b of
                  (Some _, _) \<Rightarrow> []
                | (None, b) \<Rightarrow> map (\<lambda>x. length (nblock x) - unat (nw x)) (drop (bwnode b) (bchain b)))))"

definition socket_readv :: "'k nsys \<Rightarrow> netFD \<Rightarrow> 'k \<Rightarrow> nat list \<Rightarrow> err + byte list" where
  "socket_readv N nfd k ls = (case nfd_Readv N ls nfd k of (bs, Some e, _) \<Rightarrow> Inl e | (bs, None, _) \<Rightarrow> Inr bs)"

definition tcpOnRead_task :: "'k ext \<Rightarrow> ('f, 'm, 'h, 'd, 'k) tcs \<Rightarrow> err option \<times> adds \<times> ('f, 'm, 'h, 'd, 'k) tcs" where
  "tcpOnRead_task X st =
     (case st of (tc, e) \<Rightarrow>
        let tc = tc\<lparr>tc_readTrigger := min 1 (tc_readTrigger tc + 1)\<rparr> in
        if tc_reqHandle tc = None then (None, [], tc, e)
        else case TryLock (tc_reading tc) of
          (False, _) \<Rightarrow>
            (case IncReadingTryLockFail (tc_postpone tc) of
               (p, adds) \<Rightarrow> (None, adds, tc\<lparr>tc_postpone := p\<rparr>, e))
        | (True, l) \<Rightarrow>
            (case doTask X (kernel e) of
               (r, adds, k) \<Rightarrow> (r, adds, tc\<lparr>tc_reading := l\<rparr>, set_kernel k e)))"

definition tcpOnRead :: "'k ext \<Rightarrow> ('f, 'm, 'h, 'd, 'k) thandlers \<Rightarrow> iodata \<Rightarrow> ('f, 'm, 'h, 'd, 'k) tcs \<Rightarrow>
    (err option \<times> adds \<times> iodata \<times> ('f, 'm, 'h, 'd, 'k) tcs) option" where
  "tcpOnRead X H ioData st =
     (case st of (tc, e) \<Rightarrow>
        if \<not> tc_active tc then Some (None, [], ioData, st)
        else
          let tc = tc\<lparr>tc_sysRead := True\<rparr>;
              leave = on_tc (\<lambda>tc. tc\<lparr>tc_sysRead := False\<rparr>);
              e = snd (refreshReadIdleTimeout tc e);
              e = snd (refreshConn tc e);
              n = sint (tc_waitReadLen tc);
              (_, _, adds, k) = nfd_Readv (x_nsys X) (fill_lens (e_alloc e) n (tc_inBuffer tc)) (tc_nfd tc) (kernel e)
          in case Fill (e_alloc e) (socket_readv (x_nsys X) (tc_nfd tc) (kernel e)) n ioData (tc_inBuffer tc) of
               (r, ioData, b) \<Rightarrow>
                 let st = (tc\<lparr>tc_inBuffer := b\<rparr>, set_kernel k e) in
                 (case r of
                    Some r \<Rightarrow> Some (if r = ErrBufferFull then None else Some r, adds, ioData, leave st)
                  | None \<Rightarrow>
                      if tc_nonblocking tc then
                        map_option (\<lambda>(r, adds', st). (r, adds @ adds', ioData, leave st)) (tcpSyncHandle H st)
                      else (case tcpOnRead_task X st of (r, adds', st) \<Rightarrow> Some (r, adds @ adds', ioData, leave st))))"

definition tcpOnWrite :: "'k ext \<Rightarrow> ('f, 'm, 'h, 'd, 'k) tcs \<Rightarrow> err option \<times> adds \<times> ('f, 'm, 'h, 'd, 'k) tcs" where
  "tcpOnWrite X st =
     (if \<not> tc_active (fst st) then (None, [], st)
      else case tcp_writeToNetFD X st of
        (Some r, adds, st) \<Rightarrow> (if r = EAGAIN then None else Some r, (TCPOnWriteCalls, 1) # adds, st)
      | (None, adds, st) \<Rightarrow>
          if LenRead (tc_outBuffer (fst st)) \<noteq> 0 then (None, (TCPOnWriteCalls, 1) # adds, st)
          else case tcp_Control X ModReadable st of
            (Some r, st) \<Rightarrow> (Some r, (TCPOnWriteCalls, 1) # adds, st)
          | (None, st) \<Rightarrow>
              (case unlock_recheck X st of (r, adds', st) \<Rightarrow> (r, (TCPOnWriteCalls, 1) # adds @ adds', st)))"

definition tcpOnHup :: "'k ext \<Rightarrow> ('f, 'm, 'h, 'd, 'k) thandlers \<Rightarrow> ('f, 'm, 'h, 'd, 'k) tcs \<Rightarrow>
    (adds \<times> ('f, 'm, 'h, 'd, 'k) tcs) option" where
  "tcpOnHup X H st = tcp_Close X (th_closed H) st"

definition tcpOnIdle :: "'k ext \<Rightarrow> ('f, 'm, 'h, 'd, 'k) thandlers \<Rightarrow> ('f, 'm, 'h, 'd, 'k) tcs \<Rightarrow>
    (adds \<times> ('f, 'm, 'h, 'd, 'k) tcs) option" where
  "tcpOnIdle X H st = tcp_Close X (th_closed H) st"

section \<open>Instances\<close>

definition new_tcpconn :: "(nat, nat) tcpconn" where
  "new_tcpconn = \<lparr>tc_service = False, tc_metaData = None, tc_reqHandle = None, tc_closeHandle = None, tc_readTrigger = 0,
     tc_triggerClosed = False, tc_closedFinished = False, tc_inBuffer = Initialize zero_buffer,
     tc_outBuffer = Initialize zero_buffer,
     tc_closedReadBuf = fixed_Initialize [] (Some ErrConnClosed) \<lparr>fbuf = [], frlen = 0, fpos = 0, feofErr = None\<rparr>,
     tc_rtimer = None, tc_wtimer = None, tc_idleTimer = None, tc_writeIdleTimer = None, tc_readIdleTimer = None,
     tc_writevData = NewIOData [], tc_nfd = scheduled_nfd, tc_active = True, tc_sysRead = False,
     tc_postpone = zero_postpone, tc_waitReadLen = 0, tc_reading = unlocked, tc_writing = unlocked,
     tc_nonblocking = False, tc_safeWrite = False, tc_outboundBufferLimit = 0\<rparr>"

definition idle_env :: "'k \<Rightarrow> (string, nat, 'k) tenv" where
  "idle_env k = \<lparr>e_world = \<lparr>w_cache = w_cache idle_world, w_kernel = k, w_spawned = []\<rparr>,
     e_wheel = projr (NewTimeWheel 0 (\<lambda>_. NewTimer True (10 ^ 10)) (10 ^ 9) 60), e_nextTimer = 0, e_conns = (\<lambda>_. None),
     e_alloc = malloc_bytes None init_caches, e_cleanUp = False\<rparr>"

definition idle_usys :: "'k usys" where
  "idle_usys = \<lparr>s_recvmsg = (\<lambda>_ hdr _ (k, h). (Inl EAGAIN, hdr, k, h)), s_recvmmsg = (\<lambda>_ xs (k, h). (Inl EAGAIN, xs, k, h)),
     s_sendmmsg = (\<lambda>_ xs _ k. (int (length xs), None, k))\<rparr>"

definition tcp_ext :: "'k nsys \<Rightarrow> 'k ext" where
  "tcp_ext N = (idle_ext idle_usys)\<lparr>x_nsys := N\<rparr>"

definition no_handlers :: "('f, 'm, 'h, 'd, 'k) thandlers" where
  "no_handlers = \<lparr>th_request = (\<lambda>_ _. None), th_closed = (\<lambda>_ st. st)\<rparr>"

end
