(* ===== verification/Tcp_Read.thy ===== *)
theory Tcp_Read
  imports Tcpconn
begin

text \<open>
  The reading side of a TCP connection. An open nonblocking connection and a closed one are both a
  \<open>byte_reader\<close>, over the input buffer and over the bytes saved by \<open>Close\<close>; so what was received before
  closing can be read afterwards, in order and once. A reader that blocked is woken when enough data arrives
  or the connection is closed.
\<close>

section \<open>The connection as a reader\<close>

definition conn_peek :: "int \<Rightarrow> int \<Rightarrow> ('f, 'm) tcpconn \<Rightarrow> byte list \<times> err option \<times> ('f, 'm) tcpconn" where
  "conn_peek now n tc = (case tcp_Peek now n tc of (Some (p, e), tc) \<Rightarrow> (p, e, tc) | (None, tc) \<Rightarrow> ([], Some (Fault NoReturn), tc))"

definition conn_skip :: "int \<Rightarrow> int \<Rightarrow> ('f, 'm) tcpconn \<Rightarrow> err option \<times> ('f, 'm) tcpconn" where
  "conn_skip now n tc = (case tcp_Skip now n tc of (Some (_, e), tc) \<Rightarrow> (e, tc) | (None, tc) \<Rightarrow> (Some (Fault NoReturn), tc))"

definition conn_next :: "int \<Rightarrow> int \<Rightarrow> ('f, 'm) tcpconn \<Rightarrow> byte list \<times> err option \<times> ('f, 'm) tcpconn" where
  "conn_next now n tc = (case tcp_Next now n tc of (Some (p, e), tc) \<Rightarrow> (p, e, tc) | (None, tc) \<Rightarrow> ([], Some (Fault NoReturn), tc))"

definition conn_data :: "('f, 'm) tcpconn \<Rightarrow> byte list" where
  "conn_data tc = (if tc_active tc then content (tc_inBuffer tc) else fixed_data (tc_closedReadBuf tc))"

definition conn_eof :: "('f, 'm) tcpconn \<Rightarrow> err option" where
  "conn_eof tc = Some (if tc_active tc then ErrAgain else ErrConnClosed)"

definition conn_inv :: "('f, 'm) tcpconn \<Rightarrow> bool" where
  "conn_inv tc \<longleftrightarrow> fixed_inv (tc_closedReadBuf tc) \<and> feofErr (tc_closedReadBuf tc) = Some ErrConnClosed \<and>
     (tc_active tc \<longrightarrow> tc_nonblocking tc \<and> buf_inv (tc_inBuffer tc) \<and> fixed_data (tc_closedReadBuf tc) = [])"

lemma waitRead_nonblocking:
  assumes "tc_active tc" and "tc_nonblocking tc"
  shows "tcp_waitRead now n tc =
    (if n \<le> int (LenRead (tc_inBuffer tc)) then (Ready, tc) else (Failed ErrAgain, tc\<lparr>tc_waitReadLen := of_int n\<rparr>))"
  using assms by (simp add: tcp_waitRead_def tcp_IsActive_def)

lemma read_op_nonblocking:
  assumes "tc_active tc" and "tc_nonblocking tc"
  shows "tcp_read_op now n op_in op_closed none tc =
    (if n \<le> int (LenRead (tc_inBuffer tc)) then
       (case op_in (tc_inBuffer tc) of (r, e, b) \<Rightarrow> (Some (r, e), tc\<lparr>tc_inBuffer := b\<rparr>))
     else (Some (none, Some ErrAgain), tc\<lparr>tc_waitReadLen := of_int n\<rparr>))"
  using assms
  by (simp add: tcp_read_op_def waitRead_nonblocking needReadFromClosedReadBuf_def tcp_IsActive_def)

lemma read_op_closed:
  assumes "\<not> tc_active tc"
  shows "tcp_read_op now n op_in op_closed none tc =
    (case op_closed (tc_closedReadBuf tc) of (r, e, c) \<Rightarrow> (Some (r, e), tc\<lparr>tc_closedReadBuf := c\<rparr>))"
  using assms by (simp add: tcp_read_op_def needReadFromClosedReadBuf_def tcp_IsActive_def)

lemma queue_take_eof:
  "n \<le> int (length d) \<Longrightarrow> queue_take e n d = queue_take e' n d"
  "\<not> n \<le> int (length d) \<Longrightarrow> queue_take e n d = ([], e)"
  "\<not> n \<le> int (length d) \<Longrightarrow> queue_drop n d = d"
  by (auto simp: queue_take_def queue_drop_def)

interpretation conn_reader: byte_reader conn_inv conn_data conn_eof "conn_peek now" "conn_skip now" "conn_next now"
proof unfold_locales
  fix tc :: "('f, 'm) tcpconn" and n
  assume inv: "conn_inv tc"
  have len: "tc_active tc \<Longrightarrow> LenRead (tc_inBuffer tc) = length (content (tc_inBuffer tc))"
    using inv LenRead_content by (auto simp: conn_inv_def)
  note defs = conn_data_def conn_eof_def conn_inv_def
  show "\<exists>tc'. conn_peek now n tc = (fst (queue_take (conn_eof tc) n (conn_data tc)), snd (queue_take (conn_eof tc) n (conn_data tc)), tc') \<and>
      conn_inv tc' \<and> conn_data tc' = conn_data tc \<and> conn_eof tc' = conn_eof tc"
  proof (cases "tc_active tc")
    case True
    with inv len link_reader.peek_law [of "tc_inBuffer tc" n] queue_take_eof(1) [of n "content (tc_inBuffer tc)" "Some ErrAgain" no_data]
    show ?thesis
      by (auto simp: conn_peek_def tcp_Peek_def read_op_nonblocking defs queue_take_eof(2) split_beta)
  next
    case False
    with inv fixed_reader.peek_law [of "tc_closedReadBuf tc" n] show ?thesis
      by (auto simp: conn_peek_def tcp_Peek_def read_op_closed defs split_beta)
  qed
  show "\<exists>tc'. conn_skip now n tc = (snd (queue_take (conn_eof tc) n (conn_data tc)), tc') \<and>
      conn_inv tc' \<and> conn_data tc' = queue_drop n (conn_data tc) \<and> conn_eof tc' = conn_eof tc"
  proof (cases "tc_active tc")
    case True
    with inv len link_reader.skip_law [of "tc_inBuffer tc" n] queue_take_eof(1) [of n "content (tc_inBuffer tc)" "Some ErrAgain" no_data]
    show ?thesis
      by (auto simp: conn_skip_def tcp_Skip_def read_op_nonblocking defs queue_take_eof(2,3) split_beta)
  next
    case False
    with inv fixed_reader.skip_law [of "tc_closedReadBuf tc" n] show ?thesis
      by (auto simp: conn_skip_def tcp_Skip_def read_op_closed defs split_beta)
  qed
  show "\<exists>tc'. conn_next now n tc = (fst (queue_take (conn_eof tc) n (conn_data tc)), snd (queue_take (conn_eof tc) n (conn_data tc)), tc') \<and>
      conn_inv tc' \<and> conn_data tc' = queue_drop n (conn_data tc) \<and> conn_eof tc' = conn_eof tc"
  proof (cases "tc_active tc")
    case True
    with inv len link_reader.nxt_law [of "tc_inBuffer tc" n] queue_take_eof(1) [of n "content (tc_inBuffer tc)" "Some ErrAgain" no_data]
    show ?thesis
      by (auto simp: conn_next_def tcp_Next_def read_op_nonblocking defs queue_take_eof(2,3) split_beta)
  next
    case False
    with inv fixed_reader.nxt_law [of "tc_closedReadBuf tc" n] show ?thesis
      by (auto simp: conn_next_def tcp_Next_def read_op_closed defs split_beta)
  qed
qed

section \<open>Closing keeps what was received\<close>

lemma buffer_Read_content:
  assumes "buf_inv b"
  shows "\<exists>b'. buffer_Read c m b = ((min m (length (content b)), take m (content b)), None, b') \<and> buf_inv b' \<and>
    content b' = drop m (content b)"
proof -
  let ?k = "min m (length (content b))"
  have k: "take ?k (content b) = take m (content b)" "drop ?k (content b) = drop m (content b)" by (simp_all add: min_def)
  obtain b1 where b1: "read_locked m b = ((?k, take m (content b)), None, b1)" "buf_inv b1" "content b1 = drop m (content b)"
    using read_locked_ok [OF assms, of m] k by auto
  with Release_content [OF b1(2), of c] assms show ?thesis
    by (cases "m = 0") (auto simp: buffer_Read_def)
qed

lemma storeReadBuffer_ok:
  assumes "buf_inv (tc_inBuffer tc)" and "fixed_inv (tc_closedReadBuf tc)" and "fixed_data (tc_closedReadBuf tc) = []"
    and "feofErr (tc_closedReadBuf tc) = Some ErrConnClosed"
  shows "\<exists>b c. storeReadBuffer cleanUp tc = (None, tc\<lparr>tc_inBuffer := b, tc_closedReadBuf := c\<rparr>) \<and>
    fixed_inv c \<and> fixed_data c = content (tc_inBuffer tc) \<and> feofErr c = Some ErrConnClosed"
proof -
  let ?d = "content (tc_inBuffer tc)"
  have len: "LenRead (tc_inBuffer tc) = length ?d" by (rule LenRead_content [OF assms(1)])
  have lt: "length ?d < 2 ^ 32" using unsigned_less [of "brlen (tc_inBuffer tc)", where ?'a = nat] len by (simp add: LenRead_def)
  show ?thesis
  proof (cases "?d = []")
    case True
    then have "storeReadBuffer cleanUp tc = (None, tc\<lparr>tc_inBuffer := tc_inBuffer tc, tc_closedReadBuf := tc_closedReadBuf tc\<rparr>)"
      using len by (simp add: storeReadBuffer_def)
    with True assms show ?thesis by metis
  next
    case False
    obtain b where b: "buffer_Read cleanUp (length ?d) (tc_inBuffer tc) = ((length ?d, ?d), None, b)"
      using buffer_Read_content [OF assms(1), of cleanUp "length ?d"] by auto
    with False len fixed_Initialize_inv [OF lt] show ?thesis by (auto simp: storeReadBuffer_def)
  qed
qed

lemma close_saves:
  assumes "conn_inv tc" and "tc_active tc" "\<not> tc_sysRead tc" "tc_closeHandle tc = None"
  shows "\<exists>tc' e'. tcp_Close X h (tc, e) = Some ([(TCPConnsClose, 1)], tc', e') \<and> \<not> tc_active tc' \<and>
    tc_triggerClosed tc' \<and> conn_inv tc' \<and> conn_data tc' = conn_data tc"
proof -
  define tc1 where "tc1 = tc\<lparr>tc_active := False, tc_triggerClosed := True\<rparr>"
  obtain b c where s: "storeReadBuffer (e_cleanUp e) tc1 = (None, tc1\<lparr>tc_inBuffer := b, tc_closedReadBuf := c\<rparr>)"
    and c: "fixed_inv c" "fixed_data c = content (tc_inBuffer tc)" "feofErr c = Some ErrConnClosed"
    using storeReadBuffer_ok [of tc1 "e_cleanUp e"] assms(1,2) by (auto simp: tc1_def conn_inv_def)
  have j: "tcp_close_jobs (tc, e) = (tc1\<lparr>tc_inBuffer := b, tc_closedReadBuf := c, tc_closedFinished := True\<rparr>, e)"
    using s by (simp add: tcp_close_jobs_def Let_def tc1_def)
  have r: "\<exists>tc' e'. tcp_close_rest X (t, e) = (tc', e') \<and> tc_active tc' = tc_active t \<and>
      tc_triggerClosed tc' = tc_triggerClosed t \<and> tc_closedReadBuf tc' = tc_closedReadBuf t" for t :: "('a, 'b) tcpconn" and e
    by (simp add: tcp_close_rest_def Let_def split: prod.split)
  from r [of "tc1\<lparr>tc_inBuffer := b, tc_closedReadBuf := c, tc_closedFinished := True\<rparr>" e] j assms c show ?thesis
    by (auto simp: tcp_Close_def Let_def tc1_def conn_inv_def conn_data_def)
qed

lemma reader_run_keeps:
  assumes "\<And>n s. f (snd (snd (peek n s))) = f s" and "\<And>n s. f (snd (skip n s)) = f s"
    and "\<And>n s. f (snd (snd (nxt n s))) = f s"
  shows "f (snd (reader_run peek skip nxt cs s)) = f s"
proof (induction cs arbitrary: s)
  case (Cons c cs)
  have "f (snd (reader_call peek skip nxt c s)) = f s"
    by (cases c) (use assms in \<open>auto simp: split_beta\<close>)
  with Cons show ?case by (simp add: split_beta Let_def)
qed simp

definition read_frame :: "('f, 'm) tcpconn \<Rightarrow> bool \<times> bool \<times> 'f option" where
  "read_frame tc = (tc_active tc, tc_sysRead tc, tc_closeHandle tc)"

lemma waitRead_frame: "read_frame (snd (tcp_waitRead now n tc)) = read_frame tc"
  by (auto simp: tcp_waitRead_def Let_def read_frame_def split: option.split prod.split)

lemma read_op_frame: "read_frame (snd (tcp_read_op now n op_in op_closed none tc)) = read_frame tc"
proof -
  obtain w tc1 where w: "tcp_waitRead now n tc = (w, tc1)" by fastforce
  with waitRead_frame [of now n tc] have "read_frame tc1 = read_frame tc" by simp
  with w show ?thesis
    by (auto simp: tcp_read_op_def Let_def read_frame_def split_beta split: wait.split)
qed

lemma conn_run_frame:
  "read_frame (snd (reader_run (conn_peek now) (conn_skip now) (conn_next now) cs tc)) = read_frame tc"
proof (rule reader_run_keeps)
  fix n and tc :: "('a, 'b) tcpconn"
  show "read_frame (snd (snd (conn_peek now n tc))) = read_frame tc"
    using read_op_frame [of now n "Peek n" "fixed_Peek n" "[]" tc]
    by (auto simp: conn_peek_def tcp_Peek_def split: prod.split option.split)
  show "read_frame (snd (conn_skip now n tc)) = read_frame tc"
    using read_op_frame [of now n "\<lambda>b. case Skip n b of (e, b) \<Rightarrow> ((), e, b)" "\<lambda>c. case fixed_Skip n c of (e, c) \<Rightarrow> ((), e, c)" "()" tc]
    by (auto simp: conn_skip_def tcp_Skip_def split: prod.split option.split)
  show "read_frame (snd (snd (conn_next now n tc))) = read_frame tc"
    using read_op_frame [of now n "Next n" "fixed_Next n" "[]" tc]
    by (auto simp: conn_next_def tcp_Next_def split: prod.split option.split)
qed


lemma new_tcpconn_closed_buf:
  "fixed_inv (tc_closedReadBuf new_tcpconn)" "fixed_data (tc_closedReadBuf new_tcpconn) = []"
  "feofErr (tc_closedReadBuf new_tcpconn) = Some ErrConnClosed"
  using fixed_Initialize_inv [of "[]"] by (simp_all add: new_tcpconn_def)


section \<open>Blocked readers\<close>

text \<open>A socket that always has data: \<open>readv\<close> with room stores at least one byte and no more than there is room
  for.\<close>

definition always_readable :: "'k nsys \<Rightarrow> int \<Rightarrow> bool" where
  "always_readable N fd \<longleftrightarrow>
     (\<forall>ls k bs k'. n_readv N fd ls k = (Inr bs, k') \<longrightarrow> length bs \<le> sum_list ls \<and> length bs \<le> 0x7ffff000) \<and>
     (\<forall>ls k. ls \<noteq> [] \<and> 0 \<notin> set ls \<longrightarrow> (\<exists>bs k'. n_readv N fd ls k = (Inr bs, k') \<and> bs \<noteq> []))"

lemma refresh_alloc [simp]:
  "e_alloc (snd (refreshConn tc e)) = e_alloc e" "e_alloc (snd (refreshReadIdleTimeout tc e)) = e_alloc e"
  "e_alloc (set_kernel k e) = e_alloc e"
  by (simp_all add: refreshConn_def refreshReadIdleTimeout_def refresh_def asynctimer_Add_def set_kernel_def
      split: option.split prod.split)

definition waiting :: "('f, 'm) tcpconn \<Rightarrow> bool" where
  "waiting tc \<longleftrightarrow> tc_active tc \<and> \<not> tc_nonblocking tc \<and> tc_rtimer tc = None \<and> tc_reqHandle tc = None \<and>
     \<not> tc_triggerClosed tc \<and> buf_inv (tc_inBuffer tc)"

lemma read_event_progress:
  assumes rd: "always_readable (x_nsys X) (nf_fd (tc_nfd tc))" and w: "waiting tc"
    and a: "block_source (e_alloc e)" and len: "LenRead (tc_inBuffer tc) \<le> MaxBufferSize"
  shows "\<exists>adds io tc' e'. tcpOnRead X H nil_iodata (tc, e) = Some (None, adds, io, tc', e') \<and> waiting tc' \<and>
    tc_readTrigger tc' = 1 \<and> tc_nfd tc' = tc_nfd tc \<and> e_alloc e' = e_alloc e \<and>
    (\<exists>bs. bs \<noteq> [] \<and> content (tc_inBuffer tc') = content (tc_inBuffer tc) @ bs)"
proof -
  let ?tc = "tc\<lparr>tc_sysRead := True\<rparr>" and ?fd = "nf_fd (tc_nfd tc)"
  define e1 where "e1 = snd (refreshConn ?tc (snd (refreshReadIdleTimeout ?tc e)))"
  have al: "e_alloc e1 = e_alloc e" by (simp add: e1_def)
  let ?rv = "socket_readv (x_nsys X) (tc_nfd tc) (kernel e1)"
  have ok: "readv_ok ?rv"
    using rd by (auto simp: readv_ok_def socket_readv_def nfd_Readv_def always_readable_def
        split: prod.splits sum.splits if_splits)
  obtain ls io b where f: "Fill (e_alloc e1) ?rv (sint (tc_waitReadLen tc)) nil_iodata (tc_inBuffer tc) =
      ((case ?rv ls of Inl e \<Rightarrow> Some e | Inr _ \<Rightarrow> None), io, b)" and b: "buf_inv b"
    "content b = content (tc_inBuffer tc) @ (case ?rv ls of Inl _ \<Rightarrow> [] | Inr bs \<Rightarrow> bs)" "ls \<noteq> []" "0 \<notin> set ls"
    using block_source.Fill_ok [OF a _ _ len ok, of nil_iodata "sint (tc_waitReadLen tc)"] w al
    by (auto simp: waiting_def nil_iodata_def)
  obtain bs k' where r: "n_readv (x_nsys X) ?fd ls (kernel e1) = (Inr bs, k')" "bs \<noteq> []"
    using rd b(3,4) unfolding always_readable_def by blast
  then have rv: "?rv ls = Inr bs" using b(3) by (simp add: socket_readv_def nfd_Readv_def)
  obtain x y adds k where k: "nfd_Readv (x_nsys X) (fill_lens (e_alloc e1) (sint (tc_waitReadLen tc)) (tc_inBuffer tc))
      (tc_nfd tc) (kernel e1) = (x, y, adds, k)" using prod_cases4 by blast
  have "tcpOnRead X H nil_iodata (tc, e) = Some (None, adds, io,
      tc\<lparr>tc_sysRead := False, tc_inBuffer := b, tc_readTrigger := 1\<rparr>, set_kernel k e1)"
    using w f [unfolded al] rv k [unfolded al] unfolding tcpOnRead_def waiting_def Let_def
    by (simp add: e1_def [symmetric] tcpOnRead_task_def on_tc_def)
  moreover have "waiting (tc\<lparr>tc_sysRead := False, tc_inBuffer := b, tc_readTrigger := 1\<rparr>)"
    using w b(1) by (simp add: waiting_def)
  ultimately show ?thesis using b(2) rv r(2) al by fastforce
qed

text \<open>A reader that waits for \<open>n\<close> bytes, over \<open>c\<close> read events: after each event it takes the token and looks
  again.\<close>

fun read_rounds :: "'k ext \<Rightarrow> ('f, 'm, 'h, 'd, 'k) thandlers \<Rightarrow> int \<Rightarrow> nat \<Rightarrow> ('f, 'm, 'h, 'd, 'k) tcs \<Rightarrow>
    wait \<times> ('f, 'm, 'h, 'd, 'k) tcs" where
  "read_rounds X H n 0 st = (Blocked, st)"
| "read_rounds X H n (Suc c) st =
     (case tcpOnRead X H nil_iodata st of
        None \<Rightarrow> (Blocked, st)
      | Some (_, _, _, tc, e) \<Rightarrow>
          (case tcp_wake False n tc of
             (Blocked, tc) \<Rightarrow> read_rounds X H n c (tc, e)
           | (w, tc) \<Rightarrow> (w, tc, e)))"

lemma wake_with_token:
  assumes "waiting tc" and "tc_readTrigger tc = 1"
  shows "\<exists>tc'. tcp_wake False n tc = (if n \<le> int (LenRead (tc_inBuffer tc)) then Ready else Blocked, tc') \<and> waiting tc' \<and>
    tc_inBuffer tc' = tc_inBuffer tc \<and> tc_nfd tc' = tc_nfd tc"
  using assms by (auto simp: tcp_wake_def tcp_recheck_def waiting_def tcp_IsActive_def Let_def)

lemma read_rounds_progress:
  assumes "always_readable (x_nsys X) (nf_fd (tc_nfd tc))" and "waiting tc" and "block_source (e_alloc e)"
    and "n \<le> MaxBufferSize" and "length (content (tc_inBuffer tc)) < n" and "n \<le> length (content (tc_inBuffer tc)) + c"
  shows "\<exists>tc' e' bs. read_rounds X H (int n) c (tc, e) = (Ready, tc', e') \<and> waiting tc' \<and>
    content (tc_inBuffer tc') = content (tc_inBuffer tc) @ bs \<and> n \<le> length (content (tc_inBuffer tc'))"
  using assms
proof (induction c arbitrary: tc e)
  case (Suc c)
  have inv: "buf_inv (tc_inBuffer tc)" using Suc.prems(2) by (simp add: waiting_def)
  have len: "LenRead (tc_inBuffer tc) \<le> MaxBufferSize" using LenRead_content [OF inv] Suc.prems(4,5) by simp
  obtain adds io tc1 e1 bs where ev: "tcpOnRead X H nil_iodata (tc, e) = Some (None, adds, io, tc1, e1)" "waiting tc1"
    "tc_readTrigger tc1 = 1" "tc_nfd tc1 = tc_nfd tc" "e_alloc e1 = e_alloc e" "bs \<noteq> []"
    "content (tc_inBuffer tc1) = content (tc_inBuffer tc) @ bs"
    using read_event_progress [OF Suc.prems(1,2,3) len, of H] by blast
  have l1: "LenRead (tc_inBuffer tc1) = length (content (tc_inBuffer tc1))"
    using ev(2) LenRead_content by (simp add: waiting_def)
  obtain tc2 where w: "tcp_wake False (int n) tc1 = (if int n \<le> int (LenRead (tc_inBuffer tc1)) then Ready else Blocked, tc2)"
    "waiting tc2" "tc_inBuffer tc2 = tc_inBuffer tc1" "tc_nfd tc2 = tc_nfd tc1"
    using wake_with_token [OF ev(2,3)] by blast
  show ?case
  proof (cases "n \<le> length (content (tc_inBuffer tc1))")
    case True
    with w ev l1 show ?thesis by simp
  next
    case False
    have "0 < length bs" using ev(6) by simp
    then have n2: "n \<le> length (content (tc_inBuffer tc2)) + c" "length (content (tc_inBuffer tc2)) < n"
      using False Suc.prems(6) unfolding w(3) ev(7) length_append by linarith+
    have "\<exists>tc' e' bs'. read_rounds X H (int n) c (tc2, e1) = (Ready, tc', e') \<and> waiting tc' \<and>
      content (tc_inBuffer tc') = content (tc_inBuffer tc2) @ bs' \<and> n \<le> length (content (tc_inBuffer tc'))"
      by (rule Suc.IH) (use Suc.prems w ev n2 in auto)
    with False w ev l1 show ?thesis by auto
  qed
qed simp

text \<open>C12. Readers are served. A reader of a blocking connection without deadline that waits for \<open>n\<close> bytes, not more
  than \<open>MaxBufferSize\<close>, gets them after at most \<open>n\<close> read events of a socket with data: the poller wakes it, and the
  bytes it returns are the received ones, in order.\<close>

theorem blocked_reader_served:
  assumes rd: "always_readable (x_nsys X) (nf_fd (tc_nfd tc))" and w: "waiting tc" and a: "block_source (e_alloc e)"
    and n: "n \<le> MaxBufferSize" and bl: "tcp_waitRead now (int n) tc = (Blocked, tc1)"
  shows "\<exists>tc2 e2 bs. read_rounds X H (int n) n (tc1, e) = (Ready, tc2, e2) \<and>
    content (tc_inBuffer tc2) = content (tc_inBuffer tc) @ bs \<and>
    fst (tcp_ReadN c now (int n) tc2) = Some (take n (content (tc_inBuffer tc) @ bs), None)"
proof -
  have inv: "buf_inv (tc_inBuffer tc)" using w by (simp add: waiting_def)
  have tc1: "tc1 = tc\<lparr>tc_waitReadLen := of_int (int n)\<rparr>" and lt: "length (content (tc_inBuffer tc)) < n"
    using bl w LenRead_content [OF inv] by (auto simp: tcp_waitRead_def waiting_def Let_def split: if_splits)
  have w1: "waiting tc1" using w by (simp add: tc1 waiting_def)
  obtain tc2 e2 bs where r: "read_rounds X H (int n) n (tc1, e) = (Ready, tc2, e2)" "waiting tc2"
    "content (tc_inBuffer tc2) = content (tc_inBuffer tc) @ bs" "n \<le> length (content (tc_inBuffer tc2))"
    using read_rounds_progress [of X tc1 e n n H] rd w1 a n lt by (auto simp: tc1)
  have inv2: "buf_inv (tc_inBuffer tc2)" "tc_active tc2" using r(2) by (simp_all add: waiting_def)
  obtain b where "buffer_Read c n (tc_inBuffer tc2) = ((n, take n (content (tc_inBuffer tc2))), None, b)"
    using buffer_Read_content [OF inv2(1), of c n] r(4) by (auto simp: min_def)
  then have "fst (tcp_ReadN c now (int n) tc2) = Some (take n (content (tc_inBuffer tc2)), None)"
    using r(4) inv2 LenRead_content [OF inv2(1)]
    by (simp add: tcp_ReadN_def tcp_read_op_def tcp_waitRead_def tcp_IsActive_def Let_def)
  with r show ?thesis by auto
qed

definition trickle_nsys :: "'k nsys" where
  "trickle_nsys = idle_nsys\<lparr>n_readv := (\<lambda>_ ls k. (Inr (if sum_list ls = 0 then [] else [7]), k))\<rparr>"

lemma trickle_readable: "always_readable trickle_nsys fd"
proof -
  have ne: "ls = []" if "\<forall>n \<in> set ls. n = 0" "0 \<notin> set ls" for ls :: "nat list"
    using that by (cases ls) auto
  have "Suc 0 \<le> sum_list ls" if "\<not> (\<forall>n \<in> set ls. n = 0)" for ls :: "nat list"
    using that sum_list_eq_0_iff [of ls] by linarith
  then show ?thesis by (auto simp: always_readable_def trickle_nsys_def intro: ne)
qed

theorem blocked_reader_served_witness:
  "\<exists>tc1 tc2 e2 bs. tcp_waitRead 0 (int 3) new_tcpconn = (Blocked, tc1) \<and>
    read_rounds (tcp_ext trickle_nsys) no_handlers (int 3) 3 (tc1, idle_env ()) = (Ready, tc2, e2) \<and>
    fst (tcp_ReadN False 0 (int 3) tc2) = Some (take 3 bs, None)"
proof -
  have w: "waiting new_tcpconn"
    using queue_rel_Initialize by (simp add: waiting_def new_tcpconn_def queue_rel_def)
  have c: "content (tc_inBuffer new_tcpconn) = []" "LenRead (tc_inBuffer new_tcpconn) = 0"
    using queue_rel_Initialize LenRead_content [of "Initialize zero_buffer"] by (simp_all add: new_tcpconn_def queue_rel_def)
  have a: "block_source (e_alloc (idle_env ()))" using fresh_cache.block_source_axioms by (simp add: idle_env_def)
  have rd: "always_readable (x_nsys (tcp_ext trickle_nsys)) (nf_fd (tc_nfd new_tcpconn))"
    using trickle_readable by (simp add: tcp_ext_def)
  have bl: "tcp_waitRead 0 (int 3) new_tcpconn = (Blocked, new_tcpconn\<lparr>tc_waitReadLen := 3\<rparr>)"
    using c(2) by (simp add: tcp_waitRead_def tcp_IsActive_def Let_def new_tcpconn_def)
  have n: "3 \<le> MaxBufferSize" by (simp add: MaxBufferSize_def)
  show ?thesis
    using blocked_reader_served [OF rd w a n bl, of no_handlers False] bl c(1) by fastforce
qed

text \<open>C38. A read that is too large starves. Once more than \<open>MaxBufferSize\<close> bytes wait, read events store nothing and
  wake nobody; so a reader that waits for more bytes than have arrived by then never returns, however many
  events follow, although the socket has data.\<close>

theorem oversized_read_starves:
  assumes w: "waiting tc" and "tc_readTrigger tc = 0"
    and len: "MaxBufferSize < LenRead (tc_inBuffer tc)" "int (LenRead (tc_inBuffer tc)) < n"
  shows "fst (tcp_waitRead now n tc) = Blocked \<and> fst (read_rounds X H n c (tc, e)) = Blocked \<and>
    tc_inBuffer (fst (snd (read_rounds X H n c (tc, e)))) = tc_inBuffer tc"
proof -
  have "fst (read_rounds X H n c (tc, e)) = Blocked \<and>
    tc_inBuffer (fst (snd (read_rounds X H n c (tc, e)))) = tc_inBuffer tc"
    using assms
  proof (induction c arbitrary: tc e)
    case (Suc c)
    obtain e1 adds where ev: "tcpOnRead X H nil_iodata (tc, e) = Some (None, adds, nil_iodata, tc\<lparr>tc_sysRead := False\<rparr>, e1)"
      using Suc.prems by (simp add: tcpOnRead_def Fill_def fill_lens_def nfd_Readv_def waiting_def Let_def on_tc_def)
    have wk: "tcp_wake False n (tc\<lparr>tc_sysRead := False\<rparr>) = (Blocked, tc\<lparr>tc_sysRead := False\<rparr>)"
      using Suc.prems by (simp add: tcp_wake_def waiting_def Let_def)
    have "waiting (tc\<lparr>tc_sysRead := False\<rparr>)" using Suc.prems(1) by (simp add: waiting_def)
    with Suc.IH [of "tc\<lparr>tc_sysRead := False\<rparr>" e1] Suc.prems(2-4) ev wk show ?case by simp
  qed simp
  moreover have "fst (tcp_waitRead now n tc) = Blocked"
    using assms by (simp add: tcp_waitRead_def waiting_def tcp_IsActive_def Let_def)
  ultimately show ?thesis by simp
qed

theorem oversized_read_starves_witness:
  "\<exists>b. buf_inv b \<and> LenRead b = MaxBufferSize + 1 \<and>
    fst (read_rounds (tcp_ext trickle_nsys) no_handlers (int MaxBufferSize + 2) 1000
      (new_tcpconn\<lparr>tc_inBuffer := b\<rparr>, idle_env ())) = Blocked"
proof -
  let ?bs = "[replicate (MaxBufferSize + 1) (0 :: byte)]"
  have fit: "MaxBufferSize + 1 < 2 ^ 32" by (simp add: MaxBufferSize_def)
  obtain b where b: "buf_inv b" "content b = replicate (MaxBufferSize + 1) 0"
    using linkFrom_ok [of "Initialize zero_buffer" ?bs] queue_rel_Initialize fit
    by (auto simp: queue_rel_def content_blocks simp del: replicate_Suc)
  have len: "LenRead b = MaxBufferSize + 1" using LenRead_content [OF b(1)] b(2) by simp
  let ?tc = "new_tcpconn\<lparr>tc_inBuffer := b\<rparr>"
  have "waiting ?tc" using b(1) by (simp add: waiting_def new_tcpconn_def)
  then have "fst (read_rounds (tcp_ext trickle_nsys) no_handlers (int MaxBufferSize + 2) 1000 (?tc, idle_env ())) = Blocked"
    using oversized_read_starves [of ?tc "int MaxBufferSize + 2" _ "tcp_ext trickle_nsys" no_handlers 1000 "idle_env ()"] len
    by (simp add: new_tcpconn_def)
  with b(1) len show ?thesis by blast
qed

end
