(* ===== verification/Tcp_Write.thy ===== *)
theory Tcp_Write
  imports Tcpconn "HOL-Library.Sublist"
begin

text \<open>
  The writing side of a TCP connection, from \<open>Writev\<close> through the output buffer to the socket. What the peer
  has been sent followed by what is still buffered is what \<open>Writev\<close> accepted, in order, whatever the kernel
  takes at a time and whoever flushes. The theory also follows the idle timers that writing refreshes.
\<close>

section \<open>What the system calls do\<close>

text \<open>\<open>stream k\<close> is what the peer has been sent in kernel state \<open>k\<close>. \<open>writev\<close> takes a front part of the vector, or
  fails and takes nothing; the other calls send nothing.\<close>

definition stream_sys :: "'k ext \<Rightarrow> ('k \<Rightarrow> byte list) \<Rightarrow> bool" where
  "stream_sys X stream \<longleftrightarrow>
     (\<forall>fd ivs k e k'. n_writev (x_nsys X) fd ivs k = (Inl e, k') \<longrightarrow> stream k' = stream k \<and> (\<forall>f. e \<noteq> Fault f)) \<and>
     (\<forall>fd ivs k n k'. n_writev (x_nsys X) fd ivs k = (Inr n, k') \<longrightarrow>
        n \<le> length (concat ivs) \<and> stream k' = stream k @ take n (concat ivs)) \<and>
     (\<forall>ep op fd ev k. stream (snd (k_epoll_ctl (x_kern X) ep op fd ev k)) = stream k) \<and>
     (\<forall>fd k. stream (snd (k_close (x_kern X) fd k)) = stream k) \<and>
     (\<forall>fd k. stream (n_sock_close (x_nsys X) fd k) = stream k)"

text \<open>The bytes sent and buffered are \<open>s\<close>.\<close>

definition out_state :: "('k \<Rightarrow> byte list) \<Rightarrow> byte list \<Rightarrow> ('f, 'm, 'h, 'd, 'k) tcs \<Rightarrow> bool" where
  "out_state stream s st \<longleftrightarrow> (\<exists>d. queue_rel (tc_outBuffer (fst st)) d \<and> stream (kernel (snd st)) @ d = s)"

definition write_frame :: "('f, 'm, 'h, 'd, 'k) tcs \<Rightarrow> bool \<times> bool \<times> 'f option \<times> bool \<times> int \<times> (nat \<Rightarrow> byte list)" where
  "write_frame st = (tc_active (fst st), tc_sysRead (fst st), tc_closeHandle (fst st), tc_safeWrite (fst st),
     tc_outboundBufferLimit (fst st), e_alloc (snd st))"

lemma nfd_Writev_stream:
  assumes sys: "stream_sys X stream" and w: "nfd_Writev (x_nsys X) ivs nfd k = (n, r, adds, k')"
  shows "r = None \<Longrightarrow> 0 \<le> n \<and> nat n \<le> length (concat ivs) \<and> stream k' = stream k @ take (nat n) (concat ivs)"
    and "r = Some e \<Longrightarrow> stream k' = stream k \<and> e \<noteq> Fault f"
proof -
  note d = sys [unfolded stream_sys_def]
  have d1: "n_writev (x_nsys X) (nf_fd nfd) ivs k = (Inl e, k') \<Longrightarrow> stream k' = stream k \<and> e \<noteq> Fault f" for e f k'
    using d by blast
  have d2: "n_writev (x_nsys X) (nf_fd nfd) ivs k = (Inr m, k') \<Longrightarrow>
      m \<le> length (concat ivs) \<and> stream k' = stream k @ take m (concat ivs)" for m k'
    using d by blast
  show "r = None \<Longrightarrow> 0 \<le> n \<and> nat n \<le> length (concat ivs) \<and> stream k' = stream k @ take (nat n) (concat ivs)"
    using w d2 by (auto simp: nfd_Writev_def split: if_splits prod.splits sum.splits)
  show "r = Some e \<Longrightarrow> stream k' = stream k \<and> e \<noteq> Fault f"
    using w d1 by (auto simp: nfd_Writev_def split: if_splits prod.splits sum.splits)
qed

lemma Control_stream:
  assumes "stream_sys X stream"
  shows "stream (w_kernel (snd (nfd_Control (x_kern X) eps ev nfd w))) = stream (w_kernel w)"
proof -
  have e: "stream (snd (k_epoll_ctl (x_kern X) ep op fd v k)) = stream k" for ep op fd v k
    using assms by (simp add: stream_sys_def)
  show ?thesis
    by (simp add: nfd_Control_def Desc_Control_def ep_Control_def ep_insert_def ep_interest_def ep_remove_def
        on_kernel_def split_beta Let_def e split: option.split event.split)
qed

section \<open>One write to the socket\<close>

lemma blocks_nonempty: "b \<in> set (take l (blocks x)) \<Longrightarrow> b \<noteq> []"
  by (auto simp: blocks_def chain_blocks_def dest: in_set_takeD)

lemma concat_take_prefix: "n \<le> length (concat (take l bs)) \<Longrightarrow> take n (concat (take l bs)) = take n (concat bs)"
  by (metis append_take_drop_id concat_append take_append diff_is_0_eq' take0 append_Nil2)

lemma concat_take_le: "n \<le> length (concat (take l bs)) \<Longrightarrow> n \<le> length (concat bs)"
  by (metis append_take_drop_id concat_append length_append trans_le_add1)

lemma set_kernel_simps [simp]:
  "kernel (set_kernel k e) = k" "e_cleanUp (set_kernel k e) = e_cleanUp e" "e_conns (set_kernel k e) = e_conns e"
  "e_alloc (set_kernel k e) = e_alloc e"
  by (simp_all add: set_kernel_def)

lemma refresh_keeps [simp]:
  "kernel (snd (refresh t e)) = kernel e" "e_alloc (snd (refresh t e)) = e_alloc e"
  by (simp_all add: refresh_def asynctimer_Add_def split_beta split: option.split)

text \<open>What handing the blocks to \<open>writev\<close> gives, in either way.\<close>

definition sends :: "('k \<Rightarrow> byte list) \<Rightarrow> ('f, 'm, 'h, 'd, 'k) tcs \<Rightarrow> int \<times> err option \<times> adds \<times> ('f, 'm, 'h, 'd, 'k) tcs \<Rightarrow> bool" where
  "sends stream st res \<longleftrightarrow>
     (case res of (n, r, adds, st') \<Rightarrow>
        tc_outBuffer (fst st') = tc_outBuffer (fst st) \<and> write_frame st' = write_frame st \<and>
        (case r of
           None \<Rightarrow> 0 \<le> n \<and> nat n \<le> length (content (tc_outBuffer (fst st))) \<and>
             stream (kernel (snd st')) = stream (kernel (snd st)) @ take (nat n) (content (tc_outBuffer (fst st)))
         | Some e \<Rightarrow> stream (kernel (snd st')) = stream (kernel (snd st)) \<and> (\<forall>f. e \<noteq> Fault f)))"

lemma cached_sends:
  assumes sys: "stream_sys X stream" and inv: "buf_inv (tc_outBuffer tc)"
  shows "sends stream (tc, e) (writeWithCachedIOData X (tc, e))"
proof -
  let ?bs = "take MaxLen (blocks (tc_outBuffer tc))"
  have f: "filter (\<lambda>b. b \<noteq> []) ?bs = ?bs" using blocks_nonempty by (auto simp: filter_id_conv)
  obtain n r adds k where w: "nfd_Writev (x_nsys X) ?bs (tc_nfd tc) (kernel e) = (n, r, adds, k)"
    using prod_cases4 by blast
  note s = nfd_Writev_stream [OF sys w]
  have c: "content (tc_outBuffer tc) = concat (blocks (tc_outBuffer tc))" by (rule content_blocks)
  show ?thesis
    using s concat_take_prefix [of "nat n" MaxLen "blocks (tc_outBuffer tc)"] concat_take_le [of "nat n" MaxLen "blocks (tc_outBuffer tc)"]
    by (cases r) (auto simp: sends_def writeWithCachedIOData_def PeekBlocks_ok [OF inv] Let_def f w c write_frame_def split_beta)
qed

lemma SetIOVec_blocks:
  "list_all (\<lambda>b. b \<noteq> []) bs \<Longrightarrow> SetIOVec (length bs) (d\<lparr>ByteVec := Some (bs @ r)\<rparr>) =
     (None, d\<lparr>ByteVec := Some (bs @ r), IOVec := Some (map (\<lambda>s. (Some s, of_nat (length s))) bs)\<rparr>)"
  by (auto simp: SetIOVec_def Let_def list_all_iff)

lemma adhoc_sends:
  assumes sys: "stream_sys X stream" and inv: "buf_inv (tc_outBuffer tc)"
  shows "sends stream (tc, e) (writeWithAdhocIOData X (tc, e))"
proof -
  let ?L = "length (vec (ByteVec (tc_writevData tc)))"
  define bs where "bs = take ?L (blocks (tc_outBuffer tc))"
  have pk: "PeekBlocks ?L (tc_outBuffer tc) = Inr bs" by (simp add: bs_def PeekBlocks_ok [OF inv])
  have ne: "list_all (\<lambda>b. b \<noteq> []) bs" unfolding bs_def list_all_iff using blocks_nonempty by blast
  obtain n r adds k where w: "nfd_Writev (x_nsys X) bs (tc_nfd tc) (kernel e) = (n, r, adds, k)"
    using prod_cases4 by blast
  note s = nfd_Writev_stream [OF sys w]
  have c: "content (tc_outBuffer tc) = concat (blocks (tc_outBuffer tc))" by (rule content_blocks)
  have p: "r = None \<Longrightarrow> take (nat n) (concat bs) = take (nat n) (content (tc_outBuffer tc)) \<and> nat n \<le> length (content (tc_outBuffer tc))"
    using s(1) concat_take_prefix [of "nat n" ?L "blocks (tc_outBuffer tc)"] concat_take_le [of "nat n" ?L "blocks (tc_outBuffer tc)"]
    unfolding c bs_def by blast
  show ?thesis
    using s p unfolding sends_def writeWithAdhocIOData_def Let_def prod.case pk sum.case SetIOVec_blocks [OF ne]
    by (cases r) (auto simp: w comp_def write_frame_def split_beta)
qed

text \<open>Every step of the writing side keeps the bytes sent and buffered together, and the settings. \<open>keeps\<close> is that
  for the state after a step.\<close>

definition keeps :: "('k \<Rightarrow> byte list) \<Rightarrow> byte list \<Rightarrow> ('f, 'm, 'h, 'd, 'k) tcs \<Rightarrow> ('f, 'm, 'h, 'd, 'k) tcs \<Rightarrow> bool" where
  "keeps stream s st st' \<longleftrightarrow> out_state stream s st' \<and> write_frame st' = write_frame st"

lemma writeToNetFD_keeps:
  assumes sys: "stream_sys X stream" and o: "out_state stream s st" and w: "tcp_writeToNetFD X st = (r, adds, st')"
  shows "keeps stream s st st'" and "r \<noteq> Some (Fault f)"
proof -
  obtain tc e where st: "st = (tc, e)" by (cases st)
  define e1 where "e1 = snd (refreshWriteIdleTimeout tc (snd (refreshConn tc e)))"
  have e1: "kernel e1 = kernel e" "e_alloc e1 = e_alloc e"
    by (simp_all add: e1_def refreshWriteIdleTimeout_def refreshConn_def)
  obtain d where d: "queue_rel (tc_outBuffer tc) d" "stream (kernel e) @ d = s"
    using o by (auto simp: out_state_def st)
  then have inv: "buf_inv (tc_outBuffer tc)" "content (tc_outBuffer tc) = d" by (simp_all add: queue_rel_def)
  let ?res = "if IsNil (tc_writevData tc) then writeWithCachedIOData X (tc, e1) else writeWithAdhocIOData X (tc, e1)"
  obtain n r1 adds1 tc1 e2 where res: "?res = (n, r1, adds1, tc1, e2)" using prod_cases5 by blast
  have "sends stream (tc, e1) ?res" using cached_sends [OF sys inv(1), of e1] adhoc_sends [OF sys inv(1), of e1] by simp
  with res have s: "tc_outBuffer tc1 = tc_outBuffer tc" "write_frame (tc1, e2) = write_frame (tc, e1)"
    "case r1 of None \<Rightarrow> 0 \<le> n \<and> nat n \<le> length d \<and> stream (kernel e2) = stream (kernel e1) @ take (nat n) d
     | Some e \<Rightarrow> stream (kernel e2) = stream (kernel e1) \<and> (\<forall>f. e \<noteq> Fault f)"
    by (auto simp: sends_def inv(2) split: option.splits)
  have fr: "write_frame (tc1, e2) = write_frame st" using s(2) e1(2) by (simp add: write_frame_def st)
  have W: "tcp_writeToNetFD X st = (case (n, r1, adds1, tc1, e2) of
          (n, Some r, adds, st) \<Rightarrow> (Some r, adds, st)
        | (n, None, adds, tc, e) \<Rightarrow>
            (case Skip n (tc_outBuffer tc) of
               (Some r, b) \<Rightarrow> (Some r, adds, tc\<lparr>tc_outBuffer := b\<rparr>, e)
             | (None, b) \<Rightarrow> (case Release (e_cleanUp e) b of (r, b) \<Rightarrow> (r, adds, tc\<lparr>tc_outBuffer := b\<rparr>, e))))"
    unfolding tcp_writeToNetFD_def st prod.case Let_def e1_def [symmetric] res ..
  have "keeps stream s st st' \<and> r \<noteq> Some (Fault f)"
  proof (cases r1)
    case (Some x)
    with w W s(1,3) d e1(1) fr show ?thesis by (auto simp: keeps_def out_state_def)
  next
    case None
    with s(3) have n: "0 \<le> n" "nat n \<le> length d" "stream (kernel e2) = stream (kernel e) @ take (nat n) d"
      using e1(1) by simp_all
    have n': "n \<le> int (length d)" using n(1,2) by linarith
    obtain b where b: "Skip n (tc_outBuffer tc) = (None, b)" "queue_rel b (drop (nat n) d)"
      using queue_rel_read(2) [OF d(1), of n] n(1) n' by (auto simp: queue_take_def queue_drop_def)
    obtain b' where b': "Release (e_cleanUp e2) b = (None, b')" "queue_rel b' (drop (nat n) d)"
      using queue_rel_Release [OF b(2)] by blast
    have "stream (kernel e2) @ drop (nat n) d = s" using n(3) d(2) by simp
    with w W None s(1) b b' fr show ?thesis by (auto simp: keeps_def out_state_def write_frame_def)
  qed
  then show "keeps stream s st st'" and "r \<noteq> Some (Fault f)" by simp_all
qed

lemma tcp_Control_keeps:
  assumes "stream_sys X stream" and "out_state stream s st" and "tcp_Control X ev st = (r, st')"
  shows "keeps stream s st st'"
proof -
  obtain tc e where st: "st = (tc, e)" by (cases st)
  obtain r1 w where c: "nfd_Control (x_kern X) (x_eps X) ev (tc_nfd tc) (e_world e) = (r1, w)"
    by (cases "nfd_Control (x_kern X) (x_eps X) ev (tc_nfd tc) (e_world e)")
  have "stream (w_kernel w) = stream (kernel e)"
    using Control_stream [OF assms(1), of "x_eps X" ev "tc_nfd tc" "e_world e"] c by simp
  with assms(2,3) c show ?thesis by (auto simp: st tcp_Control_def keeps_def out_state_def write_frame_def)
qed

lemma keeps_trans: "keeps stream s st st1 \<Longrightarrow> keeps stream s st1 st2 \<Longrightarrow> keeps stream s st st2"
  by (simp add: keeps_def)

lemma keeps_writing: "out_state stream s st \<Longrightarrow> keeps stream s st (on_tc (\<lambda>tc. tc\<lparr>tc_writing := l tc\<rparr>) st)"
  by (simp add: keeps_def out_state_def write_frame_def on_tc_def)

lemma keeps_out: "keeps stream s st st' \<Longrightarrow> out_state stream s st'"
  by (simp add: keeps_def)

lemma notify_keeps:
  assumes "stream_sys X stream" and "out_state stream s st" and n: "notify X st = (r, adds, st')"
  shows "keeps stream s st st'"
proof (cases "TryLock (tc_writing (fst st))")
  case (Pair ok l)
  let ?st = "on_tc (\<lambda>tc. tc\<lparr>tc_writing := l\<rparr>) st"
  have k: "keeps stream s st ?st" by (rule keeps_writing [OF assms(2)])
  show ?thesis
  proof (cases ok)
    case True
    obtain r1 st1 where c: "tcp_Control X ModReadWriteable ?st = (r1, st1)"
      by (cases "tcp_Control X ModReadWriteable ?st")
    from tcp_Control_keeps [OF assms(1) keeps_out [OF k] c] k have "keeps stream s st st1" by (rule keeps_trans [rotated])
    with n c Pair True show ?thesis by (simp add: notify_def)
  next
    case False
    with n Pair assms(2) show ?thesis by (simp add: notify_def keeps_def)
  qed
qed

lemma unlock_recheck_keeps:
  assumes "stream_sys X stream" and "out_state stream s st" and u: "unlock_recheck X st = (r, adds, st')"
  shows "keeps stream s st st'"
proof -
  let ?st = "on_tc (\<lambda>tc. tc\<lparr>tc_writing := Unlock (tc_writing tc)\<rparr>) st"
  have k: "keeps stream s st ?st" by (rule keeps_writing [OF assms(2)])
  with u notify_keeps [OF assms(1) keeps_out [OF k]] show ?thesis
    by (auto simp: unlock_recheck_def Let_def split: if_splits intro: keeps_trans)
qed

lemma flush_keeps:
  assumes sys: "stream_sys X stream" and o: "out_state stream s st" and f: "flush X st = (r, adds, st')"
  shows "keeps stream s st st'"
proof (cases "TryLock (tc_writing (fst st))")
  case (Pair ok l)
  let ?st = "on_tc (\<lambda>tc. tc\<lparr>tc_writing := l\<rparr>) st"
  have k: "keeps stream s st ?st" by (rule keeps_writing [OF o])
  obtain r1 adds1 st1 where w: "tcp_writeToNetFD X ?st = (r1, adds1, st1)" by (cases "tcp_writeToNetFD X ?st")
  have k1: "keeps stream s st st1" using writeToNetFD_keeps(1) [OF sys keeps_out [OF k] w] k by (rule keeps_trans [rotated])
  obtain r2 st2 where c: "tcp_Control X ModReadWriteable st1 = (r2, st2)" by (cases "tcp_Control X ModReadWriteable st1")
  have k2: "keeps stream s st st2" using tcp_Control_keeps [OF sys keeps_out [OF k1] c] k1 by (rule keeps_trans [rotated])
  obtain r3 adds3 st3 where u: "unlock_recheck X st1 = (r3, adds3, st3)" by (cases "unlock_recheck X st1")
  have k3: "keeps stream s st st3" using unlock_recheck_keeps [OF sys keeps_out [OF k1] u] k1 by (rule keeps_trans [rotated])
  have k0: "keeps stream s st st" using o by (simp add: keeps_def)
  from f k0 k1 k2 k3 show ?thesis
    by (auto simp: flush_def Pair w c u Let_def split: bool.splits option.splits if_splits)
qed

lemma tcpOnWrite_keeps:
  assumes sys: "stream_sys X stream" and o: "out_state stream s st" and f: "tcpOnWrite X st = (r, adds, st')"
  shows "keeps stream s st st'"
proof -
  obtain r1 adds1 st1 where w: "tcp_writeToNetFD X st = (r1, adds1, st1)" by (cases "tcp_writeToNetFD X st")
  have k1: "keeps stream s st st1" by (rule writeToNetFD_keeps(1) [OF sys o w])
  obtain r2 st2 where c: "tcp_Control X ModReadable st1 = (r2, st2)" by (cases "tcp_Control X ModReadable st1")
  have k2: "keeps stream s st st2" using tcp_Control_keeps [OF sys keeps_out [OF k1] c] k1 by (rule keeps_trans [rotated])
  obtain r3 adds3 st3 where u: "unlock_recheck X st2 = (r3, adds3, st3)" by (cases "unlock_recheck X st2")
  have k3: "keeps stream s st st3" using unlock_recheck_keeps [OF sys keeps_out [OF k2] u] k2 by (rule keeps_trans [rotated])
  have k0: "keeps stream s st st" using o by (simp add: keeps_def)
  from f k0 k1 k2 k3 show ?thesis
    by (auto simp: tcpOnWrite_def w c u split: option.splits if_splits)
qed

section \<open>Writev\<close>

lemma nfd_close_stream:
  assumes "stream_sys X stream"
  shows "stream (w_kernel (snd (nfd_close (x_kern X) (x_nsys X) eps nfd w))) = stream (w_kernel w)"
proof -
  have e: "stream (snd (k_epoll_ctl (x_kern X) ep op fd v k)) = stream k" "stream (snd (k_close (x_kern X) fd k)) = stream k"
    "stream (n_sock_close (x_nsys X) fd k) = stream k" for ep op fd v k
    using assms by (simp_all add: stream_sys_def)
  show ?thesis
    by (simp add: nfd_close_def FreeDesc_def Desc_Close_def ep_Control_def ep_remove_def on_kernel_def Let_def split_beta e
        split: option.split)
qed

lemma del_timer_kernel [simp]: "kernel (del_timer t e) = kernel e"
  by (simp add: del_timer_def asynctimer_Del_def split: option.split)

lemma close_rest_stream:
  assumes "stream_sys X stream"
  shows "stream (kernel (snd (tcp_close_rest X (tc, e)))) = stream (kernel e)"
    and "tc_active (fst (tcp_close_rest X (tc, e))) = tc_active tc"
  by (simp_all add: tcp_close_rest_def Let_def split_beta deleteConn_def nfd_close_stream [OF assms])

lemma tcp_Close_stream:
  assumes "stream_sys X stream" and "tc_active (fst st)" "\<not> tc_sysRead (fst st)" "tc_closeHandle (fst st) = None"
  shows "\<exists>adds st'. tcp_Close X h st = Some (adds, st') \<and> \<not> tc_active (fst st') \<and>
    stream (kernel (snd st')) = stream (kernel (snd st))"
proof -
  obtain tc e where st: "st = (tc, e)" by (cases st)
  obtain tc1 where j: "tcp_close_jobs st = (tc1, e)" "\<not> tc_active tc1" "tc_closeHandle tc1 = None"
    using assms(4) by (auto simp: st tcp_close_jobs_def storeReadBuffer_def Let_def split_beta split: option.split)
  obtain st2 where st2: "tcp_close_rest X (tc1, e) = st2" by simp
  with close_rest_stream [OF assms(1), of tc1 e] j(2)
  have "stream (kernel (snd st2)) = stream (kernel e)" "\<not> tc_active (fst st2)" by simp_all
  moreover have "tcp_Close X h st = Some ([(TCPConnsClose, 1)], st2)"
    using assms(2-4) j st2 by (simp add: tcp_Close_def Let_def st)
  ultimately show ?thesis by (simp add: st)
qed

lemma WritevLimited_Some: "\<exists>n r b'. WritevLimited alloc safe limit p (Some b) = (n, r, Some b')"
  by (simp add: WritevLimited_def Let_def split: prod.split)

lemma outbound_ok:
  assumes a: "block_source (e_alloc e)" and q: "queue_rel (tc_outBuffer tc) d"
    and len: "length d + length (concat p) < 2 ^ 32" and safe: "tc_safeWrite tc \<longrightarrow> length (concat p) \<le> maxFillLen"
  shows "\<exists>n r b. writeToOutboundBuffer p (tc, e) = (n, r, tc\<lparr>tc_outBuffer := b\<rparr>, e) \<and> queue_rel b (d @ take n (concat p))"
proof (cases "tc_outboundBufferLimit tc \<le> 0")
  case True
  obtain b where "Writev (e_alloc e) (tc_safeWrite tc) p (tc_outBuffer tc) = (length (concat p), None, b)"
    "queue_rel b (d @ concat p)"
    using block_source.queue_rel_Writev [OF a q, of "tc_safeWrite tc" p] len safe by auto
  with True show ?thesis by (auto simp: writeToOutboundBuffer_def)
next
  case False
  let ?c = "BWritevLimited (tc_safeWrite tc) (tc_outboundBufferLimit tc) p"
  obtain b where b: "buf_call (e_alloc e) True ?c (tc_outBuffer tc) = (fst (spec_call ?c d), b)" "queue_rel b (snd (spec_call ?c d))"
    using block_source.queue_rel_WritevLimited [OF a q, of "tc_safeWrite tc" "tc_outboundBufferLimit tc" p True] len safe by auto
  obtain n r b' where w: "WritevLimited (e_alloc e) (tc_safeWrite tc) (tc_outboundBufferLimit tc) p (Some (tc_outBuffer tc)) = (n, r, Some b')"
    using WritevLimited_Some by blast
  have "queue_rel b' (d @ take n (concat p))"
    using b w by (auto simp: Let_def split: if_splits)
  with False w show ?thesis by (auto simp: writeToOutboundBuffer_def)
qed

text \<open>The state of a connection while bytes \<open>acc\<close> have been accepted: open, they are sent or buffered; closed,
  what was sent is a front part of them.\<close>

definition stream_state :: "('k \<Rightarrow> byte list) \<Rightarrow> byte list \<Rightarrow> ('f, 'm, 'h, 'd, 'k) tcs \<Rightarrow> bool" where
  "stream_state stream acc st \<longleftrightarrow>
     (if tc_active (fst st) then out_state stream acc st else prefix (stream (kernel (snd st))) acc)"

definition plain :: "('f, 'm, 'h, 'd, 'k) tcs \<Rightarrow> bool" where
  "plain st \<longleftrightarrow> tc_active (fst st) \<longrightarrow>
     \<not> tc_sysRead (fst st) \<and> tc_closeHandle (fst st) = None \<and> block_source (e_alloc (snd st))"

lemma keeps_plain:
  "keeps stream s st st' \<Longrightarrow> plain st \<Longrightarrow>
     plain st' \<and> tc_active (fst st') = tc_active (fst st) \<and> tc_safeWrite (fst st') = tc_safeWrite (fst st)"
  by (simp add: keeps_def plain_def write_frame_def)

lemma out_state_prefix: "out_state stream acc st \<Longrightarrow> prefix (stream (kernel (snd st))) acc"
  by (auto simp: out_state_def)

lemma writev_step:
  assumes sys: "stream_sys X stream" and pl: "plain st" and s: "stream_state stream acc st"
    and len: "length acc + length (concat p) < 2 ^ 32" and safe: "tc_safeWrite (fst st) \<longrightarrow> length (concat p) \<le> maxFillLen"
  shows "\<exists>n r adds st'. tcp_Writev X h now p st = Some (n, r, adds, st') \<and> plain st' \<and>
    (tc_active (fst st') \<longrightarrow> tc_safeWrite (fst st') = tc_safeWrite (fst st)) \<and>
    stream_state stream (acc @ take n (concat p)) st'"
proof (cases "timer_passed now (tc_wtimer (fst st)) \<or> \<not> tc_active (fst st)")
  case True
  with pl s show ?thesis by (cases st) (auto simp: tcp_Writev_def)
next
  case False
  then have act: "tc_active (fst st)" by simp
  obtain tc e where st: "st = (tc, e)" by (cases st)
  obtain d where d: "queue_rel (tc_outBuffer tc) d" "stream (kernel e) @ d = acc"
    using s act by (auto simp: stream_state_def out_state_def st)
  have "length d + length (concat p) < 2 ^ 32" using len d(2) by auto
  then obtain n r b where w: "writeToOutboundBuffer p st = (n, r, tc\<lparr>tc_outBuffer := b\<rparr>, e)"
    and b: "queue_rel b (d @ take n (concat p))"
    using outbound_ok [OF _ d(1), of e p] pl act safe by (auto simp: st plain_def)
  define st1 where "st1 = (tc\<lparr>tc_outBuffer := b\<rparr>, e)"
  let ?acc = "acc @ take n (concat p)"
  have o1: "out_state stream ?acc st1" using b d(2) by (auto simp: out_state_def st1_def)
  have f1: "write_frame st1 = write_frame st" by (simp add: st1_def st write_frame_def)
  have close: "\<exists>adds st'. tcp_Close X h st2 = Some (adds, st') \<and> plain st' \<and> \<not> tc_active (fst st') \<and> stream_state stream ?acc st'"
    if k: "keeps stream ?acc st st2" for st2
  proof -
    have "plain st2" "tc_active (fst st2)" using keeps_plain [OF k pl] act by simp_all
    then obtain adds st' where "tcp_Close X h st2 = Some (adds, st')" "\<not> tc_active (fst st')"
      "stream (kernel (snd st')) = stream (kernel (snd st2))"
      using tcp_Close_stream [OF sys, of st2 h] by (auto simp: plain_def)
    with out_state_prefix [OF keeps_out [OF k]] show ?thesis by (auto simp: plain_def stream_state_def)
  qed
  have k1: "keeps stream ?acc st st1" using o1 f1 by (simp add: keeps_def)
  show ?thesis
  proof (cases r)
    case (Some x)
    from close [OF k1] False w Some show ?thesis by (fastforce simp: tcp_Writev_def st1_def)
  next
    case None
    obtain r2 adds2 st2 where f: "(if pw_Enabled (tc_postpone (fst st1)) then notify X st1 else flush X st1) = (r2, adds2, st2)"
      using prod_cases3 by blast
    have "keeps stream ?acc st1 st2"
      using f notify_keeps [OF sys o1] flush_keeps [OF sys o1] by (auto split: if_splits)
    then have k2: "keeps stream ?acc st st2" by (rule keeps_trans [OF k1])
    have W: "tcp_Writev X h now p st = (case r2 of
        Some r \<Rightarrow> map_option (\<lambda>(adds', st). (n, Some r, adds2 @ adds', st)) (tcp_Close X h st2)
      | None \<Rightarrow> Some (n, None, adds2, st2))"
      unfolding tcp_Writev_def w [folded st1_def] None prod.case option.case f
      using False by (simp split: option.split)
    show ?thesis
    proof (cases r2)
      case (Some x)
      with close [OF k2] W show ?thesis by fastforce
    next
      case n2: None
      have "plain st2" "tc_active (fst st2)" "tc_safeWrite (fst st2) = tc_safeWrite (fst st)" "out_state stream ?acc st2"
        using keeps_plain [OF k2 pl] act keeps_out [OF k2] by simp_all
      with W n2 show ?thesis by (auto simp: stream_state_def)
    qed
  qed
qed

section \<open>Sequences of writes and write events\<close>

datatype wstep = SWritev int "byte list list" | SOnWrite

text \<open>The bytes accepted by the calls, and the state afterwards; \<open>None\<close> if a call did not return.\<close>

fun write_run :: "'k ext \<Rightarrow> wstep list \<Rightarrow> ('f, 'm, 'h, 'd, 'k) tcs \<Rightarrow> byte list \<times> ('f, 'm, 'h, 'd, 'k) tcs option" where
  "write_run X [] st = ([], Some st)"
| "write_run X (SWritev now p # ss) st =
     (case tcp_Writev X (\<lambda>_ st. st) now p st of
        None \<Rightarrow> ([], None)
      | Some (n, _, _, st) \<Rightarrow> (case write_run X ss st of (acc, st) \<Rightarrow> (take n (concat p) @ acc, st)))"
| "write_run X (SOnWrite # ss) st = (case tcpOnWrite X st of (_, _, st) \<Rightarrow> write_run X ss st)"

fun step_bytes :: "wstep \<Rightarrow> byte list" where
  "step_bytes (SWritev now p) = concat p"
| "step_bytes SOnWrite = []"

lemma write_run_closed: "\<not> tc_active (fst st) \<Longrightarrow> write_run X ss st = ([], Some st)"
proof (induction ss)
  case (Cons x ss)
  then show ?case by (cases x) (simp_all add: tcp_Writev_def tcpOnWrite_def)
qed simp

lemma write_run_stream:
  assumes "stream_sys X stream" and "plain st" and "stream_state stream acc st"
    and "length acc + sum_list (map (length \<circ> step_bytes) ss) < 2 ^ 32"
    and "tc_safeWrite (fst st) \<longrightarrow> list_all (\<lambda>x. length (step_bytes x) \<le> maxFillLen) ss"
  shows "\<exists>acc' st'. write_run X ss st = (acc', Some st') \<and> stream_state stream (acc @ acc') st'"
  using assms(2-)
proof (induction ss arbitrary: st acc)
  case Nil
  then show ?case by auto
next
  case (Cons x ss)
  show ?case
  proof (cases x)
    case (SWritev now p)
    have len: "length acc + length (concat p) < 2 ^ 32" using Cons.prems(3) SWritev by simp
    obtain n r adds st1 where w: "tcp_Writev X (\<lambda>_ st. st) now p st = Some (n, r, adds, st1)" "plain st1"
      "tc_active (fst st1) \<longrightarrow> tc_safeWrite (fst st1) = tc_safeWrite (fst st)" "stream_state stream (acc @ take n (concat p)) st1"
      using writev_step [OF assms(1) Cons.prems(1,2) len, of "\<lambda>_ st. st" now] Cons.prems(4) SWritev by auto
    show ?thesis
    proof (cases "tc_active (fst st1)")
      case True
      have "length (acc @ take n (concat p)) + sum_list (map (length \<circ> step_bytes) ss) < 2 ^ 32"
        using Cons.prems(3) SWritev by (simp add: comp_def)
      moreover have "tc_safeWrite (fst st1) \<longrightarrow> list_all (\<lambda>x. length (step_bytes x) \<le> maxFillLen) ss"
        using Cons.prems(4) w(3) True by simp
      ultimately obtain acc' st' where "write_run X ss st1 = (acc', Some st')" "stream_state stream ((acc @ take n (concat p)) @ acc') st'"
        using Cons.IH [OF w(2,4)] by blast
      with w(1) SWritev show ?thesis by simp
    next
      case False
      from write_run_closed [OF this] w SWritev show ?thesis by simp
    qed
  next
    case SOnWrite
    obtain r adds st1 where o: "tcpOnWrite X st = (r, adds, st1)" by (cases "tcpOnWrite X st")
    have s1: "stream_state stream acc st1 \<and> plain st1 \<and> tc_safeWrite (fst st1) = tc_safeWrite (fst st)"
    proof (cases "tc_active (fst st)")
      case True
      then have "keeps stream acc st st1"
        using tcpOnWrite_keeps [OF assms(1) _ o] Cons.prems(2) by (simp add: stream_state_def)
      from keeps_plain [OF this Cons.prems(1)] keeps_out [OF this] True show ?thesis by (simp add: stream_state_def)
    next
      case False
      with o Cons.prems(1,2) show ?thesis by (simp add: tcpOnWrite_def)
    qed
    with Cons.IH [of st1 acc] Cons.prems(3,4) SOnWrite o show ?thesis by simp
  qed
qed

text \<open>C2. TCP output is a stream. For any sequence of \<open>Writev\<close> calls and write events on a connection, whatever
  number of bytes the kernel takes at a time and wherever it answers \<open>EAGAIN\<close> or fails, whether writing is flushed
  or postponed, copying or not, with or without an outbound limit: every call returns, the peer has been sent a
  front part of the bytes accepted, in order, and while the connection is open the rest of them is in the output
  buffer.\<close>

theorem tcp_stream_in_order:
  assumes sys: "stream_sys X stream" and start: "stream (kernel e) = []" "queue_rel (tc_outBuffer tc) []"
    and tc: "tc_active tc" "\<not> tc_sysRead tc" "tc_closeHandle tc = None" and a: "block_source (e_alloc e)"
    and len: "sum_list (map (length \<circ> step_bytes) ss) < 2 ^ 32"
    and safe: "tc_safeWrite tc \<longrightarrow> list_all (\<lambda>x. length (step_bytes x) \<le> maxFillLen) ss"
  shows "\<exists>acc tc' e'. write_run X ss (tc, e) = (acc, Some (tc', e')) \<and> prefix (stream (kernel e')) acc \<and>
    (tc_active tc' \<longrightarrow> stream (kernel e') @ content (tc_outBuffer tc') = acc)"
proof -
  have "plain (tc, e)" "stream_state stream [] (tc, e)"
    using start tc a by (auto simp: plain_def stream_state_def out_state_def)
  from write_run_stream [OF sys this] len safe obtain acc tc' e' where r: "write_run X ss (tc, e) = (acc, Some (tc', e'))"
    and s: "stream_state stream acc (tc', e')" by fastforce
  have "prefix (stream (kernel e')) acc" "tc_active tc' \<longrightarrow> stream (kernel e') @ content (tc_outBuffer tc') = acc"
    using s by (auto simp: stream_state_def out_state_def queue_rel_def split: if_splits)
  with r show ?thesis by blast
qed

text \<open>A kernel that records what is written: a call takes one byte of the vector, and every call made when the
  record is longer than four bytes fails with \<open>EAGAIN\<close>.\<close>

definition recording_nsys :: "byte list nsys" where
  "recording_nsys = idle_nsys\<lparr>n_writev := (\<lambda>_ ivs k.
     if 4 < length k then (Inl EAGAIN, k) else let bs = take 1 (concat ivs) in (Inr (length bs), k @ bs))\<rparr>"

lemma recording_stream: "stream_sys (tcp_ext recording_nsys) (\<lambda>k. k)"
  by (auto simp: stream_sys_def recording_nsys_def tcp_ext_def idle_ext_def idle_nsys_def idle_kern_def Let_def min_def
      split: if_splits)

theorem tcp_stream_in_order_witness:
  "\<exists>acc tc e. write_run (tcp_ext recording_nsys) [SWritev 0 [[1, 2], [3]], SOnWrite, SWritev 0 [[4]], SOnWrite, SWritev 1 [[5, 6, 7]], SOnWrite]
      (new_tcpconn, idle_env []) = (acc, Some (tc, e)) \<and>
    prefix (kernel e) acc \<and> (tc_active tc \<longrightarrow> kernel e @ content (tc_outBuffer tc) = acc)"
proof -
  have "tc_active new_tcpconn" "\<not> tc_sysRead new_tcpconn" "tc_closeHandle new_tcpconn = None" "\<not> tc_safeWrite new_tcpconn"
    "queue_rel (tc_outBuffer new_tcpconn) []"
    using queue_rel_Initialize by (simp_all add: new_tcpconn_def)
  moreover have "block_source (e_alloc (idle_env []))" "kernel (idle_env []) = []"
    using fresh_cache.block_source_axioms by (simp_all add: idle_env_def)
  ultimately show ?thesis
    using tcp_stream_in_order [OF recording_stream, of "idle_env []" new_tcpconn
        "[SWritev 0 [[1, 2], [3]], SOnWrite, SWritev 0 [[4]], SOnWrite, SWritev 1 [[5, 6, 7]], SOnWrite]"]
    by simp
qed

section \<open>Idle timeouts\<close>

text \<open>C39. Setting an idle timeout of zero does not switch it off. The timer is removed from the wheel, as the
  comment of \<open>SetIdleTimeout\<close> promises, but the connection keeps it, and the next read or write puts it back with
  the timeout it had.\<close>

theorem idle_timeout_reenabled:
  assumes "tc_active tc" and "0 < w_interval (e_wheel e)" and "w_interval (e_wheel e) \<le> d"
  shows "\<exists>t tc1 e1 e2 e3. tcp_SetIdleTimeout d (tc, e) = (None, tc1, e1) \<and> tcp_SetIdleTimeout 0 (tc1, e1) = (None, tc1, e2) \<and>
    tc_idleTimer tc1 = Some t \<and> \<not> at_active (w_timers (e_wheel e2) t) \<and>
    refreshConn tc1 e2 = (None, e3) \<and> at_active (w_timers (e_wheel e3) t) \<and> at_timeout (w_timers (e_wheel e3) t) = d \<and>
    w_toAdd (e_wheel e3) = w_toAdd (e_wheel e2) @ [t]"
proof -
  define v where "v = snd (new_idle_timer d (del_timer (tc_idleTimer tc) e))"
  define t where "t = fst (new_idle_timer d (del_timer (tc_idleTimer tc) e))"
  have iv: "w_interval (e_wheel (del_timer t e)) = w_interval (e_wheel e)" for t
    by (simp add: del_timer_def asynctimer_Del_def wheel_Del_def upd_timer_def Let_def split: option.splits)
  obtain k where k: "1 \<le> k" "duration_Round (w_interval (e_wheel e)) d = int k * w_interval (e_wheel e)"
    using duration_Round_multiple [OF assms(2,3)] by blast
  have "w_interval (e_wheel e) \<le> int k * w_interval (e_wheel e)" using k(1) assms(2) by simp
  then have r: "\<not> duration_Round (w_interval (e_wheel e)) d < w_interval (e_wheel e)" using k(2) by linarith
  have v: "w_timers (e_wheel v) t = NewTimer True d" "w_interval (e_wheel v) = w_interval (e_wheel e)"
    by (simp_all add: v_def t_def new_idle_timer_def upd_timer_def iv)
  then obtain e1 where e1: "asynctimer_Add t v = (None, e1)" "w_interval (e_wheel e1) = w_interval (e_wheel e)"
    "at_delay (w_timers (e_wheel e1) t) = duration_Round (w_interval (e_wheel e)) d" "at_timeout (w_timers (e_wheel e1) t) = d"
    using assms(3) by (auto simp: asynctimer_Add_def wheel_Add_def upd_timer_def NewTimer_def Let_def)
  have s1: "tcp_SetIdleTimeout d (tc, e) = (None, tc\<lparr>tc_idleTimer := Some t\<rparr>, e1)"
    using assms e1(1) by (simp add: tcp_SetIdleTimeout_def set_idle_def tcp_IsActive_def Let_def split_beta v_def t_def)
  have "tcp_SetIdleTimeout 0 (tc\<lparr>tc_idleTimer := Some t\<rparr>, e1) = (None, tc\<lparr>tc_idleTimer := Some t\<rparr>, asynctimer_Del t e1)"
    using assms(1) by (simp add: tcp_SetIdleTimeout_def set_idle_def tcp_IsActive_def del_timer_def)
  with s1 e1 r show ?thesis
    by (auto simp: refreshConn_def refresh_def asynctimer_Del_def wheel_Del_def asynctimer_Add_def wheel_Add_def upd_timer_def
        Let_def intro!: exI [of _ t])
qed

theorem idle_timeout_reenabled_witness:
  "\<exists>t tc1 e1 e2 e3. tcp_SetIdleTimeout (10 ^ 10) (new_tcpconn, idle_env ()) = (None, tc1, e1) \<and>
    tcp_SetIdleTimeout 0 (tc1, e1) = (None, tc1, e2) \<and> tc_idleTimer tc1 = Some t \<and>
    refreshConn tc1 e2 = (None, e3) \<and> at_active (w_timers (e_wheel e3) t)"
proof -
  have "tc_active new_tcpconn" by (simp add: new_tcpconn_def)
  moreover have "w_interval (e_wheel (idle_env ())) = 10 ^ 9" by (simp add: idle_env_def NewTimeWheel_def)
  ultimately show ?thesis using idle_timeout_reenabled [of new_tcpconn "idle_env ()" "10 ^ 10"] by auto
qed

end
