(* ===== verification/Write_Path.thy ===== *)
theory Write_Path
  imports Udpconn Tcpconn
begin

text \<open>
  The write path of a connection as the interleaving of goroutines: any number of writers (\<open>Writev\<close>, \<open>notify\<close> and
  \<open>flush\<close> of \<open>tcpconn.go\<close>, \<open>WriteTo\<close>, \<open>writeToNetFD\<close> and \<open>writeToBuffer\<close> of \<open>udpconn.go\<close>) and the poller
  (\<open>tcpOnWrite\<close>, \<open>udpOnWrite\<close>), which share the output buffer, the lock \<open>writing\<close> and the write interest of the
  descriptor. One step is one action on a shared object: an operation of the output buffer, a system call, a
  compare-and-swap or a store of the lock, a change of the interest.
\<close>

section \<open>Steps\<close>

datatype pc = Idle | Appended | Send | Sent nat | Check | Mod | Unlk | Recheck | Relock | Ctl
  | Try | Sys | UnlkAgain | UnlkErr | Queue | CheckQueue

datatype role = Writer | Poller

text \<open>The shared objects, with what was handed to the kernel and what the writers handed in. \<open>dead\<close>: some
  goroutine got an error and closes the connection.\<close>

record 'a shared =
  out :: "'a list"
  sent :: "'a list"
  accepted :: "'a list"
  writing :: u32
  interest :: bool
  dead :: bool

text \<open>What the functions have in common: unlock and look again, register the write interest, and the poller's
  part. The poller starts when the interest is registered and the kernel reports the descriptor writable.\<close>

inductive tail_act :: "role \<Rightarrow> pc \<Rightarrow> 'a shared \<Rightarrow> pc \<Rightarrow> 'a shared \<Rightarrow> bool" where
  unlock: "tail_act r Unlk s Recheck (s\<lparr>writing := Unlock (writing s)\<rparr>)"
| recheck_empty: "out s = [] \<Longrightarrow> tail_act r Recheck s Idle s"
| recheck_data: "out s \<noteq> [] \<Longrightarrow> tail_act r Recheck s Relock s"
| relock: "TryLock (writing s) = (True, l) \<Longrightarrow> tail_act r Relock s Ctl (s\<lparr>writing := l\<rparr>)"
| relock_busy: "TryLock (writing s) = (False, l) \<Longrightarrow> tail_act r Relock s Idle s"
| ctl: "tail_act r Ctl s Idle (s\<lparr>interest := True\<rparr>)"
| poll: "interest s \<Longrightarrow> tail_act Poller Idle s Send s"
| send: "n \<le> length (out s) \<Longrightarrow> tail_act r Send s (Sent n) (s\<lparr>sent := sent s @ take n (out s)\<rparr>)"
| fatal: "tail_act r Send s Idle (s\<lparr>dead := True\<rparr>)"
| skip: "tail_act r (Sent n) s Check (s\<lparr>out := drop n (out s)\<rparr>)"
| poll_again: "tail_act Poller Send s Idle s"
| poll_rest: "out s \<noteq> [] \<Longrightarrow> tail_act Poller Check s Idle s"
| poll_done: "out s = [] \<Longrightarrow> tail_act Poller Check s Mod s"
| mod: "tail_act Poller Mod s Unlk (s\<lparr>interest := False\<rparr>)"
| mod_fails: "tail_act Poller Mod s Idle (s\<lparr>dead := True\<rparr>)"

text \<open>TCP: a writer appends, then \<open>notify\<close> (postponed writing) or \<open>flush\<close>.\<close>

inductive tcp_act :: "role \<Rightarrow> pc \<Rightarrow> 'a shared \<Rightarrow> pc \<Rightarrow> 'a shared \<Rightarrow> bool" where
  tcp_tail: "tail_act r p s p' s' \<Longrightarrow> tcp_act r p s p' s'"
| append: "\<not> dead s \<Longrightarrow> tcp_act Writer Idle s Appended (s\<lparr>out := out s @ bs, accepted := accepted s @ bs\<rparr>)"
| busy: "TryLock (writing s) = (False, l) \<Longrightarrow> tcp_act Writer Appended s Idle s"
| notify_ctl: "TryLock (writing s) = (True, l) \<Longrightarrow> tcp_act Writer Appended s Ctl (s\<lparr>writing := l\<rparr>)"
| flush_send: "TryLock (writing s) = (True, l) \<Longrightarrow> tcp_act Writer Appended s Send (s\<lparr>writing := l\<rparr>)"
| flush_again: "tcp_act Writer Send s Ctl s"
| flush_rest: "out s \<noteq> [] \<Longrightarrow> tcp_act Writer Check s Ctl s"
| flush_done: "out s = [] \<Longrightarrow> tcp_act Writer Check s Unlk s"
| ctl_fails: "tcp_act r Ctl s Idle (s\<lparr>dead := True\<rparr>)"

text \<open>UDP: a writer tries to send its packet directly and queues it when the lock is taken or the socket is full
  (or at once, with postponed writing). The flag says whether a direct send may fail for another reason.\<close>

inductive udp_act :: "bool \<Rightarrow> role \<Rightarrow> pc \<Rightarrow> 'a shared \<Rightarrow> pc \<Rightarrow> 'a shared \<Rightarrow> bool" for failing where
  udp_tail: "tail_act r p s p' s' \<Longrightarrow> udp_act failing r p s p' s'"
| tries: "\<not> dead s \<Longrightarrow> udp_act failing Writer Idle s Try s"
| postponed: "\<not> dead s \<Longrightarrow> udp_act failing Writer Idle s Queue s"
| direct: "TryLock (writing s) = (True, l) \<Longrightarrow> udp_act failing Writer Try s Sys (s\<lparr>writing := l\<rparr>)"
| direct_busy: "TryLock (writing s) = (False, l) \<Longrightarrow> udp_act failing Writer Try s Queue s"
| sys: "udp_act failing Writer Sys s Unlk (s\<lparr>sent := sent s @ [x]\<rparr>)"
| sys_again: "udp_act failing Writer Sys s UnlkAgain s"
| sys_fails: "failing \<Longrightarrow> udp_act failing Writer Sys s UnlkErr s"
| unlock_again: "udp_act failing Writer UnlkAgain s Queue (s\<lparr>writing := Unlock (writing s)\<rparr>)"
| unlock_err: "failing \<Longrightarrow> udp_act failing Writer UnlkErr s Idle (s\<lparr>writing := Unlock (writing s)\<rparr>)"
| queue: "udp_act failing Writer Queue s Appended (s\<lparr>out := out s @ [x], accepted := accepted s @ [x]\<rparr>)"
| queue_busy: "TryLock (writing s) = (False, l) \<Longrightarrow> udp_act failing Writer Appended s Idle s"
| queue_lock: "TryLock (writing s) = (True, l) \<Longrightarrow> udp_act failing Writer Appended s CheckQueue (s\<lparr>writing := l\<rparr>)"
| queue_ctl: "out s \<noteq> [] \<Longrightarrow> udp_act failing Writer CheckQueue s Ctl s"
| queue_done: "out s = [] \<Longrightarrow> udp_act failing Writer CheckQueue s Unlk s"

text \<open>The goroutines: \<open>None\<close> is the poller, the others are writers. Every interleaving of their actions.\<close>

definition role_of :: "nat option \<Rightarrow> role" where
  "role_of t = (if t = None then Poller else Writer)"

type_synonym 'a wp = "(nat option \<Rightarrow> pc) \<times> 'a shared"

definition wp_init :: "'a wp" where
  "wp_init = (\<lambda>_. Idle, \<lparr>out = [], sent = [], accepted = [], writing = unlocked, interest = False, dead = False\<rparr>)"

inductive wp_reach :: "(role \<Rightarrow> pc \<Rightarrow> 'a shared \<Rightarrow> pc \<Rightarrow> 'a shared \<Rightarrow> bool) \<Rightarrow> 'a wp \<Rightarrow> bool" for A where
  init: "wp_reach A wp_init"
| step: "wp_reach A (T, s) \<Longrightarrow> A (role_of t) (T t) s p s' \<Longrightarrow> wp_reach A (T(t := p), s')"

section \<open>The lock and the data\<close>

text \<open>The goroutine that has the lock at a given point of the program. With the interest registered the lock
  belongs to the poller, which gives it back in \<open>Unlk\<close>.\<close>

fun holds :: "pc \<Rightarrow> bool" where
  "holds Send = True" | "holds (Sent _) = True" | "holds Check = True" | "holds Mod = True" | "holds Unlk = True"
| "holds Ctl = True" | "holds Sys = True" | "holds UnlkAgain = True" | "holds UnlkErr = True" | "holds CheckQueue = True"
| "holds _ = False"

text \<open>A goroutine that will still look at the output buffer.\<close>

fun looks :: "pc \<Rightarrow> bool" where
  "looks Appended = True" | "looks Recheck = True" | "looks Relock = True" | "looks Queue = True" | "looks _ = False"

fun polling :: "pc \<Rightarrow> bool" where
  "polling Send = True" | "polling (Sent _) = True" | "polling Check = True" | "polling Mod = True" | "polling _ = False"

lemma polling_holds: "polling p \<Longrightarrow> holds p" by (cases p) auto

definition wp_lock :: "'a wp \<Rightarrow> bool" where
  "wp_lock = (\<lambda>(T, s).
     (\<forall>t u. holds (T t) \<longrightarrow> holds (T u) \<longrightarrow> t = u) \<and>
     ((\<exists>t. holds (T t)) \<or> interest s \<longrightarrow> writing s \<noteq> unlocked) \<and>
     (writing s \<noteq> unlocked \<longrightarrow> dead s \<or> interest s \<or> (\<exists>t. holds (T t))) \<and>
     (interest s \<longrightarrow> (\<forall>t. holds (T t) \<longrightarrow> t = None \<and> polling (T t))) \<and>
     (polling (T None) \<longrightarrow> interest s))"

lemma wp_lock_held:
  "(\<And>u. holds (T u) \<longleftrightarrow> u = t) \<Longrightarrow> wp_lock (T, s) \<longleftrightarrow>
    writing s \<noteq> unlocked \<and> (interest s \<longrightarrow> t = None \<and> polling (T t)) \<and> (t = None \<longrightarrow> polling (T t) \<longrightarrow> interest s)"
  using polling_holds by (auto simp: wp_lock_def)

lemma wp_lock_free:
  "(\<And>u. \<not> holds (T u)) \<Longrightarrow> wp_lock (T, s) \<longleftrightarrow> (interest s \<longrightarrow> writing s \<noteq> unlocked) \<and> (writing s \<noteq> unlocked \<longrightarrow> dead s \<or> interest s)"
  using polling_holds by (auto simp: wp_lock_def)

definition wp_data :: "'a wp \<Rightarrow> bool" where
  "wp_data = (\<lambda>(T, s). out s \<noteq> [] \<longrightarrow> writing s \<noteq> unlocked \<or> (\<exists>t. looks (T t)))"

text \<open>A step that keeps a predicate of the whole state keeps it in every reachable state.\<close>

lemma wp_reach_inv:
  assumes "wp_reach A x" and "P wp_init"
    and "\<And>T s t p s'. wp_reach A (T, s) \<Longrightarrow> P (T, s) \<Longrightarrow> A (role_of t) (T t) s p s' \<Longrightarrow> P (T(t := p), s')"
  shows "P x"
  using assms(1) by (induction rule: wp_reach.induct) (use assms(2,3) in auto)

lemma TryLock_iff: "TryLock l = (True, l') \<longleftrightarrow> l = unlocked \<and> l' = locked" "TryLock l = (False, l') \<longleftrightarrow> l \<noteq> unlocked \<and> l' = l"
  by (auto simp: TryLock_def)

lemma locked_neq [simp]: "locked \<noteq> unlocked" "unlocked \<noteq> locked" by (simp_all add: locked_def unlocked_def)

lemma role_of_iff [simp]: "role_of t = Poller \<longleftrightarrow> t = None" "role_of t = Writer \<longleftrightarrow> t \<noteq> None"
  by (auto simp: role_of_def)

lemma wp_init_ok: "wp_lock wp_init" "wp_data wp_init"
  by (simp_all add: wp_lock_def wp_data_def wp_init_def)

section \<open>A contract for the actions\<close>

text \<open>The effect of an action on the lock and the interest. A goroutine gets the lock from \<open>TryLock\<close>, or as the
  poller from the registered interest; it gives it up by unlocking, by registering the interest, by dying, or as the
  poller by leaving the interest registered.\<close>

definition lock_effect :: "role \<Rightarrow> pc \<Rightarrow> 'a shared \<Rightarrow> pc \<Rightarrow> 'a shared \<Rightarrow> bool" where
  "lock_effect r p s p' s' \<longleftrightarrow>
     (dead s \<longrightarrow> dead s') \<and>
     (\<not> holds p \<longrightarrow> interest s' = interest s \<and>
        (if holds p' then
           writing s = unlocked \<and> writing s' = locked \<and> (r = Poller \<longrightarrow> \<not> polling p') \<or>
           r = Poller \<and> interest s \<and> polling p' \<and> writing s' = writing s
         else writing s' = writing s)) \<and>
     (holds p \<longrightarrow> holds p' \<longrightarrow> writing s' = writing s \<and>
        (if r = Poller \<and> polling p \<and> \<not> polling p' then \<not> interest s' else interest s' = interest s \<and> (r = Poller \<longrightarrow> polling p' = polling p))) \<and>
     (holds p \<longrightarrow> \<not> holds p' \<longrightarrow>
        writing s' = unlocked \<and> interest s' = interest s \<and> (r = Poller \<longrightarrow> \<not> polling p) \<or>
        writing s' = writing s \<and>
          (if r = Poller \<and> polling p then interest s' = interest s else dead s' \<and> interest s' = interest s \<or> interest s'))"

text \<open>The effect on the data: whoever adds to the output buffer or unlocks will look at the buffer, and who stops
  looking has found it empty or the lock taken.\<close>

definition data_effect :: "pc \<Rightarrow> 'a shared \<Rightarrow> pc \<Rightarrow> 'a shared \<Rightarrow> bool" where
  "data_effect p s p' s' \<longleftrightarrow>
     (out s = [] \<longrightarrow> out s' \<noteq> [] \<longrightarrow> looks p') \<and>
     (looks p \<longrightarrow> \<not> looks p' \<longrightarrow> out s' = [] \<or> writing s' \<noteq> unlocked) \<and>
     (writing s' = unlocked \<longrightarrow> writing s \<noteq> unlocked \<longrightarrow> looks p')"

locale write_protocol =
  fixes A :: "role \<Rightarrow> pc \<Rightarrow> 'a shared \<Rightarrow> pc \<Rightarrow> 'a shared \<Rightarrow> bool"
  assumes lock_effect: "A r p s p' s' \<Longrightarrow> lock_effect r p s p' s'"
    and data_effect: "A r p s p' s' \<Longrightarrow> data_effect p s p' s'"
begin

lemma reach_data: "wp_reach A x \<Longrightarrow> wp_data x"
proof (erule wp_reach_inv)
  fix T s t p s'
  assume d: "wp_data (T, s)" and a: "A (role_of t) (T t) s p s'"
  note e = data_effect [OF a, unfolded data_effect_def]
  show "wp_data (T(t := p), s')"
  proof (cases "looks p \<or> out s' = [] \<or> writing s' \<noteq> unlocked")
    case True
    then show ?thesis by (auto simp: wp_data_def)
  next
    case False
    then have "out s \<noteq> []" "writing s = unlocked" "\<not> looks (T t)" using e by blast+
    then obtain u where "looks (T u)" "u \<noteq> t" using d by (auto simp: wp_data_def)
    then show ?thesis by (auto simp: wp_data_def)
  qed
qed (rule wp_init_ok)

lemma reach_lock: "wp_reach A x \<Longrightarrow> wp_lock x"
proof (erule wp_reach_inv)
  fix T s t p s'
  assume l: "wp_lock (T, s)" and a: "A (role_of t) (T t) s p s'"
  note e = lock_effect [OF a, unfolded lock_effect_def]
  note i = l [unfolded wp_lock_def prod.case]
  consider (out) "\<not> holds (T t)" "\<not> holds p" | (get) "\<not> holds (T t)" "holds p" | (keep) "holds (T t)" "holds p" | (leave) "holds (T t)" "\<not> holds p"
    by blast
  then show "wp_lock (T(t := p), s')"
  proof cases
    case out
    have h: "holds ((T(t := p)) u) = holds (T u)" "polling ((T(t := p)) u) = polling (T u)" for u
      using out by (cases "u = t"; auto dest: polling_holds)+
    have same: "interest s' = interest s" "writing s' = writing s" "dead s \<longrightarrow> dead s'" using e out by simp_all
    show ?thesis using i unfolding wp_lock_def prod.case h same using same(3) by blast
  next
    case get
    have free: "\<not> holds (T u)" for u
    proof
      assume "holds (T u)"
      with i have "writing s \<noteq> unlocked" "interest s \<Longrightarrow> u = None" by blast+
      with e get i \<open>holds (T u)\<close> show False by (cases "role_of t = Poller") auto
    qed
    have new: "holds ((T(t := p)) u) \<longleftrightarrow> u = t" for u using free get(2) by simp
    show ?thesis using l e get unfolding wp_lock_held [of "T(t := p)", OF new] wp_lock_free [of T, OF free] by auto
  next
    case keep
    have old: "holds (T u) \<longleftrightarrow> u = t" for u using i keep(1) by blast
    then have new: "holds ((T(t := p)) u) \<longleftrightarrow> u = t" for u using keep(2) by simp
    show ?thesis using l e keep unfolding wp_lock_held [of T, OF old] wp_lock_held [of "T(t := p)", OF new]
      by (auto split: if_splits)
  next
    case leave
    have old: "holds (T u) \<longleftrightarrow> u = t" for u using i leave(1) by blast
    then have new: "\<not> holds ((T(t := p)) u)" for u using leave(2) by simp
    show ?thesis using l e leave unfolding wp_lock_held [of T, OF old] wp_lock_free [of "T(t := p)", OF new]
      by (auto split: if_splits)
  qed
qed (rule wp_init_ok)

end

lemma tail_effects: "tail_act r p s p' s' \<Longrightarrow> lock_effect r p s p' s' \<and> data_effect p s p' s'"
  by (erule tail_act.cases) (auto simp: lock_effect_def data_effect_def TryLock_iff Unlock_def)

lemma tcp_effects: "tcp_act r p s p' s' \<Longrightarrow> lock_effect r p s p' s' \<and> data_effect p s p' s'"
  by (erule tcp_act.cases) (simp add: tail_effects, auto simp: lock_effect_def data_effect_def TryLock_iff)

lemma udp_effects: "udp_act False r p s p' s' \<Longrightarrow> lock_effect r p s p' s' \<and> data_effect p s p' s'"
  by (erule udp_act.cases) (simp add: tail_effects, auto simp: lock_effect_def data_effect_def TryLock_iff Unlock_def)

interpretation tcp: write_protocol tcp_act
  by unfold_locales (simp_all add: tcp_effects)

interpretation udp: write_protocol "udp_act False"
  by unfold_locales (simp_all add: udp_effects)

section \<open>Order\<close>

text \<open>While a goroutine is between the system call and the removal from the output buffer, the front of the buffer
  has been sent already.\<close>

definition wp_order :: "'a wp \<Rightarrow> bool" where
  "wp_order = (\<lambda>(T, s). (\<forall>t n. T t = Sent n \<longrightarrow> n \<le> length (out s) \<and> sent s @ drop n (out s) = accepted s) \<and>
     ((\<forall>t n. T t \<noteq> Sent n) \<longrightarrow> sent s @ out s = accepted s))"

lemma wp_order_other:
  assumes "wp_order (T, s)" and "\<And>n. T t \<noteq> Sent n" and "\<And>n. p \<noteq> Sent n"
    and "out s' = out s @ bs" and "sent s' = sent s" and "accepted s' = accepted s @ bs"
  shows "wp_order (T(t := p), s')"
proof -
  have "(T(t := p)) u = Sent n \<longleftrightarrow> T u = Sent n" for u n using assms(2,3) by auto
  moreover have "n \<le> length (out s') \<and> sent s' @ drop n (out s') = accepted s'" if "T u = Sent n" for u n
    using assms(1,4-6) that append_assoc [of "sent s" "drop n (out s)" bs] by (fastforce simp: wp_order_def)
  moreover have "sent s' @ out s' = accepted s'" if "\<forall>u n. T u \<noteq> Sent n"
    using assms(1,4-6) that append_assoc [of "sent s" "out s" bs] by (simp add: wp_order_def)
  ultimately show ?thesis unfolding wp_order_def prod.case by blast
qed

definition order_effect :: "pc \<Rightarrow> 'a shared \<Rightarrow> pc \<Rightarrow> 'a shared \<Rightarrow> bool" where
  "order_effect p s p' s' \<longleftrightarrow>
     (\<exists>n. p = Send \<and> p' = Sent n \<and> n \<le> length (out s) \<and> sent s' = sent s @ take n (out s) \<and> out s' = out s \<and> accepted s' = accepted s) \<or>
     (\<exists>n. p = Sent n \<and> p' = Check \<and> out s' = drop n (out s) \<and> sent s' = sent s \<and> accepted s' = accepted s) \<or>
     ((\<forall>n. p \<noteq> Sent n) \<and> (\<forall>n. p' \<noteq> Sent n) \<and> (\<exists>bs. out s' = out s @ bs \<and> sent s' = sent s \<and> accepted s' = accepted s @ bs))"

lemma tail_order: "tail_act r p s p' s' \<Longrightarrow> order_effect p s p' s'"
  by (erule tail_act.cases; simp add: order_effect_def)

lemma tcp_act_order: "tcp_act r p s p' s' \<Longrightarrow> order_effect p s p' s'"
  by (erule tcp_act.cases; simp add: tail_order; simp add: order_effect_def)

lemma tcp_order: "wp_reach tcp_act x \<Longrightarrow> wp_order x"
proof (erule wp_reach_inv)
  fix T :: "nat option \<Rightarrow> pc" and s t p s'
  assume r: "wp_reach tcp_act (T, s)" and o: "wp_order (T, s)" and a: "tcp_act (role_of t) (T t) s p s'"
  have ex: "u = t" if "holds (T t)" "holds (T u)" for u
    using tcp.reach_lock [OF r] that by (auto simp: wp_lock_def)
  from tcp_act_order [OF a] show "wp_order (T(t := p), s')"
    unfolding order_effect_def
  proof (elim disjE exE conjE)
    fix n assume h: "T t = Send" "p = Sent n" "n \<le> length (out s)" "sent s' = sent s @ take n (out s)" "out s' = out s"
      "accepted s' = accepted s"
    have none: "T u \<noteq> Sent m" for u m using ex [of u] h(1) by (cases "u = t") auto
    with o have "sent s @ out s = accepted s" by (simp add: wp_order_def)
    with h none show ?thesis by (simp add: wp_order_def)
  next
    fix n assume h: "T t = Sent n" "p = Check" "out s' = drop n (out s)" "sent s' = sent s" "accepted s' = accepted s"
    have "T u \<noteq> Sent m" if "u \<noteq> t" for u m using ex [of u] h(1) that by auto
    moreover have "sent s @ drop n (out s) = accepted s" using o h(1) by (simp add: wp_order_def)
    ultimately show ?thesis using h by (simp add: wp_order_def)
  next
    fix bs assume "\<forall>n. T t \<noteq> Sent n" "\<forall>n. p \<noteq> Sent n" "out s' = out s @ bs" "sent s' = sent s" "accepted s' = accepted s @ bs"
    with o show ?thesis by (intro wp_order_other [where s = s and bs = bs]) simp_all
  qed
qed (simp add: wp_order_def wp_init_def)

section \<open>Nothing is left behind\<close>

text \<open>The poller alone.\<close>

definition poller_step :: "pc \<times> 'a shared \<Rightarrow> pc \<times> 'a shared \<Rightarrow> bool" where
  "poller_step x y \<longleftrightarrow> tcp_act Poller (fst x) (snd x) (fst y) (snd y)"

lemmas tcp_tails = tail_act.intros [THEN tcp_tail]

lemma poller_drains:
  assumes "interest s" and "sent s @ out s = accepted s"
  shows "\<exists>s'. poller_step\<^sup>*\<^sup>* (Idle, s) (Idle, s') \<and> sent s' = accepted s \<and> out s' = [] \<and> \<not> interest s' \<and> writing s' = unlocked"
proof -
  let ?n = "length (out s)"
  define s1 where "s1 = s\<lparr>sent := sent s @ take ?n (out s)\<rparr>"
  define s2 where "s2 = s1\<lparr>out := drop ?n (out s1)\<rparr>"
  define s3 where "s3 = s2\<lparr>interest := False\<rparr>"
  define s4 where "s4 = s3\<lparr>writing := Unlock (writing s3)\<rparr>"
  have e: "out s1 = out s" "out s2 = []" "out s4 = []" by (simp_all add: s1_def s2_def s3_def s4_def)
  have "poller_step (Idle, s) (Send, s)" "poller_step (Check, s2) (Mod, s2)" "poller_step (Recheck, s4) (Idle, s4)"
    using assms(1) e(2,3) unfolding poller_step_def fst_conv snd_conv by (simp_all only: tcp_tails)
  moreover have "poller_step (Send, s) (Sent ?n, s1)" "poller_step (Sent ?n, s1) (Check, s2)"
    unfolding poller_step_def fst_conv snd_conv s2_def s1_def by (rule tcp_tails order_refl)+
  moreover have "poller_step (Mod, s2) (Unlk, s3)" "poller_step (Unlk, s3) (Recheck, s4)"
    unfolding poller_step_def fst_conv snd_conv s4_def s3_def by (rule tcp_tails)+
  ultimately have "poller_step\<^sup>*\<^sup>* (Idle, s) (Idle, s4)" by (meson converse_rtranclp_into_rtranclp rtranclp.rtrancl_refl)
  moreover have "sent s4 = accepted s" "out s4 = []" "\<not> interest s4" "writing s4 = unlocked"
    using assms(2) by (simp_all add: s1_def s2_def s3_def s4_def Unlock_def)
  ultimately show ?thesis by blast
qed

text \<open>C4. No byte is left behind on a TCP connection. Whatever the interleaving of writers and poller, when all of
  them are idle and nobody has closed the connection, the kernel has been given a front part of what the writers
  handed in, in order; if something is left in the output buffer then the lock is taken and the write interest is
  registered, and the poller alone can send the rest and give the lock back.\<close>

theorem no_lost_wakeup:
  assumes "wp_reach tcp_act (T, s)" and "\<And>t. T t = Idle" and "\<not> dead s"
  shows "sent s @ out s = accepted s \<and>
    (out s \<noteq> [] \<longrightarrow> interest s \<and> writing s \<noteq> unlocked \<and>
      (\<exists>s'. poller_step\<^sup>*\<^sup>* (Idle, s) (Idle, s') \<and> sent s' = accepted s \<and> out s' = [] \<and> \<not> interest s' \<and> writing s' = unlocked))"
proof -
  have o: "sent s @ out s = accepted s" using tcp_order [OF assms(1)] assms(2) by (simp add: wp_order_def)
  have "writing s \<noteq> unlocked" if "out s \<noteq> []"
    using tcp.reach_data [OF assms(1)] that assms(2) by (simp add: wp_data_def)
  moreover have "interest s" if "writing s \<noteq> unlocked"
    using tcp.reach_lock [OF assms(1)] that assms(2,3) by (simp add: wp_lock_def)
  ultimately show ?thesis using o poller_drains by blast
qed

text \<open>Runs of two writers.\<close>

definition threads :: "pc \<Rightarrow> pc \<Rightarrow> nat option \<Rightarrow> pc" where
  "threads a b = (\<lambda>_. Idle)(Some 0 := a, Some 1 := b)"

lemma threads_step:
  "wp_reach A (threads a b, s) \<Longrightarrow> A Writer a s c s' \<Longrightarrow> wp_reach A (threads c b, s')"
  "wp_reach A (threads a b, s) \<Longrightarrow> A Writer b s c s' \<Longrightarrow> wp_reach A (threads a c, s')"
  using wp_reach.step [of A "threads a b" s "Some 0" c s'] wp_reach.step [of A "threads a b" s "Some 1" c s']
  by (simp_all add: threads_def role_of_def fun_upd_twist)

lemma threads_init: "wp_reach A (threads Idle Idle, snd wp_init)"
  using wp_reach.init [of A] by (simp add: wp_init_def threads_def fun_upd_idem)

lemma threads_idle: "threads Idle Idle t = Idle" by (simp add: threads_def)

text \<open>While one TCP writer flushes, another appends and finds the lock taken; the kernel takes one byte.\<close>

lemma race_reach:
  "wp_reach tcp_act (threads Idle Idle,
     \<lparr>out = [2, 3], sent = [1 :: int], accepted = [1, 2, 3], writing = locked, interest = True, dead = False\<rparr>)"
proof -
  let ?s = "\<lambda>o1 s1 a1 l i. \<lparr>out = o1, sent = s1, accepted = a1, writing = l, interest = i, dead = False\<rparr>"
  note t = threads_step [where A = tcp_act]
  have "wp_reach tcp_act (threads Appended Idle, ?s [1, 2] [] [1, 2 :: int] unlocked False)"
    using t(1) [OF threads_init append [of _ "[1, 2 :: int]"]] by (simp add: wp_init_def)
  from t(1) [OF this flush_send [of _ locked]]
  have "wp_reach tcp_act (threads Send Idle, ?s [1, 2] [] [1, 2 :: int] locked False)" by (simp add: TryLock_iff)
  from t(2) [OF this append [of _ "[3 :: int]"]]
  have "wp_reach tcp_act (threads Send Appended, ?s [1, 2, 3] [] [1, 2, 3 :: int] locked False)" by simp
  from t(2) [OF this busy]
  have "wp_reach tcp_act (threads Send Idle, ?s [1, 2, 3] [] [1, 2, 3 :: int] locked False)" by (simp add: TryLock_iff)
  from t(1) [OF this tcp_tail [OF send [of 1]]]
  have "wp_reach tcp_act (threads (Sent 1) Idle, ?s [1, 2, 3] [1] [1, 2, 3 :: int] locked False)" by simp
  from t(1) [OF this tcp_tail [OF skip]]
  have "wp_reach tcp_act (threads Check Idle, ?s [2, 3] [1] [1, 2, 3 :: int] locked False)" by simp
  from t(1) [OF this flush_rest]
  have "wp_reach tcp_act (threads Ctl Idle, ?s [2, 3] [1] [1, 2, 3 :: int] locked False)" by simp
  from t(1) [OF this tcp_tail [OF ctl]] show ?thesis by simp
qed

theorem no_lost_wakeup_witness:
  "\<exists>s'. poller_step\<^sup>*\<^sup>*
      (Idle, \<lparr>out = [2, 3], sent = [1 :: int], accepted = [1, 2, 3], writing = locked, interest = True, dead = False\<rparr>) (Idle, s') \<and>
    sent s' = [1, 2, 3] \<and> out s' = []"
  using no_lost_wakeup [OF race_reach threads_idle] by auto



end
