(* ===== verification/Options.thy ===== *)
theory Options
  imports Tcpconn
begin

text \<open>
  Model of \<open>options.go\<close>: the settings of a service and the functions that change them. An \<open>Option\<close> is a function
  on the settings; a service applies its options in order over the defaults.
\<close>

section \<open>Settings\<close>

record 'f options =
  op_onTCPOpened :: "'f option"
  op_onTCPClosed :: "'f option"
  op_onUDPClosed :: "'f option"
  op_tcpKeepAlive :: int
  op_tcpIdleTimeout :: int
  op_tcpWriteIdleTimeout :: int
  op_tcpReadIdleTimeout :: int
  op_tcpOutboundBufferLimit :: int
  op_nonblocking :: bool
  op_safeWrite :: bool
  op_maxUDPPacketSize :: int
  op_exactUDPBufferSizeEnabled :: bool
  op_gracefulRestartTimeout :: int

type_synonym 'f Option = "'f options \<Rightarrow> 'f options"

definition zero_options :: "'f options" where
  "zero_options = \<lparr>op_onTCPOpened = None, op_onTCPClosed = None, op_onUDPClosed = None, op_tcpKeepAlive = 0,
     op_tcpIdleTimeout = 0, op_tcpWriteIdleTimeout = 0, op_tcpReadIdleTimeout = 0, op_tcpOutboundBufferLimit = 0,
     op_nonblocking = False, op_safeWrite = False, op_maxUDPPacketSize = 0, op_exactUDPBufferSizeEnabled = False,
     op_gracefulRestartTimeout = 0\<rparr>"

definition defaultGracefulRestartTimeout :: int where
  "defaultGracefulRestartTimeout = 2 * 10 ^ 9"

definition setDefault :: "'f options \<Rightarrow> 'f options" where
  "setDefault opts = opts\<lparr>op_tcpKeepAlive := defaultTCPKeepAlive, op_maxUDPPacketSize := defaultUDPBufferSize,
     op_exactUDPBufferSizeEnabled := defaultExactUDPBufferSizeEnabled,
     op_gracefulRestartTimeout := defaultGracefulRestartTimeout\<rparr>"

definition apply_options :: "'f Option list \<Rightarrow> 'f options" where
  "apply_options opt = fold (\<lambda>f opts. f opts) opt (setDefault zero_options)"

section \<open>Options\<close>

definition WithTCPKeepAlive :: "int \<Rightarrow> 'f Option" where
  "WithTCPKeepAlive v = op_tcpKeepAlive_update (\<lambda>_. v)"

definition WithTCPWriteIdleTimeout :: "int \<Rightarrow> 'f Option" where
  "WithTCPWriteIdleTimeout v = op_tcpWriteIdleTimeout_update (\<lambda>_. v)"

definition WithTCPReadIdleTimeout :: "int \<Rightarrow> 'f Option" where
  "WithTCPReadIdleTimeout v = op_tcpReadIdleTimeout_update (\<lambda>_. v)"

definition WithTCPIdleTimeout :: "int \<Rightarrow> 'f Option" where
  "WithTCPIdleTimeout v = op_tcpIdleTimeout_update (\<lambda>_. v)"

definition WithTCPOutboundBufferLimit :: "int \<Rightarrow> 'f Option" where
  "WithTCPOutboundBufferLimit v = op_tcpOutboundBufferLimit_update (\<lambda>_. v)"

definition WithOnTCPOpened :: "'f option \<Rightarrow> 'f Option" where
  "WithOnTCPOpened f = op_onTCPOpened_update (\<lambda>_. f)"

definition WithOnTCPClosed :: "'f option \<Rightarrow> 'f Option" where
  "WithOnTCPClosed f = op_onTCPClosed_update (\<lambda>_. f)"

definition WithOnUDPClosed :: "'f option \<Rightarrow> 'f Option" where
  "WithOnUDPClosed f = op_onUDPClosed_update (\<lambda>_. f)"

definition WithNonBlocking :: "bool \<Rightarrow> 'f Option" where
  "WithNonBlocking b = op_nonblocking_update (\<lambda>_. b)"

definition WithTCPFlushWrite :: "bool \<Rightarrow> 'f Option" where
  "WithTCPFlushWrite b = (\<lambda>opts. opts)"

definition WithFlushWrite :: "bool \<Rightarrow> 'f Option" where
  "WithFlushWrite b = (\<lambda>opts. opts)"

definition WithSafeWrite :: "bool \<Rightarrow> 'f Option" where
  "WithSafeWrite b = op_safeWrite_update (\<lambda>_. b)"

definition WithMaxUDPPacketSize :: "int \<Rightarrow> 'f Option" where
  "WithMaxUDPPacketSize v = op_maxUDPPacketSize_update (\<lambda>_. v)"

definition WithExactUDPBufferSizeEnabled :: "bool \<Rightarrow> 'f Option" where
  "WithExactUDPBufferSizeEnabled b = op_exactUDPBufferSizeEnabled_update (\<lambda>_. b)"

definition WithGracefulRestartTimeout :: "int \<Rightarrow> 'f Option" where
  "WithGracefulRestartTimeout v = op_gracefulRestartTimeout_update (\<lambda>_. v)"

lemma apply_options_Nil [simp]: "apply_options [] = setDefault zero_options"
  by (simp add: apply_options_def)

lemma apply_options_snoc [simp]: "apply_options (opt @ [f]) = f (apply_options opt)"
  by (simp add: apply_options_def)

end
