(* ===== verification/Tcp_Open.thy ===== *)
theory Tcp_Open
  imports Options
begin

text \<open>
  How connections come into being: \<open>netutil.Accept\<close> and \<open>GetFD\<close>, the TCP listener (\<open>tcplistener.go\<close>) and the
  dialer (\<open>dialer.go\<close>). Sockets of the Go library and the system calls of a listener are parameters.
\<close>

section \<open>Sockets\<close>

text \<open>A socket of the Go library: the descriptor it owns, whether it implements \<open>syscall.Conn\<close>, what \<open>SyscallConn\<close> and the \<open>Control\<close> of the
  raw connection do (the descriptor passed to the callback, if it is called, and the error), and its addresses.\<close>

record gosock =
  gs_fd :: int
  gs_syscallConn :: bool
  gs_raw :: "err + int option \<times> err option"
  gs_laddr :: net_addr
  gs_raddr :: "net_addr option"
  gs_network :: string

definition GetFD :: "gosock \<Rightarrow> int \<times> err option" where
  "GetFD socket =
     (if \<not> gs_syscallConn socket then (-1, Some (ErrText ''type doesn't implement syscall.Conn interface''))
      else case gs_raw socket of
        Inl e \<Rightarrow> (-1, Some e)
      | Inr (sysfd, err) \<Rightarrow>
          let fd = (case sysfd of None \<Rightarrow> -1 | Some fd \<Rightarrow> fd) in
          if fd = -1 then (-1, Some (ErrText ''invalid file descriptor'')) else (fd, err))"

text \<open>The system calls of a listener, and dialing with the Go library.\<close>

record 'k lsys =
  l_accept4 :: "int \<Rightarrow> 'k \<Rightarrow> (err + int \<times> sockaddr) \<times> 'k"
  l_accept :: "int \<Rightarrow> 'k \<Rightarrow> (err + int \<times> sockaddr) \<times> 'k"
  l_cloexec :: "int \<Rightarrow> 'k \<Rightarrow> 'k"
  l_nonblock :: "int \<Rightarrow> 'k \<Rightarrow> 'k"
  l_getsockname :: "int \<Rightarrow> 'k \<Rightarrow> err + sockaddr"
  l_listen :: "string \<Rightarrow> string \<Rightarrow> 'k \<Rightarrow> (err + gosock) \<times> 'k"
  l_dial :: "string \<Rightarrow> string \<Rightarrow> int \<Rightarrow> 'k \<Rightarrow> (err + gosock) \<times> 'k"

definition ENOSYS :: err where "ENOSYS = Errno 38"
definition EINVAL :: err where "EINVAL = Errno 22"
definition EACCES :: err where "EACCES = Errno 13"
definition EFAULT :: err where "EFAULT = Errno 14"

definition Accept :: "'k lsys \<Rightarrow> int \<Rightarrow> 'k \<Rightarrow> (err + int \<times> sockaddr) \<times> 'k" where
  "Accept L fd k =
     (case l_accept4 L fd k of
        (Inr r, k) \<Rightarrow> (Inr r, k)
      | (Inl e, k) \<Rightarrow>
          if e \<in> {ENOSYS, EINVAL, EACCES, EFAULT} then
            (case l_accept L fd k of
               (Inr (ns, sa), k) \<Rightarrow> (Inr (ns, sa), l_nonblock L ns (l_cloexec L ns k))
             | (Inl e, k) \<Rightarrow> (Inl e, k))
          else (Inl e, k))"

section \<open>Errors of a listener\<close>

text \<open>\<open>netError\<close> wraps an error; \<open>isTimeout\<close> is set for expired deadlines only. Other failures are wrapped by
  \<open>fmt.Errorf\<close>.\<close>

datatype net_failure = NetError err bool | Wrapped err

definition ECONNRESET :: err where "ECONNRESET = Errno 104"
definition ECONNABORTED :: err where "ECONNABORTED = Errno 103"

text \<open>\<open>Temporary\<close> of \<open>syscall.Errno\<close>: \<open>EINTR\<close>, \<open>EMFILE\<close>, \<open>ENFILE\<close>, and the time-outs \<open>EAGAIN\<close> and \<open>ETIMEDOUT\<close>.\<close>

definition errno_Temporary :: "err \<Rightarrow> bool" where
  "errno_Temporary e \<longleftrightarrow> e \<in> {Errno 4, Errno 24, Errno 23, EAGAIN, Errno 110}"

definition Timeout :: "net_failure \<Rightarrow> bool" where
  "Timeout f = (case f of NetError _ t \<Rightarrow> t | Wrapped _ \<Rightarrow> False)"

definition Temporary :: "net_failure \<Rightarrow> bool" where
  "Temporary f =
     (case f of
        NetError e _ \<Rightarrow> e \<in> {EAGAIN, ECONNRESET, ECONNABORTED} \<or> errno_Temporary e
      | Wrapped e \<Rightarrow> errno_Temporary e)"

fun failure_err :: "net_failure \<Rightarrow> err" where
  "failure_err (NetError e _) = e"
| "failure_err (Wrapped e) = e"

section \<open>New connections\<close>

text \<open>A new connection, as the composite literals of \<open>accept\<close> and \<open>newTCPConn\<close> and the calls of \<open>Initialize\<close> leave it.\<close>

definition make_tcpconn :: "netFD \<Rightarrow> iodata \<Rightarrow> ('f, 'm) tcpconn" where
  "make_tcpconn nfd d =
     \<lparr>tc_service = False, tc_metaData = None, tc_reqHandle = None, tc_closeHandle = None, tc_readTrigger = 0,
      tc_triggerClosed = False, tc_closedFinished = False, tc_inBuffer = Initialize zero_buffer,
      tc_outBuffer = Initialize zero_buffer,
      tc_closedReadBuf = fixed_Initialize [] (Some ErrConnClosed) \<lparr>fbuf = [], frlen = 0, fpos = 0, feofErr = None\<rparr>,
      tc_rtimer = None, tc_wtimer = None, tc_idleTimer = None, tc_writeIdleTimer = None, tc_readIdleTimer = None,
      tc_writevData = d, tc_nfd = nfd, tc_active = True, tc_sysRead = False, tc_postpone = zero_postpone,
      tc_waitReadLen = 0, tc_reading = unlocked, tc_writing = unlocked, tc_nonblocking = False, tc_safeWrite = False,
      tc_outboundBufferLimit = 0\<rparr>"

definition new_nfd :: "int \<Rightarrow> fdType \<Rightarrow> bool \<Rightarrow> string \<Rightarrow> net_addr \<Rightarrow> net_addr option \<Rightarrow> netFD" where
  "new_nfd fd t sock network laddr raddr =
     \<lparr>nf_desc = None, nf_sock = sock, nf_laddr = laddr, nf_raddr = raddr, nf_network = network, nf_fd = fd,
      nf_fdtype = t, nf_closed = False, nf_udpBufferSize = (if t = fdUDP then defaultUDPBufferSize else 0),
      nf_exactUDPBufferSizeEnabled = False\<rparr>"

text \<open>Registering a TCP connection; \<open>p\<close> is the pointer to it.\<close>

definition tcp_schedule :: "'k ext \<Rightarrow> nat \<Rightarrow> mgrs \<Rightarrow> ('f, 'm, string, nat, 'k) tcs \<Rightarrow> err option \<times> mgrs \<times> ('f, 'm, string, nat, 'k) tcs" where
  "tcp_schedule X p ms st =
     (case st of (tc, e) \<Rightarrow>
        case Schedule (x_kern X) (x_eps X) (Some ''tcpOnRead'') (Some ''tcpOnWrite'') (Some ''tcpOnHup'') p (tc_nfd tc) ms
               (e_world e) of
          (r, nfd, ms, w) \<Rightarrow> (r, ms, tc\<lparr>tc_nfd := nfd\<rparr>, e\<lparr>e_world := w\<rparr>))"

section \<open>The heap of connections\<close>

text \<open>Connections are shared by pointer: between the poller, the table of a service and its users.\<close>

record ('f, 'm, 'k) tstate =
  t_heap :: "nat \<Rightarrow> ('f, 'm) tcpconn"
  t_next :: nat
  t_env :: "(string, nat, 'k) tenv"
  t_mgrs :: mgrs

definition t_conn :: "nat \<Rightarrow> ('f, 'm, 'k) tstate \<Rightarrow> ('f, 'm, string, nat, 'k) tcs" where
  "t_conn p t = (t_heap t p, t_env t)"

definition t_put :: "nat \<Rightarrow> ('f, 'm, string, nat, 'k) tcs \<Rightarrow> ('f, 'm, 'k) tstate \<Rightarrow> ('f, 'm, 'k) tstate" where
  "t_put p st t = t\<lparr>t_heap := (t_heap t)(p := fst st), t_env := snd st\<rparr>"

definition t_alloc :: "('f, 'm) tcpconn \<Rightarrow> ('f, 'm, 'k) tstate \<Rightarrow> nat \<times> ('f, 'm, 'k) tstate" where
  "t_alloc tc t = (t_next t, t\<lparr>t_heap := (t_heap t)(t_next t := tc), t_next := t_next t + 1\<rparr>)"

definition t_Close :: "'k ext \<Rightarrow> ('f \<Rightarrow> ('f, 'm, string, nat, 'k) tcs \<Rightarrow> ('f, 'm, string, nat, 'k) tcs) \<Rightarrow> nat \<Rightarrow>
    ('f, 'm, 'k) tstate \<Rightarrow> (adds \<times> ('f, 'm, 'k) tstate) option" where
  "t_Close X onClosed p t = map_option (\<lambda>(adds, st). (adds, t_put p st t)) (tcp_Close X onClosed (t_conn p t))"

section \<open>The listener\<close>

type_synonym tcpListener = netFD

definition ln_FD :: "tcpListener \<Rightarrow> int" where
  "ln_FD ln = nf_fd ln"

definition ln_Addr :: "tcpListener \<Rightarrow> net_addr" where
  "ln_Addr ln = nf_laddr ln"

definition ln_Close :: "'k ext \<Rightarrow> tcpListener \<Rightarrow> ('f, 'm, 'k) tstate \<Rightarrow> tcpListener \<times> ('f, 'm, 'k) tstate" where
  "ln_Close X ln t =
     (case nfd_close (x_kern X) (x_nsys X) (x_eps X) ln (e_world (t_env t)) of
        (ln, w) \<Rightarrow> (ln, t\<lparr>t_env := (t_env t)\<lparr>e_world := w\<rparr>\<rparr>))"

text \<open>\<open>accept\<close>: the new connection, with the additions to the metrics. \<open>massive\<close> is the value of
  \<open>MassiveConnections\<close>; \<open>handle\<close> is the handler for new connections, if there is one; \<open>None\<close> if a handler or
  \<open>Close\<close> does not return.\<close>

type_synonym ('f, 'm, 'k) open_handler = "nat \<Rightarrow> ('f, 'm, 'k) tstate \<Rightarrow> (err option \<times> ('f, 'm, 'k) tstate) option"

definition accept_conn :: "'k ext \<Rightarrow> 'k lsys \<Rightarrow> bool \<Rightarrow> tcpListener \<Rightarrow> int \<Rightarrow> sockaddr \<Rightarrow> 'k \<Rightarrow> ('f, 'm) tcpconn" where
  "accept_conn X L massive ln fd sa k =
     (let localAddr = (case l_getsockname L fd k of
            Inr sa \<Rightarrow> SockaddrToTCPOrUnixAddr (x_byIndex X) sa
          | Inl _ \<Rightarrow> nf_laddr ln)
      in make_tcpconn
           (new_nfd fd fdTCP False (nf_network ln) localAddr (Some (SockaddrToTCPOrUnixAddr (x_byIndex X) sa)))
           (if massive then nil_iodata else NewIOData [MaxLen]))"

definition accept_rest :: "'k ext \<Rightarrow> ('f \<Rightarrow> ('f, 'm, string, nat, 'k) tcs \<Rightarrow> ('f, 'm, string, nat, 'k) tcs) \<Rightarrow> nat \<Rightarrow>
    ('f, 'm, 'k) tstate \<Rightarrow> ((net_failure + nat) \<times> adds \<times> ('f, 'm, 'k) tstate) option" where
  "accept_rest X onClosed p t =
     (case SetNoDelay (x_nsys X) True (tc_nfd (t_heap t p)) (kernel (t_env t)) of
        (Some e, k) \<Rightarrow> Some (Inl (Wrapped e), [], t\<lparr>t_env := set_kernel k (t_env t)\<rparr>)
      | (None, k) \<Rightarrow>
          let t = t\<lparr>t_env := set_kernel k (t_env t)\<rparr> in
          case tcp_schedule X p (t_mgrs t) (t_conn p t) of
            (r, ms, st) \<Rightarrow>
              let t = (t_put p st t)\<lparr>t_mgrs := ms\<rparr> in
              (case r of
                 Some e \<Rightarrow> map_option (\<lambda>(adds, t). (Inl (Wrapped e), adds, t)) (t_Close X onClosed p t)
               | None \<Rightarrow> Some (Inr p, [(TCPConnsCreate, 1)], t)))"

definition accept :: "'k ext \<Rightarrow> 'k lsys \<Rightarrow> ('f \<Rightarrow> ('f, 'm, string, nat, 'k) tcs \<Rightarrow> ('f, 'm, string, nat, 'k) tcs) \<Rightarrow> bool \<Rightarrow>
    ('f, 'm, 'k) open_handler option \<Rightarrow> tcpListener \<Rightarrow> ('f, 'm, 'k) tstate \<Rightarrow>
    ((net_failure + nat) \<times> adds \<times> ('f, 'm, 'k) tstate) option" where
  "accept X L onClosed massive handle ln t =
     (case Accept L (ln_FD ln) (kernel (t_env t)) of
        (Inl e, k) \<Rightarrow> Some (Inl (NetError e False), [], t\<lparr>t_env := set_kernel k (t_env t)\<rparr>)
      | (Inr (fd, sa), k) \<Rightarrow>
          let (p, t) = t_alloc (accept_conn X L massive ln fd sa k) (t\<lparr>t_env := set_kernel k (t_env t)\<rparr>) in
          case handle of
            None \<Rightarrow> accept_rest X onClosed p t
          | Some h \<Rightarrow>
              Option.bind (h p t)
                (\<lambda>(r, t). case r of
                   Some e \<Rightarrow> map_option (\<lambda>(adds, t). (Inl (Wrapped e), adds, t)) (t_Close X onClosed p t)
                 | None \<Rightarrow> accept_rest X onClosed p t))"

definition ln_Accept :: "'k ext \<Rightarrow> 'k lsys \<Rightarrow> ('f \<Rightarrow> ('f, 'm, string, nat, 'k) tcs \<Rightarrow> ('f, 'm, string, nat, 'k) tcs) \<Rightarrow> bool \<Rightarrow>
    tcpListener \<Rightarrow> ('f, 'm, 'k) tstate \<Rightarrow> ((net_failure + nat) \<times> adds \<times> ('f, 'm, 'k) tstate) option" where
  "ln_Accept X L onClosed massive ln t = accept X L onClosed massive None ln t"

definition newListener :: "gosock \<Rightarrow> err + tcpListener" where
  "newListener listener =
     (case GetFD listener of
        (fd, Some e) \<Rightarrow> Inl e
      | (fd, None) \<Rightarrow> Inr (new_nfd fd fdListen True (gs_network listener) (gs_laddr listener) None))"

definition listenTCP :: "'k lsys \<Rightarrow> string \<Rightarrow> string \<Rightarrow> 'k \<Rightarrow> (err + tcpListener) \<times> 'k" where
  "listenTCP L network address k =
     (case l_listen L network address k of
        (Inl e, k) \<Rightarrow> (Inl e, k)
      | (Inr ln, k) \<Rightarrow> (newListener ln, k))"

definition Listen :: "'k lsys \<Rightarrow> string \<Rightarrow> string \<Rightarrow> 'k \<Rightarrow> (err + tcpListener) \<times> 'k" where
  "Listen L network address k =
     (if network \<in> {''tcp'', ''tcp4'', ''tcp6''} then listenTCP L network address k
      else (Inl (ErrText (''network '' @ network @ '' is not support'')), k))"

section \<open>Dialing\<close>

definition newTCPConn :: "'k ext \<Rightarrow> ('f \<Rightarrow> ('f, 'm, string, nat, 'k) tcs \<Rightarrow> ('f, 'm, string, nat, 'k) tcs) \<Rightarrow> gosock \<Rightarrow> string \<Rightarrow>
    ('f, 'm, 'k) tstate \<Rightarrow> ((err + nat) \<times> adds \<times> ('f, 'm, 'k) tstate) option" where
  "newTCPConn X onClosed c network t =
     (case GetFD c of
        (fd, Some e) \<Rightarrow>
          Some (Inl e, [], t\<lparr>t_env := set_kernel (n_sock_close (x_nsys X) (gs_fd c) (kernel (t_env t))) (t_env t)\<rparr>)
      | (fd, None) \<Rightarrow>
          let (p, t) = t_alloc (make_tcpconn (new_nfd fd fdTCP True network (gs_laddr c) (gs_raddr c)) (NewIOData [])) t in
          case tcp_schedule X p (t_mgrs t) (t_conn p t) of
            (r, ms, st) \<Rightarrow>
              let t = (t_put p st t)\<lparr>t_mgrs := ms\<rparr> in
              (case r of
                 Some e \<Rightarrow> map_option (\<lambda>(adds, t). (Inl e, adds, t)) (t_Close X onClosed p t)
               | None \<Rightarrow> Some (Inr p, [(TCPConnsCreate, 1)], t)))"

definition dialTCP :: "'k ext \<Rightarrow> 'k lsys \<Rightarrow> ('f \<Rightarrow> ('f, 'm, string, nat, 'k) tcs \<Rightarrow> ('f, 'm, string, nat, 'k) tcs) \<Rightarrow>
    string \<Rightarrow> string \<Rightarrow> int \<Rightarrow> ('f, 'm, 'k) tstate \<Rightarrow> ((err + nat) \<times> adds \<times> ('f, 'm, 'k) tstate) option" where
  "dialTCP X L onClosed network address timeout t =
     (if network \<notin> {''tcp'', ''tcp4'', ''tcp6''} then Some (Inl (ErrText (''DialTCP: unknown network '' @ network)), [], t)
      else case l_dial L network address timeout (kernel (t_env t)) of
        (Inl e, k) \<Rightarrow> Some (Inl e, [], t\<lparr>t_env := set_kernel k (t_env t)\<rparr>)
      | (Inr c, k) \<Rightarrow> newTCPConn X onClosed c network (t\<lparr>t_env := set_kernel k (t_env t)\<rparr>))"

definition DialTCP :: "'k ext \<Rightarrow> 'k lsys \<Rightarrow> ('f \<Rightarrow> ('f, 'm, string, nat, 'k) tcs \<Rightarrow> ('f, 'm, string, nat, 'k) tcs) \<Rightarrow>
    string \<Rightarrow> string \<Rightarrow> int \<Rightarrow> ('f, 'm, 'k) tstate \<Rightarrow> ((err + nat) \<times> adds \<times> ('f, 'm, 'k) tstate) option" where
  "DialTCP X L onClosed network address timeout t = dialTCP X L onClosed network address timeout t"

definition DialContextTCP :: "'k ext \<Rightarrow> 'k lsys \<Rightarrow> ('f \<Rightarrow> ('f, 'm, string, nat, 'k) tcs \<Rightarrow> ('f, 'm, string, nat, 'k) tcs) \<Rightarrow>
    string \<Rightarrow> string \<Rightarrow> ('f, 'm, 'k) tstate \<Rightarrow> ((err + nat) \<times> adds \<times> ('f, 'm, 'k) tstate) option" where
  "DialContextTCP X L onClosed network address t = dialTCP X L onClosed network address 0 t"

end
