(* ===== verification/Tcpservice.thy ===== *)
theory Tcpservice
  imports Tcp_Open
begin

text \<open>
  Model of \<open>tcpservice.go\<close> (with the helper \<open>cleanAndAppendEnv\<close> of \<open>tnet.go\<close>): a service that accepts connections,
  keeps them in a table by descriptor, closes them all when it ends and hands its listener to a new process on a
  restart. The handlers of the user and the start of the new process are parameters.
\<close>

section \<open>State\<close>

definition initialTempDelay :: int where
  "initialTempDelay = 5 * 10 ^ 6"

definition maxTempDelay :: int where
  "maxTempDelay = 10 ^ 9"

definition tempDelayMultiplier :: int where
  "tempDelayMultiplier = 2"

record ('f, 'm, 'k) tcpservice =
  s_ln :: tcpListener
  s_reqHandle :: "'f option"
  s_hup :: bool
  s_opts :: "'f options"
  s_closed :: bool
  s_restarting :: bool
  s_tempDelay :: int
  s_t :: "('f, 'm, 'k) tstate"

text \<open>The user's hooks: what the closing handler of a connection and the handler for new connections do.\<close>

record ('f, 'm, 'k) thooks =
  hk_closed :: "'f \<Rightarrow> ('f, 'm, string, nat, 'k) tcs \<Rightarrow> ('f, 'm, string, nat, 'k) tcs"
  hk_opened :: "'f \<Rightarrow> ('f, 'm, 'k) open_handler"

definition newTCPService :: "tcpListener \<Rightarrow> 'f option \<Rightarrow> 'f Option list \<Rightarrow> ('f, 'm, 'k) tstate \<Rightarrow> ('f, 'm, 'k) tcpservice" where
  "newTCPService ln handler opt t =
     \<lparr>s_ln = ln, s_reqHandle = handler, s_hup = False, s_opts = apply_options opt, s_closed = False, s_restarting = False,
      s_tempDelay = 0, s_t = t\<lparr>t_env := (t_env t)\<lparr>e_conns := Map.empty\<rparr>\<rparr>\<rparr>"

text \<open>The listener is nil, one of this package, or another one, which is wrapped.\<close>

datatype any_listener = NilListener | OurListener tcpListener | OtherListener gosock

definition NewTCPService :: "any_listener \<Rightarrow> 'f option \<Rightarrow> 'f Option list \<Rightarrow> ('f, 'm, 'k) tstate \<Rightarrow> err + ('f, 'm, 'k) tcpservice" where
  "NewTCPService listener handler opt t =
     (case listener of
        NilListener \<Rightarrow> Inl (ErrText ''listener is nil'')
      | OurListener ln \<Rightarrow> Inr (newTCPService ln handler opt t)
      | OtherListener l \<Rightarrow>
          (case ValidateTCP (gs_network l) of
             Some e \<Rightarrow> Inl e
           | None \<Rightarrow>
               (case newListener l of
                  Inl e \<Rightarrow> Inl e
                | Inr ln \<Rightarrow> Inr (newTCPService ln handler opt t))))"

section \<open>Accepting\<close>

text \<open>A sequence of fallible steps: the first error ends it.\<close>

definition and_then :: "err option \<times> 's \<Rightarrow> ('s \<Rightarrow> err option \<times> 's) \<Rightarrow> err option \<times> 's" where
  "and_then r f = (case r of (Some e, s) \<Rightarrow> (Some e, s) | (None, s) \<Rightarrow> f s)"

definition storeConn :: "bool \<Rightarrow> nat \<Rightarrow> ('f, 'm, 'k) tstate \<Rightarrow> ('f, 'm, 'k) tstate" where
  "storeConn isClosed p t =
     (if isClosed then t
      else t\<lparr>t_env := (t_env t)\<lparr>e_conns := (e_conns (t_env t))(nfd_FD (tc_nfd (t_heap t p)) \<mapsto> p)\<rparr>\<rparr>)"

definition open_settings :: "'k ext \<Rightarrow> 'f option \<Rightarrow> 'f options \<Rightarrow> ('f, 'm, string, nat, 'k) tcs \<Rightarrow> err option \<times> ('f, 'm, string, nat, 'k) tcs" where
  "open_settings X reqHandle opts st =
     and_then (and_then (and_then (and_then
       (case tcp_SetOnRequest reqHandle (fst st) of (r, tc) \<Rightarrow> (r, tc, snd st))
       (tcp_SetKeepAlive X (op_tcpKeepAlive opts)))
       (tcp_SetIdleTimeout (op_tcpIdleTimeout opts)))
       (tcp_SetWriteIdleTimeout (op_tcpWriteIdleTimeout opts)))
       (tcp_SetReadIdleTimeout (op_tcpReadIdleTimeout opts))"

definition open_flags :: "'f options \<Rightarrow> ('f, 'm) tcpconn \<Rightarrow> ('f, 'm) tcpconn" where
  "open_flags opts tc =
     (let tc = tc\<lparr>tc_outboundBufferLimit := op_tcpOutboundBufferLimit opts\<rparr>;
          tc = tcp_SetSafeWrite (op_safeWrite opts) (tcp_SetNonBlocking (op_nonblocking opts) tc);
          tc = (case op_onTCPClosed opts of None \<Rightarrow> tc | Some f \<Rightarrow> snd (tcp_SetOnClosed (Some f) tc))
      in tc\<lparr>tc_service := True\<rparr>)"

text \<open>The handler for new connections. \<open>isClosed\<close> is what \<open>storeConn\<close> reads; another goroutine may have closed the
  service since \<open>tcpServiceOnRead\<close> looked.\<close>

definition openHandle :: "'k ext \<Rightarrow> ('f, 'm, 'k) thooks \<Rightarrow> 'f option \<Rightarrow> 'f options \<Rightarrow> bool \<Rightarrow> ('f, 'm, 'k) open_handler" where
  "openHandle X hk reqHandle opts isClosed p t =
     (case open_settings X reqHandle opts (t_conn p t) of
        (Some e, st) \<Rightarrow> Some (Some e, t_put p st t)
      | (None, st) \<Rightarrow>
          let t = storeConn isClosed p (t_put p (on_tc (open_flags opts) st) t) in
          (case op_onTCPOpened opts of None \<Rightarrow> Some (None, t) | Some f \<Rightarrow> hk_opened hk f p t))"

text \<open>The delay is also the time slept.\<close>

definition doTempDelay :: "int \<Rightarrow> int" where
  "doTempDelay d =
     (let d = (if d = 0 then initialTempDelay else d * tempDelayMultiplier) in
      if d > maxTempDelay then maxTempDelay else d)"

definition tcpServiceOnRead :: "'k ext \<Rightarrow> 'k lsys \<Rightarrow> ('f, 'm, 'k) thooks \<Rightarrow> bool \<Rightarrow> ('f, 'm, 'k) tcpservice \<Rightarrow>
    (err option \<times> adds \<times> ('f, 'm, 'k) tcpservice) option" where
  "tcpServiceOnRead X L hk massive s =
     (if s_closed s then Some (Some (ErrText ''service is closed''), [], s)
      else
        map_option
          (\<lambda>(r, adds, t).
             let s = s\<lparr>s_t := t\<rparr> in
             case r of
               Inl f \<Rightarrow>
                 if Temporary f then (None, adds, s\<lparr>s_tempDelay := doTempDelay (s_tempDelay s)\<rparr>)
                 else (Some (failure_err f), adds, s)
             | Inr p \<Rightarrow> (None, adds, s\<lparr>s_tempDelay := 0\<rparr>))
          (accept X L (hk_closed hk) massive (Some (openHandle X hk (s_reqHandle s) (s_opts s) (s_closed s))) (s_ln s) (s_t s)))"

definition tcpServiceOnHup :: "('f, 'm, 'k) tcpservice \<Rightarrow> ('f, 'm, 'k) tcpservice" where
  "tcpServiceOnHup s = s\<lparr>s_hup := True\<rparr>"

section \<open>Closing\<close>

text \<open>Closing a list of connections, one after the other.\<close>

fun close_conns :: "'k ext \<Rightarrow> ('f \<Rightarrow> ('f, 'm, string, nat, 'k) tcs \<Rightarrow> ('f, 'm, string, nat, 'k) tcs) \<Rightarrow> nat list \<Rightarrow>
    ('f, 'm, 'k) tstate \<Rightarrow> (adds \<times> ('f, 'm, 'k) tstate) option" where
  "close_conns X onClosed [] t = Some ([], t)"
| "close_conns X onClosed (p # ps) t =
     Option.bind (t_Close X onClosed p t) (\<lambda>(a, t). map_option (\<lambda>(a', t). (a @ a', t)) (close_conns X onClosed ps t))"

text \<open>\<open>closeAll\<close>; \<open>ks\<close> are the keys of the table in the order in which the loop meets them.\<close>

definition closeAll :: "'k ext \<Rightarrow> ('f, 'm, 'k) thooks \<Rightarrow> int list \<Rightarrow> ('f, 'm, 'k) tcpservice \<Rightarrow> (adds \<times> ('f, 'm, 'k) tcpservice) option" where
  "closeAll X hk ks s =
     (if \<not> s_closed s then Some ([], s)
      else
        let t = s_t s; e = t_env t; ps = map (\<lambda>k. the (e_conns e k)) ks in
        map_option (\<lambda>(a, t). (a, s\<lparr>s_t := t\<rparr>))
          (close_conns X (hk_closed hk) ps (t\<lparr>t_env := e\<lparr>e_conns := Map.empty\<rparr>\<rparr>)))"

definition svc_close :: "'k ext \<Rightarrow> ('f, 'm, 'k) thooks \<Rightarrow> int list \<Rightarrow> ('f, 'm, 'k) tcpservice \<Rightarrow> (adds \<times> ('f, 'm, 'k) tcpservice) option" where
  "svc_close X hk ks s =
     map_option (\<lambda>(a, s). case ln_Close X (s_ln s) (s_t s) of (ln, t) \<Rightarrow> (a, s\<lparr>s_ln := ln, s_t := t\<rparr>))
       (closeAll X hk ks (s\<lparr>s_closed := True\<rparr>))"

section \<open>Serving and restarting\<close>

definition Serve_start :: "'k ext \<Rightarrow> nat \<Rightarrow> ('f, 'm, 'k) tcpservice \<Rightarrow> err option \<times> ('f, 'm, 'k) tcpservice" where
  "Serve_start X self s =
     (let t = s_t s in
      case Schedule (x_kern X) (x_eps X) (Some ''tcpServiceOnRead'') None (Some ''tcpServiceOnHup'') self (s_ln s) (t_mgrs t)
             (e_world (t_env t)) of
        (r, ln, ms, w) \<Rightarrow> (r, s\<lparr>s_ln := ln, s_t := t\<lparr>t_mgrs := ms, t_env := (t_env t)\<lparr>e_world := w\<rparr>\<rparr>\<rparr>))"

text \<open>One look of \<open>waitConnections\<close> at the table, under its mutex: the result, or \<open>None\<close> when it waits for the
  condition. The context has ended when its error is not nil.\<close>

definition waitConnections :: "err option \<Rightarrow> ('f, 'm, 'k) tcpservice \<Rightarrow> err option option" where
  "waitConnections ctx s =
     (if e_conns (t_env (s_t s)) \<noteq> Map.empty then (case ctx of Some e \<Rightarrow> Some (Some e) | None \<Rightarrow> None)
      else Some ctx)"

text \<open>What ends \<open>Serve\<close>: the context, or the hang-up of the listener. The result is \<open>None\<close> while connections drain.\<close>

definition Serve_end :: "'k ext \<Rightarrow> ('f, 'm, 'k) thooks \<Rightarrow> int list \<Rightarrow> err option \<Rightarrow> ('f, 'm, 'k) tcpservice \<Rightarrow>
    (err option option \<times> adds \<times> ('f, 'm, 'k) tcpservice) option" where
  "Serve_end X hk ks ctx s =
     (case ctx of
        Some e \<Rightarrow> map_option (\<lambda>(a, s). (Some (Some e), a, s)) (svc_close X hk ks s)
      | None \<Rightarrow>
          if \<not> s_hup s then Some (None, [], s)
          else if s_restarting s then Some (waitConnections ctx s, [], s)
          else map_option (\<lambda>(a, s). (Some (Some (ErrText ''listener is closed'')), a, s)) (svc_close X hk ks s))"

fun has_prefix :: "string \<Rightarrow> string \<Rightarrow> bool" where
  "has_prefix s [] = True"
| "has_prefix [] (c # cs) = False"
| "has_prefix (d # ds) (c # cs) = (d = c \<and> has_prefix ds cs)"

definition cleanAndAppendEnv :: "string list \<Rightarrow> string \<Rightarrow> string \<Rightarrow> string list" where
  "cleanAndAppendEnv env key value =
     (let prefix = key @ ''='' in filter (\<lambda>e. \<not> has_prefix e prefix) env @ [prefix @ value])"

definition gracefulRestartFDEnv :: string where
  "gracefulRestartFDEnv = ''GRACEFUL_RESTART_FD''"

definition gracefulRestartFD :: string where
  "gracefulRestartFD = ''3''"

text \<open>\<open>Restart\<close> up to the wait: \<open>start\<close> is the start of the new process with its environment and the descriptor of the
  listener. The last component says whether \<open>waitConnections\<close> follows.\<close>

definition Restart :: "'k ext \<Rightarrow> (string list \<Rightarrow> int \<Rightarrow> 'k \<Rightarrow> err option \<times> 'k) \<Rightarrow> string list \<Rightarrow> ('f, 'm, 'k) tcpservice \<Rightarrow>
    err option \<times> ('f, 'm, 'k) tcpservice \<times> bool" where
  "Restart X start env s =
     (if s_closed s then (Some (ErrText ''service is closed''), s, False)
      else if s_restarting s then (Some (ErrText ''service is already restarting''), s, False)
      else
        let s = s\<lparr>s_restarting := True\<rparr>; t = s_t s in
        case start (cleanAndAppendEnv env gracefulRestartFDEnv gracefulRestartFD) (ln_FD (s_ln s)) (kernel (t_env t)) of
          (Some e, k) \<Rightarrow> (Some e, s\<lparr>s_restarting := False, s_t := t\<lparr>t_env := set_kernel k (t_env t)\<rparr>\<rparr>, False)
        | (None, k) \<Rightarrow>
            (case ln_Close X (s_ln s) (t\<lparr>t_env := set_kernel k (t_env t)\<rparr>) of
               (ln, t) \<Rightarrow> (None, tcpServiceOnHup (s\<lparr>s_ln := ln, s_t := t\<rparr>), True)))"

end
