(* ===== verification/Service_Table.thy ===== *)
theory Service_Table
  imports Tcpservice
begin

text \<open>
  The connections of a TCP service: its table holds exactly the open ones, so closing the service closes them all.
\<close>

section \<open>Descriptors of the kernel\<close>

text \<open>The documented behaviour of the system calls with respect to the set of open descriptors: a new connection
  gets a descriptor that is not open, closing closes one descriptor, and the other calls change nothing.\<close>

definition fd_sys :: "'k ext \<Rightarrow> 'k lsys \<Rightarrow> ('k \<Rightarrow> int set) \<Rightarrow> bool" where
  "fd_sys X L fds \<longleftrightarrow>
     (\<forall>fd k ns sa k'. l_accept4 L fd k = (Inr (ns, sa), k') \<longrightarrow> ns \<notin> fds k \<and> fds k' = insert ns (fds k)) \<and>
     (\<forall>fd k e k'. l_accept4 L fd k = (Inl e, k') \<longrightarrow> fds k' = fds k) \<and>
     (\<forall>fd k ns sa k'. l_accept L fd k = (Inr (ns, sa), k') \<longrightarrow> ns \<notin> fds k \<and> fds k' = insert ns (fds k)) \<and>
     (\<forall>fd k e k'. l_accept L fd k = (Inl e, k') \<longrightarrow> fds k' = fds k) \<and>
     (\<forall>fd k. fds (l_cloexec L fd k) = fds k) \<and> (\<forall>fd k. fds (l_nonblock L fd k) = fds k) \<and>
     (\<forall>fd opt v k. fds (snd (n_setsockopt (x_nsys X) fd opt v k)) = fds k) \<and>
     (\<forall>ep op fd ev k. fds (snd (k_epoll_ctl (x_kern X) ep op fd ev k)) = fds k) \<and>
     (\<forall>fd k. fds k - {fd} \<subseteq> fds (snd (k_close (x_kern X) fd k)))"

lemma fd_accept:
  assumes "fd_sys X L fds"
  shows "l_accept4 L fd k = (Inr (ns, sa), k') \<Longrightarrow> ns \<notin> fds k \<and> fds k' = insert ns (fds k)"
    and "l_accept4 L fd k = (Inl e, k') \<Longrightarrow> fds k' = fds k"
    and "l_accept L fd k = (Inr (ns, sa), k') \<Longrightarrow> ns \<notin> fds k \<and> fds k' = insert ns (fds k)"
    and "l_accept L fd k = (Inl e, k') \<Longrightarrow> fds k' = fds k"
  using assms [unfolded fd_sys_def, THEN conjunct1] assms [unfolded fd_sys_def, THEN conjunct2, THEN conjunct1]
    assms [unfolded fd_sys_def, THEN conjunct2, THEN conjunct2, THEN conjunct1]
    assms [unfolded fd_sys_def, THEN conjunct2, THEN conjunct2, THEN conjunct2, THEN conjunct1]
  by simp_all

lemma Accept_fds:
  assumes "fd_sys X L fds"
  shows "case Accept L fd k of (Inr (ns, sa), k') \<Rightarrow> ns \<notin> fds k \<and> fds k' = insert ns (fds k) | (Inl e, k') \<Rightarrow> fds k' = fds k"
proof -
  obtain r1 k1 where a4: "l_accept4 L fd k = (r1, k1)" by fastforce
  obtain r2 k2 where a: "l_accept L fd k1 = (r2, k2)" by fastforce
  have fl: "fds (l_nonblock L ns (l_cloexec L ns k)) = fds k" for k ns using assms by (simp add: fd_sys_def)
  show ?thesis
  proof (cases r1)
    case (Inr x)
    obtain ns sa where x: "x = (ns, sa)" by fastforce
    have "ns \<notin> fds k \<and> fds k1 = insert ns (fds k)" using fd_accept(1) [OF assms] a4 Inr x by simp
    with a4 Inr x show ?thesis by (simp add: Accept_def)
  next
    case (Inl e)
    then have k1: "fds k1 = fds k" using fd_accept(2) [OF assms] a4 by simp
    show ?thesis
    proof (cases r2)
      case r2: (Inr x)
      obtain ns sa where x: "x = (ns, sa)" by fastforce
      have "ns \<notin> fds k1 \<and> fds k2 = insert ns (fds k1)" using fd_accept(3) [OF assms] a r2 x by simp
      with a4 a Inl r2 x k1 show ?thesis by (simp add: Accept_def fl)
    next
      case r2: (Inl e')
      then have "fds k2 = fds k1" using fd_accept(4) [OF assms] a by simp
      with a4 a Inl r2 k1 show ?thesis by (simp add: Accept_def)
    qed
  qed
qed

lemma Control_fds:
  assumes "fd_sys X L fds"
  shows "fds (w_kernel (snd (nfd_Control (x_kern X) eps ev nfd w))) = fds (w_kernel w)"
proof -
  have e: "fds (snd (k_epoll_ctl (x_kern X) ep op fd v k)) = fds k" for ep op fd v k
    using assms by (simp add: fd_sys_def)
  show ?thesis
    by (simp add: nfd_Control_def Desc_Control_def ep_Control_def ep_insert_def ep_interest_def ep_remove_def
        on_kernel_def split_beta Let_def e split: option.split event.split)
qed

lemma nfd_close_fds:
  assumes "fd_sys X L fds" and "\<not> nf_sock nfd"
  shows "fds (w_kernel w) - {nf_fd nfd} \<subseteq> fds (w_kernel (snd (nfd_close (x_kern X) (x_nsys X) eps nfd w)))"
    and "nf_closed (fst (nfd_close (x_kern X) (x_nsys X) eps nfd w))"
proof -
  have e: "fds (snd (k_epoll_ctl (x_kern X) ep op fd v k)) = fds k" for ep op fd v k
    using assms(1) by (simp add: fd_sys_def)
  have c: "fds k - {fd} \<subseteq> fds (snd (k_close (x_kern X) fd k))" for fd k
    using assms(1) by (simp add: fd_sys_def)
  show "fds (w_kernel w) - {nf_fd nfd} \<subseteq> fds (w_kernel (snd (nfd_close (x_kern X) (x_nsys X) eps nfd w)))"
  proof (cases "nf_closed nfd")
    case True
    then show ?thesis by (auto simp: nfd_close_def)
  next
    case False
    show ?thesis
    proof (cases "nf_desc nfd")
      case None
      with False assms(2) c show ?thesis by (simp add: nfd_close_def)
    next
      case (Some pd)
      let ?w = "FreeDesc pd (snd (Desc_Close (x_kern X) eps pd w))"
      have "fds (w_kernel ?w) = fds (w_kernel w)"
        by (simp add: FreeDesc_def Desc_Close_def ep_Control_def ep_remove_def on_kernel_def Let_def split_beta e
            split: option.split)
      with c [of "w_kernel ?w" "nf_fd nfd"] False Some assms(2) show ?thesis by (simp add: nfd_close_def Let_def)
    qed
  qed
  show "nf_closed (fst (nfd_close (x_kern X) (x_nsys X) eps nfd w))"
    by (simp add: nfd_close_def Let_def split: option.split)
qed

lemma Schedule_fds:
  assumes "fd_sys X L fds" and "Schedule (x_kern X) (x_eps X) r wr h d nfd ms w = (e, nfd', ms', w')"
  shows "fds (w_kernel w') = fds (w_kernel w)" and "nf_fd nfd' = nf_fd nfd" and "nf_closed nfd' = nf_closed nfd"
    and "nf_sock nfd' = nf_sock nfd"
proof -
  let ?S = "Schedule (x_kern X) (x_eps X) r wr h d nfd ms w"
  have "fds (w_kernel (snd (snd (snd ?S)))) = fds (w_kernel w)"
    by (simp add: Schedule_def Let_def split_beta FreeDesc_def Control_fds [OF assms(1)] split: option.split sum.split prod.split)
  moreover have "nf_fd (fst (snd ?S)) = nf_fd nfd \<and> nf_closed (fst (snd ?S)) = nf_closed nfd \<and> nf_sock (fst (snd ?S)) = nf_sock nfd"
    by (simp add: Schedule_def Let_def split_beta split: option.split sum.split prod.split)
  ultimately show "fds (w_kernel w') = fds (w_kernel w)" "nf_fd nfd' = nf_fd nfd" "nf_closed nfd' = nf_closed nfd"
    "nf_sock nfd' = nf_sock nfd"
    using assms(2) by simp_all
qed

section \<open>What the operations keep\<close>

text \<open>The parts of a connection and its environment that settings leave alone.\<close>

definition conn_frame :: "('k \<Rightarrow> int set) \<Rightarrow> ('f, 'm, 'h, 'd, 'k) tcs \<Rightarrow> bool \<times> bool \<times> bool \<times> 'f option \<times> netFD \<times> (int \<rightharpoonup> nat) \<times> int set" where
  "conn_frame fds st = (tc_active (fst st), tc_service (fst st), tc_sysRead (fst st), tc_closeHandle (fst st), tc_nfd (fst st),
     e_conns (snd st), fds (kernel (snd st)))"

lemma set_idle_frame: "e_conns (snd (snd (set_idle old d e))) = e_conns e" "kernel (snd (snd (set_idle old d e))) = kernel e"
  by (simp_all add: set_idle_def new_idle_timer_def asynctimer_Add_def del_timer_def asynctimer_Del_def Let_def split_beta
      split: option.split)

lemma idle_frame:
  "conn_frame fds (snd (tcp_SetIdleTimeout d st)) = conn_frame fds st"
  "conn_frame fds (snd (tcp_SetWriteIdleTimeout d st)) = conn_frame fds st"
  "conn_frame fds (snd (tcp_SetReadIdleTimeout d st)) = conn_frame fds st"
  by (simp_all add: conn_frame_def tcp_SetIdleTimeout_def tcp_SetWriteIdleTimeout_def tcp_SetReadIdleTimeout_def split_beta
      set_idle_frame)

lemma keepalive_frame:
  assumes "fd_sys X L fds"
  shows "conn_frame fds (snd (tcp_SetKeepAlive X d st)) = conn_frame fds st"
proof -
  have e: "fds (snd (n_setsockopt (x_nsys X) fd opt v k)) = fds k" for fd opt v k
    using assms by (simp add: fd_sys_def)
  have "fds (snd (SetKeepAlive (x_nsys X) fd secs k)) = fds k" for fd secs k
    by (simp add: SetKeepAlive_def split_beta e split: option.split)
  then show ?thesis
    by (simp add: conn_frame_def tcp_SetKeepAlive_def nfd_SetKeepAlive_def split_beta set_kernel_def)
qed

lemma and_then_frame:
  "frame (snd r) = x \<Longrightarrow> (\<And>s. frame (snd (f s)) = frame s) \<Longrightarrow> frame (snd (and_then r f)) = x"
  by (cases r; cases "fst r") (auto simp: and_then_def)

lemma open_settings_frame:
  assumes "fd_sys X L fds"
  shows "conn_frame fds (snd (open_settings X h opts st)) = conn_frame fds st"
proof -
  have "conn_frame fds (snd (case tcp_SetOnRequest h (fst st) of (r, tc) \<Rightarrow> (r, tc, snd st))) = conn_frame fds st"
    by (simp add: conn_frame_def tcp_SetOnRequest_def split: option.split)
  then show ?thesis
    unfolding open_settings_def
    by (intro and_then_frame [where frame = "conn_frame fds"]) (simp_all add: idle_frame keepalive_frame [OF assms])
qed

lemma close_effect:
  assumes sys: "fd_sys X L fds"
    and c: "tc_active (t_heap t p)" "\<not> tc_sysRead (t_heap t p)" "h = (\<lambda>_ st. st)" "\<not> nf_sock (tc_nfd (t_heap t p))"
  defines "fd \<equiv> nf_fd (tc_nfd (t_heap t p))"
  shows "\<exists>t' tc'. t_Close X h p t = Some ([(TCPConnsClose, 1)], t') \<and> t_heap t' = (t_heap t)(p := tc') \<and> t_next t' = t_next t \<and>
    \<not> tc_active tc' \<and> nf_closed (tc_nfd tc') \<and> fds (kernel (t_env t)) - {fd} \<subseteq> fds (kernel (t_env t')) \<and>
    e_conns (t_env t') = (if tc_service (t_heap t p) then (e_conns (t_env t))(fd := None) else e_conns (t_env t))"
proof -
  let ?tc = "t_heap t p" and ?e = "t_env t"
  obtain tc1 where j: "tcp_close_jobs (?tc, ?e) = (tc1, ?e)" "\<not> tc_active tc1" "tc_nfd tc1 = tc_nfd ?tc" "tc_service tc1 = tc_service ?tc"
    by (auto simp: tcp_close_jobs_def storeReadBuffer_def Let_def split_beta split: option.split)
  define e1 where "e1 = (if tc_service tc1 then deleteConn (nfd_FD (tc_nfd tc1)) ?e else ?e)"
  define e2 where "e2 = del_timer (tc_readIdleTimer tc1) (del_timer (tc_writeIdleTimer tc1) (del_timer (tc_idleTimer tc1) e1))"
  have e2: "e_world e2 = e_world ?e" "e_conns e2 = (if tc_service ?tc then (e_conns ?e)(fd := None) else e_conns ?e)"
    using j(3,4) by (auto simp: e2_def e1_def del_timer_def asynctimer_Del_def deleteConn_def nfd_FD_def fd_def fun_upd_idem
        split: option.split)
  obtain nfd w where n: "nfd_close (x_kern X) (x_nsys X) (x_eps X) (tc_nfd ?tc) (e_world ?e) = (nfd, w)" by fastforce
  have "nf_closed nfd" "fds (kernel ?e) - {fd} \<subseteq> fds (w_kernel w)"
    using nfd_close_fds [OF sys c(4), where w = "e_world ?e" and eps = "x_eps X"] n by (simp_all add: fd_def)
  moreover have "\<exists>tc'. tcp_Close X h (?tc, ?e) = Some ([(TCPConnsClose, 1)], tc', e2\<lparr>e_world := w\<rparr>) \<and> \<not> tc_active tc' \<and> tc_nfd tc' = nfd"
  proof -
    have n': "nfd_close (x_kern X) (x_nsys X) (x_eps X) (tc_nfd tc1) (e_world e2) = (nfd, w)"
      using n e2(1) j(3) by simp
    define tc2 where "tc2 = tc1\<lparr>tc_rtimer := map_option timer_Stop (tc_rtimer tc1), tc_wtimer := map_option timer_Stop (tc_wtimer tc1)\<rparr>"
    have t2: "tc_service tc2 = tc_service tc1" "tc_nfd tc2 = tc_nfd tc1" "tc_readIdleTimer tc2 = tc_readIdleTimer tc1"
      "tc_writeIdleTimer tc2 = tc_writeIdleTimer tc1" "tc_idleTimer tc2 = tc_idleTimer tc1" "tc_active tc2 = tc_active tc1"
      by (simp_all add: tc2_def)
    have r: "tcp_close_rest X (tc1, ?e) =
      (tc2\<lparr>tc_nfd := nfd, tc_inBuffer := buffer_Free (tc_inBuffer tc2), tc_outBuffer := buffer_Free (tc_outBuffer tc2)\<rparr>, e2\<lparr>e_world := w\<rparr>)"
      unfolding tcp_close_rest_def prod.case Let_def tc2_def [symmetric] t2 e1_def [symmetric] e2_def [symmetric] n' ..
    show ?thesis using c(1-3) j(1,2) t2(6) by (simp add: tcp_Close_def Let_def r split: option.split)
  qed
  ultimately show ?thesis
    using e2(2) by (fastforce simp: t_Close_def t_conn_def t_put_def)
qed

section \<open>The table\<close>

text \<open>A connection of a service that can be closed: open, not inside its own read event, and owning its descriptor.\<close>

definition closable :: "('f, 'm) tcpconn \<Rightarrow> bool" where
  "closable tc \<longleftrightarrow> tc_active tc \<and> \<not> tc_sysRead tc \<and> \<not> nf_sock (tc_nfd tc)"

abbreviation fd_of :: "nat \<Rightarrow> ('f, 'm, 'k) tstate \<Rightarrow> int" where
  "fd_of p t \<equiv> nf_fd (tc_nfd (t_heap t p))"

text \<open>Among the connections \<open>N\<close> the table holds exactly the open ones, each under its own open descriptor.\<close>

definition table_ok :: "('k \<Rightarrow> int set) \<Rightarrow> nat set \<Rightarrow> ('f, 'm, 'k) tstate \<Rightarrow> bool" where
  "table_ok fds N t \<longleftrightarrow>
     (\<forall>p \<in> N. if tc_active (t_heap t p)
        then closable (t_heap t p) \<and> tc_service (t_heap t p) \<and> fd_of p t \<in> fds (kernel (t_env t)) \<and> e_conns (t_env t) (fd_of p t) = Some p
        else nf_closed (tc_nfd (t_heap t p))) \<and>
     (\<forall>fd p. e_conns (t_env t) fd = Some p \<longrightarrow> p \<in> N \<and> tc_active (t_heap t p) \<and> fd_of p t = fd)"

text \<open>The invariant depends on the following parts of a connection only.\<close>

definition view :: "('f, 'm) tcpconn \<Rightarrow> bool \<times> bool \<times> bool \<times> int \<times> bool \<times> bool" where
  "view tc = (tc_active tc, tc_service tc, tc_sysRead tc, nf_fd (tc_nfd tc), nf_sock (tc_nfd tc), nf_closed (tc_nfd tc))"

lemma table_mono:
  assumes "table_ok fds N t" and "\<And>p. p \<in> N \<Longrightarrow> view (t_heap t' p) = view (t_heap t p)" and "e_conns (t_env t') = e_conns (t_env t)"
    and "\<And>fd. fd \<in> fds (kernel (t_env t)) \<Longrightarrow> e_conns (t_env t) fd \<noteq> None \<Longrightarrow> fd \<in> fds (kernel (t_env t'))"
  shows "table_ok fds N t'"
proof -
  have v: "tc_active (t_heap t' p) = tc_active (t_heap t p)" "tc_service (t_heap t' p) = tc_service (t_heap t p)"
    "closable (t_heap t' p) = closable (t_heap t p)" "fd_of p t' = fd_of p t"
    "nf_closed (tc_nfd (t_heap t' p)) = nf_closed (tc_nfd (t_heap t p))" if "p \<in> N" for p
    using assms(2) [OF that] by (simp_all add: view_def closable_def)
  have "closable (t_heap t p) \<and> tc_service (t_heap t p) \<and> fd_of p t \<in> fds (kernel (t_env t')) \<and> e_conns (t_env t) (fd_of p t) = Some p"
    if "p \<in> N" "tc_active (t_heap t p)" for p
    using assms(1) that assms(4) [of "fd_of p t"] by (auto simp: table_ok_def)
  moreover have "nf_closed (tc_nfd (t_heap t p))" if "p \<in> N" "\<not> tc_active (t_heap t p)" for p
    using assms(1) that by (auto simp: table_ok_def)
  moreover have "p \<in> N \<and> tc_active (t_heap t p) \<and> fd_of p t = fd" if "e_conns (t_env t) fd = Some p" for fd p
    using assms(1) that by (auto simp: table_ok_def)
  ultimately show ?thesis unfolding table_ok_def assms(3) using v by simp
qed

lemma table_lookup:
  assumes "table_ok fds N t" and "e_conns (t_env t) fd = Some p"
  shows "p \<in> N" and "closable (t_heap t p)" and "fd_of p t = fd" and "fd \<in> fds (kernel (t_env t))" and "tc_service (t_heap t p)"
proof -
  have a: "p \<in> N" "tc_active (t_heap t p)" "fd_of p t = fd" using assms by (auto simp: table_ok_def)
  moreover have "closable (t_heap t p) \<and> tc_service (t_heap t p) \<and> fd_of p t \<in> fds (kernel (t_env t))"
    using assms(1) a(1,2) by (auto simp: table_ok_def)
  ultimately show "p \<in> N" "closable (t_heap t p)" "fd_of p t = fd" "fd \<in> fds (kernel (t_env t))" "tc_service (t_heap t p)" by auto
qed

lemma table_store:
  assumes "table_ok fds N t" and "closable (t_heap t p)" and "tc_service (t_heap t p)" and "fd_of p t \<in> fds (kernel (t_env t))"
    and "e_conns (t_env t) (fd_of p t) = None" and "p \<notin> N"
  shows "table_ok fds (insert p N) (storeConn False p t)"
proof -
  let ?t = "storeConn False p t"
  have s: "t_heap ?t = t_heap t" "kernel (t_env ?t) = kernel (t_env t)" "e_conns (t_env ?t) = (e_conns (t_env t))(fd_of p t \<mapsto> p)"
    by (simp_all add: storeConn_def nfd_FD_def)
  have "fd_of q t \<noteq> fd_of p t" if "q \<in> N" "tc_active (t_heap t q)" for q
    using assms(1,5) that by (auto simp: table_ok_def)
  then show ?thesis
    using assms unfolding table_ok_def s by (auto simp: closable_def split: if_splits)
qed

lemma table_drop:
  assumes "table_ok fds N t" and "\<not> tc_active (t_heap t p)" and "nf_closed (tc_nfd (t_heap t p))"
  shows "table_ok fds (insert p N) t"
  using assms unfolding table_ok_def by auto

section \<open>Closing and accepting keep the table\<close>

lemma t_Close_inactive: "\<not> tc_active (t_heap t p) \<Longrightarrow> t_Close X h p t = Some ([], t)"
  by (simp add: t_Close_def tcp_Close_def t_conn_def t_put_def)

lemma table_close:
  assumes sys: "fd_sys X L fds" and h: "h = (\<lambda>_ st. st)" and t: "table_ok fds N t" and p: "p \<in> N"
  shows "\<exists>a t'. t_Close X h p t = Some (a, t') \<and> table_ok fds N t' \<and> t_next t' = t_next t"
proof (cases "tc_active (t_heap t p)")
  case False
  with t show ?thesis by (simp add: t_Close_inactive)
next
  case True
  then have c: "closable (t_heap t p)" "tc_service (t_heap t p)" "e_conns (t_env t) (fd_of p t) = Some p"
    using t p by (auto simp: table_ok_def)
  obtain t' tc' where cl: "t_Close X h p t = Some ([(TCPConnsClose, 1)], t')" "t_heap t' = (t_heap t)(p := tc')"
    "t_next t' = t_next t" "\<not> tc_active tc'" "nf_closed (tc_nfd tc')"
    "fds (kernel (t_env t)) - {fd_of p t} \<subseteq> fds (kernel (t_env t'))" "e_conns (t_env t') = (e_conns (t_env t))(fd_of p t := None)"
    using close_effect [OF sys, of t p h] c h unfolding closable_def by auto
  have o: "closable (t_heap t q) \<and> tc_service (t_heap t q) \<and> fd_of q t \<in> fds (kernel (t_env t)) \<and>
      e_conns (t_env t) (fd_of q t) = Some q" if "q \<in> N" "tc_active (t_heap t q)" for q
    using t that by (auto simp: table_ok_def)
  have ne: "fd_of q t \<noteq> fd_of p t" if "q \<in> N" "tc_active (t_heap t q)" "q \<noteq> p" for q
    using o [OF that(1,2)] c(3) that(3) by auto
  have k: "fd_of q t \<in> fds (kernel (t_env t'))" if "q \<in> N" "tc_active (t_heap t q)" "q \<noteq> p" for q
    using o [OF that(1,2)] ne [OF that] cl(6) by auto
  have own: "q \<in> N \<and> tc_active (t_heap t q) \<and> fd_of q t = fd" if "e_conns (t_env t) fd = Some q" for q fd
    using t that by (auto simp: table_ok_def)
  have cls: "nf_closed (tc_nfd (t_heap t q))" if "q \<in> N" "\<not> tc_active (t_heap t q)" for q
    using t that by (auto simp: table_ok_def)
  have "table_ok fds N t'"
    unfolding table_ok_def
  proof (intro conjI ballI allI impI)
    fix q assume q: "q \<in> N"
    show "if tc_active (t_heap t' q)
        then closable (t_heap t' q) \<and> tc_service (t_heap t' q) \<and> fd_of q t' \<in> fds (kernel (t_env t')) \<and> e_conns (t_env t') (fd_of q t') = Some q
        else nf_closed (tc_nfd (t_heap t' q))"
      using o [OF q] ne [OF q] k [OF q] cls [OF q] cl(2,4,5,7) by (cases "q = p") auto
  next
    fix fd q assume "e_conns (t_env t') fd = Some q"
    then have "fd \<noteq> fd_of p t" "e_conns (t_env t) fd = Some q" using cl(7) by (auto split: if_splits)
    moreover from this have "q \<noteq> p" using own by blast
    ultimately show "q \<in> N" "tc_active (t_heap t' q)" "fd_of q t' = fd" using own [of fd q] cl(2) by simp_all
  qed
  with cl(1,3) show ?thesis by blast
qed

text \<open>A connection that is not in the table yet.\<close>

lemma pending_close:
  assumes sys: "fd_sys X L fds" and h: "h = (\<lambda>_ st. st)" and t: "table_ok fds N t" and p: "p \<notin> N"
    and c: "closable (t_heap t p)" "e_conns (t_env t) (fd_of p t) = None"
  shows "\<exists>t'. t_Close X h p t = Some ([(TCPConnsClose, 1)], t') \<and> table_ok fds (insert p N) t' \<and> t_next t' = t_next t"
proof -
  obtain t' tc' where cl: "t_Close X h p t = Some ([(TCPConnsClose, 1)], t')" "t_heap t' = (t_heap t)(p := tc')"
    "t_next t' = t_next t" "\<not> tc_active tc'" "nf_closed (tc_nfd tc')"
    "fds (kernel (t_env t)) - {fd_of p t} \<subseteq> fds (kernel (t_env t'))" "e_conns (t_env t') = e_conns (t_env t)"
    using close_effect [OF sys, of t p h] c h unfolding closable_def by (auto simp: fun_upd_idem)
  have "table_ok fds N t'"
    by (rule table_mono [OF t]) (use cl p c(2) in auto)
  then have "table_ok fds (insert p N) t'" by (rule table_drop) (use cl in simp_all)
  with cl(1,3) show ?thesis by blast
qed

lemma accept_rest_table:
  assumes sys: "fd_sys X L fds" and h: "h = (\<lambda>_ st. st)" and t: "table_ok fds N t" and p: "p \<in> N"
  shows "\<exists>r a t'. accept_rest X h p t = Some (r, a, t') \<and> table_ok fds N t' \<and> t_next t' = t_next t"
proof -
  obtain r k where n: "SetNoDelay (x_nsys X) True (tc_nfd (t_heap t p)) (kernel (t_env t)) = (r, k)" by fastforce
  have "fds (snd (SetNoDelay (x_nsys X) True (tc_nfd (t_heap t p)) (kernel (t_env t)))) = fds (kernel (t_env t))"
    using sys by (simp add: SetNoDelay_def fd_sys_def)
  with n have k: "fds k = fds (kernel (t_env t))" by simp
  define t1 where "t1 = t\<lparr>t_env := set_kernel k (t_env t)\<rparr>"
  have t1: "table_ok fds N t1" "t_next t1 = t_next t"
    using table_mono [OF t, of t1] k by (simp_all add: t1_def set_kernel_def)
  obtain e nfd ms w where s: "Schedule (x_kern X) (x_eps X) (Some ''tcpOnRead'') (Some ''tcpOnWrite'') (Some ''tcpOnHup'') p
      (tc_nfd (t_heap t1 p)) (t_mgrs t1) (e_world (t_env t1)) = (e, nfd, ms, w)" using prod_cases4 by blast
  note f = Schedule_fds [OF sys s]
  define t2 where "t2 = (t_put p ((t_heap t1 p)\<lparr>tc_nfd := nfd\<rparr>, (t_env t1)\<lparr>e_world := w\<rparr>) t1)\<lparr>t_mgrs := ms\<rparr>"
  have t2: "table_ok fds N t2" "t_next t2 = t_next t1"
    using table_mono [OF t1(1), of t2] f by (auto simp: t2_def t_put_def view_def)
  have sch: "tcp_schedule X p (t_mgrs t1) (t_conn p t1) = (e, ms, (t_heap t1 p)\<lparr>tc_nfd := nfd\<rparr>, (t_env t1)\<lparr>e_world := w\<rparr>)"
    using s by (simp add: tcp_schedule_def t_conn_def)
  show ?thesis
  proof (cases r)
    case (Some e')
    with n t1 show ?thesis by (simp add: accept_rest_def t1_def)
  next
    case None
    then have eq: "accept_rest X h p t = (case e of
        Some e \<Rightarrow> map_option (\<lambda>(adds, t). (Inl (Wrapped e), adds, t)) (t_Close X h p t2)
      | None \<Rightarrow> Some (Inr p, [(TCPConnsCreate, 1)], t2))"
      using n unfolding accept_rest_def by (simp only: None prod.case option.case Let_def t1_def [symmetric] sch t2_def)
    obtain a t3 where c: "t_Close X h p t2 = Some (a, t3)" "table_ok fds N t3" "t_next t3 = t_next t2"
      using table_close [OF sys h t2(1) p] by blast
    show ?thesis using eq c t2 t1(2) by (cases e) auto
  qed
qed

text \<open>Hooks of the user that leave the connection alone.\<close>

definition quiet_hooks :: "('f, 'm, 'k) thooks \<Rightarrow> bool" where
  "quiet_hooks hk \<longleftrightarrow> hk_closed hk = (\<lambda>_ st. st) \<and> (\<forall>f p t. \<exists>r. hk_opened hk f p t = Some (r, t))"

lemma open_flags_view: "view (open_flags opts tc) = view (tc\<lparr>tc_service := True\<rparr>)"
  by (simp add: open_flags_def view_def tcp_SetSafeWrite_def tcp_SetNonBlocking_def tcp_SetOnClosed_def Let_def split: option.split)

text \<open>A connection that was just accepted: open, known to nobody, with a descriptor nobody else has.\<close>

definition pending :: "('k \<Rightarrow> int set) \<Rightarrow> nat \<Rightarrow> ('f, 'm, 'k) tstate \<Rightarrow> bool" where
  "pending fds p t \<longleftrightarrow> closable (t_heap t p) \<and> fd_of p t \<in> fds (kernel (t_env t)) \<and> e_conns (t_env t) (fd_of p t) = None"

lemma open_settings_pending:
  assumes sys: "fd_sys X L fds" and t: "table_ok fds N t" "pending fds p t" "p \<notin> N"
    and o: "open_settings X rh opts (t_conn p t) = (r, st)"
  shows "table_ok fds N (t_put p (on_tc g st) t)"
    and "view (g (fst st)) = view ((fst st)\<lparr>tc_service := b\<rparr>) \<Longrightarrow> pending fds p (t_put p (on_tc g st) t)"
proof -
  have f: "conn_frame fds st = conn_frame fds (t_conn p t)"
    using open_settings_frame [OF sys, of rh opts "t_conn p t"] o by simp
  show "table_ok fds N (t_put p (on_tc g st) t)"
    by (rule table_mono [OF t(1)]) (use f t(3) in \<open>auto simp: t_put_def conn_frame_def t_conn_def on_tc_def\<close>)
  show "pending fds p (t_put p (on_tc g st) t)" if "view (g (fst st)) = view ((fst st)\<lparr>tc_service := b\<rparr>)"
    using that f t(2) by (simp add: pending_def closable_def t_put_def conn_frame_def t_conn_def on_tc_def view_def)
qed

lemma openHandle_table:
  assumes sys: "fd_sys X L fds" and hk: "quiet_hooks hk" and t: "table_ok fds N t" "pending fds p t" "p \<notin> N"
  shows "\<exists>r t'. openHandle X hk rh opts False p t = Some (r, t') \<and> t_next t' = t_next t \<and> closable (t_heap t' p) \<and>
    (table_ok fds (insert p N) t' \<or> r \<noteq> None \<and> table_ok fds N t' \<and> pending fds p t')"
proof -
  obtain r st where o: "open_settings X rh opts (t_conn p t) = (r, st)" by (cases "open_settings X rh opts (t_conn p t)")
  note e = open_settings_pending [OF sys t o]
  show ?thesis
  proof (cases r)
    case (Some x)
    have "on_tc (\<lambda>tc. tc) st = st" by (simp add: on_tc_def)
    with e(1) [of "\<lambda>tc. tc"] e(2) [of "\<lambda>tc. tc" "tc_service (fst st)"] o Some show ?thesis
      by (simp add: openHandle_def t_put_def pending_def)
  next
    case None
    let ?t = "t_put p (on_tc (open_flags opts) st) t"
    have p: "pending fds p ?t" by (rule e(2) [of _ True]) (rule open_flags_view)
    have "view (open_flags opts (fst st)) = view ((fst st)\<lparr>tc_service := True\<rparr>)" by (rule open_flags_view)
    then have "tc_service (t_heap ?t p)" by (simp add: t_put_def on_tc_def view_def)
    then have s: "table_ok fds (insert p N) (storeConn False p ?t)"
      using table_store [OF e(1) [of "open_flags opts"]] p t(3) by (simp add: pending_def)
    have n: "t_next (storeConn False p ?t) = t_next t" by (simp add: storeConn_def t_put_def)
    have cl: "closable (t_heap (storeConn False p ?t) p)" using p by (simp add: storeConn_def pending_def)
    have "\<exists>r. (case op_onTCPOpened opts of None \<Rightarrow> Some (None, storeConn False p ?t) | Some f \<Rightarrow> hk_opened hk f p (storeConn False p ?t)) =
        Some (r, storeConn False p ?t)"
      using hk by (auto simp: quiet_hooks_def split: option.split)
    then show ?thesis using o None s n cl by (auto simp: openHandle_def Let_def)
  qed
qed

lemma accept_pending:
  assumes sys: "fd_sys X L fds" and t: "table_ok fds {..<t_next t} t"
    and a: "Accept L (ln_FD ln) (kernel (t_env t)) = (Inr (fd, sa), k)"
    and al: "t_alloc (accept_conn X L m ln fd sa k) (t\<lparr>t_env := set_kernel k (t_env t)\<rparr>) = (p, t1)"
  shows "p = t_next t" and "t_next t1 = Suc p" and "table_ok fds {..<p} t1" and "pending fds p t1"
    and "tc_service (t_heap t1 p) = False" and "e_conns (t_env t1) = e_conns (t_env t)"
proof -
  have n: "fd \<notin> fds (kernel (t_env t))" "fds k = insert fd (fds (kernel (t_env t)))"
    using Accept_fds [OF sys, where fd = "ln_FD ln" and k = "kernel (t_env t)"] a by simp_all
  show p: "p = t_next t" "t_next t1 = Suc p" "tc_service (t_heap t1 p) = False" "e_conns (t_env t1) = e_conns (t_env t)"
    using al by (auto simp: t_alloc_def set_kernel_def accept_conn_def make_tcpconn_def Let_def)
  have "table_ok fds {..<t_next t} t1"
    by (rule table_mono [OF t]) (use al n in \<open>auto simp: t_alloc_def set_kernel_def\<close>)
  then show "table_ok fds {..<p} t1" using p by simp
  have "e_conns (t_env t) fd = None"
    using table_lookup(4) [OF t, of fd] n(1) by (cases "e_conns (t_env t) fd") auto
  then show "pending fds p t1"
    using al n by (auto simp: pending_def closable_def t_alloc_def set_kernel_def accept_conn_def make_tcpconn_def new_nfd_def Let_def)
qed

lemma service_read_table:
  assumes sys: "fd_sys X L fds" and hk: "quiet_hooks hk" and t: "table_ok fds {..<t_next (s_t s)} (s_t s)" and op: "\<not> s_closed s"
  shows "\<exists>r a s'. tcpServiceOnRead X L hk m s = Some (r, a, s') \<and> table_ok fds {..<t_next (s_t s')} (s_t s') \<and>
    \<not> s_closed s' \<and> s_ln s' = s_ln s"
proof -
  let ?t = "s_t s" and ?h = "hk_closed hk" and ?oh = "openHandle X hk (s_reqHandle s) (s_opts s) False"
  have h: "?h = (\<lambda>_ st. st)" using hk by (simp add: quiet_hooks_def)
  have "\<exists>r a t'. accept X L ?h m (Some ?oh) (s_ln s) ?t = Some (r, a, t') \<and> table_ok fds {..<t_next t'} t'"
  proof (cases "Accept L (ln_FD (s_ln s)) (kernel (t_env ?t))")
    case (Pair x k)
    show ?thesis
    proof (cases x)
      case (Inl e)
      have "fds k = fds (kernel (t_env ?t))"
        using Accept_fds [OF sys, where fd = "ln_FD (s_ln s)" and k = "kernel (t_env ?t)"] Pair Inl by simp
      then have "table_ok fds {..<t_next ?t} (?t\<lparr>t_env := set_kernel k (t_env ?t)\<rparr>)"
        using table_mono [OF t, of "?t\<lparr>t_env := set_kernel k (t_env ?t)\<rparr>"] by (simp add: set_kernel_def)
      then show ?thesis using Pair Inl by (simp add: accept_def)
    next
      case (Inr y)
      obtain fd sa where y: "y = (fd, sa)" by fastforce
      obtain p t1 where al: "t_alloc (accept_conn X L m (s_ln s) fd sa k) (?t\<lparr>t_env := set_kernel k (t_env ?t)\<rparr>) = (p, t1)" by fastforce
      note b = accept_pending [OF sys t Pair [unfolded Inr y] al]
      obtain r t2 where o: "?oh p t1 = Some (r, t2)" "t_next t2 = Suc p"
        and st: "table_ok fds (insert p {..<p}) t2 \<or> r \<noteq> None \<and> table_ok fds {..<p} t2 \<and> pending fds p t2"
        using openHandle_table [OF sys hk b(3,4), of "s_reqHandle s" "s_opts s"] b(2) by auto
      have c: "\<exists>a t3. t_Close X ?h p t2 = Some (a, t3) \<and> table_ok fds (insert p {..<p}) t3 \<and> t_next t3 = Suc p"
        using st table_close [OF sys h, of "insert p {..<p}" t2 p] pending_close [OF sys h, of "{..<p}" t2 p] o(2)
        unfolding pending_def by fastforce
      have eq: "accept X L ?h m (Some ?oh) (s_ln s) ?t = (case r of
          Some e \<Rightarrow> map_option (\<lambda>(adds, t). (Inl (Wrapped e), adds, t)) (t_Close X ?h p t2)
        | None \<Rightarrow> accept_rest X ?h p t2)"
        using Pair Inr y al o(1) by (simp add: accept_def)
      show ?thesis
      proof (cases r)
        case (Some e)
        with c eq show ?thesis by (auto simp: lessThan_Suc)
      next
        case None
        with st have "table_ok fds (insert p {..<p}) t2" by simp
        from accept_rest_table [OF sys h this, of p] o(2) None eq show ?thesis by (auto simp: lessThan_Suc)
      qed
    qed
  qed
  then obtain r a t' where ac: "accept X L ?h m (Some ?oh) (s_ln s) ?t = Some (r, a, t')" "table_ok fds {..<t_next t'} t'" by blast
  show ?thesis
  proof (cases r)
    case (Inl f)
    with op ac show ?thesis by (cases "Temporary f") (simp_all add: tcpServiceOnRead_def Let_def)
  next
    case (Inr p)
    with op ac show ?thesis by (simp add: tcpServiceOnRead_def Let_def)
  qed
qed

section \<open>Life of a service\<close>

text \<open>What happens to a service while it runs: a connection arrives, or one of its connections closes (a hang-up, an
  idle timeout, an error or the user).\<close>

datatype svc_event = Arrives bool | Closes nat

fun svc_run :: "'k ext \<Rightarrow> 'k lsys \<Rightarrow> ('f, 'm, 'k) thooks \<Rightarrow> svc_event list \<Rightarrow> ('f, 'm, 'k) tcpservice \<Rightarrow> ('f, 'm, 'k) tcpservice option" where
  "svc_run X L hk [] s = Some s"
| "svc_run X L hk (Arrives massive # evs) s =
     Option.bind (tcpServiceOnRead X L hk massive s) (\<lambda>(_, _, s). svc_run X L hk evs s)"
| "svc_run X L hk (Closes p # evs) s =
     (if p < t_next (s_t s)
      then Option.bind (t_Close X (hk_closed hk) p (s_t s)) (\<lambda>(_, t). svc_run X L hk evs (s\<lparr>s_t := t\<rparr>))
      else svc_run X L hk evs s)"

lemma svc_run_table:
  assumes "fd_sys X L fds" and "quiet_hooks hk"
  shows "table_ok fds {..<t_next (s_t s)} (s_t s) \<Longrightarrow> \<not> s_closed s \<Longrightarrow>
    \<exists>s'. svc_run X L hk evs s = Some s' \<and> table_ok fds {..<t_next (s_t s')} (s_t s') \<and> s_ln s' = s_ln s"
proof (induction evs arbitrary: s)
  case Nil
  then show ?case by simp
next
  case (Cons ev evs)
  show ?case
  proof (cases ev)
    case (Arrives m)
    obtain r a s1 where r: "tcpServiceOnRead X L hk m s = Some (r, a, s1)" "table_ok fds {..<t_next (s_t s1)} (s_t s1)"
      "\<not> s_closed s1" "s_ln s1 = s_ln s"
      using service_read_table [OF assms Cons.prems] by blast
    from Cons.IH [OF r(2,3)] r(1,4) Arrives show ?thesis by simp
  next
    case (Closes p)
    show ?thesis
    proof (cases "p < t_next (s_t s)")
      case True
      have "hk_closed hk = (\<lambda>_ st. st)" using assms(2) by (simp add: quiet_hooks_def)
      then obtain a t where c: "t_Close X (hk_closed hk) p (s_t s) = Some (a, t)" "table_ok fds {..<t_next t} t"
        using table_close [OF assms(1) _ Cons.prems(1), of "hk_closed hk" p] True by auto
      from Cons.IH [of "s\<lparr>s_t := t\<rparr>"] c Cons.prems(2) Closes True show ?thesis by simp
    next
      case False
      with Cons.IH [OF Cons.prems] Closes show ?thesis by simp
    qed
  qed
qed

text \<open>Closing a list of connections when the table has been emptied.\<close>

lemma close_conns_all:
  assumes sys: "fd_sys X L fds" and h: "h = (\<lambda>_ st. st)"
  shows "distinct ps \<Longrightarrow> (\<forall>p \<in> set ps. closable (t_heap t p)) \<Longrightarrow> e_conns (t_env t) = Map.empty \<Longrightarrow>
    \<exists>t'. close_conns X h ps t = Some (replicate (length ps) (TCPConnsClose, 1), t') \<and> t_next t' = t_next t \<and>
      e_conns (t_env t') = Map.empty \<and>
      (\<forall>p. if p \<in> set ps then \<not> tc_active (t_heap t' p) \<and> nf_closed (tc_nfd (t_heap t' p)) else t_heap t' p = t_heap t p)"
proof (induction ps arbitrary: t)
  case Nil
  then show ?case by simp
next
  case (Cons p ps)
  then have c: "tc_active (t_heap t p)" "\<not> tc_sysRead (t_heap t p)" "\<not> nf_sock (tc_nfd (t_heap t p))" by (simp_all add: closable_def)
  obtain t1 tc1 where t1: "t_Close X h p t = Some ([(TCPConnsClose, 1)], t1)" "t_heap t1 = (t_heap t)(p := tc1)" "t_next t1 = t_next t"
    "\<not> tc_active tc1" "nf_closed (tc_nfd tc1)" "e_conns (t_env t1) = Map.empty"
    using close_effect [OF sys c(1,2) h c(3)] Cons.prems(3) by (auto split: if_splits)
  have "\<forall>q \<in> set ps. closable (t_heap t1 q)" using Cons.prems(1,2) t1(2) by auto
  with Cons.IH [of t1] Cons.prems(1) t1(6) obtain t2 where t2:
    "close_conns X h ps t1 = Some (replicate (length ps) (TCPConnsClose, 1), t2)" "t_next t2 = t_next t1" "e_conns (t_env t2) = Map.empty"
    "\<forall>q. if q \<in> set ps then \<not> tc_active (t_heap t2 q) \<and> nf_closed (tc_nfd (t_heap t2 q)) else t_heap t2 q = t_heap t1 q" by auto
  have "if q \<in> set (p # ps) then \<not> tc_active (t_heap t2 q) \<and> nf_closed (tc_nfd (t_heap t2 q)) else t_heap t2 q = t_heap t q" for q
    using t2(4) [THEN spec, of q] t1(2,4,5) Cons.prems(1) by (cases "q = p") auto
  with t1(1,3) t2(1-3) show ?case by auto
qed

lemma closeAll_closes:
  assumes sys: "fd_sys X L fds" and hk: "quiet_hooks hk" and t: "table_ok fds N (s_t s)"
    and ks: "distinct ks" "set ks = dom (e_conns (t_env (s_t s)))" and c: "s_closed s"
  shows "\<exists>s'. closeAll X hk ks s = Some (replicate (length ks) (TCPConnsClose, 1), s') \<and> s_closed s' \<and> s_ln s' = s_ln s \<and>
    t_next (s_t s') = t_next (s_t s) \<and> e_conns (t_env (s_t s')) = Map.empty \<and>
    (\<forall>p \<in> N. \<not> tc_active (t_heap (s_t s') p) \<and> nf_closed (tc_nfd (t_heap (s_t s') p))) \<and>
    (\<forall>p. p \<notin> N \<longrightarrow> t_heap (s_t s') p = t_heap (s_t s) p)"
proof -
  let ?t = "s_t s" and ?m = "e_conns (t_env (s_t s))"
  define ps where "ps = map (\<lambda>k. the (?m k)) ks"
  define t0 where "t0 = ?t\<lparr>t_env := (t_env ?t)\<lparr>e_conns := Map.empty\<rparr>\<rparr>"
  note l = table_lookup [OF t]
  have some: "?m k = Some (the (?m k))" if "k \<in> set ks" for k using ks(2) that by auto
  have inj: "inj_on (\<lambda>k. the (?m k)) (set ks)"
    by (rule inj_onI) (metis l(3) some)
  have "distinct ps" using ks(1) inj by (simp add: ps_def distinct_map)
  moreover have "\<forall>p \<in> set ps. closable (t_heap t0 p)" using l(2) some by (auto simp: ps_def t0_def)
  ultimately obtain t' where t': "close_conns X (hk_closed hk) ps t0 = Some (replicate (length ps) (TCPConnsClose, 1), t')"
    "t_next t' = t_next t0" "e_conns (t_env t') = Map.empty"
    "\<forall>p. if p \<in> set ps then \<not> tc_active (t_heap t' p) \<and> nf_closed (tc_nfd (t_heap t' p)) else t_heap t' p = t_heap t0 p"
    using close_conns_all [OF sys, of "hk_closed hk" ps t0] hk by (auto simp: quiet_hooks_def t0_def)
  have "\<not> tc_active (t_heap t' p) \<and> nf_closed (tc_nfd (t_heap t' p))" if "p \<in> N" for p
  proof (cases "tc_active (t_heap ?t p)")
    case True
    then have "?m (fd_of p ?t) = Some p" using t that by (auto simp: table_ok_def)
    then have "p \<in> set ps" using ks(2) by (force simp: ps_def)
    with t'(4) show ?thesis by (auto split: if_splits)
  next
    case False
    moreover from this have "nf_closed (tc_nfd (t_heap ?t p))" using t that by (auto simp: table_ok_def)
    ultimately show ?thesis using t'(4) [THEN spec, of p] by (auto simp: t0_def split: if_splits)
  qed
  moreover have "t_heap t' p = t_heap ?t p" if "p \<notin> N" for p
    using t'(4) [THEN spec, of p] l(1) some that by (auto simp: t0_def ps_def split: if_splits)
  ultimately show ?thesis
    using c t'(1-3) by (simp add: closeAll_def Let_def ps_def [symmetric] t0_def [symmetric]) (simp add: ps_def t0_def)
qed

end
