(* ===== verification/Service_Close.thy ===== *)
theory Service_Close
  imports Service_Table
begin

text \<open>
  The life of a TCP service from its start to its end: closing, the race of closing with an accept, rejected
  connections and their counters, connections lost on errors, the delay after failed accepts and draining.
\<close>

section \<open>Closing\<close>

text \<open>C5. Closing a service closes every connection it ever accepted. Start a service, let connections arrive and close in
  any order, with descriptors reused by the kernel, accepts and settings that fail and hooks that reject connections:
  every event returns, and the table holds exactly the open connections, each under its descriptor. Then \<open>close\<close>
  returns, adds one closed connection per entry of the table to the metrics, empties the table and leaves every
  connection closed.\<close>

theorem service_closes_all:
  assumes "fd_sys X L fds" and "quiet_hooks hk" and "t_next t = 0"
  shows "\<exists>s. svc_run X L hk evs (newTCPService ln handler opt t) = Some s \<and>
    (\<forall>p < t_next (s_t s). tc_active (t_heap (s_t s) p) \<longleftrightarrow> e_conns (t_env (s_t s)) (fd_of p (s_t s)) = Some p) \<and>
    (\<forall>ks. distinct ks \<and> set ks = dom (e_conns (t_env (s_t s))) \<longrightarrow>
      (\<exists>s'. svc_close X hk ks s = Some (replicate (length ks) (TCPConnsClose, 1), s') \<and> s_closed s' \<and> nf_closed (s_ln s') \<and>
        e_conns (t_env (s_t s')) = Map.empty \<and> t_next (s_t s') = t_next (s_t s) \<and>
        (\<forall>p < t_next (s_t s'). \<not> tc_active (t_heap (s_t s') p) \<and> nf_closed (tc_nfd (t_heap (s_t s') p)))))"
proof -
  let ?s0 = "newTCPService ln handler opt t"
  have "table_ok fds {..<t_next (s_t ?s0)} (s_t ?s0)" "\<not> s_closed ?s0"
    using assms(3) by (simp_all add: newTCPService_def table_ok_def)
  from svc_run_table [OF assms(1,2) this] obtain s where s: "svc_run X L hk evs ?s0 = Some s"
    and t: "table_ok fds {..<t_next (s_t s)} (s_t s)" by blast
  have "tc_active (t_heap (s_t s) p) \<longleftrightarrow> e_conns (t_env (s_t s)) (fd_of p (s_t s)) = Some p" if "p < t_next (s_t s)" for p
    using t that by (auto simp: table_ok_def)
  moreover have "\<exists>s'. svc_close X hk ks s = Some (replicate (length ks) (TCPConnsClose, 1), s') \<and> s_closed s' \<and> nf_closed (s_ln s') \<and>
        e_conns (t_env (s_t s')) = Map.empty \<and> t_next (s_t s') = t_next (s_t s) \<and>
        (\<forall>p < t_next (s_t s'). \<not> tc_active (t_heap (s_t s') p) \<and> nf_closed (tc_nfd (t_heap (s_t s') p)))"
    if ks: "distinct ks" "set ks = dom (e_conns (t_env (s_t s)))" for ks
  proof -
    obtain s1 where s1: "closeAll X hk ks (s\<lparr>s_closed := True\<rparr>) = Some (replicate (length ks) (TCPConnsClose, 1), s1)" "s_closed s1"
      "t_next (s_t s1) = t_next (s_t s)" "e_conns (t_env (s_t s1)) = Map.empty"
      "\<forall>p < t_next (s_t s). \<not> tc_active (t_heap (s_t s1) p) \<and> nf_closed (tc_nfd (t_heap (s_t s1) p))"
      using closeAll_closes [OF assms(1,2), of "{..<t_next (s_t s)}" "s\<lparr>s_closed := True\<rparr>" ks] t ks by auto
    have "nf_closed (fst (ln_Close X (s_ln s1) (s_t s1)))"
      by (simp add: ln_Close_def nfd_close_def Let_def split: option.split)
    with s1 show ?thesis by (simp add: svc_close_def ln_Close_def split_beta)
  qed
  ultimately show ?thesis using s by blast
qed

text \<open>A kernel whose state is the list of open descriptors.\<close>

definition list_lsys :: "int list lsys" where
  "list_lsys = \<lparr>l_accept4 = (\<lambda>_ k. let ns = fold max k 4 + 1 in (Inr (ns, SockaddrUnix ''peer''), ns # k)),
     l_accept = (\<lambda>_ k. (Inl EAGAIN, k)), l_cloexec = (\<lambda>_ k. k), l_nonblock = (\<lambda>_ k. k),
     l_getsockname = (\<lambda>_ _. Inl EAGAIN), l_listen = (\<lambda>_ _ k. (Inl EAGAIN, k)), l_dial = (\<lambda>_ _ _ k. (Inl EAGAIN, k))\<rparr>"

definition list_ext :: "int list ext" where
  "list_ext = (tcp_ext idle_nsys)\<lparr>x_kern := idle_kern\<lparr>k_close := (\<lambda>fd k. (None, removeAll fd k))\<rparr>\<rparr>"

lemma list_fd_sys: "fd_sys list_ext list_lsys set"
proof -
  have ge: "m \<le> fold max k m" for k and m :: int
    by (induction k arbitrary: m) (auto intro: order_trans [OF max.cobounded2])
  have "x \<in> set k \<Longrightarrow> x \<le> fold max k m" for k and x m :: int
    by (induction k arbitrary: m) (auto intro: order_trans [OF max.cobounded1 ge])
  from this [of _ _ 4] have n: "fold max k 4 + 1 \<notin> set k" for k :: "int list" by (meson not_le less_add_one)
  show ?thesis
    unfolding fd_sys_def using n
    by (auto simp: list_lsys_def list_ext_def tcp_ext_def idle_ext_def idle_nsys_def idle_kern_def Let_def)
qed

definition one_poller :: "roundRobinLB PollMgr" where
  "one_poller = \<lparr>pm_lb = lb_Register 0 new_roundRobinLB, pm_ignoreTaskError = False\<rparr>"

definition start_state :: "int list \<Rightarrow> (nat, nat, int list) tstate" where
  "start_state k = \<lparr>t_heap = (\<lambda>_. new_tcpconn), t_next = 0, t_env = (idle_env k)\<lparr>e_world := \<lparr>w_cache =
     \<lparr>dc_first = Some 0, dc_cache = [new_Desc 0], dc_freeList = []\<rparr>, w_kernel = k, w_spawned = []\<rparr>\<rparr>,
     t_mgrs = (one_poller, one_poller)\<rparr>"

text \<open>Hooks: the handler 1 for new connections rejects them.\<close>

definition some_hooks :: "(nat, nat, int list) thooks" where
  "some_hooks = \<lparr>hk_closed = (\<lambda>_ st. st), hk_opened = (\<lambda>f p t. Some (if f = 1 then Some EINVAL else None, t))\<rparr>"

lemma some_hooks_quiet: "quiet_hooks some_hooks" by (simp add: quiet_hooks_def some_hooks_def)

theorem service_closes_all_witness:
  "\<exists>s. svc_run list_ext list_lsys some_hooks [Arrives False, Arrives False, Closes 0, Arrives True]
      (newTCPService scheduled_nfd (Some 0) [WithTCPIdleTimeout (10 ^ 10)] (start_state [])) = Some s \<and>
    (\<forall>p < t_next (s_t s). tc_active (t_heap (s_t s) p) \<longleftrightarrow> e_conns (t_env (s_t s)) (fd_of p (s_t s)) = Some p)"
proof -
  have "t_next (start_state []) = 0" by (simp add: start_state_def)
  from service_closes_all [OF list_fd_sys some_hooks_quiet this, of "[Arrives False, Arrives False, Closes 0, Arrives True]"
      scheduled_nfd "Some 0" "[WithTCPIdleTimeout (10 ^ 10)]"]
  show ?thesis by blast
qed

text \<open>The handler for a new connection when another goroutine closes the service just before it runs.\<close>

definition racing_open :: "'k ext \<Rightarrow> ('f, 'm, 'k) thooks \<Rightarrow> int list \<Rightarrow> ('f, 'm, 'k) tcpservice \<Rightarrow> ('f, 'm, 'k) open_handler" where
  "racing_open X hk ks s p t =
     Option.bind (closeAll X hk ks (s\<lparr>s_closed := True, s_t := t\<rparr>))
       (\<lambda>(_, s). openHandle X hk (s_reqHandle s) (s_opts s) (s_closed s) p (s_t s))"

lemma accept_rest_opened:
  assumes "accept_rest X h p t = Some (Inr q, a, t')"
  shows "q = p" and "tc_active (t_heap t' p) = tc_active (t_heap t p)" and "e_conns (t_env t') = e_conns (t_env t)"
    and "r \<noteq> p \<Longrightarrow> t_heap t' r = t_heap t r" and "a = [(TCPConnsCreate, 1)]"
  using assms
  by (auto simp: accept_rest_def tcp_schedule_def t_conn_def t_put_def set_kernel_def Let_def split: prod.splits option.splits)

lemma racing_open_effect:
  assumes sys: "fd_sys X L fds" and hk: "quiet_hooks hk" and t: "table_ok fds {..<p} t" "pending fds p t"
    and ks: "distinct ks" "set ks = dom (e_conns (t_env t))" and o: "racing_open X hk ks s p t = Some (None, t')"
  shows "tc_active (t_heap t' p)" and "e_conns (t_env t') = Map.empty" and "q < p \<Longrightarrow> \<not> tc_active (t_heap t' q)"
proof -
  let ?s = "s\<lparr>s_closed := True, s_t := t\<rparr>"
  obtain s1 where s1: "closeAll X hk ks ?s = Some (replicate (length ks) (TCPConnsClose, 1), s1)" "s_closed s1"
    "e_conns (t_env (s_t s1)) = Map.empty" "\<forall>q < p. \<not> tc_active (t_heap (s_t s1) q)" "t_heap (s_t s1) p = t_heap t p"
    using closeAll_closes [OF sys hk, of "{..<p}" ?s ks] t(1) ks by auto
  have oh: "openHandle X hk (s_reqHandle s1) (s_opts s1) True p (s_t s1) = Some (None, t')"
    using o s1(1,2) by (simp add: racing_open_def)
  obtain r st where os: "open_settings X (s_reqHandle s1) (s_opts s1) (t_conn p (s_t s1)) = (r, st)"
    by (cases "open_settings X (s_reqHandle s1) (s_opts s1) (t_conn p (s_t s1))")
  have f: "conn_frame fds st = conn_frame fds (t_conn p (s_t s1))"
    using open_settings_frame [OF sys, of "s_reqHandle s1" "s_opts s1" "t_conn p (s_t s1)"] os by simp
  let ?t = "t_put p (on_tc (open_flags (s_opts s1)) st) (s_t s1)"
  have "t' = ?t"
    using oh os hk by (auto simp: openHandle_def storeConn_def quiet_hooks_def Let_def split: option.splits) (metis option.inject prod.inject)+
  moreover have "view (open_flags (s_opts s1) (fst st)) = view ((fst st)\<lparr>tc_service := True\<rparr>)" by (rule open_flags_view)
  ultimately show "tc_active (t_heap t' p)" "e_conns (t_env t') = Map.empty" "q < p \<Longrightarrow> \<not> tc_active (t_heap t' q)"
    using f s1(3-5) t(2) by (simp_all add: t_put_def on_tc_def view_def conn_frame_def t_conn_def pending_def closable_def)
qed

text \<open>C28. A connection accepted while the service closes is never closed by it. \<open>tcpServiceOnRead\<close> has seen the
  service open; before \<open>storeConn\<close> runs, another goroutine marks the service closed and runs \<open>closeAll\<close>. Then
  \<open>storeConn\<close> does not store the connection, but the accept goes on: the connection ends up open, registered with a
  poller and unknown to the service, all others are closed.\<close>

theorem accept_survives_close:
  assumes "fd_sys X L fds" and "quiet_hooks hk" and "table_ok fds {..<t_next (s_t s)} (s_t s)"
    and "distinct ks" and "set ks = dom (e_conns (t_env (s_t s)))"
    and "accept X L (hk_closed hk) massive (Some (racing_open X hk ks s)) (s_ln s) (s_t s) = Some (Inr p, a, t')"
  shows "p = t_next (s_t s) \<and> tc_active (t_heap t' p) \<and> e_conns (t_env t') = Map.empty \<and> (\<forall>q < p. \<not> tc_active (t_heap t' q)) \<and>
    closeAll X hk [] (s\<lparr>s_closed := True, s_t := t'\<rparr>) = Some ([], s\<lparr>s_closed := True, s_t := t'\<rparr>)"
proof -
  let ?t = "s_t s"
  obtain fd sa k where ac: "Accept L (ln_FD (s_ln s)) (kernel (t_env ?t)) = (Inr (fd, sa), k)"
    using assms(6) by (auto simp: accept_def split: prod.splits sum.splits)
  obtain q t1 where al: "t_alloc (accept_conn X L massive (s_ln s) fd sa k) (?t\<lparr>t_env := set_kernel k (t_env ?t)\<rparr>) = (q, t1)" by fastforce
  note b = accept_pending [OF assms(1,3) ac al]
  obtain t2 where t2: "racing_open X hk ks s q t1 = Some (None, t2)" "accept_rest X (hk_closed hk) q t2 = Some (Inr p, a, t')"
    using assms(6) ac al by (auto simp: accept_def bind_eq_Some_conv split: option.splits)
  have ks: "set ks = dom (e_conns (t_env t1))" using assms(5) b(6) by simp
  note r = racing_open_effect [OF assms(1,2) b(3,4) assms(4) ks t2(1)]
  note e = accept_rest_opened [OF t2(2)]
  have "t'\<lparr>t_env := (t_env t')\<lparr>e_conns := Map.empty\<rparr>\<rparr> = t'" using r(2) e(3) by simp
  then show ?thesis using b(1) r e by (simp add: closeAll_def)
qed

definition race_service :: "(nat, nat, int list) tcpservice" where
  "race_service = newTCPService scheduled_nfd (Some 0) [] (start_state [])"

lemma race_accepts:
  "map_option fst (accept list_ext list_lsys (hk_closed some_hooks) True (Some (racing_open list_ext some_hooks [] race_service))
     (s_ln race_service) (s_t race_service)) = Some (Inr 0)"
  by code_simp

theorem accept_survives_close_witness:
  "\<exists>a t'. accept list_ext list_lsys (hk_closed some_hooks) True (Some (racing_open list_ext some_hooks [] race_service))
     (s_ln race_service) (s_t race_service) = Some (Inr 0, a, t') \<and> tc_active (t_heap t' 0) \<and> e_conns (t_env t') = Map.empty"
proof -
  obtain a t' where r: "accept list_ext list_lsys (hk_closed some_hooks) True (Some (racing_open list_ext some_hooks [] race_service))
     (s_ln race_service) (s_t race_service) = Some (Inr 0, a, t')"
    using race_accepts by auto
  have t: "table_ok set {..<t_next (s_t race_service)} (s_t race_service)" "set [] = dom (e_conns (t_env (s_t race_service)))"
    by (simp_all add: race_service_def newTCPService_def start_state_def table_ok_def)
  from accept_survives_close [OF list_fd_sys some_hooks_quiet t(1) _ t(2) r] r show ?thesis by simp
qed

section \<open>Rejected and lost connections\<close>

text \<open>A handler for new connections that rejects them all.\<close>

definition rejects :: "('f, 'm, 'k) thooks \<Rightarrow> 'f \<Rightarrow> bool" where
  "rejects hk f \<longleftrightarrow> (\<forall>p t. \<exists>e. hk_opened hk f p t = Some (Some e, t))"

lemma openHandle_rejected:
  "rejects hk f \<Longrightarrow> op_onTCPOpened opts = Some f \<Longrightarrow> openHandle X hk rh opts c p t = Some (r, t') \<Longrightarrow> r \<noteq> None"
  unfolding rejects_def openHandle_def by (auto simp: Let_def split: prod.splits option.splits) (metis option.inject prod.inject option.distinct(1))

text \<open>C40. A rejected connection breaks the count of connections. When the handler for new connections rejects one,
  \<open>accept\<close> closes it, which counts a closed connection although none was counted as created. If the two counters were
  equal, their 64-bit difference is now negative, that is, huge, and the next check switches the process to the
  mode for massive numbers of connections.\<close>

theorem rejected_connection_underflows:
  assumes "fd_sys X L fds" and "quiet_hooks hk" and "table_ok fds {..<t_next (s_t s)} (s_t s)" and "\<not> s_closed s"
    and "op_onTCPOpened (s_opts s) = Some f" and "rejects hk f"
    and "Accept L (ln_FD (s_ln s)) (kernel (t_env (s_t s))) = (Inr (fd, sa), k)"
    and "length m = nat metricNum" and "m ! nat TCPConnsCreate = m ! nat TCPConnsClose"
  shows "\<exists>r a s' m'. tcpServiceOnRead X L hk massive s = Some (r, a, s') \<and> add_all a m = Inr m' \<and>
    checkAndSetBufferCleanUp m = Inr False \<and> checkAndSetBufferCleanUp m' = Inr True"
proof -
  let ?t = "s_t s" and ?h = "hk_closed hk" and ?oh = "openHandle X hk (s_reqHandle s) (s_opts s) False"
  have h: "?h = (\<lambda>_ st. st)" using assms(2) by (simp add: quiet_hooks_def)
  obtain p t1 where al: "t_alloc (accept_conn X L massive (s_ln s) fd sa k) (?t\<lparr>t_env := set_kernel k (t_env ?t)\<rparr>) = (p, t1)" by fastforce
  note b = accept_pending [OF assms(1,3,7) al]
  obtain r t2 where o: "?oh p t1 = Some (r, t2)" "closable (t_heap t2 p)"
    using openHandle_table [OF assms(1,2) b(3,4), of "s_reqHandle s" "s_opts s"] by auto
  obtain e where e: "r = Some e" using openHandle_rejected [OF assms(6,5) o(1)] by auto
  obtain t3 where c: "t_Close X ?h p t2 = Some ([(TCPConnsClose, 1)], t3)"
    using close_effect [OF assms(1), of t2 p ?h] h o(2) by (auto simp: closable_def)
  have "accept X L ?h massive (Some ?oh) (s_ln s) ?t = Some (Inl (Wrapped e), [(TCPConnsClose, 1)], t3)"
    using assms(7) al o(1) e c by (simp add: accept_def)
  then have "\<exists>r s'. tcpServiceOnRead X L hk massive s = Some (r, [(TCPConnsClose, 1)], s')"
    using assms(4) by (cases "Temporary (Wrapped e)") (simp_all add: tcpServiceOnRead_def Let_def)
  moreover have "\<exists>m'. add_all [(TCPConnsClose, 1)] m = Inr m' \<and> checkAndSetBufferCleanUp m = Inr False \<and> checkAndSetBufferCleanUp m' = Inr True"
    using assms(8,9)
    by (simp add: metrics_Add_def metrics_Get_def checkAndSetBufferCleanUp_def metric_names DefaultCleanUpThrottle_def)
  ultimately show ?thesis by blast
qed

theorem rejected_connection_underflows_witness:
  "\<exists>r a s' m'. tcpServiceOnRead list_ext list_lsys some_hooks False
      (newTCPService scheduled_nfd (Some 0) [WithOnTCPOpened (Some 1)] (start_state [])) = Some (r, a, s') \<and>
    add_all a zero_metrics = Inr m' \<and> checkAndSetBufferCleanUp m' = Inr True"
proof -
  let ?s = "newTCPService scheduled_nfd (Some 0) [WithOnTCPOpened (Some 1)] (start_state [])"
  have "table_ok set {..<t_next (s_t ?s)} (s_t ?s)" "\<not> s_closed ?s" "op_onTCPOpened (s_opts ?s) = Some 1" "rejects some_hooks 1"
    by (simp_all add: newTCPService_def start_state_def table_ok_def apply_options_def WithOnTCPOpened_def rejects_def some_hooks_def)
  moreover have "Accept list_lsys (ln_FD (s_ln ?s)) (kernel (t_env (s_t ?s))) = (Inr (5, SockaddrUnix ''peer''), [5])"
    by (simp add: newTCPService_def start_state_def idle_env_def Accept_def list_lsys_def)
  moreover have "length zero_metrics = nat metricNum" "zero_metrics ! nat TCPConnsCreate = zero_metrics ! nat TCPConnsClose"
    by (simp_all add: zero_metrics_def metric_names)
  ultimately show ?thesis
    using rejected_connection_underflows [OF list_fd_sys some_hooks_quiet, of ?s 1 5 "SockaddrUnix ''peer''" "[5]" zero_metrics False]
    by blast
qed

text \<open>A connection is lost when its socket option cannot be set. If \<open>SetNoDelay\<close> fails, \<open>accept\<close> returns the error
  without closing the connection: its descriptor stays open in the kernel, no poller knows it, and the caller has no
  reference to it.\<close>

theorem nodelay_error_leaks:
  assumes "fd_sys X L fds" and "Accept L (ln_FD ln) (kernel (t_env t)) = (Inr (fd, sa), k)"
    and "n_setsockopt (x_nsys X) fd ''TCP_NODELAY'' 1 k = (Some e, k')"
  shows "\<exists>t'. ln_Accept X L h massive ln t = Some (Inl (Wrapped e), [], t') \<and> fd \<in> fds (kernel (t_env t')) \<and>
    tc_active (t_heap t' (t_next t)) \<and> nf_fd (tc_nfd (t_heap t' (t_next t))) = fd \<and>
    nf_desc (tc_nfd (t_heap t' (t_next t))) = None \<and> \<not> nf_closed (tc_nfd (t_heap t' (t_next t)))"
proof -
  have "fds k = insert fd (fds (kernel (t_env t)))"
    using Accept_fds [OF assms(1), where fd = "ln_FD ln" and k = "kernel (t_env t)"] assms(2) by simp
  moreover have "fds (snd (n_setsockopt (x_nsys X) fd ''TCP_NODELAY'' 1 k)) = fds k" using assms(1) by (simp add: fd_sys_def)
  ultimately have "fd \<in> fds k'" using assms(3) by simp
  then show ?thesis
    using assms(2,3)
    by (simp add: ln_Accept_def accept_def accept_rest_def t_alloc_def SetNoDelay_def accept_conn_def make_tcpconn_def new_nfd_def
        set_kernel_def Let_def)
qed

theorem nodelay_error_leaks_witness:
  "\<exists>t'. ln_Accept (list_ext\<lparr>x_nsys := idle_nsys\<lparr>n_setsockopt := (\<lambda>_ _ _ k. (Some EINVAL, k))\<rparr>\<rparr>) list_lsys (\<lambda>_ st. st) False
      scheduled_nfd (start_state []) = Some (Inl (Wrapped EINVAL), [], t') \<and> 5 \<in> set (kernel (t_env t')) \<and> tc_active (t_heap t' 0)"
proof -
  let ?X = "list_ext\<lparr>x_nsys := idle_nsys\<lparr>n_setsockopt := (\<lambda>_ _ _ k. (Some EINVAL, k))\<rparr>\<rparr>"
  have "fd_sys ?X list_lsys set" using list_fd_sys by (simp add: fd_sys_def list_ext_def)
  moreover have "Accept list_lsys (ln_FD scheduled_nfd) (kernel (t_env (start_state []))) = (Inr (5, SockaddrUnix ''peer''), [5])"
    by (simp add: start_state_def idle_env_def Accept_def list_lsys_def)
  moreover have "n_setsockopt (x_nsys ?X) 5 ''TCP_NODELAY'' 1 [5] = (Some EINVAL, [5])" by simp
  ultimately show ?thesis
    using nodelay_error_leaks [of ?X list_lsys set scheduled_nfd "start_state []" 5 "SockaddrUnix ''peer''" "[5]" EINVAL "[5]" "\<lambda>_ st. st" False]
    by (auto simp: start_state_def)
qed

section \<open>Delays and draining\<close>

text \<open>The delay after the \<open>n\<close>-th failed accept in a row is five milliseconds times \<open>2 ^ (n - 1)\<close>, but never more
  than one second.\<close>

theorem temp_delay_doubles: "(doTempDelay ^^ Suc n) 0 = min (initialTempDelay * 2 ^ n) maxTempDelay"
proof (induction n)
  case 0
  show ?case by (simp add: doTempDelay_def initialTempDelay_def maxTempDelay_def)
next
  case (Suc n)
  have "(doTempDelay ^^ Suc (Suc n)) 0 = doTempDelay ((doTempDelay ^^ Suc n) 0)" by simp
  also have "\<dots> = doTempDelay (min (initialTempDelay * 2 ^ n) maxTempDelay)" by (simp only: Suc.IH)
  also have "\<dots> = min (initialTempDelay * 2 ^ Suc n) maxTempDelay"
    by (auto simp: doTempDelay_def initialTempDelay_def maxTempDelay_def tempDelayMultiplier_def min_def Let_def)
  finally show ?case .
qed

text \<open>A restart waits for exactly the open connections. After any run of a service, \<open>Restart\<close> closes the listener and
  leaves the connections alone; \<open>waitConnections\<close> returns without error exactly when every connection is closed,
  and otherwise waits, or gives up with the error of the context.\<close>

theorem restart_drains:
  assumes "fd_sys X L fds" and "quiet_hooks hk" and "t_next t = 0" and "svc_run X L hk evs (newTCPService ln handler opt t) = Some s"
    and "Restart X start env s = (None, s', True)"
  shows "nf_closed (s_ln s') \<and> s_restarting s' \<and> s_hup s' \<and> t_heap (s_t s') = t_heap (s_t s) \<and>
    waitConnections ctx s' = (if \<forall>p < t_next (s_t s). \<not> tc_active (t_heap (s_t s) p) then Some ctx else map_option Some ctx)"
proof -
  let ?s0 = "newTCPService ln handler opt t"
  have "table_ok fds {..<t_next (s_t ?s0)} (s_t ?s0)" "\<not> s_closed ?s0"
    using assms(3) by (simp_all add: newTCPService_def table_ok_def)
  from svc_run_table [OF assms(1,2) this, of evs] assms(4) have t: "table_ok fds {..<t_next (s_t s)} (s_t s)" by auto
  have "e_conns (t_env (s_t s)) = Map.empty \<longleftrightarrow> (\<forall>p < t_next (s_t s). \<not> tc_active (t_heap (s_t s) p))"
  proof
    assume "e_conns (t_env (s_t s)) = Map.empty"
    moreover have "e_conns (t_env (s_t s)) (fd_of p (s_t s)) = Some p" if "p < t_next (s_t s)" "tc_active (t_heap (s_t s) p)" for p
      using t that by (auto simp: table_ok_def)
    ultimately show "\<forall>p < t_next (s_t s). \<not> tc_active (t_heap (s_t s) p)" by auto
  next
    assume n: "\<forall>p < t_next (s_t s). \<not> tc_active (t_heap (s_t s) p)"
    have "e_conns (t_env (s_t s)) fd = None" for fd
      using n t by (cases "e_conns (t_env (s_t s)) fd") (auto simp: table_ok_def)
    then show "e_conns (t_env (s_t s)) = Map.empty" by auto
  qed
  moreover have "nf_closed (s_ln s')" "s_restarting s'" "s_hup s'" "t_heap (s_t s') = t_heap (s_t s)"
      "e_conns (t_env (s_t s')) = e_conns (t_env (s_t s))"
    using assms(5)
    by (auto simp: Restart_def Let_def ln_Close_def nfd_close_def tcpServiceOnHup_def set_kernel_def split: if_splits option.splits prod.splits)
  ultimately show ?thesis by (auto simp: waitConnections_def split: option.split)
qed

theorem restart_drains_witness:
  "\<exists>s s'. svc_run list_ext list_lsys some_hooks [] (newTCPService scheduled_nfd (Some 0) [] (start_state [])) = Some s \<and>
    Restart list_ext (\<lambda>_ _ k. (None, k)) [''PATH=/bin''] s = (None, s', True) \<and> nf_closed (s_ln s') \<and> waitConnections None s' = Some None"
proof -
  let ?s = "newTCPService scheduled_nfd (Some 0) [] (start_state []) :: (nat, nat, int list) tcpservice"
  have n: "t_next (start_state []) = 0" by (simp add: start_state_def)
  have r: "svc_run list_ext list_lsys some_hooks [] ?s = Some ?s" by simp
  obtain s' where s': "Restart list_ext (\<lambda>_ _ k. (None, k)) [''PATH=/bin''] ?s = (None, s', True)"
    by (cases "ln_Close list_ext (s_ln ?s) (s_t ?s)") (simp add: Restart_def newTCPService_def set_kernel_def Let_def split_beta)
  have "t_next (s_t ?s) = 0" by (simp add: newTCPService_def start_state_def)
  with restart_drains [OF list_fd_sys some_hooks_quiet n r s', of None] r s' show ?thesis by auto
qed

end
