(* ===== verification/Kqueue.thy ===== *)
theory Kqueue
  imports Epoll
begin

unbundle bit_operations_syntax

text \<open>
  Model of \<open>internal/poller/poller_kqueue.go\<close> (and \<open>poller_kqueue64.go\<close>): the poller of the BSD systems, over
  the same descriptors, callbacks and world as the epoll poller. The system calls are a record \<open>'k kqsys\<close>; the
  documented behaviour of both kernels (which interest a call registers) is stated by the predicates
  \<open>epoll_doc\<close> and \<open>kqueue_doc\<close>. The locale \<open>poll_control\<close> is what a connection needs of either poller.
\<close>

section \<open>System calls and state\<close>

definition EV_ADD :: u16 where "EV_ADD = 0x1"
definition EV_DELETE :: u16 where "EV_DELETE = 0x2"
definition EV_ENABLE :: u16 where "EV_ENABLE = 0x4"
definition EV_CLEAR :: u16 where "EV_CLEAR = 0x20"
definition EV_RECEIPT :: u16 where "EV_RECEIPT = 0x40"
definition EV_ERROR :: u16 where "EV_ERROR = 0x4000"
definition EV_EOF :: u16 where "EV_EOF = 0x8000"
definition NOTE_TRIGGER :: u32 where "NOTE_TRIGGER = 0x1000000"

lemmas ev_flags = EV_ADD_def EV_DELETE_def EV_ENABLE_def EV_CLEAR_def EV_RECEIPT_def EV_ERROR_def EV_EOF_def

datatype evfilt = EVFILT_READ | EVFILT_WRITE | EVFILT_USER

record kevent =
  ke_Ident :: u64
  ke_Filter :: evfilt
  ke_Flags :: u16
  ke_Fflags :: u32
  ke_Udata :: nat

text \<open>\<open>unix.Kevent\<close> either submits changes (no event list) or waits for events; the wait gets whether the
  timeout is the zero one (otherwise there is none).\<close>

record 'k kqsys =
  q_kqueue :: "'k \<Rightarrow> (err + int) \<times> 'k"
  q_cloexec :: "int \<Rightarrow> 'k \<Rightarrow> err option \<times> 'k"
  q_change :: "int \<Rightarrow> kevent list \<Rightarrow> 'k \<Rightarrow> err option \<times> 'k"
  q_wait :: "int \<Rightarrow> nat \<Rightarrow> bool \<Rightarrow> 'k \<Rightarrow> int \<times> err option \<times> kevent list \<times> 'k"
  q_close :: "int \<Rightarrow> 'k \<Rightarrow> err option \<times> 'k"

record kqueue =
  kq_fd :: int
  kq_notified :: int
  kq_ioData :: iodata
  kq_ignoreTaskError :: bool

definition defaultKevent :: nat where
  "defaultKevent = 64"

definition newKeventIdent :: "int \<Rightarrow> u64" where
  "newKeventIdent i = of_int i"

definition user_event :: "u16 \<Rightarrow> u32 \<Rightarrow> kevent" where
  "user_event flags fflags =
     \<lparr>ke_Ident = 0, ke_Filter = EVFILT_USER, ke_Flags = flags, ke_Fflags = fflags, ke_Udata = 0\<rparr>"

definition kq_newPoller :: "'k kqsys \<Rightarrow> bool \<Rightarrow> ('h, 'd, 'k) world \<Rightarrow> (err + kqueue) \<times> ('h, 'd, 'k) world" where
  "kq_newPoller Q ignoreTaskError w =
     (case on_kernel (q_kqueue Q) w of
        (Inl e, w) \<Rightarrow> (Inl e, w)
      | (Inr fd, w) \<Rightarrow>
          (case on_kernel (q_cloexec Q fd) w of
             (Some e, w) \<Rightarrow> (Inl e, w)
           | (None, w) \<Rightarrow>
               (case on_kernel (q_change Q fd [user_event (EV_ADD OR EV_CLEAR) 0]) w of
                  (Some e, w) \<Rightarrow> (Inl e, w)
                | (None, w) \<Rightarrow>
                    (Inr \<lparr>kq_fd = fd, kq_notified = 0, kq_ioData = IOData_Reset (NewIOData []),
                          kq_ignoreTaskError = ignoreTaskError\<rparr>, w))))"

definition kq_Close :: "'k kqsys \<Rightarrow> kqueue \<Rightarrow> ('h, 'd, 'k) world \<Rightarrow> err option \<times> ('h, 'd, 'k) world" where
  "kq_Close Q kq w = on_kernel (q_close Q (kq_fd kq)) w"

text \<open>Like the epoll poller, \<open>notify\<close> repeats its call while it is interrupted or would block.\<close>

partial_function (option) kq_notify ::
    "'k kqsys \<Rightarrow> kqueue \<Rightarrow> ('h, 'd, 'k) world \<Rightarrow> (err option \<times> ('h, 'd, 'k) world) option" where
  "kq_notify Q kq w =
     (let r = on_kernel (q_change Q (kq_fd kq) [user_event 0 NOTE_TRIGGER]) w in
      if fst r \<noteq> Some EINTR \<and> fst r \<noteq> Some EAGAIN then Some r
      else kq_notify Q kq (snd r))"

definition kq_Trigger :: "'k kqsys \<Rightarrow> kqueue \<Rightarrow> ('h, 'd, 'k) world \<Rightarrow>
    (err option \<times> kqueue \<times> ('h, 'd, 'k) world) option" where
  "kq_Trigger Q kq w =
     (if kq_notified kq = 0 then
        map_option (\<lambda>(e, w). (e, kq\<lparr>kq_notified := 1\<rparr>, w)) (kq_notify Q kq w)
      else Some (None, kq, w))"

definition kq_runAsyncTasks :: "kqueue \<Rightarrow> kqueue" where
  "kq_runAsyncTasks kq = kq\<lparr>kq_notified := 0\<rparr>"

section \<open>Registering descriptors\<close>

definition desc_event :: "nat \<Rightarrow> evfilt \<Rightarrow> u16 \<Rightarrow> ('h, 'd, 'k) world \<Rightarrow> kevent" where
  "desc_event pd f flags w =
     \<lparr>ke_Ident = newKeventIdent (d_FD (desc_at w pd)), ke_Filter = f, ke_Flags = flags, ke_Fflags = 0, ke_Udata = pd\<rparr>"

definition kq_addRead :: "'k kqsys \<Rightarrow> kqueue \<Rightarrow> nat \<Rightarrow> u16 \<Rightarrow> ('h, 'd, 'k) world \<Rightarrow> err option \<times> ('h, 'd, 'k) world" where
  "kq_addRead Q kq pd flags w =
     on_kernel (q_change Q (kq_fd kq) [desc_event pd EVFILT_READ (EV_ADD OR EV_ENABLE OR EV_RECEIPT OR flags) w]) w"

definition kq_addWrite :: "'k kqsys \<Rightarrow> kqueue \<Rightarrow> nat \<Rightarrow> u16 \<Rightarrow> ('h, 'd, 'k) world \<Rightarrow> err option \<times> ('h, 'd, 'k) world" where
  "kq_addWrite Q kq pd flags w =
     on_kernel (q_change Q (kq_fd kq) [desc_event pd EVFILT_WRITE (EV_ADD OR EV_ENABLE OR EV_RECEIPT OR flags) w]) w"

definition kq_addReadWrite :: "'k kqsys \<Rightarrow> kqueue \<Rightarrow> nat \<Rightarrow> u16 \<Rightarrow> ('h, 'd, 'k) world \<Rightarrow> err option \<times> ('h, 'd, 'k) world" where
  "kq_addReadWrite Q kq pd flags w =
     on_kernel (q_change Q (kq_fd kq)
       [desc_event pd EVFILT_READ (EV_ADD OR EV_ENABLE OR EV_RECEIPT OR flags) w,
        desc_event pd EVFILT_WRITE (EV_ADD OR EV_ENABLE OR EV_RECEIPT OR flags) w]) w"

definition kq_modRead :: "'k kqsys \<Rightarrow> kqueue \<Rightarrow> nat \<Rightarrow> u16 \<Rightarrow> ('h, 'd, 'k) world \<Rightarrow> err option \<times> ('h, 'd, 'k) world" where
  "kq_modRead Q kq pd flags w =
     on_kernel (q_change Q (kq_fd kq) [desc_event pd EVFILT_WRITE (EV_DELETE OR flags) w]) w"

definition kq_modWrite :: "'k kqsys \<Rightarrow> kqueue \<Rightarrow> nat \<Rightarrow> u16 \<Rightarrow> ('h, 'd, 'k) world \<Rightarrow> err option \<times> ('h, 'd, 'k) world" where
  "kq_modWrite Q kq pd flags w =
     on_kernel (q_change Q (kq_fd kq) [desc_event pd EVFILT_READ (EV_DELETE OR flags) w]) w"

definition kq_delete :: "'k kqsys \<Rightarrow> kqueue \<Rightarrow> nat \<Rightarrow> ('h, 'd, 'k) world \<Rightarrow> err option \<times> ('h, 'd, 'k) world" where
  "kq_delete Q kq pd w =
     on_kernel (q_change Q (kq_fd kq)
       [desc_event pd EVFILT_READ EV_DELETE w, desc_event pd EVFILT_WRITE EV_DELETE w]) w"

definition kq_Control :: "'k kqsys \<Rightarrow> kqueue \<Rightarrow> nat \<Rightarrow> event \<Rightarrow> ('h, 'd, 'k) world \<Rightarrow> err option \<times> ('h, 'd, 'k) world" where
  "kq_Control Q kq pd e w =
     (case e of
        Readable \<Rightarrow> kq_addRead Q kq pd 0 w
      | ModReadable \<Rightarrow> kq_modRead Q kq pd 0 w
      | Writable \<Rightarrow> kq_addWrite Q kq pd 0 w
      | ModWritable \<Rightarrow> kq_modWrite Q kq pd 0 w
      | ReadWriteable \<Rightarrow> kq_addReadWrite Q kq pd 0 w
      | ModReadWriteable \<Rightarrow> kq_addReadWrite Q kq pd 0 w
      | Detach \<Rightarrow> kq_delete Q kq pd w
      | Event _ \<Rightarrow> (Some (ErrText ''Event not support''), w))"

lemmas kq_control_defs = kq_Control_def kq_addRead_def kq_addWrite_def kq_addReadWrite_def kq_modRead_def
  kq_modWrite_def kq_delete_def

section \<open>The event loop\<close>

text \<open>One event of the batch. Unlike the epoll poller, reading comes before writing, and a descriptor is noted
  once for the flags and once more for each callback that fails.\<close>

definition kq_hup_flags :: "u16 \<Rightarrow> bool" where
  "kq_hup_flags flags \<longleftrightarrow> flags AND EV_EOF \<noteq> 0 \<or> flags AND EV_ERROR \<noteq> 0"

definition kq_enabled :: "evfilt \<Rightarrow> kevent \<Rightarrow> bool" where
  "kq_enabled f ev \<longleftrightarrow> ke_Filter ev = f \<and> ke_Flags ev AND EV_ENABLE \<noteq> 0"

definition kq_call_read :: "('h, 'd, 'k) callbacks \<Rightarrow> bool \<Rightarrow> 'h option \<Rightarrow> 'd option \<Rightarrow> kqueue \<Rightarrow> ('h, 'd, 'k) world \<Rightarrow>
    err option \<times> kqueue \<times> ('h, 'd, 'k) world" where
  "kq_call_read cb readable onRead data kq w =
     (case (onRead, data) of
        (Some h, Some d) \<Rightarrow>
          if readable then
            case cb_read cb h d (kq_ioData kq) w of
              (e, io, w) \<Rightarrow> (e, kq\<lparr>kq_ioData := IOData_Reset io\<rparr>, w)
          else (None, kq, w)
      | _ \<Rightarrow> (None, kq, w))"

definition kq_handle_event :: "('h, 'd, 'k) callbacks \<Rightarrow> kevent \<Rightarrow>
    kqueue \<times> ('h, 'd, 'k) world \<times> nat list \<times> bool \<Rightarrow> kqueue \<times> ('h, 'd, 'k) world \<times> nat list \<times> bool" where
  "kq_handle_event cb ev st =
     (case st of (kq, w, hups, wakeUp) \<Rightarrow>
        if ke_Ident ev = 0 then (kq, w, hups, True)
        else
          let pd = ke_Udata ev;
              onRead = d_OnRead (desc_at w pd); onWrite = d_OnWrite (desc_at w pd); data = d_Data (desc_at w pd);
              hups = (if kq_hup_flags (ke_Flags ev) then hups @ [pd] else hups)
          in case kq_call_read cb (kq_enabled EVFILT_READ ev) onRead data kq w of
               (re, kq, w) \<Rightarrow>
                 let hups = (if re \<noteq> None \<and> \<not> kq_ignoreTaskError kq then hups @ [pd] else hups) in
                 (case call_write cb (kq_enabled EVFILT_WRITE ev) onWrite data w of
                    (we, w) \<Rightarrow>
                      (kq, w, if we \<noteq> None \<and> \<not> kq_ignoreTaskError kq then hups @ [pd] else hups, wakeUp)))"

fun kq_detach_control :: "'k kqsys \<Rightarrow> kqueue \<Rightarrow> nat list \<Rightarrow> ('h, 'd, 'k) world \<Rightarrow> ('h, 'd, 'k) world" where
  "kq_detach_control Q kq [] w = w"
| "kq_detach_control Q kq (pd # pds) w = kq_detach_control Q kq pds (snd (kq_Control Q kq pd Detach w))"

definition kq_detach :: "'k kqsys \<Rightarrow> kqueue \<Rightarrow> nat list \<Rightarrow> ('h, 'd, 'k) world \<Rightarrow> ('h, 'd, 'k) world" where
  "kq_detach Q kq hups w = freeDesc (detach_hup hups (kq_detach_control Q kq hups w))"

definition kq_handle :: "'k kqsys \<Rightarrow> ('h, 'd, 'k) callbacks \<Rightarrow> kevent list \<Rightarrow> kqueue \<Rightarrow> ('h, 'd, 'k) world \<Rightarrow>
    kqueue \<times> ('h, 'd, 'k) world" where
  "kq_handle Q cb evs kq w =
     (case fold (kq_handle_event cb) evs (kq, w, [], False) of
        (kq, w, hups, wakeUp) \<Rightarrow>
          let kq = (if wakeUp then kq_runAsyncTasks kq else kq)
          in (kq, if hups \<noteq> [] then kq_detach Q kq hups w else w))"

text \<open>One round of \<open>Wait\<close>; the flag says whether the next call polls with the zero timeout. An interruption is
  skipped only with a negative count.\<close>

definition kq_Wait_round :: "'k kqsys \<Rightarrow> ('h, 'd, 'k) callbacks \<Rightarrow> bool \<times> kqueue \<times> ('h, 'd, 'k) world \<Rightarrow>
    err + (bool \<times> kqueue \<times> ('h, 'd, 'k) world)" where
  "kq_Wait_round Q cb st =
     (case st of (zero, kq, w) \<Rightarrow>
        case q_wait Q (kq_fd kq) defaultKevent zero (w_kernel w) of
          (n, e, evs, k) \<Rightarrow>
            let w = w\<lparr>w_kernel := k\<rparr> in
            if n = 0 \<or> n < 0 \<and> e = Some EINTR then Inr (False, kq, w)
            else if e \<noteq> None then Inl (the e)
            else case kq_handle Q cb (take (nat n) evs) kq w of (kq, w) \<Rightarrow> Inr (True, kq, w))"

partial_function (option) kq_Wait :: "'k kqsys \<Rightarrow> ('h, 'd, 'k) callbacks \<Rightarrow>
    bool \<times> kqueue \<times> ('h, 'd, 'k) world \<Rightarrow> err option" where
  "kq_Wait Q cb st = (case kq_Wait_round Q cb st of Inl e \<Rightarrow> Some e | Inr st \<Rightarrow> kq_Wait Q cb st)"

section \<open>Which interest is registered\<close>

text \<open>What the manual pages promise: \<open>epoll_ctl(2)\<close> keeps one entry per descriptor, refuses to add it twice and
  to change or delete one that is not there; \<open>kevent(2)\<close> keeps one entry per identifier and filter, applies the
  changes in order, and without room for events stops at the first one that fails, such as deleting an entry
  that is not there.\<close>

definition ENOENT :: err where "ENOENT = Errno 2"
definition EEXIST :: err where "EEXIST = Errno 17"

definition epoll_register :: "ctl_op \<Rightarrow> int \<Rightarrow> ep_event option \<Rightarrow> (int \<rightharpoonup> ep_event) \<Rightarrow> err option \<times> (int \<rightharpoonup> ep_event)" where
  "epoll_register op fd ev reg =
     (case op of
        EPOLL_CTL_ADD \<Rightarrow> if reg fd = None then (None, reg(fd := ev)) else (Some EEXIST, reg)
      | EPOLL_CTL_MOD \<Rightarrow> if reg fd = None then (Some ENOENT, reg) else (None, reg(fd := ev))
      | EPOLL_CTL_DEL \<Rightarrow> if reg fd = None then (Some ENOENT, reg) else (None, reg(fd := None)))"

definition epoll_doc :: "'k kern \<Rightarrow> ('k \<Rightarrow> int \<Rightarrow> int \<rightharpoonup> ep_event) \<Rightarrow> bool" where
  "epoll_doc S reg \<longleftrightarrow> (\<forall>epfd op fd ev k e k'. k_epoll_ctl S epfd op fd ev k = (e, k') \<longrightarrow>
     (e, reg k' epfd) = epoll_register op fd ev (reg k epfd))"

type_synonym kq_registry = "u64 \<times> evfilt \<rightharpoonup> nat"

fun kq_register :: "kevent list \<Rightarrow> kq_registry \<Rightarrow> err option \<times> kq_registry" where
  "kq_register [] reg = (None, reg)"
| "kq_register (ev # evs) reg =
     (let key = (ke_Ident ev, ke_Filter ev) in
      if ke_Flags ev AND EV_DELETE \<noteq> 0 then
        if reg key = None then (Some ENOENT, reg) else kq_register evs (reg(key := None))
      else if ke_Flags ev AND EV_ADD \<noteq> 0 then kq_register evs (reg(key \<mapsto> ke_Udata ev))
      else kq_register evs reg)"

definition kqueue_doc :: "'k kqsys \<Rightarrow> ('k \<Rightarrow> int \<Rightarrow> kq_registry) \<Rightarrow> bool" where
  "kqueue_doc Q reg \<longleftrightarrow> (\<forall>fd evs k e k'. q_change Q fd evs k = (e, k') \<longrightarrow>
     (e, reg k' fd) = kq_register evs (reg k fd))"

definition ep_reads :: "('k \<Rightarrow> int \<Rightarrow> int \<rightharpoonup> ep_event) \<Rightarrow> epoll \<Rightarrow> nat \<Rightarrow> ('h, 'd, 'k) world \<Rightarrow> bool" where
  "ep_reads reg ep pd w =
     (case reg (w_kernel w) (ep_fd ep) (d_FD (desc_at w pd)) of None \<Rightarrow> False | Some ev \<Rightarrow> readable_flags (fst ev))"

definition ep_writes :: "('k \<Rightarrow> int \<Rightarrow> int \<rightharpoonup> ep_event) \<Rightarrow> epoll \<Rightarrow> nat \<Rightarrow> ('h, 'd, 'k) world \<Rightarrow> bool" where
  "ep_writes reg ep pd w =
     (case reg (w_kernel w) (ep_fd ep) (d_FD (desc_at w pd)) of None \<Rightarrow> False | Some ev \<Rightarrow> writable_flags (fst ev))"

definition kq_interested :: "evfilt \<Rightarrow> ('k \<Rightarrow> int \<Rightarrow> kq_registry) \<Rightarrow> kqueue \<Rightarrow> nat \<Rightarrow> ('h, 'd, 'k) world \<Rightarrow> bool" where
  "kq_interested f reg kq pd w \<longleftrightarrow> reg (w_kernel w) (kq_fd kq) (newKeventIdent (d_FD (desc_at w pd)), f) \<noteq> None"

text \<open>The interface of a poller as connections use it: a connection registers for reading once, then switches
  between reading with and without writing, and detaches at the end.\<close>

fun controls :: "(event \<Rightarrow> 's \<Rightarrow> err option \<times> 's) \<Rightarrow> event list \<Rightarrow> 's \<Rightarrow> 's" where
  "controls ctl [] s = s"
| "controls ctl (e # es) s = controls ctl es (snd (ctl e s))"

lemma controls_append: "controls ctl (es @ es') s = controls ctl es' (controls ctl es s)"
  by (induction es arbitrary: s) simp_all

locale poll_control =
  fixes ctl :: "event \<Rightarrow> 's \<Rightarrow> err option \<times> 's" and reads :: "'s \<Rightarrow> bool" and writes :: "'s \<Rightarrow> bool"
    and absent :: "'s \<Rightarrow> bool"
  assumes Readable: "absent s \<Longrightarrow> reads (snd (ctl Readable s)) \<and> \<not> writes (snd (ctl Readable s))"
    and ModReadWriteable: "reads s \<Longrightarrow> reads (snd (ctl ModReadWriteable s)) \<and> writes (snd (ctl ModReadWriteable s))"
    and ModReadable: "reads s \<Longrightarrow> reads (snd (ctl ModReadable s)) \<and> \<not> writes (snd (ctl ModReadable s))"
    and Detach: "reads s \<Longrightarrow> absent (snd (ctl Detach s))"
    and absent: "absent s \<Longrightarrow> \<not> reads s \<and> \<not> writes s"
begin

lemma controls_switch:
  "reads s \<Longrightarrow> set es \<subseteq> {ModReadWriteable, ModReadable} \<Longrightarrow>
     reads (controls ctl es s) \<and> (writes (controls ctl es s) \<longleftrightarrow> (if es = [] then writes s else last es = ModReadWriteable))"
  by (induction es arbitrary: s) (auto simp: ModReadWriteable ModReadable)

lemma controls_interest:
  assumes "absent s" and "set es \<subseteq> {ModReadWriteable, ModReadable}"
  shows "reads (controls ctl (Readable # es) s) \<and>
    (writes (controls ctl (Readable # es) s) \<longleftrightarrow> es \<noteq> [] \<and> last es = ModReadWriteable) \<and>
    absent (snd (ctl Detach (controls ctl (Readable # es) s)))"
  using controls_switch [of "snd (ctl Readable s)" es] assms Readable [of s] Detach by auto

end

lemma kq_Control_frame [simp]:
  "w_cache (snd (kq_Control Q kq pd e w)) = w_cache w" "w_spawned (snd (kq_Control Q kq pd e w)) = w_spawned w"
  by (simp_all add: kq_control_defs split: event.splits)

lemma epoll_docD: "epoll_doc S reg \<Longrightarrow> reg (snd (k_epoll_ctl S epfd op fd ev k)) epfd = snd (epoll_register op fd ev (reg k epfd))"
  unfolding epoll_doc_def by (metis prod.collapse snd_conv)

lemma kqueue_docD: "kqueue_doc Q reg \<Longrightarrow> reg (snd (q_change Q fd evs k)) fd = snd (kq_register evs (reg k fd))"
  unfolding kqueue_doc_def by (metis prod.collapse snd_conv)

definition ep_absent :: "('k \<Rightarrow> int \<Rightarrow> int \<rightharpoonup> ep_event) \<Rightarrow> epoll \<Rightarrow> nat \<Rightarrow> ('h, 'd, 'k) world \<Rightarrow> bool" where
  "ep_absent reg ep pd w \<longleftrightarrow> reg (w_kernel w) (ep_fd ep) (d_FD (desc_at w pd)) = None"

definition kq_absent :: "('k \<Rightarrow> int \<Rightarrow> kq_registry) \<Rightarrow> kqueue \<Rightarrow> nat \<Rightarrow> ('h, 'd, 'k) world \<Rightarrow> bool" where
  "kq_absent reg kq pd w \<longleftrightarrow> \<not> kq_interested EVFILT_READ reg kq pd w \<and> \<not> kq_interested EVFILT_WRITE reg kq pd w"

lemma ep_poll_control:
  assumes "epoll_doc S reg"
  shows "poll_control (ep_Control S ep pd) (ep_reads reg ep pd) (ep_writes reg ep pd)
    (ep_absent reg ep pd :: ('h, 'd, 'k) world \<Rightarrow> bool)"
  by unfold_locales
    (auto simp: ep_Control_def ep_insert_def ep_interest_def ep_remove_def Let_def ep_reads_def ep_writes_def
      ep_absent_def epoll_docD [OF assms] epoll_register_def readable_flags_def writable_flags_def
      rflags_def wflags_def epoll_flags split: option.splits)

lemma kq_poll_control:
  assumes "kqueue_doc Q reg"
  shows "poll_control (kq_Control Q kq pd) (kq_interested EVFILT_READ reg kq pd) (kq_interested EVFILT_WRITE reg kq pd)
    (kq_absent reg kq pd :: ('h, 'd, 'k) world \<Rightarrow> bool)"
  by unfold_locales
    (auto simp: kq_control_defs kq_interested_def kq_absent_def kqueue_docD [OF assms] desc_event_def Let_def ev_flags)

text \<open>Kernels that keep exactly what is documented, as concrete instances.\<close>

definition table_kern :: "(int \<Rightarrow> int \<rightharpoonup> ep_event) kern" where
  "table_kern = idle_kern\<lparr>k_epoll_ctl := (\<lambda>epfd op fd ev k.
     case epoll_register op fd ev (k epfd) of (e, r) \<Rightarrow> (e, k(epfd := r)))\<rparr>"

definition table_kqsys :: "(int \<Rightarrow> kq_registry) kqsys" where
  "table_kqsys = \<lparr>q_kqueue = (\<lambda>k. (Inr 5, k)), q_cloexec = (\<lambda>_ k. (None, k)),
     q_change = (\<lambda>fd evs k. case kq_register evs (k fd) of (e, r) \<Rightarrow> (e, k(fd := r))),
     q_wait = (\<lambda>_ _ _ k. (0, None, [], k)), q_close = (\<lambda>_ k. (None, k))\<rparr>"

lemma table_kern_doc: "epoll_doc table_kern (\<lambda>k. k)"
  by (auto simp: epoll_doc_def table_kern_def split: prod.splits)

lemma table_kqsys_doc: "kqueue_doc table_kqsys (\<lambda>k. k)"
  by (auto simp: kqueue_doc_def table_kqsys_def split: prod.splits)

interpretation ep_table: poll_control "ep_Control table_kern ep pd" "ep_reads (\<lambda>k. k) ep pd" "ep_writes (\<lambda>k. k) ep pd"
    "ep_absent (\<lambda>k. k) ep pd" for ep pd
  by (rule ep_poll_control [OF table_kern_doc])

interpretation kq_table: poll_control "kq_Control table_kqsys kq pd" "kq_interested EVFILT_READ (\<lambda>k. k) kq pd"
    "kq_interested EVFILT_WRITE (\<lambda>k. k) kq pd" "kq_absent (\<lambda>k. k) kq pd" for kq pd
  by (rule kq_poll_control [OF table_kqsys_doc])


definition idle_kqueue :: kqueue where
  "idle_kqueue = \<lparr>kq_fd = 5, kq_notified = 0, kq_ioData = NewIOData [], kq_ignoreTaskError = False\<rparr>"

definition table_world :: "'k \<Rightarrow> (string, nat, 'k) world" where
  "table_world k = \<lparr>w_cache = \<lparr>dc_first = None, dc_cache = [(new_Desc 0)\<lparr>d_FD := 7\<rparr>], dc_freeList = []\<rparr>,
     w_kernel = k, w_spawned = []\<rparr>"


text \<open>Outside these sequences the pollers differ. \<open>ModWritable\<close> on a descriptor registered for reading leaves the
  epoll poller watching it for writing and the kqueue poller watching nothing; detaching a descriptor
  registered for writing only stops at the entry for reading that is not there, returns an error and leaves
  the kqueue entry in place.\<close>

theorem kqueue_mod_writable:
  assumes "epoll_doc S ereg" and "kqueue_doc Q qreg"
    and "ep_absent ereg ep pd w" and "kq_absent qreg kq qd v"
  shows "ep_writes ereg ep pd (controls (ep_Control S ep pd) [Readable, ModWritable] w) \<and>
    kq_absent qreg kq qd (controls (kq_Control Q kq qd) [Readable, ModWritable] v) \<and>
    ep_absent ereg ep pd (controls (ep_Control S ep pd) [Writable, Detach] w) \<and>
    kq_interested EVFILT_WRITE qreg kq qd (controls (kq_Control Q kq qd) [Writable, Detach] v)"
  using assms(3,4)
  by (simp add: kq_control_defs kq_interested_def kq_absent_def kqueue_docD [OF assms(2)] desc_event_def Let_def ev_flags
      ep_Control_def ep_insert_def ep_interest_def ep_remove_def ep_writes_def ep_absent_def epoll_docD [OF assms(1)]
      epoll_register_def writable_flags_def rflags_def wflags_def epoll_flags)

theorem kqueue_mod_writable_witness:
  "kq_absent (\<lambda>k. k) idle_kqueue 0
     (controls (kq_Control table_kqsys idle_kqueue 0) [Readable, ModWritable] (table_world (\<lambda>_. Map.empty)))"
  using kqueue_mod_writable [OF table_kern_doc table_kqsys_doc, where ep = idle_poller and pd = 0 and kq = idle_kqueue
      and qd = 0 and w = "table_world (\<lambda>_. Map.empty)" and v = "table_world (\<lambda>_. Map.empty)"]
  by (simp add: table_world_def ep_absent_def kq_absent_def kq_interested_def)

end
