(* ===== verification/Ws_Conn.thy ===== *)
theory Ws_Conn
  imports Tnet_Prelude
begin

text \<open>
  Model of \<open>extensions/websocket/conn.go\<close>, \<open>control_handler.go\<close> and the message types of \<open>websocket.go\<close>.

  Several goroutines write to one connection, so an operation is a program: a tree of its interactions with what
  it shares with them (the mutex of the connection and the raw connection), each followed by what the operation
  does with the answer. One goroutine alone runs a program by \<open>run_ok\<close>; \<open>Ws_Frames\<close> interleaves programs.

  The package \<open>gobwas/ws\<close> is a parameter: what it writes for a header or a message (\<open>l_header\<close>, \<open>l_message\<close>), its frame
  reader over a state \<open>'r\<close> that includes the incoming stream, and its default answers to control frames. A frame
  that arrives between the fragments of a message is reported by \<open>RdControl\<close>, where the library calls
  \<open>OnIntermediate\<close> and then goes on.
\<close>

section \<open>Message types and opcodes\<close>

type_synonym MessageType = int

definition Text :: MessageType where "Text = 1"
definition Binary :: MessageType where "Binary = 2"
definition Ping :: MessageType where "Ping = 3"
definition Pong :: MessageType where "Pong = 4"
definition Close :: MessageType where "Close = 5"

lemmas message_types = Text_def Binary_def Ping_def Pong_def Close_def

definition MessageType_String :: "MessageType \<Rightarrow> string" where
  "MessageType_String m =
     (if m = Text then ''Text'' else if m = Binary then ''Binary'' else if m = Ping then ''Ping''
      else if m = Pong then ''Pong'' else if m = Close then ''Close'' else ''Invalid'')"

text \<open>The opcodes of RFC 6455; the zero value of \<open>ws.OpCode\<close> is the continuation frame.\<close>

datatype opcode = OpContinuation | OpText | OpBinary | OpClose | OpPing | OpPong | OpReserved nat

definition opcode_number :: "opcode \<Rightarrow> nat" where
  "opcode_number c =
     (case c of OpContinuation \<Rightarrow> 0 | OpText \<Rightarrow> 1 | OpBinary \<Rightarrow> 2 | OpClose \<Rightarrow> 8 | OpPing \<Rightarrow> 9 | OpPong \<Rightarrow> 10 | OpReserved n \<Rightarrow> n)"

text \<open>Opcodes have four bits, so their decimal numeral has at most two digits.\<close>

definition opcode_text :: "opcode \<Rightarrow> string" where
  "opcode_text c =
     (let n = opcode_number c in if n < 10 then [char_of (48 + n)] else [CHR ''1'', char_of (48 + (n - 10))])"

text \<open>The two maps; a missing key gives the zero value.\<close>

definition toMessageType :: "opcode \<Rightarrow> MessageType" where
  "toMessageType c =
     (case c of OpText \<Rightarrow> Text | OpBinary \<Rightarrow> Binary | OpPing \<Rightarrow> Ping | OpPong \<Rightarrow> Pong | OpClose \<Rightarrow> Close | _ \<Rightarrow> 0)"

definition toOpCode :: "MessageType \<Rightarrow> opcode" where
  "toOpCode m =
     (if m = Text then OpText else if m = Binary then OpBinary else if m = Ping then OpPing
      else if m = Pong then OpPong else if m = Close then OpClose else OpContinuation)"

section \<open>Programs\<close>

datatype 'f act = Lock_mu | Unlock_mu | RawWrite "byte list" | RawWritev "byte list list" | Submit 'f "byte list"

text \<open>The answer to an interaction: a number of bytes and an error.\<close>

type_synonym answer = "nat \<times> err option"

datatype ('f, 'a) prog = Return 'a | Act "'f act" "answer \<Rightarrow> ('f, 'a) prog"

primrec prog_bind :: "('f, 'a) prog \<Rightarrow> ('a \<Rightarrow> ('f, 'b) prog) \<Rightarrow> ('f, 'b) prog" where
  "prog_bind (Return a) f = f a"
| "prog_bind (Act x k) f = Act x (\<lambda>r. prog_bind (k r) f)"

text \<open>\<open>mu.Lock()\<close> with a deferred \<open>mu.Unlock()\<close>.\<close>

definition locked :: "('f, 'a) prog \<Rightarrow> ('f, 'a) prog" where
  "locked p = Act Lock_mu (\<lambda>_. prog_bind p (\<lambda>x. Act Unlock_mu (\<lambda>_. Return x)))"

text \<open>Alone on a raw connection that accepts everything: the result and the bytes written.\<close>

fun act_bytes :: "'f act \<Rightarrow> byte list" where
  "act_bytes (RawWrite b) = b"
| "act_bytes (RawWritev p) = concat p"
| "act_bytes _ = []"

definition accepted :: "'f act \<Rightarrow> answer" where
  "accepted x = (length (act_bytes x), None)"

primrec run_ok :: "('f, 'a) prog \<Rightarrow> 'a \<times> byte list" where
  "run_ok (Return a) = (a, [])"
| "run_ok (Act x k) = (case run_ok (k (accepted x)) of (a, out) \<Rightarrow> (a, act_bytes x @ out))"

section \<open>The library and the connection\<close>

record ws_header =
  h_Fin :: bool
  h_OpCode :: opcode
  h_Length :: nat

datatype role = ServerSide | ClientSide

datatype rd_result = RdData "byte list" "err option" | RdControl ws_header

record 'r wslib =
  l_IsControl :: "opcode \<Rightarrow> bool"
  l_header :: "ws_header \<Rightarrow> err + byte list"
  l_message :: "role \<Rightarrow> opcode \<Rightarrow> u32 \<Rightarrow> byte list \<Rightarrow> byte list list"
  l_newReader :: "role \<Rightarrow> 'r \<Rightarrow> 'r"
  l_NextFrame :: "'r \<Rightarrow> (ws_header \<times> err option) \<times> 'r"
  l_Read :: "nat \<Rightarrow> 'r \<Rightarrow> rd_result \<times> 'r"
  l_ReadFull :: "nat \<Rightarrow> 'r \<Rightarrow> (byte list \<times> err option) \<times> 'r"
  l_HandlePing :: "role \<Rightarrow> ws_header \<Rightarrow> 'r \<Rightarrow> (byte list list \<times> err option) \<times> 'r"
  l_HandlePong :: "role \<Rightarrow> ws_header \<Rightarrow> 'r \<Rightarrow> (byte list list \<times> err option) \<times> 'r"
  l_HandleClose :: "role \<Rightarrow> ws_header \<Rightarrow> 'r \<Rightarrow> (byte list list \<times> err option) \<times> 'r"

definition io_EOF :: err where "io_EOF = ErrText ''EOF''"
definition io_ErrShortWrite :: err where "io_ErrShortWrite = ErrText ''short write''"

text \<open>The raw connection is one of \<open>tnet\<close>, or wraps one of the package \<open>tls\<close>. A handler for control frames runs in
  the reading goroutine, or is submitted to the pool.\<close>

datatype raw_kind = RawTnet | RawTls

datatype 'f ctl_handler = Sync 'f | Async 'f

record 'f wsconn =
  c_raw :: raw_kind
  c_role :: role
  c_reader :: bool
  c_messageType :: MessageType
  c_subprotocol :: string
  c_pingHandler :: "'f ctl_handler option"
  c_pongHandler :: "'f ctl_handler option"
  c_combineWrites :: bool

section \<open>Writing\<close>

text \<open>\<open>Write\<close> of several slices in order, up to the first error; \<open>wsutil.WriteMessage\<close> is such a sequence.\<close>

primrec write_chunks :: "byte list list \<Rightarrow> ('f, err option) prog" where
  "write_chunks [] = Return None"
| "write_chunks (b # bs) =
     Act (RawWrite b) (\<lambda>r. case snd r of Some e \<Rightarrow> Return (Some e) | None \<Rightarrow> write_chunks bs)"

primrec rawConn_Writev :: "nat \<Rightarrow> byte list list \<Rightarrow> ('f, nat \<times> err option) prog" where
  "rawConn_Writev num [] = Return (num, None)"
| "rawConn_Writev num (b # p) =
     Act (RawWrite b) (\<lambda>r. case r of (n, Some e) \<Rightarrow> Return (num, Some e) | (n, None) \<Rightarrow> rawConn_Writev (num + n) p)"

definition raw_Writev :: "raw_kind \<Rightarrow> byte list list \<Rightarrow> ('f, nat \<times> err option) prog" where
  "raw_Writev k p = (case k of RawTnet \<Rightarrow> Act (RawWritev p) Return | RawTls \<Rightarrow> rawConn_Writev 0 p)"

definition serverWritev :: "'r wslib \<Rightarrow> 'f wsconn \<Rightarrow> MessageType \<Rightarrow> byte list list \<Rightarrow> ('f, err option) prog" where
  "serverWritev L c tp p =
     (case l_header L \<lparr>h_Fin = True, h_OpCode = toOpCode tp, h_Length = length (concat p)\<rparr> of
        Inl e \<Rightarrow> Return (Some e)
      | Inr b \<Rightarrow>
          Act (RawWrite b)
            (\<lambda>r. case snd r of
               Some e \<Rightarrow> Return (Some e)
             | None \<Rightarrow> prog_bind (raw_Writev (c_raw c) p) (\<lambda>r. Return (snd r))))"

text \<open>\<open>key\<close> is the masking key that a client draws for the message.\<close>

definition writeMessage :: "'r wslib \<Rightarrow> 'f wsconn \<Rightarrow> u32 \<Rightarrow> MessageType \<Rightarrow> byte list \<Rightarrow> ('f, err option) prog" where
  "writeMessage L c key tp buf = write_chunks (l_message L (c_role c) (toOpCode tp) key buf)"

record bufWriter =
  bw_buf :: "byte list"
  bw_w :: bool

definition bw_Write :: "byte list \<Rightarrow> bufWriter \<Rightarrow> (nat \<times> err option) \<times> bufWriter" where
  "bw_Write p bw = ((length p, None), bw\<lparr>bw_buf := bw_buf bw @ p\<rparr>)"

definition bw_Flush :: "bufWriter \<Rightarrow> ('f, err option \<times> bufWriter) prog" where
  "bw_Flush bw =
     (if \<not> bw_w bw then Return (Some (ErrText ''writer is nil''), bw)
      else if bw_buf bw = [] then Return (None, bw)
      else Act (RawWrite (bw_buf bw))
        (\<lambda>(n, e). case e of
           Some e \<Rightarrow> Return (Some e, bw)
         | None \<Rightarrow> if n < length (bw_buf bw) then Return (Some io_ErrShortWrite, bw) else Return (None, bw\<lparr>bw_buf := []\<rparr>)))"

text \<open>\<open>wsutil.WriteMessage\<close> over a \<open>bufWriter\<close>, whose \<open>Write\<close> never fails.\<close>

primrec bw_chunks :: "byte list list \<Rightarrow> bufWriter \<Rightarrow> err option \<times> bufWriter" where
  "bw_chunks [] bw = (None, bw)"
| "bw_chunks (b # bs) bw =
     (case bw_Write b bw of ((n, Some e), bw) \<Rightarrow> (Some e, bw) | ((n, None), bw) \<Rightarrow> bw_chunks bs bw)"

definition writeMessageCombined :: "'r wslib \<Rightarrow> 'f wsconn \<Rightarrow> u32 \<Rightarrow> MessageType \<Rightarrow> byte list \<Rightarrow> ('f, err option) prog" where
  "writeMessageCombined L c key tp buf =
     (case bw_chunks (l_message L (c_role c) (toOpCode tp) key buf) \<lparr>bw_buf = [], bw_w = True\<rparr> of
        (Some e, bw) \<Rightarrow> Return (Some e)
      | (None, bw) \<Rightarrow> prog_bind (bw_Flush bw) (\<lambda>(e, bw). Return e))"

definition WriteMessage :: "'r wslib \<Rightarrow> 'f wsconn \<Rightarrow> u32 \<Rightarrow> MessageType \<Rightarrow> byte list \<Rightarrow> ('f, err option) prog" where
  "WriteMessage L c key tp buf =
     (if c_combineWrites c then writeMessageCombined L c key tp buf
      else locked (writeMessage L c key tp buf))"

definition ws_Write :: "'r wslib \<Rightarrow> 'f wsconn \<Rightarrow> u32 \<Rightarrow> byte list \<Rightarrow> ('f, nat \<times> err option) prog" where
  "ws_Write L c key buf =
     (if c_messageType c \<noteq> Text \<and> c_messageType c \<noteq> Binary then
        Return (0, Some (ErrText ''message type is neither Text nor Binary for this connection''))
      else
        prog_bind
          (if c_combineWrites c then writeMessageCombined L c key (c_messageType c) buf
           else locked (writeMessage L c key (c_messageType c) buf))
          (\<lambda>e. Return (if e \<noteq> None then 0 else length buf, e)))"

definition WritevMessage :: "'r wslib \<Rightarrow> 'f wsconn \<Rightarrow> u32 \<Rightarrow> MessageType \<Rightarrow> byte list list \<Rightarrow> ('f, err option) prog" where
  "WritevMessage L c key tp p =
     (if c_role c = ClientSide then
        if c_combineWrites c then writeMessageCombined L c key tp (concat p)
        else locked (writeMessage L c key tp (concat p))
      else locked (serverWritev L c tp p))"

section \<open>Control frames\<close>

text \<open>\<open>hnd\<close> is what the handlers of the user do, as programs.\<close>

definition run_ctl :: "('f \<Rightarrow> byte list \<Rightarrow> ('f, err option) prog) \<Rightarrow> 'f ctl_handler \<Rightarrow> byte list \<Rightarrow> ('f, err option) prog" where
  "run_ctl hnd h data = (case h of Sync f \<Rightarrow> hnd f data | Async f \<Rightarrow> Act (Submit f data) (\<lambda>_. Return None))"

text \<open>The answers of \<open>wsutil.ControlHandler\<close>: it writes some slices to the raw connection and returns its error, or the
  one of a failed write.\<close>

definition default_ctl :: "(byte list list \<times> err option) \<times> 'r \<Rightarrow> ('f, err option \<times> 'r) prog" where
  "default_ctl res =
     (case res of ((bs, e), r) \<Rightarrow>
        prog_bind (write_chunks bs) (\<lambda>we. Return (case we of Some we \<Rightarrow> Some we | None \<Rightarrow> e, r)))"

definition handleCustomized :: "'r wslib \<Rightarrow> ('f \<Rightarrow> byte list \<Rightarrow> ('f, err option) prog) \<Rightarrow> 'f ctl_handler \<Rightarrow> ws_header \<Rightarrow> 'r \<Rightarrow>
    ('f, err option \<times> 'r) prog" where
  "handleCustomized L hnd f h r =
     (case l_ReadFull L (h_Length h) r of
        ((buf, Some e), r) \<Rightarrow> Return (Some e, r)
      | ((buf, None), r) \<Rightarrow> prog_bind (run_ctl hnd f buf) (\<lambda>e. Return (e, r)))"

definition handlePing :: "'r wslib \<Rightarrow> ('f \<Rightarrow> byte list \<Rightarrow> ('f, err option) prog) \<Rightarrow> 'f wsconn \<Rightarrow> ws_header \<Rightarrow> 'r \<Rightarrow>
    ('f, err option \<times> 'r) prog" where
  "handlePing L hnd c h r =
     (case c_pingHandler c of
        None \<Rightarrow> default_ctl (l_HandlePing L (c_role c) h r)
      | Some f \<Rightarrow> handleCustomized L hnd f h r)"

definition handlePong :: "'r wslib \<Rightarrow> ('f \<Rightarrow> byte list \<Rightarrow> ('f, err option) prog) \<Rightarrow> 'f wsconn \<Rightarrow> ws_header \<Rightarrow> 'r \<Rightarrow>
    ('f, err option \<times> 'r) prog" where
  "handlePong L hnd c h r =
     (case c_pongHandler c of
        None \<Rightarrow> default_ctl (l_HandlePong L (c_role c) h r)
      | Some f \<Rightarrow> handleCustomized L hnd f h r)"

definition handleClose :: "'r wslib \<Rightarrow> 'f wsconn \<Rightarrow> ws_header \<Rightarrow> 'r \<Rightarrow> ('f, err option \<times> 'r) prog" where
  "handleClose L c h r = default_ctl (l_HandleClose L (c_role c) h r)"

definition ctl_handle :: "'r wslib \<Rightarrow> ('f \<Rightarrow> byte list \<Rightarrow> ('f, err option) prog) \<Rightarrow> 'f wsconn \<Rightarrow> ws_header \<Rightarrow> 'r \<Rightarrow>
    ('f, err option \<times> 'r) prog" where
  "ctl_handle L hnd c h r =
     (case h_OpCode h of
        OpPing \<Rightarrow> handlePing L hnd c h r
      | OpPong \<Rightarrow> handlePong L hnd c h r
      | OpClose \<Rightarrow> handleClose L c h r
      | _ \<Rightarrow> Return (Some (ErrText (''not a control frame: '' @ opcode_text (h_OpCode h))), r))"

section \<open>Reading\<close>

text \<open>Loops that follow the incoming stream have fuel; running out of it is \<open>None\<close>. \<open>Read\<close> of the library's reader,
  which handles the control frames between fragments itself:\<close>

fun reader_Read :: "nat \<Rightarrow> 'r wslib \<Rightarrow> ('f \<Rightarrow> byte list \<Rightarrow> ('f, err option) prog) \<Rightarrow> 'f wsconn \<Rightarrow> nat \<Rightarrow> 'r \<Rightarrow>
    ('f, (byte list \<times> err option) option \<times> 'r) prog" where
  "reader_Read 0 L hnd c m r = Return (None, r)"
| "reader_Read (Suc n) L hnd c m r =
     (case l_Read L m r of
        (RdData b e, r) \<Rightarrow> Return (Some (b, e), r)
      | (RdControl h, r) \<Rightarrow>
          prog_bind (ctl_handle L hnd c h r)
            (\<lambda>(e, r). case e of Some e \<Rightarrow> Return (Some ([], Some e), r) | None \<Rightarrow> reader_Read n L hnd c m r))"

text \<open>\<open>io.ReadAll\<close>: read until the end; \<open>room\<close> is the free space of its buffer after so many bytes.\<close>

fun ReadAll :: "nat \<Rightarrow> (nat \<Rightarrow> nat) \<Rightarrow> 'r wslib \<Rightarrow> ('f \<Rightarrow> byte list \<Rightarrow> ('f, err option) prog) \<Rightarrow> 'f wsconn \<Rightarrow> byte list \<Rightarrow> 'r \<Rightarrow>
    ('f, (byte list \<times> err option) option \<times> 'r) prog" where
  "ReadAll 0 room L hnd c acc r = Return (None, r)"
| "ReadAll (Suc n) room L hnd c acc r =
     prog_bind (reader_Read n L hnd c (room (length acc)) r)
       (\<lambda>(res, r). case res of
          None \<Rightarrow> Return (None, r)
        | Some (b, None) \<Rightarrow> ReadAll n room L hnd c (acc @ b) r
        | Some (b, Some e) \<Rightarrow> Return (Some (acc @ b, if e = io_EOF then None else Some e), r))"

fun next_frames :: "nat \<Rightarrow> 'r wslib \<Rightarrow> ('f \<Rightarrow> byte list \<Rightarrow> ('f, err option) prog) \<Rightarrow> 'f wsconn \<Rightarrow> 'r \<Rightarrow>
    ('f, (MessageType \<times> err option) option \<times> 'r) prog" where
  "next_frames 0 L hnd c r = Return (None, r)"
| "next_frames (Suc n) L hnd c r =
     (case l_NextFrame L r of
        ((h, Some e), r) \<Rightarrow> Return (Some (toMessageType (h_OpCode h), Some e), r)
      | ((h, None), r) \<Rightarrow>
          if l_IsControl L (h_OpCode h) then
            prog_bind (ctl_handle L hnd c h r)
              (\<lambda>(e, r). case e of
                 Some e \<Rightarrow> Return (Some (toMessageType (h_OpCode h), Some e), r)
               | None \<Rightarrow> next_frames n L hnd c r)
          else Return (Some (toMessageType (h_OpCode h), None), r))"

definition NextMessageReader :: "nat \<Rightarrow> 'r wslib \<Rightarrow> ('f \<Rightarrow> byte list \<Rightarrow> ('f, err option) prog) \<Rightarrow> 'f wsconn \<Rightarrow> 'r \<Rightarrow>
    ('f, (MessageType \<times> err option) option \<times> 'r) prog" where
  "NextMessageReader n L hnd c r = next_frames n L hnd c (l_newReader L (c_role c) r)"

definition ReadMessage :: "nat \<Rightarrow> (nat \<Rightarrow> nat) \<Rightarrow> 'r wslib \<Rightarrow> ('f \<Rightarrow> byte list \<Rightarrow> ('f, err option) prog) \<Rightarrow> 'f wsconn \<Rightarrow> 'r \<Rightarrow>
    ('f, (MessageType \<times> byte list \<times> err option) option \<times> 'r) prog" where
  "ReadMessage n room L hnd c r =
     prog_bind (NextMessageReader n L hnd c r)
       (\<lambda>(res, r). case res of
          None \<Rightarrow> Return (None, r)
        | Some (tp, Some e) \<Rightarrow> Return (Some (tp, [], Some e), r)
        | Some (tp, None) \<Rightarrow>
            prog_bind (ReadAll n room L hnd c [] r)
              (\<lambda>(res, r). Return (map_option (\<lambda>(b, e). (tp, b, e)) res, r)))"

definition ReadAnyMessage :: "nat \<Rightarrow> (nat \<Rightarrow> nat) \<Rightarrow> 'r wslib \<Rightarrow> ('f \<Rightarrow> byte list \<Rightarrow> ('f, err option) prog) \<Rightarrow> 'f wsconn \<Rightarrow> 'r \<Rightarrow>
    ('f, (MessageType \<times> byte list \<times> err option) option \<times> 'r) prog" where
  "ReadAnyMessage n room L hnd c r =
     (case l_NextFrame L (l_newReader L (c_role c) r) of
        ((h, Some e), r) \<Rightarrow> Return (Some (-1, [], Some e), r)
      | ((h, None), r) \<Rightarrow>
          prog_bind (ReadAll n room L hnd c [] r)
            (\<lambda>(res, r). Return (map_option (\<lambda>(b, e). (toMessageType (h_OpCode h), b, e)) res, r)))"

text \<open>\<open>Read\<close>: \<open>c_reader\<close> says whether \<open>c.reader\<close> is set. After a message of another type it stays set.\<close>

fun read_loop :: "nat \<Rightarrow> (nat \<Rightarrow> nat) \<Rightarrow> 'r wslib \<Rightarrow> ('f \<Rightarrow> byte list \<Rightarrow> ('f, err option) prog) \<Rightarrow> nat \<Rightarrow> 'f wsconn \<Rightarrow> 'r \<Rightarrow>
    ('f, (byte list \<times> err option) option \<times> 'f wsconn \<times> 'r) prog" where
  "read_loop 0 room L hnd m c r = Return (None, c, r)"
| "read_loop (Suc n) room L hnd m c r =
     prog_bind
       (if c_reader c then Return (Some None, c, r)
        else prog_bind (NextMessageReader n L hnd c r)
          (\<lambda>(res, r). case res of
             None \<Rightarrow> Return (None, c, r)
           | Some (tp, Some e) \<Rightarrow> Return (Some (Some e), c, r)
           | Some (tp, None) \<Rightarrow>
               let c = c\<lparr>c_reader := True\<rparr> in
               if tp \<noteq> c_messageType c then
                 prog_bind (ReadAll n room L hnd c [] r)
                   (\<lambda>(res, r). Return (map_option (\<lambda>_. Some (ErrText (''inconsistent message type from Read: '' @
                      MessageType_String tp @ '', want '' @ MessageType_String (c_messageType c)))) res, c, r))
               else Return (Some None, c, r)))
       (\<lambda>(opened, c, r). case opened of
          None \<Rightarrow> Return (None, c, r)
        | Some (Some e) \<Rightarrow> Return (Some ([], Some e), c, r)
        | Some None \<Rightarrow>
            prog_bind (reader_Read n L hnd c m r)
              (\<lambda>(res, r). case res of
                 None \<Rightarrow> Return (None, c, r)
               | Some (b, e) \<Rightarrow>
                   if e = Some io_EOF then
                     let c = c\<lparr>c_reader := False\<rparr> in
                     if b \<noteq> [] then Return (Some (b, None), c, r) else read_loop n room L hnd m c r
                   else Return (Some (b, e), c, r)))"

definition ws_Read :: "nat \<Rightarrow> (nat \<Rightarrow> nat) \<Rightarrow> 'r wslib \<Rightarrow> ('f \<Rightarrow> byte list \<Rightarrow> ('f, err option) prog) \<Rightarrow> nat \<Rightarrow> 'f wsconn \<Rightarrow> 'r \<Rightarrow>
    ('f, (byte list \<times> err option) option \<times> 'f wsconn \<times> 'r) prog" where
  "ws_Read n room L hnd m c r =
     (if c_messageType c \<noteq> Text \<and> c_messageType c \<noteq> Binary then
        Return (Some ([], Some (ErrText ''message type is neither Text nor binary for this connection, cannot use Read'')), c, r)
      else read_loop n room L hnd m c r)"

section \<open>Settings\<close>

definition Subprotocol :: "'f wsconn \<Rightarrow> string" where
  "Subprotocol c = c_subprotocol c"

definition SetPingHandler :: "'f \<Rightarrow> 'f wsconn \<Rightarrow> 'f wsconn" where
  "SetPingHandler f c = c\<lparr>c_pingHandler := Some (Sync f)\<rparr>"

definition SetPongHandler :: "'f \<Rightarrow> 'f wsconn \<Rightarrow> 'f wsconn" where
  "SetPongHandler f c = c\<lparr>c_pongHandler := Some (Sync f)\<rparr>"

definition SetAsyncPingHandler :: "'f \<Rightarrow> 'f wsconn \<Rightarrow> 'f wsconn" where
  "SetAsyncPingHandler f c = c\<lparr>c_pingHandler := Some (Async f)\<rparr>"

definition SetAsyncPongHandler :: "'f \<Rightarrow> 'f wsconn \<Rightarrow> 'f wsconn" where
  "SetAsyncPongHandler f c = c\<lparr>c_pongHandler := Some (Async f)\<rparr>"

section \<open>What is promised of the library\<close>

text \<open>The incoming stream is a sequence of control frames and of data messages, whose fragments may have control frames
  between them. A reader is before a frame, inside the body of a message, before the payload of a control frame, or
  has delivered the end of a message.\<close>

datatype part = Bytes "byte list" | Inter opcode "byte list"

datatype msg = Control opcode "byte list" | Data opcode "part list"

datatype rpos = Before "msg list" | Body "part list" "msg list" | Ctrl "byte list" rpos | Spent "msg list"

definition ErrNoFrameAdvance :: err where
  "ErrNoFrameAdvance = ErrText ''no frame advance''"

text \<open>The documented behaviour of the reader, for the position \<open>pos\<close> of its state: \<open>NextFrame\<close> moves to the next frame;
  \<open>Read\<close> delivers a front part of the bytes that are left, stops at control frames, returns \<open>io.EOF\<close> with the last
  bytes and needs \<open>NextFrame\<close> from then on; the payload of a control frame is consumed by \<open>ReadFull\<close> or by the default
  handlers, of which the one for pings writes \<open>pong\<close> of the payload.\<close>

definition reader_moves :: "'r wslib \<Rightarrow> role \<Rightarrow> ('r \<Rightarrow> rpos) \<Rightarrow> bool" where
  "reader_moves L role pos \<longleftrightarrow>
     (\<forall>r ms. pos r = Before ms \<or> pos r = Spent ms \<longrightarrow> pos (l_newReader L role r) = Before ms) \<and>
     (\<forall>r op p ms. pos r = Before (Control op p # ms) \<longrightarrow>
        (\<exists>r'. l_NextFrame L r = ((\<lparr>h_Fin = True, h_OpCode = op, h_Length = length p\<rparr>, None), r') \<and>
              pos r' = Ctrl p (Before ms))) \<and>
     (\<forall>r op ps ms. pos r = Before (Data op ps # ms) \<longrightarrow>
        (\<exists>h r'. l_NextFrame L r = ((h, None), r') \<and> h_OpCode h = op \<and> pos r' = Body ps ms)) \<and>
     (\<forall>r. pos r = Before [] \<longrightarrow> (\<exists>h r'. l_NextFrame L r = ((h, Some io_EOF), r') \<and> pos r' = Before []))"

definition reader_reads :: "'r wslib \<Rightarrow> ('r \<Rightarrow> rpos) \<Rightarrow> bool" where
  "reader_reads L pos \<longleftrightarrow>
     (\<forall>r m op p ps ms. pos r = Body (Inter op p # ps) ms \<longrightarrow>
        (\<exists>r'. l_Read L m r = (RdControl \<lparr>h_Fin = True, h_OpCode = op, h_Length = length p\<rparr>, r') \<and>
              pos r' = Ctrl p (Body ps ms))) \<and>
     (\<forall>r m b ps ms. pos r = Body (Bytes b # ps) ms \<longrightarrow> 0 < m \<longrightarrow>
        (\<exists>k r'. k \<le> m \<and> k \<le> length b \<and> (0 < k \<or> b = []) \<and>
           (if k < length b then l_Read L m r = (RdData (take k b) None, r') \<and> pos r' = Body (Bytes (drop k b) # ps) ms
            else if ps \<noteq> [] then l_Read L m r = (RdData b None, r') \<and> pos r' = Body ps ms
            else l_Read L m r = (RdData b (Some io_EOF), r') \<and> pos r' = Spent ms))) \<and>
     (\<forall>r m ms. pos r = Body [] ms \<longrightarrow> (\<exists>r'. l_Read L m r = (RdData [] (Some io_EOF), r') \<and> pos r' = Spent ms)) \<and>
     (\<forall>r m ms. pos r = Spent ms \<longrightarrow> (\<exists>r'. l_Read L m r = (RdData [] (Some ErrNoFrameAdvance), r') \<and> pos r' = Spent ms))"

definition reader_controls :: "'r wslib \<Rightarrow> role \<Rightarrow> (byte list \<Rightarrow> byte list list) \<Rightarrow> ('r \<Rightarrow> rpos) \<Rightarrow> bool" where
  "reader_controls L role pong pos \<longleftrightarrow>
     (\<forall>op. op \<in> {OpPing, OpPong, OpClose} \<longrightarrow> l_IsControl L op) \<and>
     (\<forall>op. op \<in> {OpText, OpBinary} \<longrightarrow> \<not> l_IsControl L op) \<and>
     (\<forall>r p q. pos r = Ctrl p q \<longrightarrow> (\<exists>r'. l_ReadFull L (length p) r = ((p, None), r') \<and> pos r' = q)) \<and>
     (\<forall>r p q h. pos r = Ctrl p q \<longrightarrow> (\<exists>r'. l_HandlePing L role h r = ((pong p, None), r') \<and> pos r' = q)) \<and>
     (\<forall>r p q h. pos r = Ctrl p q \<longrightarrow> (\<exists>r'. l_HandlePong L role h r = (([], None), r') \<and> pos r' = q))"

definition reader_doc :: "'r wslib \<Rightarrow> role \<Rightarrow> (byte list \<Rightarrow> byte list list) \<Rightarrow> ('r \<Rightarrow> rpos) \<Rightarrow> bool" where
  "reader_doc L role pong pos \<longleftrightarrow> reader_moves L role pos \<and> reader_reads L pos \<and> reader_controls L role pong pos"

text \<open>A library whose reader is its position and delivers as much as fits; a message is its length and its bytes.\<close>

fun simple_Read :: "nat \<Rightarrow> rpos \<Rightarrow> rd_result \<times> rpos" where
  "simple_Read m (Body (Inter op p # ps) ms) =
     (RdControl \<lparr>h_Fin = True, h_OpCode = op, h_Length = length p\<rparr>, Ctrl p (Body ps ms))"
| "simple_Read m (Body (Bytes b # ps) ms) =
     (if m < length b then (RdData (take m b) None, Body (Bytes (drop m b) # ps) ms)
      else if ps \<noteq> [] then (RdData b None, Body ps ms)
      else (RdData b (Some io_EOF), Spent ms))"
| "simple_Read m (Body [] ms) = (RdData [] (Some io_EOF), Spent ms)"
| "simple_Read m r = (RdData [] (Some ErrNoFrameAdvance), r)"

fun simple_NextFrame :: "rpos \<Rightarrow> (ws_header \<times> err option) \<times> rpos" where
  "simple_NextFrame (Before (Control op p # ms)) =
     ((\<lparr>h_Fin = True, h_OpCode = op, h_Length = length p\<rparr>, None), Ctrl p (Before ms))"
| "simple_NextFrame (Before (Data op ps # ms)) = ((\<lparr>h_Fin = True, h_OpCode = op, h_Length = 0\<rparr>, None), Body ps ms)"
| "simple_NextFrame r = ((\<lparr>h_Fin = True, h_OpCode = OpContinuation, h_Length = 0\<rparr>, Some io_EOF), r)"

fun simple_payload :: "rpos \<Rightarrow> byte list \<times> rpos" where
  "simple_payload (Ctrl p q) = (p, q)"
| "simple_payload r = ([], r)"

definition simple_pong :: "byte list \<Rightarrow> byte list list" where
  "simple_pong p = [[0x8A, of_nat (length p)] @ p]"

definition simple_lib :: "rpos wslib" where
  "simple_lib =
     \<lparr>l_IsControl = (\<lambda>op. op \<in> {OpPing, OpPong, OpClose}),
      l_header = (\<lambda>h. Inr [of_nat (h_Length h)]),
      l_message = (\<lambda>_ _ _ b. [[of_nat (length b)], b]),
      l_newReader = (\<lambda>_ r. case r of Spent ms \<Rightarrow> Before ms | _ \<Rightarrow> r),
      l_NextFrame = simple_NextFrame,
      l_Read = simple_Read,
      l_ReadFull = (\<lambda>_ r. case simple_payload r of (p, q) \<Rightarrow> ((p, None), q)),
      l_HandlePing = (\<lambda>_ _ r. case simple_payload r of (p, q) \<Rightarrow> ((simple_pong p, None), q)),
      l_HandlePong = (\<lambda>_ _ r. case simple_payload r of (p, q) \<Rightarrow> (([], None), q)),
      l_HandleClose = (\<lambda>_ _ r. case simple_payload r of (p, q) \<Rightarrow> (([], Some (ErrText ''closed'')), q))\<rparr>"

lemma simple_lib_doc: "reader_doc simple_lib role simple_pong (\<lambda>r. r)"
proof -
  have "reader_reads simple_lib (\<lambda>r. r)"
    unfolding reader_reads_def
  proof (intro conjI allI impI)
    fix r m b ps ms
    assume "r = Body (Bytes b # ps) ms" and "0 < (m :: nat)"
    then show "\<exists>k r'. k \<le> m \<and> k \<le> length b \<and> (0 < k \<or> b = []) \<and>
       (if k < length b then l_Read simple_lib m r = (RdData (take k b) None, r') \<and> r' = Body (Bytes (drop k b) # ps) ms
        else if ps \<noteq> [] then l_Read simple_lib m r = (RdData b None, r') \<and> r' = Body ps ms
        else l_Read simple_lib m r = (RdData b (Some io_EOF), r') \<and> r' = Spent ms)"
      by (intro exI [of _ "min m (length b)"]) (auto simp: simple_lib_def min_def)
  qed (auto simp: simple_lib_def)
  then show ?thesis
    by (auto simp: reader_doc_def reader_moves_def reader_controls_def simple_lib_def)
qed

definition simple_conn :: "role \<Rightarrow> bool \<Rightarrow> unit wsconn" where
  "simple_conn role combine = \<lparr>c_raw = RawTnet, c_role = role, c_reader = False, c_messageType = Text, c_subprotocol = '''',
     c_pingHandler = None, c_pongHandler = None, c_combineWrites = combine\<rparr>"

end
