(* ===== verification/Ws_Frames.thy ===== *)
theory Ws_Frames
  imports Ws_Conn "HOL-Library.Sublist"
begin

text \<open>
  Goroutines that write to one websocket connection: which interleavings keep the frames whole. The raw
  connection takes a write as a whole, or fails, after which it is closed; the failed write may have sent a front
  part of its bytes. That a \<open>tnet\<close> connection sends what it accepted in order is the subject of \<open>Tcp_Write\<close>.
\<close>

section \<open>Interleaving\<close>

record wire =
  wr_bytes :: "byte list"
  wr_mu :: "nat option"
  wr_open :: bool

definition new_wire :: wire where
  "new_wire = \<lparr>wr_bytes = [], wr_mu = None, wr_open = True\<rparr>"

definition is_write :: "'f act \<Rightarrow> bool" where
  "is_write x \<longleftrightarrow> (case x of RawWrite _ \<Rightarrow> True | RawWritev _ \<Rightarrow> True | _ \<Rightarrow> False)"

text \<open>One interaction of goroutine \<open>i\<close>: the wire before, the answer and the wire after.\<close>

inductive wire_step :: "nat \<Rightarrow> 'f act \<Rightarrow> wire \<Rightarrow> answer \<Rightarrow> wire \<Rightarrow> bool" where
  lock: "wr_mu w = None \<Longrightarrow> wire_step i Lock_mu w (0, None) (w\<lparr>wr_mu := Some i\<rparr>)"
| unlock: "wire_step i Unlock_mu w (0, None) (w\<lparr>wr_mu := None\<rparr>)"
| submit: "wire_step i (Submit f d) w (0, e) w"
| sent: "is_write x \<Longrightarrow> wr_open w \<Longrightarrow> wire_step i x w (accepted x) (w\<lparr>wr_bytes := wr_bytes w @ act_bytes x\<rparr>)"
| fail: "is_write x \<Longrightarrow> wr_open w \<Longrightarrow> k \<le> length (act_bytes x) \<Longrightarrow>
    wire_step i x w (n, Some e) (w\<lparr>wr_bytes := wr_bytes w @ take k (act_bytes x), wr_open := False\<rparr>)"
| closed: "is_write x \<Longrightarrow> \<not> wr_open w \<Longrightarrow> wire_step i x w (n, Some e) w"

inductive_cases wire_stepE: "wire_step i x w r w'"

inductive ws_reach :: "(nat \<Rightarrow> ('f, 'a) prog) \<Rightarrow> wire \<Rightarrow> (nat \<Rightarrow> ('f, 'a) prog) \<Rightarrow> bool" for P where
  start: "ws_reach P new_wire P"
| step: "ws_reach P w ps \<Longrightarrow> ps i = Act x k \<Longrightarrow> wire_step i x w r w' \<Longrightarrow> ws_reach P w' (ps(i := k r))"

section \<open>What a program writes\<close>

text \<open>A program that writes the bytes \<open>f\<close>, in any number of writes; after a failed write it writes nothing more and
  returns a result that is \<open>bad\<close>.\<close>

inductive emits :: "('a \<Rightarrow> bool) \<Rightarrow> byte list \<Rightarrow> ('f, 'a) prog \<Rightarrow> bool" for bad where
  Return: "emits bad [] (Return a)"
| Act: "is_write x \<Longrightarrow> emits bad f (k (accepted x)) \<Longrightarrow> (\<And>n e. \<exists>a. bad a \<and> k (n, Some e) = Return a) \<Longrightarrow>
    emits bad (act_bytes x @ f) (Act x k)"

lemma emits_bind:
  assumes "emits bad f p" and g: "\<And>a. \<exists>b. g a = Return b \<and> (bad a \<longrightarrow> bad' b)"
  shows "emits bad' f (prog_bind p g)"
  using assms(1)
proof (induction rule: emits.induct)
  case (Return a)
  with g [of a] show ?case by (auto intro: emits.Return)
next
  case (Act x f k)
  have "\<exists>b. bad' b \<and> prog_bind (k (n, Some e)) g = Return b" for n e
  proof -
    obtain a where "bad a" "k (n, Some e) = Return a" using Act.hyps(3) by blast
    with g [of a] show ?thesis by auto
  qed
  with Act show ?case by (auto intro: emits.Act)
qed

definition failed :: "err option \<Rightarrow> bool" where
  "failed e \<longleftrightarrow> e \<noteq> None"

lemma failed_simps [simp]: "failed (Some e)" "\<not> failed None"
  by (simp_all add: failed_def)

lemma emits_RawWrite:
  assumes "emits bad f (k (length b, None))" and "\<And>n e. \<exists>a. bad a \<and> k (n, Some e) = Return a"
  shows "emits bad (b @ f) (Act (RawWrite b) k)"
  using emits.Act [where x = "RawWrite b" and k = k, OF _ _ assms(2)] assms(1) by (simp add: is_write_def accepted_def)

lemma emits_write_chunks: "emits failed (concat bs) (write_chunks bs)"
  by (induction bs) (auto intro!: emits.Return emits_RawWrite)

lemma emits_rawConn_Writev: "emits (\<lambda>r. failed (snd r)) (concat p) (rawConn_Writev num p)"
  by (induction p arbitrary: num) (auto intro!: emits.Return emits_RawWrite)

lemma emits_raw_Writev: "emits (\<lambda>r. failed (snd r)) (concat p) (raw_Writev k p)"
  using emits.Act [of "RawWritev p" "\<lambda>r. failed (snd r)" "[]" Return] emits_rawConn_Writev
  by (cases k) (auto simp: raw_Writev_def is_write_def emits.Return)

text \<open>Inside the mutex: a program that writes \<open>f\<close>, unlocks and returns; and one that takes the mutex first.\<close>

definition leaves :: "('a \<Rightarrow> bool) \<Rightarrow> ('f, 'a) prog \<Rightarrow> bool" where
  "leaves good p \<longleftrightarrow> (\<exists>k. p = Act Unlock_mu k \<and> (\<forall>r. \<exists>a. k r = Return a \<and> good a))"

inductive inside :: "('a \<Rightarrow> bool) \<Rightarrow> byte list \<Rightarrow> ('f, 'a) prog \<Rightarrow> bool" for bad where
  leave: "leaves (\<lambda>_. True) p \<Longrightarrow> inside bad [] p"
| Act: "is_write x \<Longrightarrow> inside bad f (k (accepted x)) \<Longrightarrow> (\<And>n e. leaves bad (k (n, Some e))) \<Longrightarrow>
    inside bad (act_bytes x @ f) (Act x k)"

definition guarded :: "('a \<Rightarrow> bool) \<Rightarrow> byte list \<Rightarrow> ('f, 'a) prog \<Rightarrow> bool" where
  "guarded bad f p \<longleftrightarrow> (\<exists>k. p = Act Lock_mu k \<and> (\<forall>r. inside bad f (k r)))"

text \<open>One write without the mutex.\<close>

definition single :: "('a \<Rightarrow> bool) \<Rightarrow> byte list \<Rightarrow> ('f, 'a) prog \<Rightarrow> bool" where
  "single bad f p \<longleftrightarrow> (\<exists>x k a. p = Act x k \<and> is_write x \<and> act_bytes x = f \<and> k (accepted x) = Return a \<and>
     (\<forall>n e. \<exists>a. bad a \<and> k (n, Some e) = Return a))"

text \<open>A program that returns at once, with nothing to write or an error.\<close>

definition idle :: "('a \<Rightarrow> bool) \<Rightarrow> byte list \<Rightarrow> ('f, 'a) prog \<Rightarrow> bool" where
  "idle bad f p \<longleftrightarrow> (\<exists>a. p = Return a \<and> (bad a \<or> f = []))"

lemma inside_emits:
  assumes "emits bad f p"
  shows "inside bad f (prog_bind p (\<lambda>x. Act Unlock_mu (\<lambda>_. Return x)))"
  using assms
proof (induction rule: emits.induct)
  case (Return a)
  show ?case by (auto intro!: inside.leave simp: leaves_def)
next
  case (Act x f k)
  have "leaves bad (prog_bind (k (n, Some e)) (\<lambda>x. Act Unlock_mu (\<lambda>_. Return x)))" for n e
  proof -
    obtain a where "bad a" "k (n, Some e) = Return a" using Act.hyps(3) by blast
    then show ?thesis by (auto simp: leaves_def)
  qed
  with Act show ?case by (auto intro: inside.Act)
qed

lemma guarded_locked: "emits bad f p \<Longrightarrow> guarded bad f (locked p)"
  by (auto simp: guarded_def locked_def inside_emits)

section \<open>Frames\<close>

text \<open>The calls that write messages and the frame each of them sends.\<close>

datatype call = CallWrite u32 "byte list" | CallMessage u32 MessageType "byte list" | CallWritev u32 MessageType "byte list list"

fun call_prog :: "'r wslib \<Rightarrow> 'f wsconn \<Rightarrow> call \<Rightarrow> ('f, err option) prog" where
  "call_prog L c (CallWrite key buf) = prog_bind (ws_Write L c key buf) (\<lambda>r. Return (snd r))"
| "call_prog L c (CallMessage key tp buf) = WriteMessage L c key tp buf"
| "call_prog L c (CallWritev key tp p) = WritevMessage L c key tp p"

definition server_frame :: "'r wslib \<Rightarrow> MessageType \<Rightarrow> byte list list \<Rightarrow> byte list" where
  "server_frame L tp p =
     (case l_header L \<lparr>h_Fin = True, h_OpCode = toOpCode tp, h_Length = length (concat p)\<rparr> of
        Inl e \<Rightarrow> [] | Inr b \<Rightarrow> b @ concat p)"

fun call_frame :: "'r wslib \<Rightarrow> 'f wsconn \<Rightarrow> call \<Rightarrow> byte list" where
  "call_frame L c (CallWrite key buf) =
     (if c_messageType c \<noteq> Text \<and> c_messageType c \<noteq> Binary then []
      else concat (l_message L (c_role c) (toOpCode (c_messageType c)) key buf))"
| "call_frame L c (CallMessage key tp buf) = concat (l_message L (c_role c) (toOpCode tp) key buf)"
| "call_frame L c (CallWritev key tp p) =
     (if c_role c = ClientSide then concat (l_message L (c_role c) (toOpCode tp) key (concat p)) else server_frame L tp p)"

section \<open>Whole frames\<close>

text \<open>The stream is whole: the frames of some calls one after the other, then at most a front part of one more; and
  every call that returned without an error has its frame in it.\<close>

definition whole :: "('a \<Rightarrow> bool) \<Rightarrow> (nat \<Rightarrow> byte list) \<Rightarrow> nat list \<Rightarrow> byte list \<Rightarrow> wire \<Rightarrow> (nat \<Rightarrow> ('f, 'a) prog) \<Rightarrow> bool" where
  "whole bad F order part w ps \<longleftrightarrow>
     wr_bytes w = concat (map F order) @ part \<and> distinct order \<and>
     (part = [] \<or> (\<exists>i. i \<notin> set order \<and> prefix part (F i))) \<and>
     (\<forall>i a. ps i = Return a \<longrightarrow> bad a \<or> i \<in> set order \<or> F i = [])"

lemma whole_quiet:
  "whole bad F order part w ps \<Longrightarrow> wr_bytes w' = wr_bytes w \<Longrightarrow>
     (\<And>a. p = Return a \<Longrightarrow> bad a \<or> i \<in> set order \<or> F i = []) \<Longrightarrow> whole bad F order part w' (ps(i := p))"
  by (auto simp: whole_def)

lemma whole_finish:
  assumes "whole bad F order part w ps" and "i \<notin> set order" and "wr_bytes w' = concat (map F order) @ F i"
  shows "whole bad F (order @ [i]) [] w' (ps(i := p))"
  using assms by (auto simp: whole_def)

lemma whole_part:
  assumes "whole bad F order part w ps" and "i \<notin> set order" and "prefix part' (F i)"
    and "wr_bytes w' = concat (map F order) @ part'" and "\<And>a. p = Return a \<Longrightarrow> bad a"
  shows "whole bad F order part' w' (ps(i := p))"
  using assms by (auto simp: whole_def)

text \<open>With the mutex: the holder is the only one that writes.\<close>

definition holder_ok :: "('a \<Rightarrow> bool) \<Rightarrow> (nat \<Rightarrow> byte list) \<Rightarrow> nat list \<Rightarrow> byte list \<Rightarrow> bool \<Rightarrow> nat \<Rightarrow> ('f, 'a) prog \<Rightarrow> bool" where
  "holder_ok bad F order part alive i p \<longleftrightarrow>
     i \<notin> set order \<and>
     (if alive then \<exists>rest. F i = part @ rest \<and> inside bad rest p else inside bad (F i) p \<or> leaves bad p)"

definition waiting_ok :: "('a \<Rightarrow> bool) \<Rightarrow> (nat \<Rightarrow> byte list) \<Rightarrow> nat list \<Rightarrow> nat \<Rightarrow> ('f, 'a) prog \<Rightarrow> bool" where
  "waiting_ok bad F order i p \<longleftrightarrow> (\<exists>a. p = Return a) \<or> i \<notin> set order \<and> guarded bad (F i) p"

definition mutex_inv :: "('a \<Rightarrow> bool) \<Rightarrow> (nat \<Rightarrow> byte list) \<Rightarrow> nat list \<Rightarrow> byte list \<Rightarrow> wire \<Rightarrow> (nat \<Rightarrow> ('f, 'a) prog) \<Rightarrow> bool" where
  "mutex_inv bad F order part w ps \<longleftrightarrow>
     whole bad F order part w ps \<and>
     (wr_open w \<and> wr_mu w = None \<longrightarrow> part = []) \<and>
     (\<forall>i. if wr_mu w = Some i then holder_ok bad F order part (wr_open w) i (ps i) else waiting_ok bad F order i (ps i))"

lemma mutex_invD:
  assumes "mutex_inv bad F order part w ps"
  shows "whole bad F order part w ps"
    and "wr_mu w = Some i \<Longrightarrow> holder_ok bad F order part (wr_open w) i (ps i)"
    and "wr_mu w \<noteq> Some j \<Longrightarrow> waiting_ok bad F order j (ps j)"
    and "wr_open w \<Longrightarrow> wr_mu w = None \<Longrightarrow> part = []"
  using assms unfolding mutex_inv_def by presburger+

lemma waiting_ok_mono: "waiting_ok bad F order j p \<Longrightarrow> j \<noteq> i \<Longrightarrow> waiting_ok bad F (order @ [i]) j p"
  by (auto simp: waiting_ok_def)

lemma inside_not_Lock: "inside bad f (Act x k) \<Longrightarrow> x = Unlock_mu \<and> f = [] \<or> is_write x"
  by (cases rule: inside.cases [of bad f "Act x k"]) (auto simp: leaves_def)

text \<open>A step of the holder, whatever it is.\<close>

lemma holder_unlock:
  assumes inv: "mutex_inv bad F order part w ps" and mu: "wr_mu w = Some i" and ps: "ps i = Act Unlock_mu k"
  shows "\<exists>order' part'. mutex_inv bad F order' part' (w\<lparr>wr_mu := None\<rparr>) (ps(i := k r))"
proof -
  have wh: "whole bad F order part w ps" and others: "\<And>j. j \<noteq> i \<Longrightarrow> waiting_ok bad F order j (ps j)"
    and h: "holder_ok bad F order part (wr_open w) i (Act Unlock_mu k)"
    using mutex_invD(1) [OF inv] mutex_invD(2) [OF inv mu] mutex_invD(3) [OF inv] mu ps by auto
  have i: "i \<notin> set order" using h by (simp add: holder_ok_def)
  have nw: "\<not> is_write Unlock_mu" by (simp add: is_write_def)
  have lv: "inside bad f (Act Unlock_mu k) \<Longrightarrow> f = [] \<and> leaves (\<lambda>_. True) (Act Unlock_mu k)" for f
    by (cases rule: inside.cases [of bad f "Act Unlock_mu k"]) (auto simp: nw)
  show ?thesis
  proof (cases "wr_open w")
    case True
    with h obtain rest where F: "F i = part @ rest" and ins: "inside bad rest (Act Unlock_mu k)"
      by (auto simp: holder_ok_def)
    from F lv [OF ins] have part: "F i = part" by simp
    from lv [OF ins] have ret: "\<exists>a. k r = Return a" unfolding leaves_def by blast
    from wh part have "wr_bytes w = concat (map F order) @ F i" by (simp add: whole_def)
    with wh i have "whole bad F (order @ [i]) [] (w\<lparr>wr_mu := None\<rparr>) (ps(i := k r))"
      by (intro whole_finish) simp_all
    with others ret show ?thesis
      by (intro exI [of _ "order @ [i]"] exI [of _ "[]"])
        (auto simp: mutex_inv_def waiting_ok_mono, auto simp: waiting_ok_def)
  next
    case False
    with h have "inside bad (F i) (Act Unlock_mu k) \<or> leaves bad (Act Unlock_mu k)"
      by (simp add: holder_ok_def)
    then obtain a where a: "k r = Return a" "bad a \<or> F i = []"
      using lv [of "F i"] unfolding leaves_def by blast
    with wh have "whole bad F order part (w\<lparr>wr_mu := None\<rparr>) (ps(i := k r))"
      by (intro whole_quiet) auto
    with others a False show ?thesis
      by (intro exI [of _ order] exI [of _ part]) (auto simp: mutex_inv_def waiting_ok_def)
  qed
qed

lemma inside_write:
  assumes "inside bad f (Act x k)" and "is_write x"
  obtains f' where "f = act_bytes x @ f'" "inside bad f' (k (accepted x))" "\<And>n e. leaves bad (k (n, Some e))"
  using assms by (cases rule: inside.cases [of bad f "Act x k"]) (auto simp: leaves_def is_write_def)

lemma leaves_not_write: "leaves g (Act x k) \<Longrightarrow> \<not> is_write x"
  by (auto simp: leaves_def is_write_def)

lemma inside_not_Return: "inside bad f p \<Longrightarrow> p \<noteq> Return a"
  by (cases rule: inside.cases [of bad f p]) (auto simp: leaves_def)

lemma leaves_not_Return: "leaves bad p \<Longrightarrow> p \<noteq> Return a"
  by (auto simp: leaves_def)

lemma holder_write:
  assumes inv: "mutex_inv bad F order part w ps" and mu: "wr_mu w = Some i" and ps: "ps i = Act x k"
    and x: "is_write x" and st: "wire_step i x w r w'"
  shows "\<exists>order' part'. mutex_inv bad F order' part' w' (ps(i := k r))"
proof -
  have wh: "whole bad F order part w ps" and others: "\<And>j. j \<noteq> i \<Longrightarrow> waiting_ok bad F order j (ps j)"
    and h: "holder_ok bad F order part (wr_open w) i (Act x k)"
    using mutex_invD(1) [OF inv] mutex_invD(2) [OF inv mu] mutex_invD(3) [OF inv] mu ps by auto
  have i: "i \<notin> set order" using h by (simp add: holder_ok_def)
  have keep: "mutex_inv bad F order part' w' (ps(i := k r))"
    if "whole bad F order part' w' (ps(i := k r))" "holder_ok bad F order part' (wr_open w') i (k r)" "wr_mu w' = wr_mu w"
    for part'
    using that others mu by (auto simp: mutex_inv_def)
  show ?thesis
  proof (cases "wr_open w")
    case True
    then obtain rest where F: "F i = part @ rest" and ins: "inside bad rest (Act x k)"
      using h by (auto simp: holder_ok_def)
    obtain f' where f': "rest = act_bytes x @ f'" "inside bad f' (k (accepted x))" "\<And>n e. leaves bad (k (n, Some e))"
      using inside_write [OF ins x] by blast
    from wh have wb: "wr_bytes w = concat (map F order) @ part" by (simp add: whole_def)
    from st x True show ?thesis
    proof (cases rule: wire_step.cases)
      case sent
      have "whole bad F order (part @ act_bytes x) w' (ps(i := k r))"
        using wh i wb sent f' F inside_not_Return [OF f'(2)] by (intro whole_part [where i = i]) auto
      moreover have "holder_ok bad F order (part @ act_bytes x) (wr_open w') i (k r)"
        using sent f' F i by (auto simp: holder_ok_def)
      ultimately show ?thesis using keep sent by auto
    next
      case (fail m n e)
      have "prefix (part @ take m (act_bytes x)) (F i)"
        unfolding F f'(1) by (metis append_assoc append_take_drop_id prefixI)
      moreover have "k r \<noteq> Return a" for a
        using fail f'(3) leaves_not_Return by metis
      ultimately have "whole bad F order (part @ take m (act_bytes x)) w' (ps(i := k r))"
        using wh i wb fail by (intro whole_part [where i = i]) auto
      moreover have "holder_ok bad F order (part @ take m (act_bytes x)) (wr_open w') i (k r)"
        using fail f'(3) i by (auto simp: holder_ok_def)
      ultimately show ?thesis using keep fail by auto
    qed (auto simp: is_write_def)
  next
    case False
    with h have ins: "inside bad (F i) (Act x k)"
      using leaves_not_write x by (auto simp: holder_ok_def)
    obtain f' where f': "\<And>n e. leaves bad (k (n, Some e))"
      using inside_write [OF ins x] by blast
    from st x False show ?thesis
    proof (cases rule: wire_step.cases)
      case (closed n e)
      have "k r \<noteq> Return a" for a
        using closed f' leaves_not_Return by metis
      then have "whole bad F order part w' (ps(i := k r))"
        using wh closed by (intro whole_quiet) auto
      moreover have "holder_ok bad F order part (wr_open w') i (k r)"
        using closed f' i False by (auto simp: holder_ok_def)
      ultimately show ?thesis using keep closed by auto
    qed (auto simp: is_write_def)
  qed
qed

lemma mutex_step:
  assumes inv: "mutex_inv bad F order part w ps" and ps: "ps i = Act x k" and st: "wire_step i x w r w'"
  shows "\<exists>order' part'. mutex_inv bad F order' part' w' (ps(i := k r))"
proof (cases "wr_mu w = Some i")
  case True
  with ps have "holder_ok bad F order part (wr_open w) i (Act x k)"
    using mutex_invD(2) [OF inv True] by simp
  then have "x = Unlock_mu \<or> is_write x"
    using inside_not_Lock by (fastforce simp: holder_ok_def leaves_def split: if_splits)
  then show ?thesis
  proof
    assume "x = Unlock_mu"
    with holder_unlock [OF inv True] ps st show ?thesis
      by (auto elim: wire_stepE simp: is_write_def)
  next
    assume "is_write x"
    from holder_write [OF inv True ps this st] show ?thesis .
  qed
next
  case False
  with ps have "waiting_ok bad F order i (Act x k)"
    using mutex_invD(3) [OF inv] by metis
  then have x: "x = Lock_mu" "\<And>r. inside bad (F i) (k r)" and i: "i \<notin> set order"
    by (auto simp: waiting_ok_def guarded_def)
  from st x(1) have mu: "wr_mu w = None" and w': "w' = w\<lparr>wr_mu := Some i\<rparr>"
    by (auto elim: wire_stepE simp: is_write_def)
  have "whole bad F order part w' (ps(i := k r))"
    using inv inside_not_Return [OF x(2)] w' by (intro whole_quiet) (auto simp: mutex_inv_def)
  moreover have "holder_ok bad F order part (wr_open w') i (k r)"
    using inv mu x(2) i w' by (auto simp: holder_ok_def mutex_inv_def)
  ultimately show ?thesis
    using inv mu w' by (intro exI [of _ order] exI [of _ part]) (auto simp: mutex_inv_def)
qed

text \<open>Without the mutex, but with one write per frame.\<close>

definition single_inv :: "('a \<Rightarrow> bool) \<Rightarrow> (nat \<Rightarrow> byte list) \<Rightarrow> nat list \<Rightarrow> byte list \<Rightarrow> wire \<Rightarrow> (nat \<Rightarrow> ('f, 'a) prog) \<Rightarrow> bool" where
  "single_inv bad F order part w ps \<longleftrightarrow>
     whole bad F order part w ps \<and> (wr_open w \<longrightarrow> part = []) \<and>
     (\<forall>i. (\<exists>a. ps i = Return a) \<or> i \<notin> set order \<and> single bad (F i) (ps i))"

lemma single_step:
  assumes inv: "single_inv bad F order part w ps" and ps: "ps i = Act x k" and st: "wire_step i x w r w'"
  shows "\<exists>order' part'. single_inv bad F order' part' w' (ps(i := k r))"
proof -
  have wh: "whole bad F order part w ps" and i: "i \<notin> set order" and sg: "single bad (F i) (Act x k)"
    using inv ps unfolding single_inv_def by (metis prog.distinct(1))+
  have others: "(\<exists>a. ps j = Return a) \<or> j \<notin> set order \<and> single bad (F j) (ps j)" for j
    using inv unfolding single_inv_def by blast
  have x: "is_write x" and F: "act_bytes x = F i" and ok: "\<exists>a. k (accepted x) = Return a"
    and bad: "\<And>n e. \<exists>a. bad a \<and> k (n, Some e) = Return a"
    using sg by (auto simp: single_def)
  have wb: "wr_bytes w = concat (map F order) @ part" using wh by (simp add: whole_def)
  from st x show ?thesis
  proof (cases rule: wire_step.cases)
    case sent
    then have part: "part = []" using inv by (simp add: single_inv_def)
    have "whole bad F (order @ [i]) [] w' (ps(i := k r))"
      using wh i wb sent F part by (intro whole_finish) auto
    with others ok sent show ?thesis
      by (intro exI [of _ "order @ [i]"] exI [of _ "[]"]) (auto simp: single_inv_def)
  next
    case (fail m n e)
    then have part: "part = []" using inv by (simp add: single_inv_def)
    obtain a where a: "bad a" "k r = Return a" using bad fail by metis
    have "whole bad F order (take m (act_bytes x)) w' (ps(i := k r))"
      using wh i wb fail F part a by (intro whole_part [where i = i]) (auto simp: take_is_prefix)
    with others a fail show ?thesis
      by (intro exI [of _ order] exI [of _ "take m (act_bytes x)"]) (auto simp: single_inv_def)
  next
    case (closed n e)
    obtain a where a: "bad a" "k r = Return a" using bad closed by metis
    have "whole bad F order part w' (ps(i := k r))"
      using wh closed a by (intro whole_quiet) auto
    with others a closed show ?thesis
      by (intro exI [of _ order] exI [of _ part]) (auto simp: single_inv_def)
  qed (auto simp: is_write_def)
qed

section \<open>The calls\<close>

lemma emits_serverWritev: "emits failed (server_frame L tp p) (serverWritev L c tp p)"
proof (cases "l_header L \<lparr>h_Fin = True, h_OpCode = toOpCode tp, h_Length = length (concat p)\<rparr>")
  case (Inl e)
  then show ?thesis by (simp add: serverWritev_def server_frame_def emits.Return)
next
  case (Inr b)
  have "emits failed (concat p) (prog_bind (raw_Writev (c_raw c) p) (\<lambda>r. Return (snd r)))"
    by (rule emits_bind [OF emits_raw_Writev]) simp
  with Inr show ?thesis by (auto simp: serverWritev_def server_frame_def intro!: emits_RawWrite)
qed

lemma emits_writeMessage: "emits failed (concat (l_message L (c_role c) (toOpCode tp) key buf)) (writeMessage L c key tp buf)"
  unfolding writeMessage_def by (rule emits_write_chunks)

lemma bw_chunks_all: "bw_chunks bs bw = (None, bw\<lparr>bw_buf := bw_buf bw @ concat bs\<rparr>)"
  by (induction bs arbitrary: bw) (simp_all add: bw_Write_def)

lemma writeMessageCombined_eq:
  "writeMessageCombined L c key tp buf =
     (let f = concat (l_message L (c_role c) (toOpCode tp) key buf) in
      if f = [] then Return None
      else Act (RawWrite f) (\<lambda>(n, e). case e of
        Some e \<Rightarrow> Return (Some e) | None \<Rightarrow> if n < length f then Return (Some io_ErrShortWrite) else Return None))"
  by (auto simp: writeMessageCombined_def bw_chunks_all bw_Flush_def Let_def fun_eq_iff split: option.splits)

lemma single_combined:
  "single failed (concat (l_message L (c_role c) (toOpCode tp) key buf)) (writeMessageCombined L c key tp buf) \<or>
   idle failed (concat (l_message L (c_role c) (toOpCode tp) key buf)) (writeMessageCombined L c key tp buf)"
proof (cases "concat (l_message L (c_role c) (toOpCode tp) key buf) = []")
  case True
  then show ?thesis by (simp add: writeMessageCombined_eq idle_def)
next
  case False
  then show ?thesis
    by (auto simp: writeMessageCombined_eq single_def Let_def is_write_def accepted_def simp del: concat_eq_Nil_conv)
qed

lemma prog_bind_assoc: "prog_bind (prog_bind p f) g = prog_bind p (\<lambda>x. prog_bind (f x) g)"
  by (induction p) (simp_all add: fun_eq_iff)

lemma prog_bind_Return: "prog_bind p Return = p"
  by (induction p) (simp_all add: fun_eq_iff)

lemma call_write_eq:
  "call_prog L c (CallWrite key buf) =
     (if c_messageType c \<noteq> Text \<and> c_messageType c \<noteq> Binary then
        Return (Some (ErrText ''message type is neither Text nor Binary for this connection''))
      else call_prog L c (CallMessage key (c_messageType c) buf))"
  by (simp add: ws_Write_def WriteMessage_def prog_bind_assoc prog_bind_Return)

lemma run_bind: "run_ok (prog_bind p f) = (case run_ok p of (a, o1) \<Rightarrow> case run_ok (f a) of (b, o2) \<Rightarrow> (b, o1 @ o2))"
  by (induction p) (auto split: prod.splits)

lemma run_locked: "run_ok (locked p) = run_ok p"
  by (simp add: locked_def run_bind split: prod.splits)

lemma run_write_chunks: "run_ok (write_chunks bs) = (None, concat bs)"
  by (induction bs) (simp_all add: accepted_def)

lemma run_writeMessage:
  "run_ok (writeMessage L c key tp buf) = (None, concat (l_message L (c_role c) (toOpCode tp) key buf))"
  by (simp add: writeMessage_def run_write_chunks)

lemma run_combined:
  "run_ok (writeMessageCombined L c key tp buf) = (None, concat (l_message L (c_role c) (toOpCode tp) key buf))"
  by (simp add: writeMessageCombined_eq Let_def accepted_def del: concat_eq_Nil_conv)

lemma run_rawConn_Writev: "run_ok (rawConn_Writev num p) = ((num + length (concat p), None), concat p)"
  by (induction p arbitrary: num) (simp_all add: accepted_def)

lemma run_serverWritev:
  "run_ok (serverWritev L c tp p) =
     (case l_header L \<lparr>h_Fin = True, h_OpCode = toOpCode tp, h_Length = length (concat p)\<rparr> of
        Inl e \<Rightarrow> (Some e, []) | Inr b \<Rightarrow> (None, b @ concat p))"
  by (cases "c_raw c")
    (simp_all add: serverWritev_def raw_Writev_def accepted_def run_bind run_rawConn_Writev split: sum.splits)

lemma call_guarded:
  assumes "\<not> c_combineWrites c"
  shows "guarded failed (call_frame L c a) (call_prog L c a) \<or> idle failed (call_frame L c a) (call_prog L c a)"
proof (cases a)
  case (CallWrite key buf)
  with assms show ?thesis
    by (simp add: call_write_eq idle_def WriteMessage_def guarded_locked [OF emits_writeMessage]
        del: call_prog.simps(1))
next
  case (CallMessage key tp buf)
  with assms show ?thesis by (simp add: WriteMessage_def guarded_locked emits_writeMessage)
next
  case (CallWritev key tp p)
  with assms guarded_locked [OF emits_writeMessage [of L c tp key "concat p"]] show ?thesis
    by (auto simp: WritevMessage_def guarded_locked emits_serverWritev)
qed

lemma call_single:
  assumes "c_combineWrites c" and "c_role c = ClientSide"
  shows "single failed (call_frame L c a) (call_prog L c a) \<or> idle failed (call_frame L c a) (call_prog L c a)"
proof (cases a)
  case (CallWrite key buf)
  with assms single_combined [of L c Text key buf] single_combined [of L c Binary key buf] show ?thesis
    by (auto simp: call_write_eq idle_def [of _ "[]"] WriteMessage_def simp del: call_prog.simps(1))
next
  case (CallMessage key tp buf)
  with assms single_combined [of L c tp key buf] show ?thesis by (simp add: WriteMessage_def)
next
  case (CallWritev key tp p)
  with assms single_combined [of L c tp key "concat p"] show ?thesis by (simp add: WritevMessage_def)
qed

lemma whole_start:
  assumes "\<And>i a. P i = Return a \<Longrightarrow> bad a \<or> F i = []"
  shows "whole bad F [] [] new_wire P"
  using assms by (auto simp: whole_def new_wire_def)

lemma guarded_not_Return: "guarded bad f (Return a) = False" "single bad f (Return a) = False"
  by (simp_all add: guarded_def single_def)

lemma idle_Return: "idle bad f p \<longleftrightarrow> (\<exists>a. p = Return a) \<and> (\<forall>a. p = Return a \<longrightarrow> bad a \<or> f = [])"
  by (auto simp: idle_def)

lemma mutex_reach:
  assumes "ws_reach P w ps" and "\<And>i. guarded bad (F i) (P i) \<or> idle bad (F i) (P i)"
  shows "\<exists>order part. mutex_inv bad F order part w ps"
  using assms(1)
proof (induction rule: ws_reach.induct)
  case start
  have "whole bad F [] [] new_wire P"
    using assms(2) by (intro whole_start) (metis guarded_not_Return(1) idle_Return)
  moreover have "waiting_ok bad F [] i (P i)" for i
    using assms(2) [of i] by (auto simp: waiting_ok_def idle_def)
  ultimately have "mutex_inv bad F [] [] new_wire P"
    by (simp add: mutex_inv_def new_wire_def)
  then show ?case by blast
next
  case (step w ps i x k r w')
  then show ?case using mutex_step by blast
qed

lemma single_reach:
  assumes "ws_reach P w ps" and "\<And>i. single bad (F i) (P i) \<or> idle bad (F i) (P i)"
  shows "\<exists>order part. single_inv bad F order part w ps"
  using assms(1)
proof (induction rule: ws_reach.induct)
  case start
  have "whole bad F [] [] new_wire P"
    using assms(2) by (intro whole_start) (metis guarded_not_Return(2) idle_Return)
  moreover have "(\<exists>a. P i = Return a) \<or> single bad (F i) (P i)" for i
    using assms(2) [of i] by (auto simp: idle_def)
  ultimately have "single_inv bad F [] [] new_wire P"
    by (simp add: single_inv_def)
  then show ?case by blast
next
  case (step w ps i x k r w')
  then show ?case using single_step by blast
qed


text \<open>Combining the writes is only an optimisation: for a call that runs alone on a connection that accepts its
  bytes, the bytes written and the result are the same with and without it, and the bytes are the frame of the
  call.\<close>

theorem ws_combined_equivalent:
  "run_ok (call_prog L (c\<lparr>c_combineWrites := True\<rparr>) a) = run_ok (call_prog L (c\<lparr>c_combineWrites := False\<rparr>) a) \<and>
   snd (run_ok (call_prog L c a)) = call_frame L c a"
proof -
  have "snd (run_ok (call_prog L c a)) = call_frame L c a" for c
    by (cases a; cases "c_combineWrites c")
      (auto simp: call_write_eq run_locked run_combined run_writeMessage run_serverWritev WriteMessage_def WritevMessage_def
        server_frame_def split: sum.splits simp del: call_prog.simps(1))
  moreover have "fst (run_ok (call_prog L (c\<lparr>c_combineWrites := True\<rparr>) a)) = fst (run_ok (call_prog L (c\<lparr>c_combineWrites := False\<rparr>) a))"
    by (cases a) (auto simp: call_write_eq run_locked run_combined run_writeMessage run_serverWritev WriteMessage_def
        WritevMessage_def split: sum.splits simp del: call_prog.simps(1))
  moreover have "call_frame L (c\<lparr>c_combineWrites := True\<rparr>) a = call_frame L (c\<lparr>c_combineWrites := False\<rparr>) a"
    by (cases a) simp_all
  ultimately show ?thesis unfolding prod_eq_iff by metis
qed

section \<open>Frames that are split\<close>

text \<open>A schedule in which every interaction succeeds: goroutine after goroutine makes its next one; nothing happens if it
  has returned or waits for the mutex.\<close>

definition ok_step :: "nat \<Rightarrow> wire \<times> (nat \<Rightarrow> ('f, 'a) prog) \<Rightarrow> wire \<times> (nat \<Rightarrow> ('f, 'a) prog)" where
  "ok_step i st =
     (case st of (w, ps) \<Rightarrow>
        case ps i of
          Return _ \<Rightarrow> (w, ps)
        | Act x k \<Rightarrow>
            (case x of
               Lock_mu \<Rightarrow> if wr_mu w = None then (w\<lparr>wr_mu := Some i\<rparr>, ps(i := k (0, None))) else (w, ps)
             | Unlock_mu \<Rightarrow> (w\<lparr>wr_mu := None\<rparr>, ps(i := k (0, None)))
             | Submit _ _ \<Rightarrow> (w, ps(i := k (0, None)))
             | _ \<Rightarrow> if wr_open w then (w\<lparr>wr_bytes := wr_bytes w @ act_bytes x\<rparr>, ps(i := k (accepted x))) else (w, ps)))"

lemma ok_step_reach:
  assumes "ws_reach P w ps" and "ok_step i (w, ps) = (w', ps')"
  shows "ws_reach P w' ps'"
proof (cases "ps i")
  case (Return a)
  with assms show ?thesis by (simp add: ok_step_def)
next
  case (Act x k)
  define r where "r = (if is_write x then accepted x else (0, None))"
  have "(w', ps') = (w, ps) \<or> wire_step i x w r w' \<and> ps' = ps(i := k r)"
    using assms(2) Act wire_step.sent [of x w i]
    by (cases x) (auto simp: ok_step_def is_write_def r_def split: if_splits intro: wire_step.intros)
  then show ?thesis
    using ws_reach.step [OF assms(1) Act] assms(1) by blast
qed

lemma schedule_reach: "ws_reach P w ps \<Longrightarrow> fold ok_step is (w, ps) = (w', ps') \<Longrightarrow> ws_reach P w' ps'"
proof (induction "is" arbitrary: w ps)
  case (Cons i "is")
  obtain w1 ps1 where "ok_step i (w, ps) = (w1, ps1)" by (cases "ok_step i (w, ps)")
  with Cons ok_step_reach show ?case by fastforce
qed simp

text \<open>C25. A server that combines writes splits frames: \<open>WriteMessage\<close> does not take the mutex then, while
  \<open>WritevMessage\<close> holds it for two writes. A message written meanwhile lands between the header and the payload of
  the other, and both calls return without an error.\<close>

theorem combined_write_splits_frame:
  assumes "c_combineWrites c" and "c_role c = ServerSide" and "c_raw c = RawTnet"
    and "l_header L \<lparr>h_Fin = True, h_OpCode = toOpCode tp, h_Length = length (concat p)\<rparr> = Inr b"
    and f: "concat (l_message L ServerSide (toOpCode tp') key buf) = f" "f \<noteq> []"
    and "calls 0 = CallWritev k tp p" and "calls 1 = CallMessage key tp' buf"
  shows "\<exists>w ps. ws_reach (\<lambda>i. call_prog L c (calls i)) w ps \<and> ps 0 = Return None \<and> ps 1 = Return None \<and>
    wr_bytes w = b @ f @ concat p"
proof -
  let ?P = "\<lambda>i. call_prog L c (calls i)"
  have p1: "call_prog L c (CallMessage key tp' buf) = Act (RawWrite f) (\<lambda>(n, e). case e of
      Some e \<Rightarrow> Return (Some e) | None \<Rightarrow> if n < length f then Return (Some io_ErrShortWrite) else Return None)"
    using assms(1,2) f by (simp add: WriteMessage_def writeMessageCombined_eq Let_def del: concat_eq_Nil_conv)
  obtain w ps where fo: "fold ok_step [0, 0, 1, 0, 0] (new_wire, ?P) = (w, ps)"
    by (cases "fold ok_step [0, 0, 1, 0, 0] (new_wire, ?P)")
  then have "wr_bytes w = b @ f @ concat p \<and> ps 0 = Return None \<and> ps 1 = Return None"
    using assms(2-4,7,8) p1
    by (auto simp: ok_step_def new_wire_def WritevMessage_def locked_def serverWritev_def raw_Writev_def accepted_def
        simp del: call_prog.simps(2))
  with schedule_reach [OF ws_reach.start fo] show ?thesis by blast
qed

text \<open>C26. The reply to a ping splits frames: the reading goroutine writes it to the raw connection without the mutex, so
  it may land between the header and the payload of a message that another goroutine is writing.\<close>

theorem ping_reply_splits_frame:
  assumes "\<not> c_combineWrites c" and "c_pingHandler c = None"
    and "l_message L (c_role c) (toOpCode tp) key buf = [b, payload]"
    and "h_OpCode h = OpPing" and "l_HandlePing L (c_role c) h r = (([pong], None), r')"
    and "progs 0 = WriteMessage L c key tp buf"
    and "progs 1 = prog_bind (ctl_handle L hnd c h r) (\<lambda>(e, r). Return e)"
  shows "\<exists>w ps. ws_reach progs w ps \<and> ps 0 = Return None \<and> ps 1 = Return None \<and>
    wr_bytes w = b @ pong @ payload"
proof -
  obtain w ps where fo: "fold ok_step [0, 0, 1, 0, 0] (new_wire, progs) = (w, ps)"
    by (cases "fold ok_step [0, 0, 1, 0, 0] (new_wire, progs)")
  then have "wr_bytes w = b @ pong @ payload \<and> ps 0 = Return None \<and> ps 1 = Return None"
    using assms
    by (auto simp: ok_step_def new_wire_def WriteMessage_def writeMessage_def locked_def ctl_handle_def handlePing_def
        default_ctl_def accepted_def)
  with schedule_reach [OF ws_reach.start fo] show ?thesis by blast
qed


theorem combined_write_splits_frame_witness:
  "\<exists>w ps. ws_reach (\<lambda>i. call_prog simple_lib (simple_conn ServerSide True)
       (if i = 0 then CallWritev 0 Text [[5], [6]] else CallMessage 0 Text [7])) w ps \<and> wr_bytes w = [2, 1, 7, 5, 6]"
  using combined_write_splits_frame [of "simple_conn ServerSide True" simple_lib Text "[[5], [6]]" "[2]" Text 0 "[7]" "[1, 7]"
      "\<lambda>i. if i = 0 then CallWritev 0 Text [[5], [6]] else CallMessage 0 Text [7]" 0]
  by (auto simp: simple_conn_def simple_lib_def)

theorem ping_reply_splits_frame_witness:
  "\<exists>w ps. ws_reach (\<lambda>i :: nat. if i = 0 then WriteMessage simple_lib (simple_conn ServerSide False) 0 Text [7]
       else prog_bind (ctl_handle simple_lib (\<lambda>_ _. Return None) (simple_conn ServerSide False)
         \<lparr>h_Fin = True, h_OpCode = OpPing, h_Length = 1\<rparr> (Ctrl [9] (Before []))) (\<lambda>(e, r). Return e)) w ps \<and>
     wr_bytes w = [1, 0x8A, 1, 9, 7]"
  using ping_reply_splits_frame [of "simple_conn ServerSide False" simple_lib Text 0 "[7]" "[1]" "[7]"
      "\<lparr>h_Fin = True, h_OpCode = OpPing, h_Length = 1\<rparr>" "Ctrl [9] (Before [])" "[0x8A, 1, 9]" "Before []"
      "\<lambda>i. if i = 0 then WriteMessage simple_lib (simple_conn ServerSide False) 0 Text [7]
       else prog_bind (ctl_handle simple_lib (\<lambda>_ _. Return None) (simple_conn ServerSide False)
         \<lparr>h_Fin = True, h_OpCode = OpPing, h_Length = 1\<rparr> (Ctrl [9] (Before []))) (\<lambda>(e, r). Return e)"
      "\<lambda>_ _. Return None"]
  by (auto simp: simple_conn_def simple_lib_def simple_pong_def)

end
