(* ===== verification/Ws_Read.thy ===== *)
theory Ws_Read
  imports Ws_Frames
begin

text \<open>
  Reading from a websocket connection whose library behaves as documented: what \<open>ReadMessage\<close> and \<open>Read\<close> return, that they
  return, and what a message of the wrong type does to \<open>Read\<close>.
\<close>

section \<open>The content of a stream\<close>

fun payload :: "part list \<Rightarrow> byte list" where
  "payload [] = []"
| "payload (Bytes b # ps) = b @ payload ps"
| "payload (Inter op p # ps) = payload ps"

definition reply :: "(byte list \<Rightarrow> byte list list) \<Rightarrow> opcode \<Rightarrow> byte list \<Rightarrow> byte list" where
  "reply pong op p = (if op = OpPing then concat (pong p) else [])"

fun part_replies :: "(byte list \<Rightarrow> byte list list) \<Rightarrow> part list \<Rightarrow> byte list" where
  "part_replies pong [] = []"
| "part_replies pong (Bytes b # ps) = part_replies pong ps"
| "part_replies pong (Inter op p # ps) = reply pong op p @ part_replies pong ps"

text \<open>How many steps reading the parts may take.\<close>

fun weight :: "part list \<Rightarrow> nat" where
  "weight [] = 1"
| "weight (Bytes b # ps) = Suc (length b + weight ps)"
| "weight (Inter op p # ps) = Suc (weight ps)"

definition ctl_op :: "opcode \<Rightarrow> bool" where
  "ctl_op op \<longleftrightarrow> op \<in> {OpPing, OpPong}"

definition parts_ok :: "part list \<Rightarrow> bool" where
  "parts_ok ps \<longleftrightarrow> (\<forall>op p. Inter op p \<in> set ps \<longrightarrow> ctl_op op)"

definition default_handlers :: "'f wsconn \<Rightarrow> bool" where
  "default_handlers c \<longleftrightarrow> c_pingHandler c = None \<and> c_pongHandler c = None"

lemma parts_ok_simps [simp]:
  "parts_ok []" "parts_ok (Bytes b # ps) = parts_ok ps" "parts_ok (Inter op p # ps) = (ctl_op op \<and> parts_ok ps)"
  by (auto simp: parts_ok_def)

lemma weight_pos: "0 < weight ps"
  by (induction ps rule: weight.induct) simp_all

section \<open>Control frames\<close>

lemma run_ctl_handle:
  assumes "reader_doc L (c_role c) pong pos" and "default_handlers c" and "ctl_op (h_OpCode h)" and "pos r = Ctrl p q"
  shows "\<exists>r'. run_ok (ctl_handle L hnd c h r) = ((None, r'), reply pong (h_OpCode h) p) \<and> pos r' = q"
proof -
  have ctl: "reader_controls L (c_role c) pong pos" using assms(1) by (simp add: reader_doc_def)
  from ctl assms(4) obtain r1 where r1: "l_HandlePing L (c_role c) h r = ((pong p, None), r1)" "pos r1 = q"
    unfolding reader_controls_def by blast
  from ctl assms(4) obtain r2 where r2: "l_HandlePong L (c_role c) h r = (([], None), r2)" "pos r2 = q"
    unfolding reader_controls_def by blast
  show ?thesis
    using assms(2,3) r1 r2
    by (auto simp: ctl_op_def ctl_handle_def handlePing_def handlePong_def default_handlers_def default_ctl_def run_bind
        run_write_chunks reply_def)
qed

section \<open>Reading a body\<close>

text \<open>One \<open>Read\<close> of the reader inside a body: it delivers a front part of the payload and answers the control frames it
  meets.\<close>

lemma run_reader_Read:
  assumes doc: "reader_doc L (c_role c) pong pos" and c: "default_handlers c" and "parts_ok ps"
    and "pos r = Body ps ms" and m: "0 < m" and "length ps < n"
  shows "\<exists>b e r' out ps'. run_ok (reader_Read n L hnd c m r) = ((Some (b, e), r'), out) \<and> length b \<le> m \<and>
    (e = None \<and> pos r' = Body ps' ms \<and> parts_ok ps' \<and> payload ps = b @ payload ps' \<and>
       part_replies pong ps = out @ part_replies pong ps' \<and> weight ps' < weight ps \<or>
     e = Some io_EOF \<and> pos r' = Spent ms \<and> b = payload ps \<and> out = part_replies pong ps)"
  using assms(3,4,6)
proof (induction ps arbitrary: r n)
  case Nil
  then obtain k where n: "n = Suc k" by (cases n) auto
  from doc have "reader_reads L pos" by (simp add: reader_doc_def)
  with Nil.prems(2) obtain r' where "l_Read L m r = (RdData [] (Some io_EOF), r')" "pos r' = Spent ms"
    unfolding reader_reads_def by blast
  with n show ?case by (intro exI [of _ "[]"] exI [of _ "Some io_EOF"] exI [of _ r']) simp
next
  case (Cons x ps)
  then obtain k where n: "n = Suc k" "length ps < k" by (cases n) auto
  have reads: "reader_reads L pos" using doc by (simp add: reader_doc_def)
  show ?case
  proof (cases x)
    case (Bytes b)
    with Cons.prems(2) m reads obtain j r' where j: "j \<le> m" "j \<le> length b" "0 < j \<or> b = []"
      and step: "if j < length b then l_Read L m r = (RdData (take j b) None, r') \<and> pos r' = Body (Bytes (drop j b) # ps) ms
        else if ps \<noteq> [] then l_Read L m r = (RdData b None, r') \<and> pos r' = Body ps ms
        else l_Read L m r = (RdData b (Some io_EOF), r') \<and> pos r' = Spent ms"
      unfolding reader_reads_def by blast
    consider "j < length b" | "j = length b" "ps \<noteq> []" | "j = length b" "ps = []" using j(2) by force
    then show ?thesis
    proof cases
      case 1
      with step j Cons.prems(1) Bytes n show ?thesis
        by (intro exI [of _ "take j b"] exI [of _ None] exI [of _ r'] exI [of _ "[]"] exI [of _ "Bytes (drop j b) # ps"])
          (auto simp: append_assoc [symmetric] simp del: append_assoc)
    next
      case 2
      with step j Cons.prems(1) Bytes n show ?thesis
        by (intro exI [of _ b] exI [of _ None] exI [of _ r'] exI [of _ "[]"] exI [of _ ps]) auto
    next
      case 3
      with step j Bytes n show ?thesis
        by (intro exI [of _ b] exI [of _ "Some io_EOF"] exI [of _ r'] exI [of _ "[]"]) auto
    qed
  next
    case (Inter op p)
    let ?h = "\<lparr>h_Fin = True, h_OpCode = op, h_Length = length p\<rparr>"
    from Inter Cons.prems(2) reads obtain r1 where r1: "l_Read L m r = (RdControl ?h, r1)" "pos r1 = Ctrl p (Body ps ms)"
      unfolding reader_reads_def by blast
    have "ctl_op (h_OpCode ?h)" using Cons.prems(1) Inter by simp
    from run_ctl_handle [OF doc c this r1(2), of hnd] obtain r2
      where r2: "run_ok (ctl_handle L hnd c ?h r1) = ((None, r2), reply pong op p)" "pos r2 = Body ps ms" by auto
    have "parts_ok ps" using Cons.prems(1) Inter by simp
    from Cons.IH [OF this r2(2) n(2)] obtain b e r' out ps' where
      run: "run_ok (reader_Read k L hnd c m r2) = ((Some (b, e), r'), out)" and len: "length b \<le> m"
      and res: "e = None \<and> pos r' = Body ps' ms \<and> parts_ok ps' \<and> payload ps = b @ payload ps' \<and>
       part_replies pong ps = out @ part_replies pong ps' \<and> weight ps' < weight ps \<or>
       e = Some io_EOF \<and> pos r' = Spent ms \<and> b = payload ps \<and> out = part_replies pong ps" by blast
    have "run_ok (reader_Read n L hnd c m r) = ((Some (b, e), r'), reply pong op p @ out)"
      using r1(1) r2(1) run n(1) by (simp add: run_bind)
    with res len Inter show ?thesis
      by (intro exI [of _ b] exI [of _ e] exI [of _ r'] exI [of _ "reply pong op p @ out"] exI [of _ ps']) auto
  qed
qed

lemma length_le_weight: "length ps < weight ps"
  by (induction ps rule: weight.induct) simp_all

lemma run_ReadAll:
  assumes doc: "reader_doc L (c_role c) pong pos" and c: "default_handlers c" and room: "\<And>k. 0 < room k"
    and "parts_ok ps" and "pos r = Body ps ms" and "weight ps < n"
  shows "\<exists>r'. run_ok (ReadAll n room L hnd c acc r) = ((Some (acc @ payload ps, None), r'), part_replies pong ps) \<and>
    pos r' = Spent ms"
  using assms(4-6)
proof (induction n arbitrary: ps r acc)
  case (Suc n)
  have "length ps < n" using Suc.prems(3) length_le_weight [of ps] by simp
  from run_reader_Read [OF doc c Suc.prems(1,2) room [of "length acc"] this, of hnd]
  obtain b e r' out ps' where run: "run_ok (reader_Read n L hnd c (room (length acc)) r) = ((Some (b, e), r'), out)"
    and res: "e = None \<and> pos r' = Body ps' ms \<and> parts_ok ps' \<and> payload ps = b @ payload ps' \<and>
       part_replies pong ps = out @ part_replies pong ps' \<and> weight ps' < weight ps \<or>
       e = Some io_EOF \<and> pos r' = Spent ms \<and> b = payload ps \<and> out = part_replies pong ps" by blast
  from res show ?case
  proof
    assume r: "e = None \<and> pos r' = Body ps' ms \<and> parts_ok ps' \<and> payload ps = b @ payload ps' \<and>
       part_replies pong ps = out @ part_replies pong ps' \<and> weight ps' < weight ps"
    with Suc.prems(3) have "weight ps' < n" by simp
    from Suc.IH [OF _ _ this, of r' "acc @ b"] r run show ?thesis by (auto simp: run_bind)
  next
    assume "e = Some io_EOF \<and> pos r' = Spent ms \<and> b = payload ps \<and> out = part_replies pong ps"
    with run show ?thesis by (auto simp: run_bind)
  qed
qed simp

section \<open>Reading messages\<close>

fun msg_ok :: "msg \<Rightarrow> bool" where
  "msg_ok (Control op p) = ctl_op op"
| "msg_ok (Data op ps) = (op \<in> {OpText, OpBinary} \<and> parts_ok ps)"

fun replies :: "(byte list \<Rightarrow> byte list list) \<Rightarrow> msg list \<Rightarrow> byte list" where
  "replies pong [] = []"
| "replies pong (Control op p # ms) = reply pong op p @ replies pong ms"
| "replies pong (Data op ps # ms) = part_replies pong ps @ replies pong ms"

fun datas :: "msg list \<Rightarrow> (MessageType \<times> byte list) list" where
  "datas [] = []"
| "datas (Control op p # ms) = datas ms"
| "datas (Data op ps # ms) = (toMessageType op, payload ps) # datas ms"

fun msgs_weight :: "msg list \<Rightarrow> nat" where
  "msgs_weight [] = 1"
| "msgs_weight (Control op p # ms) = Suc (msgs_weight ms)"
| "msgs_weight (Data op ps # ms) = Suc (weight ps + msgs_weight ms)"

lemma length_le_msgs_weight: "length ms < msgs_weight ms"
  by (induction ms rule: msgs_weight.induct) simp_all

text \<open>Looking for the next message: the control frames before it are answered.\<close>

lemma run_next_frames:
  assumes doc: "reader_doc L (c_role c) pong pos" and c: "default_handlers c"
    and "list_all msg_ok ms" and "pos r = Before ms" and "length ms < n"
  shows "\<exists>r' out.
    (\<exists>op ps ms'. run_ok (next_frames n L hnd c r) = ((Some (toMessageType op, None), r'), out) \<and> pos r' = Body ps ms' \<and>
       list_all msg_ok (Data op ps # ms') \<and> datas ms = datas (Data op ps # ms') \<and>
       replies pong ms = out @ replies pong (Data op ps # ms') \<and> msgs_weight (Data op ps # ms') \<le> msgs_weight ms) \<or>
    (\<exists>tp. run_ok (next_frames n L hnd c r) = ((Some (tp, Some io_EOF), r'), out) \<and> pos r' = Before [] \<and>
       datas ms = [] \<and> replies pong ms = out)"
  using assms(3-5)
proof (induction ms arbitrary: r n)
  case Nil
  then obtain k where n: "n = Suc k" by (cases n) auto
  from doc Nil.prems(2) obtain h r' where "l_NextFrame L r = ((h, Some io_EOF), r')" "pos r' = Before []"
    unfolding reader_doc_def reader_moves_def by blast
  with n show ?case by (intro exI [of _ r'] exI [of _ "[]"] disjI2) simp
next
  case (Cons x ms)
  then obtain k where n: "n = Suc k" "length ms < k" by (cases n) auto
  have moves: "reader_moves L (c_role c) pos" and ctl: "reader_controls L (c_role c) pong pos"
    using doc by (simp_all add: reader_doc_def)
  show ?case
  proof (cases x)
    case (Control op p)
    let ?h = "\<lparr>h_Fin = True, h_OpCode = op, h_Length = length p\<rparr>"
    have op: "ctl_op (h_OpCode ?h)" using Cons.prems(1) Control by simp
    from moves Control Cons.prems(2) obtain r1 where r1: "l_NextFrame L r = ((?h, None), r1)" "pos r1 = Ctrl p (Before ms)"
      unfolding reader_moves_def by blast
    have isc: "l_IsControl L op" using ctl op unfolding reader_controls_def by (auto simp: ctl_op_def)
    from run_ctl_handle [OF doc c op r1(2), of hnd] obtain r2
      where r2: "run_ok (ctl_handle L hnd c ?h r1) = ((None, r2), reply pong op p)" "pos r2 = Before ms" by auto
    have run: "run_ok (next_frames n L hnd c r) =
        (case run_ok (next_frames k L hnd c r2) of (a, out) \<Rightarrow> (a, reply pong op p @ out))"
      using n(1) r1(1) isc r2(1) by (simp add: run_bind)
    have "list_all msg_ok ms" using Cons.prems(1) by simp
    from Cons.IH [OF this r2(2) n(2)] show ?thesis
      unfolding run using Control by fastforce
  next
    case (Data op ps)
    from moves Data Cons.prems(2) obtain h r' where r': "l_NextFrame L r = ((h, None), r')" "h_OpCode h = op" "pos r' = Body ps ms"
      unfolding reader_moves_def by blast
    have "\<not> l_IsControl L op" using ctl Cons.prems(1) Data unfolding reader_controls_def by auto
    with r' n(1) Data Cons.prems(1) show ?thesis
      by (intro exI [of _ r'] exI [of _ "[]"] disjI1 exI [of _ op] exI [of _ ps] exI [of _ ms]) simp
  qed
qed

definition at_stream :: "('r \<Rightarrow> rpos) \<Rightarrow> 'r \<Rightarrow> msg list \<Rightarrow> bool" where
  "at_stream pos r ms \<longleftrightarrow> pos r = Before ms \<or> pos r = Spent ms"

lemma new_reader_pos: "reader_doc L role pong pos \<Longrightarrow> at_stream pos r ms \<Longrightarrow> pos (l_newReader L role r) = Before ms"
  unfolding reader_doc_def reader_moves_def at_stream_def by blast

lemma run_ReadMessage:
  assumes doc: "reader_doc L (c_role c) pong pos" and c: "default_handlers c" and room: "\<And>k. 0 < room k"
    and ms: "list_all msg_ok ms" "at_stream pos r ms" "msgs_weight ms < n"
  shows "\<exists>r' out.
    (\<exists>t b ms'. run_ok (ReadMessage n room L hnd c r) = ((Some (t, b, None), r'), out) \<and> at_stream pos r' ms' \<and>
       list_all msg_ok ms' \<and> datas ms = (t, b) # datas ms' \<and> replies pong ms = out @ replies pong ms' \<and>
       msgs_weight ms' \<le> msgs_weight ms) \<or>
    (\<exists>t. run_ok (ReadMessage n room L hnd c r) = ((Some (t, [], Some io_EOF), r'), out) \<and> datas ms = [] \<and> replies pong ms = out)"
proof -
  have "length ms < n" using ms(3) length_le_msgs_weight [of ms] by simp
  from run_next_frames [OF doc c ms(1) new_reader_pos [OF doc ms(2)] this, of hnd]
  consider (message) r1 o1 op ps ms' where
      "run_ok (next_frames n L hnd c (l_newReader L (c_role c) r)) = ((Some (toMessageType op, None), r1), o1)"
      "pos r1 = Body ps ms'" "list_all msg_ok (Data op ps # ms')" "datas ms = datas (Data op ps # ms')"
      "replies pong ms = o1 @ replies pong (Data op ps # ms')" "msgs_weight (Data op ps # ms') \<le> msgs_weight ms"
    | (end_of_stream) r1 o1 tp where
      "run_ok (next_frames n L hnd c (l_newReader L (c_role c) r)) = ((Some (tp, Some io_EOF), r1), o1)"
      "datas ms = []" "replies pong ms = o1"
    by blast
  then show ?thesis
  proof cases
    case message
    then have "weight ps < n" "parts_ok ps" using ms(3) by simp_all
    from run_ReadAll [where room = room and hnd = hnd and acc = "[]", OF doc c room this(2) message(2) this(1)] obtain r2
      where "run_ok (ReadAll n room L hnd c [] r1) = ((Some (payload ps, None), r2), part_replies pong ps)" "pos r2 = Spent ms'" by auto
    with message show ?thesis
      by (intro exI [of _ r2] exI [of _ "o1 @ part_replies pong ps"] disjI1 exI [of _ "toMessageType op"] exI [of _ "payload ps"] exI [of _ ms'])
        (simp add: ReadMessage_def NextMessageReader_def run_bind at_stream_def)
  next
    case end_of_stream
    then show ?thesis
      by (intro exI [of _ r1] exI [of _ o1] disjI2) (auto simp: ReadMessage_def NextMessageReader_def run_bind)
  qed
qed

text \<open>\<open>ReadMessage\<close> so many times, as long as it returns.\<close>

fun read_messages :: "nat \<Rightarrow> nat \<Rightarrow> (nat \<Rightarrow> nat) \<Rightarrow> 'r wslib \<Rightarrow> ('f \<Rightarrow> byte list \<Rightarrow> ('f, err option) prog) \<Rightarrow> 'f wsconn \<Rightarrow> 'r \<Rightarrow>
    ('f, (MessageType \<times> byte list \<times> err option) list \<times> 'r) prog" where
  "read_messages 0 n room L hnd c r = Return ([], r)"
| "read_messages (Suc k) n room L hnd c r =
     prog_bind (ReadMessage n room L hnd c r)
       (\<lambda>(res, r). case res of
          None \<Rightarrow> Return ([], r)
        | Some x \<Rightarrow> prog_bind (read_messages k n room L hnd c r) (\<lambda>(xs, r). Return (x # xs, r)))"


section \<open>Reading a byte stream\<close>

text \<open>Where a connection that is read with \<open>Read\<close> stands: the bytes to come, and a bound on the steps to read them.\<close>

definition stream :: "msg list \<Rightarrow> byte list" where
  "stream ms = concat (map snd (datas ms))"

definition typed :: "MessageType \<Rightarrow> msg list \<Rightarrow> bool" where
  "typed t ms \<longleftrightarrow> list_all msg_ok ms \<and> fst ` set (datas ms) \<subseteq> {t}"

definition reading :: "('r \<Rightarrow> rpos) \<Rightarrow> 'f wsconn \<Rightarrow> 'r \<Rightarrow> byte list \<Rightarrow> nat \<Rightarrow> bool" where
  "reading pos c r bs w \<longleftrightarrow> default_handlers c \<and>
     (\<exists>ms. typed (c_messageType c) ms \<and>
       (\<not> c_reader c \<and> at_stream pos r ms \<and> bs = stream ms \<and> w = msgs_weight ms \<or>
        c_reader c \<and> (\<exists>ps. pos r = Body ps ms \<and> parts_ok ps \<and> bs = payload ps @ stream ms \<and> w = weight ps + msgs_weight ms)))"

lemma typed_Data: "typed t (Data op ps # ms) \<longleftrightarrow> op \<in> {OpText, OpBinary} \<and> parts_ok ps \<and> toMessageType op = t \<and> typed t ms"
  by (auto simp: typed_def)

lemma stream_Data: "stream (Data op ps # ms) = payload ps @ stream ms"
  by (simp add: stream_def)

text \<open>One \<open>Read\<close> inside a message.\<close>

definition read_result :: "('r \<Rightarrow> rpos) \<Rightarrow> nat \<Rightarrow> 'f wsconn \<Rightarrow> byte list \<Rightarrow> nat \<Rightarrow>
    ((byte list \<times> err option) option \<times> 'f wsconn \<times> 'r) \<times> byte list \<Rightarrow> bool" where
  "read_result pos m c bs w res \<longleftrightarrow>
     (\<exists>b e c' r' out bs' w'. res = ((Some (b, e), c', r'), out) \<and> length b \<le> m \<and> bs = b @ bs' \<and>
        c_messageType c' = c_messageType c \<and> c_role c' = c_role c \<and> reading pos c' r' bs' w' \<and>
        (e = None \<and> w' < w \<or> e = Some io_EOF \<and> b = [] \<and> bs = [] \<and> w' = 1))"

lemma msgs_weight_pos: "0 < msgs_weight ms"
  by (induction ms rule: msgs_weight.induct) simp_all

text \<open>The part of the loop of \<open>Read\<close> after it has a reader.\<close>

definition read_body :: "nat \<Rightarrow> (nat \<Rightarrow> nat) \<Rightarrow> 'r wslib \<Rightarrow> ('f \<Rightarrow> byte list \<Rightarrow> ('f, err option) prog) \<Rightarrow> nat \<Rightarrow> 'f wsconn \<Rightarrow> 'r \<Rightarrow>
    ('f, (byte list \<times> err option) option \<times> 'f wsconn \<times> 'r) prog" where
  "read_body n room L hnd m c r =
     prog_bind (reader_Read n L hnd c m r)
       (\<lambda>(res, r). case res of
          None \<Rightarrow> Return (None, c, r)
        | Some (b, e) \<Rightarrow>
            if e = Some io_EOF then
              let c = c\<lparr>c_reader := False\<rparr> in
              if b \<noteq> [] then Return (Some (b, None), c, r) else read_loop n room L hnd m c r
            else Return (Some (b, e), c, r))"

lemma read_loop_body: "c_reader c \<Longrightarrow> read_loop (Suc n) room L hnd m c r = read_body n room L hnd m c r"
  by (simp add: read_body_def)

lemma read_loop_next:
  assumes "\<not> c_reader c" and "run_ok (NextMessageReader n L hnd c r) = ((Some (c_messageType c, None), r1), o1)"
  shows "run_ok (read_loop (Suc n) room L hnd m c r) =
    (case run_ok (read_body n room L hnd m (c\<lparr>c_reader := True\<rparr>) r1) of (a, out) \<Rightarrow> (a, o1 @ out))"
  using assms by (simp add: run_bind [of "NextMessageReader n L hnd c r"] run_bind [of "prog_bind (NextMessageReader n L hnd c r) _"]
      read_body_def [symmetric] Let_def)

lemma read_loop_mismatch:
  assumes "\<not> c_reader c" and "run_ok (NextMessageReader n L hnd c r) = ((Some (tp, None), r1), o1)" and "tp \<noteq> c_messageType c"
    and "run_ok (ReadAll n room L hnd (c\<lparr>c_reader := True\<rparr>) [] r1) = ((Some x, r2), o2)"
  shows "\<exists>e. run_ok (read_loop (Suc n) room L hnd m c r) = ((Some ([], Some e), c\<lparr>c_reader := True\<rparr>, r2), o1 @ o2)"
  using assms by (simp add: run_bind Let_def)

lemma read_loop_error:
  assumes "\<not> c_reader c" and "run_ok (NextMessageReader n L hnd c r) = ((Some (tp, Some e), r1), o1)"
  shows "run_ok (read_loop (Suc n) room L hnd m c r) = ((Some ([], Some e), c, r1), o1)"
  using assms by (simp add: run_bind)

lemma run_read_loop_body:
  assumes doc: "reader_doc L (c_role c) pong pos" and m: "0 < m"
    and rd: "reading pos c r bs w" "c_reader c" "w \<le> n"
    and IH: "\<And>c' r' w'. reading pos c' r' bs w' \<Longrightarrow> w' < w \<Longrightarrow> c_role c' = c_role c \<Longrightarrow> c_messageType c' = c_messageType c \<Longrightarrow>
      read_result pos m c bs w (run_ok (read_loop n room L hnd m c' r'))"
  shows "read_result pos m c bs w (run_ok (read_body n room L hnd m c r))"
proof -
  from rd obtain ps ms where c: "default_handlers c" and ty: "typed (c_messageType c) ms" and ps: "pos r = Body ps ms" "parts_ok ps"
    and bs: "bs = payload ps @ stream ms" and w: "w = weight ps + msgs_weight ms" by (auto simp: reading_def)
  have "length ps < n" using w rd(3) length_le_weight [of ps] msgs_weight_pos [of ms] by simp
  from run_reader_Read [OF doc c ps(2,1) m this, of hnd]
  consider (more) b r' out ps' where "run_ok (reader_Read n L hnd c m r) = ((Some (b, None), r'), out)" "length b \<le> m"
      "pos r' = Body ps' ms" "parts_ok ps'" "payload ps = b @ payload ps'" "weight ps' < weight ps"
    | (eof) r' out where "run_ok (reader_Read n L hnd c m r) = ((Some (payload ps, Some io_EOF), r'), out)"
      "length (payload ps) \<le> m" "pos r' = Spent ms" by blast
  then show ?thesis
  proof cases
    case more
    have "reading pos c r' (payload ps' @ stream ms) (weight ps' + msgs_weight ms)"
      using more ty c rd(2) by (auto simp: reading_def)
    with more bs w show ?thesis by (auto simp: read_body_def run_bind read_result_def io_EOF_def)
  next
    case eof
    have rd': "reading pos (c\<lparr>c_reader := False\<rparr>) r' (stream ms) (msgs_weight ms)"
      using eof ty c by (auto simp: reading_def at_stream_def default_handlers_def)
    have wl: "msgs_weight ms < w" using w weight_pos [of ps] by simp
    show ?thesis
    proof (cases "payload ps = []")
      case True
      with bs have "bs = stream ms" by simp
      with IH [of "c\<lparr>c_reader := False\<rparr>" r' "msgs_weight ms"] rd' wl eof(1) True show ?thesis
        by (auto simp: read_body_def run_bind Let_def read_result_def)
    next
      case False
      with eof bs rd' wl show ?thesis
        by (auto simp: read_body_def run_bind Let_def read_result_def)
    qed
  qed
qed

lemma read_result_mono:
  assumes "read_result pos m c' bs w' res" and "w' \<le> w" and "c_messageType c' = c_messageType c" and "c_role c' = c_role c"
  shows "read_result pos m c bs w res"
  using assms unfolding read_result_def by fastforce

lemma read_result_out:
  assumes "read_result pos m c bs w res"
  shows "read_result pos m c bs w (case res of (a, out) \<Rightarrow> (a, out' @ out))"
  using assms unfolding read_result_def by fastforce

lemma run_read_loop:
  assumes m: "0 < m" and "reader_doc L (c_role c) pong pos" and "reading pos c r bs w" and "w < n"
  shows "read_result pos m c bs w (run_ok (read_loop n room L hnd m c r))"
  using assms(2-4)
proof (induction n arbitrary: c r w)
  case (Suc n)
  note doc = Suc.prems(1)
  have IH: "read_result pos m c bs w (run_ok (read_loop n room L hnd m c' r'))"
    if "reading pos c' r' bs w'" "w' < w" "c_role c' = c_role c" "c_messageType c' = c_messageType c" for c' r' w'
    by (rule read_result_mono [OF Suc.IH [OF _ that(1)]]) (use that Suc.prems in simp_all)
  show ?case
  proof (cases "c_reader c")
    case True
    show ?thesis
      unfolding read_loop_body [OF True] using IH Suc.prems(3)
      by (intro run_read_loop_body [OF doc m Suc.prems(2) True]) simp_all
  next
    case False
    with Suc.prems(2) obtain ms where c: "default_handlers c" and ty: "typed (c_messageType c) ms" and at: "at_stream pos r ms"
      and bs: "bs = stream ms" and w: "w = msgs_weight ms" by (auto simp: reading_def)
    have ok: "list_all msg_ok ms" using ty by (simp add: typed_def)
    have "length ms < n" using w Suc.prems(3) length_le_msgs_weight [of ms] by simp
    from run_next_frames [OF doc c ok new_reader_pos [OF doc at] this, of hnd]
    consider (message) r1 o1 op ps ms' where
        "run_ok (NextMessageReader n L hnd c r) = ((Some (toMessageType op, None), r1), o1)"
        "pos r1 = Body ps ms'" "list_all msg_ok (Data op ps # ms')" "datas ms = datas (Data op ps # ms')"
        "msgs_weight (Data op ps # ms') \<le> msgs_weight ms"
      | (end_of_stream) r1 o1 tp where
        "run_ok (NextMessageReader n L hnd c r) = ((Some (tp, Some io_EOF), r1), o1)" "pos r1 = Before []" "datas ms = []"
      unfolding NextMessageReader_def by blast
    then show ?thesis
    proof cases
      case message
      let ?c = "c\<lparr>c_reader := True\<rparr>"
      have tyD: "typed (c_messageType c) (Data op ps # ms')" using ty message(3,4) by (simp add: typed_def)
      then have tp: "toMessageType op = c_messageType c" and ps: "parts_ok ps" and ty': "typed (c_messageType c) ms'"
        by (simp_all add: typed_Data)
      have "bs = payload ps @ stream ms'" using bs message(4) by (simp add: stream_def)
      then have rd: "reading pos ?c r1 bs (weight ps + msgs_weight ms')"
        using message(2) ps ty' c by (auto simp: reading_def default_handlers_def)
      have wl: "weight ps + msgs_weight ms' < w" using message(5) w by simp
      have IH': "read_result pos m ?c bs (weight ps + msgs_weight ms') (run_ok (read_loop n room L hnd m c' r'))"
        if "reading pos c' r' bs w'" "w' < weight ps + msgs_weight ms'" "c_role c' = c_role ?c" "c_messageType c' = c_messageType ?c"
        for c' r' w'
        by (rule read_result_mono [OF Suc.IH [OF _ that(1)]]) (use that wl Suc.prems in simp_all)
      have "read_result pos m ?c bs (weight ps + msgs_weight ms') (run_ok (read_body n room L hnd m ?c r1))"
        by (rule run_read_loop_body [OF _ m rd]) (use doc wl Suc.prems(3) IH' in simp_all)
      from read_result_out [OF read_result_mono [OF this], of w c o1] wl
      show ?thesis
        using read_loop_next [OF False message(1) [unfolded tp], of room m] by simp
    next
      case end_of_stream
      have "run_ok (read_loop (Suc n) room L hnd m c r) = ((Some ([], Some io_EOF), c, r1), o1)"
        by (rule read_loop_error [OF False end_of_stream(1)])
      moreover have "reading pos c r1 [] 1"
        using False end_of_stream(2) c
        by (auto simp: reading_def at_stream_def typed_def stream_def intro!: exI [of _ "[]"])
      ultimately show ?thesis
        using bs end_of_stream(3) w msgs_weight_pos [of ms] unfolding read_result_def
        by (intro exI [of _ "[]"] exI [of _ "Some io_EOF"] exI [of _ c] exI [of _ r1] exI [of _ o1] exI [of _ 1])
          (simp add: stream_def)
    qed
  qed
qed simp

lemma reading_pos: "reading pos c r bs w \<Longrightarrow> 0 < w"
  by (auto simp: reading_def msgs_weight_pos weight_pos)

text \<open>A sequence of \<open>Read\<close> calls with buffers of the given sizes; \<open>None\<close> if one of them does not return.\<close>

fun read_seq :: "nat \<Rightarrow> (nat \<Rightarrow> nat) \<Rightarrow> 'r wslib \<Rightarrow> ('f \<Rightarrow> byte list \<Rightarrow> ('f, err option) prog) \<Rightarrow> nat list \<Rightarrow> 'f wsconn \<Rightarrow> 'r \<Rightarrow>
    ('f, (byte list \<times> err option) list option \<times> 'f wsconn \<times> 'r) prog" where
  "read_seq n room L hnd [] c r = Return (Some [], c, r)"
| "read_seq n room L hnd (m # sizes) c r =
     prog_bind (ws_Read n room L hnd m c r)
       (\<lambda>(res, c, r). case res of
          None \<Rightarrow> Return (None, c, r)
        | Some x \<Rightarrow> prog_bind (read_seq n room L hnd sizes c r) (\<lambda>(xs, c, r). Return (map_option ((#) x) xs, c, r)))"

lemma run_read_seq:
  assumes "reader_doc L (c_role c) pong pos" and "c_messageType c \<in> {Text, Binary}"
    and "reading pos c r bs w" and "w < n" and "list_all (\<lambda>m. 0 < m) sizes"
  shows "\<exists>rs c' r' out. run_ok (read_seq n room L hnd sizes c r) = ((Some rs, c', r'), out) \<and>
    list_all2 (\<lambda>m x. length (fst x) \<le> m) sizes rs \<and> prefix (concat (map fst rs)) bs \<and>
    (w \<le> length sizes \<longrightarrow> concat (map fst rs) = bs \<and> rs \<noteq> [] \<and> snd (last rs) = Some io_EOF)"
  using assms
proof (induction sizes arbitrary: c r bs w)
  case Nil
  then show ?case using reading_pos [OF Nil.prems(3)] by simp
next
  case (Cons m sizes)
  have m: "0 < m" using Cons.prems(5) by simp
  from run_read_loop [OF m Cons.prems(1,3,4), of room hnd] obtain b e c' r' out bs' w'
    where run: "run_ok (read_loop n room L hnd m c r) = ((Some (b, e), c', r'), out)" and b: "length b \<le> m" "bs = b @ bs'"
    and c': "c_messageType c' = c_messageType c" "c_role c' = c_role c" and rd: "reading pos c' r' bs' w'"
    and e: "e = None \<and> w' < w \<or> e = Some io_EOF \<and> b = [] \<and> bs = [] \<and> w' = 1"
    unfolding read_result_def by blast
  have wn: "w' < n" using e Cons.prems(4) reading_pos [OF Cons.prems(3)] by auto
  from Cons.IH [OF _ _ rd wn] Cons.prems(1,2,5) c' obtain rs c'' r'' out' where
    seq: "run_ok (read_seq n room L hnd sizes c' r') = ((Some rs, c'', r''), out')"
    and rs: "list_all2 (\<lambda>m x. length (fst x) \<le> m) sizes rs" "prefix (concat (map fst rs)) bs'"
      "w' \<le> length sizes \<longrightarrow> concat (map fst rs) = bs' \<and> rs \<noteq> [] \<and> snd (last rs) = Some io_EOF" by auto
  have "run_ok (read_seq n room L hnd (m # sizes) c r) = ((Some ((b, e) # rs), c'', r''), out @ out')"
    using run seq Cons.prems(2) by (auto simp: ws_Read_def run_bind)
  moreover have "w \<le> length (m # sizes) \<longrightarrow> concat (map fst ((b, e) # rs)) = bs \<and> snd (last ((b, e) # rs)) = Some io_EOF"
  proof (cases "w' \<le> length sizes")
    case True
    with rs(3) b(2) show ?thesis by simp
  next
    case False
    show ?thesis
    proof
      assume "w \<le> length (m # sizes)"
      with e False have "e = Some io_EOF" "b = []" "bs = []" "sizes = []"
        using reading_pos [OF rd] by (auto simp: not_le)
      with rs(1) show "concat (map fst ((b, e) # rs)) = bs \<and> snd (last ((b, e) # rs)) = Some io_EOF" by simp
    qed
  qed
  ultimately show ?case using b rs(1,2) by (intro exI [of _ "(b, e) # rs"]) auto
qed


section \<open>A message of the wrong type\<close>

lemma run_Read_spent:
  assumes "reader_doc L role pong pos" and "pos r = Spent ms" and "c_reader c" and "c_messageType c \<in> {Text, Binary}" and "1 < n"
  shows "\<exists>r'. run_ok (ws_Read n room L hnd m c r) = ((Some ([], Some ErrNoFrameAdvance), c, r'), []) \<and> pos r' = Spent ms"
proof -
  define k where "k = n - 2"
  then have n: "n = Suc (Suc k)" using assms(5) by simp
  from assms(1,2) obtain r' where r': "l_Read L m r = (RdData [] (Some ErrNoFrameAdvance), r')" "pos r' = Spent ms"
    unfolding reader_doc_def reader_reads_def by blast
  then have rd: "run_ok (reader_Read (Suc k) L hnd c m r) = ((Some ([], Some ErrNoFrameAdvance), r'), [])" by simp
  have "run_ok (read_body (Suc k) room L hnd m c r) = ((Some ([], Some ErrNoFrameAdvance), c, r'), [])"
    unfolding read_body_def run_bind rd by (simp add: io_EOF_def ErrNoFrameAdvance_def)
  then have "run_ok (ws_Read n room L hnd m c r) = ((Some ([], Some ErrNoFrameAdvance), c, r'), [])"
    unfolding n ws_Read_def read_loop_body [OF assms(3)] using assms(4) by auto
  with r'(2) show ?thesis by blast
qed

lemma run_read_seq_spent:
  assumes "reader_doc L role pong pos" and "pos r = Spent ms" and "c_reader c" and "c_messageType c \<in> {Text, Binary}" and "1 < n"
  shows "\<exists>r'. run_ok (read_seq n room L hnd sizes c r) =
    ((Some (replicate (length sizes) ([], Some ErrNoFrameAdvance)), c, r'), [])"
  using assms(2)
proof (induction sizes arbitrary: r)
  case (Cons m sizes)
  from run_Read_spent [OF assms(1) Cons.prems assms(3-5), of room hnd m] obtain r1
    where "run_ok (ws_Read n room L hnd m c r) = ((Some ([], Some ErrNoFrameAdvance), c, r1), [])" "pos r1 = Spent ms" by blast
  with Cons.IH [of r1] show ?case by (auto simp: run_bind)
qed simp

text \<open>C31. One message of the wrong type ends \<open>Read\<close> for good: the call that meets it returns an error and keeps the reader of
  the discarded message, so that every later call fails too, whatever messages follow.\<close>

theorem read_stuck_after_mismatch:
  assumes "reader_doc L (c_role c) pong pos" and "default_handlers c" and "c_messageType c \<in> {Text, Binary}"
    and "\<not> c_reader c" and "\<And>k. 0 < room k"
    and "list_all msg_ok (Data op ps # ms)" and "toMessageType op \<noteq> c_messageType c"
    and "at_stream pos r (Data op ps # ms)" and "msgs_weight (Data op ps # ms) < n"
  shows "\<exists>e c' r' out. run_ok (read_seq n room L hnd (m # sizes) c r) =
    ((Some (([], Some e) # replicate (length sizes) ([], Some ErrNoFrameAdvance)), c', r'), out)"
proof -
  obtain k where n: "n = Suc k" "2 < n" using assms(9) msgs_weight_pos [of ms] by (cases n) auto
  obtain h r1 where r1: "l_NextFrame L (l_newReader L (c_role c) r) = ((h, None), r1)" "h_OpCode h = op" "pos r1 = Body ps ms"
    using new_reader_pos [OF assms(1,8)] assms(1) unfolding reader_doc_def reader_moves_def by blast
  have "\<not> l_IsControl L op" using assms(1,6) unfolding reader_doc_def reader_controls_def by auto
  then have nx: "run_ok (NextMessageReader k L hnd c r) = ((Some (toMessageType op, None), r1), [])"
    using n r1 by (cases k) (simp_all add: NextMessageReader_def)
  have "weight ps < k" "parts_ok ps" using assms(6,9) n(1) by simp_all
  from run_ReadAll [where room = room and hnd = hnd and c = "c\<lparr>c_reader := True\<rparr>" and acc = "[]" and L = L and pong = pong
      and pos = pos, OF _ _ assms(5) this(2) r1(3) this(1)] assms(1,2)
  obtain r2 where r2: "run_ok (ReadAll k room L hnd (c\<lparr>c_reader := True\<rparr>) [] r1) = ((Some (payload ps, None), r2), part_replies pong ps)"
    "pos r2 = Spent ms" by (auto simp: default_handlers_def)
  obtain e where "run_ok (ws_Read n room L hnd m c r) = ((Some ([], Some e), c\<lparr>c_reader := True\<rparr>, r2), part_replies pong ps)"
    using read_loop_mismatch [OF assms(4) nx assms(7) r2(1), of m] assms(3) n(1)
    by (auto simp: ws_Read_def simp del: read_loop.simps)
  moreover from run_read_seq_spent [OF assms(1) r2(2), of "c\<lparr>c_reader := True\<rparr>" n room hnd sizes] assms(3) n(2)
  obtain r3 where "run_ok (read_seq n room L hnd sizes (c\<lparr>c_reader := True\<rparr>) r2) =
    ((Some (replicate (length sizes) ([], Some ErrNoFrameAdvance)), c\<lparr>c_reader := True\<rparr>, r3), [])" by auto
  ultimately show ?thesis by (auto simp: run_bind)
qed

section \<open>Instances\<close>

definition two_messages :: "msg list" where
  "two_messages = [Control OpPing [9], Data OpText [Bytes [1, 2], Inter OpPing [], Bytes [3]], Data OpBinary [Bytes [4]]]"


definition text_messages :: "msg list" where
  "text_messages = [Data OpText [], Control OpPing [9], Data OpText [Bytes [1, 2, 3]]]"


theorem read_stuck_after_mismatch_witness:
  "\<exists>e c' r' out. run_ok (read_seq 50 (\<lambda>_. 2) simple_lib (\<lambda>_ _. Return None) [8, 8] (simple_conn ServerSide False)
     (Before [Data OpBinary [Bytes [1]], Data OpText [Bytes [2]]])) =
     ((Some [([], Some e), ([], Some ErrNoFrameAdvance)], c', r'), out)"
  using read_stuck_after_mismatch [OF simple_lib_doc, where c = "simple_conn ServerSide False" and room = "\<lambda>_. 2" and op = OpBinary
      and ps = "[Bytes [1]]" and ms = "[Data OpText [Bytes [2]]]" and r = "Before [Data OpBinary [Bytes [1]], Data OpText [Bytes [2]]]"
      and n = 50 and m = 8 and sizes = "[8]" and hnd = "\<lambda>_ _. Return None"]
  by (simp add: simple_conn_def default_handlers_def at_stream_def toMessageType_def message_types)

end
