(* ===== verification/Udpservice.thy ===== *)
theory Udpservice
  imports Udpconn Options Tcpservice
begin

text \<open>
  Model of \<open>udpservice.go\<close>, of the UDP part of \<open>dialer.go\<close> and of \<open>ListenPackets\<close> (\<open>tnet.go\<close>): opening UDP
  connections, and a service that serves several connections on one address until they are all closed.

  Connections are shared by pointer, so the state has a heap of them. All connections of a service share one
  wait group: its counter is the number added by \<open>newUDPService\<close> plus what the connections have contributed
  by \<open>Done\<close>, which each keeps in \<open>uc_closeService\<close>.
\<close>

section \<open>State\<close>

record ('f, 'm, 'k) ustate =
  u_heap :: "nat \<Rightarrow> ('f, 'm) udpconn"
  u_next :: nat
  u_mem :: umem
  u_world :: "(string, nat, 'k) world"
  u_mgrs :: mgrs

definition u_conn :: "nat \<Rightarrow> ('f, 'm, 'k) ustate \<Rightarrow> ('f, 'm, string, nat, 'k) uds" where
  "u_conn p u = (u_heap u p, u_mem u, u_world u)"

definition u_put :: "nat \<Rightarrow> ('f, 'm, string, nat, 'k) uds \<Rightarrow> ('f, 'm, 'k) ustate \<Rightarrow> ('f, 'm, 'k) ustate" where
  "u_put p st u = (case st of (uc, m, w) \<Rightarrow> u\<lparr>u_heap := (u_heap u)(p := uc), u_mem := m, u_world := w\<rparr>)"

definition u_alloc :: "('f, 'm) udpconn \<Rightarrow> ('f, 'm, 'k) ustate \<Rightarrow> nat \<times> ('f, 'm, 'k) ustate" where
  "u_alloc uc u = (u_next u, u\<lparr>u_heap := (u_heap u)(u_next u := uc), u_next := u_next u + 1\<rparr>)"

definition u_kernel :: "('k \<Rightarrow> 'k) \<Rightarrow> ('f, 'm, 'k) ustate \<Rightarrow> ('f, 'm, 'k) ustate" where
  "u_kernel f u = u\<lparr>u_world := (u_world u)\<lparr>w_kernel := f (w_kernel (u_world u))\<rparr>\<rparr>"

type_synonym ('f, 'm, 'k) uclosed = "'f \<Rightarrow> ('f, 'm, string, nat, 'k) uds \<Rightarrow> ('f, 'm, string, nat, 'k) uds"

definition u_Close :: "'k ext \<Rightarrow> ('f, 'm, 'k) uclosed \<Rightarrow> nat \<Rightarrow> ('f, 'm, 'k) ustate \<Rightarrow> ('f, 'm, 'k) ustate option" where
  "u_Close X onClosed p u = map_option (\<lambda>st. u_put p st u) (udp_Close X onClosed (u_conn p u))"

text \<open>A new connection, as the composite literals of \<open>newUDPConn\<close> and \<open>dialUDP\<close> leave it.\<close>

definition make_udpconn :: "netFD \<Rightarrow> ('f, 'm) udpconn" where
  "make_udpconn nfd =
     \<lparr>uc_metaData = None, uc_reqHandle = None, uc_closeHandle = None, uc_inBuffer = [], uc_outBuffer = [], uc_nfd = nfd,
      uc_active = True, uc_nonblocking = False, uc_rtimer = None, uc_wtimer = None, uc_readTrigger = 0,
      uc_triggerClosed = False, uc_postpone = zero_postpone, uc_reading = unlocked, uc_writing = unlocked,
      uc_closeService = None, uc_sysRead = False\<rparr>"

section \<open>Opening connections\<close>

definition newUDPConn :: "'k ext \<Rightarrow> gosock \<Rightarrow> ('f, 'm, 'k) ustate \<Rightarrow> (err + nat) \<times> ('f, 'm, 'k) ustate" where
  "newUDPConn X listener u =
     (case GetFD listener of
        (fd, Some e) \<Rightarrow> (Inl e, u_kernel (n_sock_close (x_nsys X) (gs_fd listener)) u)
      | (fd, None) \<Rightarrow>
          (case u_alloc (make_udpconn (new_nfd fd fdUDP True (gs_network listener) (gs_laddr listener) None)) u of
             (p, u) \<Rightarrow> (Inr p, u)))"

definition NewPacketConn :: "'k ext \<Rightarrow> gosock \<Rightarrow> ('f, 'm, 'k) ustate \<Rightarrow> (err + nat) \<times> ('f, 'm, 'k) ustate" where
  "NewPacketConn X conn u =
     (case ValidateUDP (gs_network conn) of Some e \<Rightarrow> (Inl e, u) | None \<Rightarrow> newUDPConn X conn u)"

text \<open>\<open>listenUDP\<close>: \<open>listen\<close> is \<open>net.ListenPacket\<close> or, with \<open>reuseport\<close>, that of \<open>go_reuseport\<close>; \<open>str\<close> is the \<open>String\<close>
  method of addresses. The loop runs once, or once per poller.\<close>

type_synonym 'k listen_packet = "string \<Rightarrow> string \<Rightarrow> 'k \<Rightarrow> (err + gosock) \<times> 'k"

fun listen_loop :: "'k ext \<Rightarrow> 'k listen_packet \<Rightarrow> (net_addr \<Rightarrow> string) \<Rightarrow> string \<Rightarrow> nat \<Rightarrow> string \<Rightarrow> nat list \<Rightarrow>
    ('f, 'm, 'k) ustate \<Rightarrow> (err + nat list) \<times> ('f, 'm, 'k) ustate" where
  "listen_loop X listen str network 0 address lns u = (Inr lns, u)"
| "listen_loop X listen str network (Suc n) address lns u =
     (case listen network address (w_kernel (u_world u)) of
        (Inl e, k) \<Rightarrow> (Inl e, u_kernel (\<lambda>_. k) u)
      | (Inr raw, k) \<Rightarrow>
          (case newUDPConn X raw (u_kernel (\<lambda>_. k) u) of
             (Inl e, u) \<Rightarrow> (Inl e, u)
           | (Inr p, u) \<Rightarrow> listen_loop X listen str network n (str (gs_laddr raw)) (lns @ [p]) u))"

definition listenUDP :: "'k ext \<Rightarrow> (bool \<Rightarrow> 'k listen_packet) \<Rightarrow> (net_addr \<Rightarrow> string) \<Rightarrow> string \<Rightarrow> string \<Rightarrow> bool \<Rightarrow>
    ('f, 'm, 'k) ustate \<Rightarrow> (err + nat list) \<times> ('f, 'm, 'k) ustate" where
  "listenUDP X listenPacket str network address reuseport u =
     listen_loop X (listenPacket reuseport) str network
       (if reuseport then nat (pm_NumPollers lb_Len (fst (u_mgrs u))) else 1) address [] u"

definition ListenPackets :: "'k ext \<Rightarrow> (bool \<Rightarrow> 'k listen_packet) \<Rightarrow> (net_addr \<Rightarrow> string) \<Rightarrow> string \<Rightarrow> string \<Rightarrow> bool \<Rightarrow>
    ('f, 'm, 'k) ustate \<Rightarrow> (err + nat list) \<times> ('f, 'm, 'k) ustate" where
  "ListenPackets X listenPacket str network address reuseport u = listenUDP X listenPacket str network address reuseport u"

definition u_schedule :: "'k ext \<Rightarrow> nat \<Rightarrow> ('f, 'm, 'k) ustate \<Rightarrow> err option \<times> ('f, 'm, 'k) ustate" where
  "u_schedule X p u =
     (case udp_schedule X ''udpOnRead'' ''udpOnWrite'' p (u_mgrs u) (u_conn p u) of
        (e, ms, st) \<Rightarrow> (e, (u_put p st u)\<lparr>u_mgrs := ms\<rparr>))"

definition dialUDP :: "'k ext \<Rightarrow> 'k lsys \<Rightarrow> ('f, 'm, 'k) uclosed \<Rightarrow> string \<Rightarrow> string \<Rightarrow> int \<Rightarrow> ('f, 'm, 'k) ustate \<Rightarrow>
    ((err + nat) \<times> ('f, 'm, 'k) ustate) option" where
  "dialUDP X L onClosed network address timeout u =
     (case l_dial L network address timeout (w_kernel (u_world u)) of
        (Inl e, k) \<Rightarrow> Some (Inl e, u_kernel (\<lambda>_. k) u)
      | (Inr c, k) \<Rightarrow>
          let u = u_kernel (\<lambda>_. k) u in
          (case GetFD c of
             (fd, Some e) \<Rightarrow> Some (Inl e, u_kernel (n_sock_close (x_nsys X) (gs_fd c)) u)
           | (fd, None) \<Rightarrow>
               let (p, u) = u_alloc (make_udpconn (new_nfd fd fdUDP True network (gs_laddr c) (gs_raddr c))) u in
               (case u_schedule X p u of
                  (Some e, u) \<Rightarrow> map_option (\<lambda>u. (Inl e, u)) (u_Close X onClosed p u)
                | (None, u) \<Rightarrow> Some (Inr p, u))))"

definition DialUDP :: "'k ext \<Rightarrow> 'k lsys \<Rightarrow> ('f, 'm, 'k) uclosed \<Rightarrow> string \<Rightarrow> string \<Rightarrow> int \<Rightarrow> ('f, 'm, 'k) ustate \<Rightarrow>
    ((err + nat) \<times> ('f, 'm, 'k) ustate) option" where
  "DialUDP X L onClosed network address timeout u =
     (if network \<notin> {''udp'', ''udp4'', ''udp6''} then Some (Inl (ErrText (''DialUDP: unknown network '' @ network)), u)
      else dialUDP X L onClosed network address timeout u)"

section \<open>The service\<close>

text \<open>A listener is a connection of this package or another implementation of \<open>PacketConn\<close>, of which only the
  address is known.\<close>

datatype packet_conn = OurConn nat | OtherConn net_addr

definition pc_LocalAddr :: "('f, 'm, 'k) ustate \<Rightarrow> packet_conn \<Rightarrow> net_addr" where
  "pc_LocalAddr u ln = (case ln of OurConn p \<Rightarrow> udp_LocalAddr (u_heap u p) | OtherConn a \<Rightarrow> a)"

fun same_address :: "(net_addr \<Rightarrow> string) \<Rightarrow> net_addr \<Rightarrow> net_addr list \<Rightarrow> err option" where
  "same_address str first [] = None"
| "same_address str first (a # as) =
     (if str a \<noteq> str first then Some (ErrText (''listeners have different local address: '' @ str first @ '', '' @ str a))
      else same_address str first as)"

definition validateListeners :: "(net_addr \<Rightarrow> string) \<Rightarrow> packet_conn list \<Rightarrow> ('f, 'm, 'k) ustate \<Rightarrow> err option" where
  "validateListeners str lns u =
     (case map (pc_LocalAddr u) lns of
        [] \<Rightarrow> Some (ErrText ''listeners can't be nil'')
      | first # as \<Rightarrow> same_address str first as)"

record 'f udpservice =
  us_reqHandle :: "'f option"
  us_conns :: "nat list"
  us_opts :: "'f options"
  us_added :: nat

definition attach_conn :: "'f options \<Rightarrow> ('f, 'm) udpconn \<Rightarrow> ('f, 'm) udpconn" where
  "attach_conn opts uc =
     (SetExactUDPBufferSizeEnabled (op_exactUDPBufferSizeEnabled opts)
        (SetMaxPacketSize (op_maxUDPPacketSize opts) uc))\<lparr>uc_closeService := Some 0\<rparr>"

fun attach_conns :: "packet_conn list \<Rightarrow> 'f udpservice \<Rightarrow> ('f, 'm, 'k) ustate \<Rightarrow>
    (err + 'f udpservice) \<times> ('f, 'm, 'k) ustate" where
  "attach_conns [] s u = (Inr s, u)"
| "attach_conns (ln # lns) s u =
     (case ln of
        OtherConn _ \<Rightarrow> (Inl (ErrText ''listeners are not of udpconn type''), u)
      | OurConn p \<Rightarrow>
          attach_conns lns (s\<lparr>us_conns := us_conns s @ [p]\<rparr>)
            (u\<lparr>u_heap := (u_heap u)(p := attach_conn (us_opts s) (u_heap u p))\<rparr>))"

definition newUDPService :: "packet_conn list \<Rightarrow> 'f option \<Rightarrow> 'f Option list \<Rightarrow> ('f, 'm, 'k) ustate \<Rightarrow>
    (err + 'f udpservice) \<times> ('f, 'm, 'k) ustate" where
  "newUDPService lns handler opt u =
     attach_conns lns \<lparr>us_reqHandle = handler, us_conns = [], us_opts = apply_options opt, us_added = length lns\<rparr> u"

definition NewUDPService :: "(net_addr \<Rightarrow> string) \<Rightarrow> packet_conn list \<Rightarrow> 'f option \<Rightarrow> 'f Option list \<Rightarrow> ('f, 'm, 'k) ustate \<Rightarrow>
    (err + 'f udpservice) \<times> ('f, 'm, 'k) ustate" where
  "NewUDPService str lns handler opt u =
     (case validateListeners str lns u of Some e \<Rightarrow> (Inl e, u) | None \<Rightarrow> newUDPService lns handler opt u)"

text \<open>The counter of the wait group, and the loop that closes the connections (the error of \<open>udpconn.Close\<close> is
  always nil).\<close>

definition allConnClosed :: "'f udpservice \<Rightarrow> ('f, 'm, 'k) ustate \<Rightarrow> int" where
  "allConnClosed s u =
     int (us_added s) + sum_list (map (\<lambda>p. case uc_closeService (u_heap u p) of None \<Rightarrow> 0 | Some d \<Rightarrow> d) (us_conns s))"

fun us_close :: "'k ext \<Rightarrow> ('f, 'm, 'k) uclosed \<Rightarrow> nat list \<Rightarrow> ('f, 'm, 'k) ustate \<Rightarrow> ('f, 'm, 'k) ustate option" where
  "us_close X onClosed [] u = Some u"
| "us_close X onClosed (p # ps) u = Option.bind (u_Close X onClosed p u) (us_close X onClosed ps)"

text \<open>The loop at the start of \<open>Serve\<close>.\<close>

definition serve_conn :: "'k ext \<Rightarrow> 'f udpservice \<Rightarrow> nat \<Rightarrow> ('f, 'm, 'k) ustate \<Rightarrow> err option \<times> ('f, 'm, 'k) ustate" where
  "serve_conn X s p u =
     (case udp_SetOnRequest (us_reqHandle s) (u_heap u p) of
        (Some e, uc) \<Rightarrow> (Some e, u\<lparr>u_heap := (u_heap u)(p := uc)\<rparr>)
      | (None, uc) \<Rightarrow>
          let uc = udp_SetNonBlocking (op_nonblocking (us_opts s)) uc;
              uc = (case op_onUDPClosed (us_opts s) of None \<Rightarrow> uc | Some f \<Rightarrow> snd (udp_SetOnClosed (Some f) uc))
          in u_schedule X p (u\<lparr>u_heap := (u_heap u)(p := uc)\<rparr>))"

fun serve_conns :: "'k ext \<Rightarrow> 'f udpservice \<Rightarrow> nat list \<Rightarrow> ('f, 'm, 'k) ustate \<Rightarrow> err option \<times> ('f, 'm, 'k) ustate" where
  "serve_conns X s [] u = (None, u)"
| "serve_conns X s (p # ps) u =
     (case serve_conn X s p u of (Some e, u) \<Rightarrow> (Some e, u) | (None, u) \<Rightarrow> serve_conns X s ps u)"

text \<open>\<open>Serve\<close> up to its \<open>select\<close>: it returns an error with every connection closed, or waits.\<close>

definition us_Serve_start :: "'k ext \<Rightarrow> ('f, 'm, 'k) uclosed \<Rightarrow> 'f udpservice \<Rightarrow> ('f, 'm, 'k) ustate \<Rightarrow>
    (err option \<times> ('f, 'm, 'k) ustate) option" where
  "us_Serve_start X onClosed s u =
     (case serve_conns X s (us_conns s) u of
        (Some e, u) \<Rightarrow> map_option (\<lambda>u. (Some e, u)) (us_close X onClosed (us_conns s) u)
      | (None, u) \<Rightarrow> Some (None, u))"

text \<open>What ends the \<open>select\<close>: the context, or the wait group. The inner option is \<open>None\<close> while neither is ready;
  \<open>ctx_first\<close> is the choice when both are.\<close>

definition us_Serve_end :: "'k ext \<Rightarrow> ('f, 'm, 'k) uclosed \<Rightarrow> bool \<Rightarrow> err option \<Rightarrow> 'f udpservice \<Rightarrow> ('f, 'm, 'k) ustate \<Rightarrow>
    (err option \<times> ('f, 'm, 'k) ustate) option" where
  "us_Serve_end X onClosed ctx_first ctx s u =
     (let finished = (allConnClosed s u = 0) in
      case ctx of
        Some e \<Rightarrow>
          map_option (\<lambda>u. (Some (if finished \<and> \<not> ctx_first then ErrText ''all connection is closed'' else e), u))
            (us_close X onClosed (us_conns s) u)
      | None \<Rightarrow>
          if finished then
            map_option (\<lambda>u. (Some (ErrText ''all connection is closed''), u)) (us_close X onClosed (us_conns s) u)
          else Some (None, u))"

text \<open>\<open>Restart\<close>; \<open>start\<close> starts the new process with its environment and the descriptor of the first connection.\<close>

definition us_Restart :: "'k ext \<Rightarrow> ('f, 'm, 'k) uclosed \<Rightarrow> (string list \<Rightarrow> int \<Rightarrow> 'k \<Rightarrow> err option \<times> 'k) \<Rightarrow> string list \<Rightarrow>
    'f udpservice \<Rightarrow> ('f, 'm, 'k) ustate \<Rightarrow> (err option \<times> ('f, 'm, 'k) ustate) option" where
  "us_Restart X onClosed start env s u =
     (case us_conns s of
        [] \<Rightarrow> Some (Some (ErrText ''no UDP conn to restart''), u)
      | p # ps \<Rightarrow>
          (case start (cleanAndAppendEnv env gracefulRestartFDEnv gracefulRestartFD) (nf_fd (uc_nfd (u_heap u p)))
                  (w_kernel (u_world u)) of
             (Some e, k) \<Rightarrow> Some (Some e, u_kernel (\<lambda>_. k) u)
           | (None, k) \<Rightarrow> map_option (\<lambda>u. (None, u)) (us_close X onClosed (us_conns s) (u_kernel (\<lambda>_. k) u))))"

section \<open>Listening\<close>

text \<open>What \<open>ListenPacket\<close> is relied on for: listening on the address of a socket that is already bound gives a socket on the
  same address.\<close>

definition listen_doc :: "'k listen_packet \<Rightarrow> (net_addr \<Rightarrow> string) \<Rightarrow> string \<Rightarrow> bool" where
  "listen_doc listen str network \<longleftrightarrow>
     (\<forall>a k raw k'. listen network (str a) k = (Inr raw, k') \<longrightarrow> str (gs_laddr raw) = str a)"

lemma newUDPConn_heap:
  assumes "newUDPConn X raw u = (Inr p, u')"
  shows "p = u_next u" and "u_next u' = u_next u + 1" and "u_mgrs u' = u_mgrs u"
    and "u_heap u' = (u_heap u)(u_next u := u_heap u' (u_next u))"
    and "udp_LocalAddr (u_heap u' (u_next u)) = gs_laddr raw"
    and "uc_active (u_heap u' (u_next u)) \<and> \<not> nf_closed (uc_nfd (u_heap u' (u_next u)))"
  using assms
  by (auto simp: newUDPConn_def u_alloc_def make_udpconn_def udp_LocalAddr_def nfd_LocalAddr_def new_nfd_def
      split: prod.splits option.splits)

lemma newUDPConn_error: "newUDPConn X raw u = (Inl e, u') \<Longrightarrow> u_heap u' = u_heap u \<and> u_next u' = u_next u"
  by (auto simp: newUDPConn_def u_alloc_def u_kernel_def split: prod.splits option.splits)

lemma u_kernel_frame [simp]:
  "u_heap (u_kernel f u) = u_heap u" "u_next (u_kernel f u) = u_next u" "u_mgrs (u_kernel f u) = u_mgrs u"
  by (simp_all add: u_kernel_def)

text \<open>The loop adds connections at the end of the heap, all of them open, also when it fails.\<close>

definition opened :: "nat \<Rightarrow> ('f, 'm, 'k) ustate \<Rightarrow> ('f, 'm, 'k) ustate \<Rightarrow> bool" where
  "opened a u u' \<longleftrightarrow> a \<le> u_next u' \<and> (\<forall>p. p < a \<longrightarrow> u_heap u' p = u_heap u p) \<and>
     (\<forall>p. a \<le> p \<and> p < u_next u' \<longrightarrow> uc_active (u_heap u' p) \<and> \<not> nf_closed (uc_nfd (u_heap u' p)))"

lemma opened_Suc:
  assumes "opened (u_next u + 1) u1 u'" and h: "u_heap u1 = (u_heap u)(u_next u := u_heap u1 (u_next u))"
    and x: "uc_active (u_heap u1 (u_next u)) \<and> \<not> nf_closed (uc_nfd (u_heap u1 (u_next u)))"
  shows "opened (u_next u) u u'"
proof -
  have same: "u_heap u' p = u_heap u1 p" if "p < u_next u + 1" for p
    using assms(1) that by (simp add: opened_def)
  have before: "u_heap u1 p = u_heap u p" if "p < u_next u" for p
    by (subst h) (use that in simp)
  show ?thesis
    unfolding opened_def
  proof (intro conjI allI impI)
    show "u_next u \<le> u_next u'" using assms(1) by (simp add: opened_def)
    show "u_heap u' p = u_heap u p" if "p < u_next u" for p
      using same [of p] before [of p] that by simp
    fix p
    assume p: "u_next u \<le> p \<and> p < u_next u'"
    have "uc_active (u_heap u' p) \<and> \<not> nf_closed (uc_nfd (u_heap u' p))"
    proof (cases "p = u_next u")
      case True
      with same [of p] x show ?thesis by simp
    next
      case False
      with p assms(1) show ?thesis by (simp add: opened_def)
    qed
    then show "uc_active (u_heap u' p)" and "\<not> nf_closed (uc_nfd (u_heap u' p))" by simp_all
  qed
qed

lemma listen_loop_opened:
  "listen_loop X listen str network n address lns u = (res, u') \<Longrightarrow> opened (u_next u) u u'"
proof (induction n arbitrary: address lns u)
  case 0
  then show ?case by (auto simp: opened_def)
next
  case (Suc n)
  obtain r k where l: "listen network address (w_kernel (u_world u)) = (r, k)"
    by (cases "listen network address (w_kernel (u_world u))")
  show ?case
  proof (cases r)
    case (Inl e)
    with Suc.prems l show ?thesis by (auto simp: opened_def)
  next
    case (Inr raw)
    obtain q u1 where nc: "newUDPConn X raw (u_kernel (\<lambda>_. k) u) = (q, u1)"
      by (cases "newUDPConn X raw (u_kernel (\<lambda>_. k) u)")
    show ?thesis
    proof (cases q)
      case (Inl e)
      with Suc.prems l Inr nc newUDPConn_error [of X raw "u_kernel (\<lambda>_. k) u" e u1] show ?thesis
        by (auto simp: opened_def)
    next
      case q: (Inr p)
      note h = newUDPConn_heap [OF nc [unfolded q], simplified]
      from Suc.prems l Inr nc q
      have "listen_loop X listen str network n (str (gs_laddr raw)) (lns @ [p]) u1 = (res, u')" by simp
      from Suc.IH [OF this] h(2,4,6) show ?thesis
        by (intro opened_Suc [of u u1]) simp_all
    qed
  qed
qed

text \<open>On success the connections are those opened, and from the second on they have the address of the one before.\<close>

lemma listen_loop_addresses:
  assumes doc: "listen_doc listen str network"
    and "listen_loop X listen str network n (str a) lns u = (Inr ps, u')"
    and "\<forall>p\<in>set lns. p < u_next u \<and> uc_active (u_heap u p) \<and> str (udp_LocalAddr (u_heap u p)) = str a" and "distinct lns"
  shows "length ps = length lns + n \<and> distinct ps \<and>
    (\<forall>p\<in>set ps. p < u_next u' \<and> uc_active (u_heap u' p) \<and> str (udp_LocalAddr (u_heap u' p)) = str a)"
  using assms(2-4)
proof (induction n arbitrary: lns u)
  case (Suc n)
  obtain raw k where l: "listen network (str a) (w_kernel (u_world u)) = (Inr raw, k)"
    using Suc.prems(1) by (auto split: prod.splits sum.splits)
  obtain p u1 where nc: "newUDPConn X raw (u_kernel (\<lambda>_. k) u) = (Inr p, u1)"
    using Suc.prems(1) l by (auto split: prod.splits sum.splits)
  note h = newUDPConn_heap [OF nc, simplified]
  have addr: "str (gs_laddr raw) = str a" using doc l unfolding listen_doc_def by blast
  have "listen_loop X listen str network n (str a) (lns @ [p]) u1 = (Inr ps, u')"
    using Suc.prems(1) l nc addr by simp
  moreover have "\<forall>q\<in>set (lns @ [p]). q < u_next u1 \<and> uc_active (u_heap u1 q) \<and> str (udp_LocalAddr (u_heap u1 q)) = str a"
    using Suc.prems(2) h addr by (auto simp: fun_upd_def split: if_splits) (metis fun_upd_other less_irrefl)+
  moreover have "distinct (lns @ [p])" using Suc.prems(2,3) h(1) by auto
  ultimately show ?case using Suc.IH [of "lns @ [p]" u1] by simp
qed auto

text \<open>The connections of \<open>ListenPackets\<close> belong together: with any number of pollers, and also on a random port, there is
  one connection (or one per poller), they are different, open and pass the check of \<open>NewUDPService\<close> that they listen on one
  address.\<close>

theorem listeners_share_address:
  assumes "listen_doc (lp reuseport) str network"
    and "ListenPackets X lp str network address reuseport u = (Inr ps, u')"
    and "reuseport \<longrightarrow> 0 < pm_NumPollers lb_Len (fst (u_mgrs u))"
  shows "validateListeners str (map OurConn ps) u' = None \<and> distinct ps \<and>
    int (length ps) = (if reuseport then pm_NumPollers lb_Len (fst (u_mgrs u)) else 1) \<and>
    (\<forall>p\<in>set ps. uc_active (u_heap u' p))"
proof -
  let ?n = "if reuseport then nat (pm_NumPollers lb_Len (fst (u_mgrs u))) else 1"
  obtain n where n: "?n = Suc n" using assms(3) by (cases "?n") (auto split: if_splits)
  have loop: "listen_loop X (lp reuseport) str network (Suc n) address [] u = (Inr ps, u')"
    using assms(2) n by (simp add: ListenPackets_def listenUDP_def)
  obtain raw k where l: "lp reuseport network address (w_kernel (u_world u)) = (Inr raw, k)"
    using loop by (auto split: prod.splits sum.splits)
  obtain p u1 where nc: "newUDPConn X raw (u_kernel (\<lambda>_. k) u) = (Inr p, u1)"
    using loop l by (auto split: prod.splits sum.splits)
  note h = newUDPConn_heap [OF nc, simplified]
  have "listen_loop X (lp reuseport) str network n (str (gs_laddr raw)) [p] u1 = (Inr ps, u')"
    using loop l nc by simp
  from listen_loop_addresses [OF assms(1) this] h(1,2,5,6)
  have res: "length ps = Suc n" "distinct ps" "\<And>q. q \<in> set ps \<Longrightarrow> uc_active (u_heap u' q) \<and> str (udp_LocalAddr (u_heap u' q)) = str (gs_laddr raw)"
    by auto
  have same: "same_address str first as = None" if "\<forall>a\<in>set as. str a = str first" for first as
    using that by (induction as) auto
  obtain q qs where ps: "ps = q # qs" using res(1) by (cases ps) auto
  have "validateListeners str (map OurConn ps) u' = None"
    unfolding validateListeners_def ps using res(3) [unfolded ps] by (auto simp: pc_LocalAddr_def intro!: same)
  moreover have "int (length ps) = (if reuseport then pm_NumPollers lb_Len (fst (u_mgrs u)) else 1)"
    using res(1) n assms(3) by (auto split: if_splits)
  ultimately show ?thesis using res(2,3) by blast
qed

text \<open>A failure of \<open>ListenPackets\<close> leaks: when it returns an error, every connection it has opened before is still open, and
  nobody has a pointer to it.\<close>

theorem listen_error_leaks:
  assumes "ListenPackets X lp str network address reuseport u = (Inl e, u')" and "u_next u \<le> p" and "p < u_next u'"
  shows "uc_active (u_heap u' p) \<and> \<not> nf_closed (uc_nfd (u_heap u' p))"
  using listen_loop_opened assms unfolding ListenPackets_def listenUDP_def opened_def by blast

section \<open>Closing\<close>

text \<open>What may happen to the connections of a service: a close, or another operation, which leaves the flag and the wait group
  alone. The closing handler of the user cannot change them either.\<close>

datatype ('f, 'm, 'k) uevent = UClose nat | UOther "('f, 'm, 'k) ustate \<Rightarrow> ('f, 'm, 'k) ustate"

definition same_close :: "('f, 'm) udpconn \<Rightarrow> ('f, 'm) udpconn \<Rightarrow> bool" where
  "same_close uc uc' \<longleftrightarrow> uc_active uc' = uc_active uc \<and> uc_closeService uc' = uc_closeService uc"

definition quiet_closed :: "('f, 'm, 'k) uclosed \<Rightarrow> bool" where
  "quiet_closed onClosed \<longleftrightarrow> (\<forall>f st. same_close (fst st) (fst (onClosed f st)))"

fun quiet_event :: "('f, 'm, 'k) uevent \<Rightarrow> bool" where
  "quiet_event (UClose p) = True"
| "quiet_event (UOther g) = (\<forall>u p. same_close (u_heap u p) (u_heap (g u) p))"

fun u_run :: "'k ext \<Rightarrow> ('f, 'm, 'k) uclosed \<Rightarrow> ('f, 'm, 'k) uevent list \<Rightarrow> ('f, 'm, 'k) ustate \<Rightarrow> ('f, 'm, 'k) ustate option" where
  "u_run X onClosed [] u = Some u"
| "u_run X onClosed (UClose p # es) u = Option.bind (u_Close X onClosed p u) (u_run X onClosed es)"
| "u_run X onClosed (UOther g # es) u = u_run X onClosed es (g u)"

text \<open>A connection of a service has taken one from the wait group exactly when it is closed.\<close>

definition attached :: "nat list \<Rightarrow> ('f, 'm, 'k) ustate \<Rightarrow> bool" where
  "attached ps u \<longleftrightarrow> (\<forall>p\<in>set ps. uc_closeService (u_heap u p) = Some (if uc_active (u_heap u p) then 0 else -1))"

lemma u_Close_effect:
  assumes "quiet_closed onClosed" and "u_Close X onClosed p u = Some u'"
  shows "\<not> uc_active (u_heap u' p) \<and> (\<forall>q. q \<noteq> p \<longrightarrow> u_heap u' q = u_heap u q) \<and>
    uc_closeService (u_heap u' p) =
      (if uc_active (u_heap u p) then map_option (\<lambda>n. n - 1) (uc_closeService (u_heap u p)) else uc_closeService (u_heap u p))"
proof (cases "uc_active (u_heap u p)")
  case False
  with assms(2) show ?thesis by (auto simp: u_Close_def u_conn_def udp_Close_def u_put_def)
next
  case True
  let ?st = "((u_heap u p)\<lparr>uc_active := False, uc_triggerClosed := True\<rparr>, u_mem u, u_world u)"
  define st where "st = (case uc_closeHandle (u_heap u p) of None \<Rightarrow> ?st | Some f \<Rightarrow> onClosed f ?st)"
  have q: "same_close (fst ?st) (fst st)"
    using assms(1) unfolding st_def quiet_closed_def by (auto simp: same_close_def split: option.splits)
  obtain uc m w where s: "st = (uc, m, w)" by (cases st)
  from assms(2) True have nr: "\<not> uc_sysRead (u_heap u p)"
    by (auto simp: u_Close_def u_conn_def udp_Close_def)
  show ?thesis
    using assms(2) True nr q s
    by (auto simp: u_Close_def u_conn_def udp_Close_def u_put_def st_def [symmetric] same_close_def Let_def split: prod.splits)
qed

lemma attached_Close:
  assumes "quiet_closed onClosed" and "u_Close X onClosed p u = Some u'" and "attached ps u"
  shows "attached ps u'"
  unfolding attached_def
proof
  fix q
  assume "q \<in> set ps"
  with assms(3) have q: "uc_closeService (u_heap u q) = Some (if uc_active (u_heap u q) then 0 else -1)" by (simp add: attached_def)
  show "uc_closeService (u_heap u' q) = Some (if uc_active (u_heap u' q) then 0 else -1)"
    using u_Close_effect [OF assms(1,2)] q by (cases "q = p") auto
qed

lemma attached_same: "attached ps u \<Longrightarrow> \<forall>p. same_close (u_heap u p) (u_heap u' p) \<Longrightarrow> attached ps u'"
  by (simp add: attached_def same_close_def)

lemma attached_run:
  assumes "quiet_closed onClosed" and "list_all quiet_event es" and "u_run X onClosed es u = Some u'" and "attached ps u"
  shows "attached ps u'"
  using assms(2-4)
proof (induction es arbitrary: u)
  case (Cons e es)
  show ?case
  proof (cases e)
    case (UClose p)
    with Cons attached_Close [OF assms(1)] show ?thesis by (auto simp: bind_eq_Some_conv)
  next
    case (UOther g)
    with Cons.prems(1,3) have "attached ps (g u)" by (auto intro: attached_same)
    with Cons UOther show ?thesis by auto
  qed
qed simp

lemma attached_count:
  assumes "attached ps u" and "us_conns s = ps" and "us_added s = length ps"
  shows "allConnClosed s u = int (length (filter (\<lambda>p. uc_active (u_heap u p)) ps))"
proof -
  have "sum_list (map (\<lambda>p. case uc_closeService (u_heap u p) of None \<Rightarrow> 0 | Some d \<Rightarrow> d) qs) =
      int (length (filter (\<lambda>p. uc_active (u_heap u p)) qs)) - int (length qs)" if "set qs \<subseteq> set ps" for qs
    using that assms(1) by (induction qs) (auto simp: attached_def)
  with assms(2,3) show ?thesis by (simp add: allConnClosed_def)
qed

lemma us_close_all:
  assumes "quiet_closed onClosed" and "us_close X onClosed ps u = Some u'"
  shows "(\<forall>p\<in>set ps. \<not> uc_active (u_heap u' p)) \<and> (\<forall>p. \<not> uc_active (u_heap u p) \<longrightarrow> \<not> uc_active (u_heap u' p)) \<and>
    (\<forall>qs. attached qs u \<longrightarrow> attached qs u')"
  using assms(2)
proof (induction ps arbitrary: u)
  case (Cons p ps)
  then obtain u1 where u1: "u_Close X onClosed p u = Some u1" "us_close X onClosed ps u1 = Some u'"
    by (auto simp: bind_eq_Some_conv)
  have "\<not> uc_active (u_heap u1 q)" if "\<not> uc_active (u_heap u q)" for q
    using u_Close_effect [OF assms(1) u1(1)] that by (cases "q = p") auto
  with Cons.IH [OF u1(2)] u_Close_effect [OF assms(1) u1(1)] attached_Close [OF assms(1) u1(1)] show ?case by auto
qed simp

lemma attach_conns_result:
  assumes "attach_conns (map OurConn ps) s u = (Inr s', u')" and "distinct ps" and "\<forall>p\<in>set ps. uc_active (u_heap u p)"
  shows "us_conns s' = us_conns s @ ps \<and> us_added s' = us_added s \<and> attached ps u' \<and> (\<forall>p. p \<notin> set ps \<longrightarrow> u_heap u' p = u_heap u p)"
  using assms
proof (induction ps arbitrary: s u)
  case (Cons p ps)
  let ?u = "u\<lparr>u_heap := (u_heap u)(p := attach_conn (us_opts s) (u_heap u p))\<rparr>"
  have active: "\<forall>q\<in>set ps. uc_active (u_heap ?u q)" using Cons.prems(2,3) by auto
  from Cons.prems(1) have "attach_conns (map OurConn ps) (s\<lparr>us_conns := us_conns s @ [p]\<rparr>) ?u = (Inr s', u')" by simp
  from Cons.IH [OF this _ active] Cons.prems(2,3) show ?case
    by (auto simp: attached_def attach_conn_def SetExactUDPBufferSizeEnabled_def SetMaxPacketSize_def)
qed (auto simp: attached_def)

text \<open>The loop of \<open>Serve\<close> is quiet.\<close>

lemma u_schedule_same: "u_schedule X p u = (e, u') \<Longrightarrow> same_close (u_heap u q) (u_heap u' q)"
  by (auto simp: u_schedule_def udp_schedule_def u_conn_def u_put_def same_close_def split: prod.splits if_splits)

lemma serve_conn_same:
  assumes "serve_conn X s p u = (e, u')"
  shows "same_close (u_heap u q) (u_heap u' q)"
proof -
  show ?thesis
    using assms unfolding serve_conn_def udp_SetOnRequest_def udp_SetNonBlocking_def udp_SetOnClosed_def Let_def
    by (auto simp: same_close_def split: option.splits if_splits
        dest!: u_schedule_same [where q = q])
qed

lemma serve_conns_same: "serve_conns X s ps u = (e, u') \<Longrightarrow> same_close (u_heap u q) (u_heap u' q)"
proof (induction ps arbitrary: u)
  case (Cons p ps)
  then show ?case
    by (auto simp: same_close_def split: prod.splits option.splits dest: serve_conn_same [where q = q])
qed (simp add: same_close_def)

text \<open>C15. The wait group of a UDP service counts its open connections: in any history of its connections, closes in any order and
  any number of times included, the counter is the number of connections that are open, so it never becomes negative
  and the wait of \<open>Serve\<close> ends exactly when they are all closed; when \<open>Serve\<close> returns, they all are.\<close>

theorem udp_wait_group:
  assumes "quiet_closed onClosed" and "newUDPService (map OurConn ps) handler opt u = (Inr s, u0)"
    and "distinct ps" and "\<forall>p\<in>set ps. uc_active (u_heap u p)"
    and "us_Serve_start X onClosed s u0 = Some (None, us)"
    and "list_all quiet_event es" and "u_run X onClosed es us = Some u1"
  shows "allConnClosed s u1 = int (length (filter (\<lambda>p. uc_active (u_heap u1 p)) ps)) \<and>
    (us_Serve_end X onClosed b ctx s u1 = Some (Some e, u2) \<longrightarrow>
       (ctx \<noteq> None \<or> (\<forall>p\<in>set ps. \<not> uc_active (u_heap u1 p))) \<and>
       (\<forall>p\<in>set ps. \<not> uc_active (u_heap u2 p)) \<and> allConnClosed s u2 = 0)"
proof -
  have s: "us_conns s = ps" "us_added s = length ps" and at: "attached ps u0"
    using attach_conns_result [OF assms(2) [unfolded newUDPService_def] assms(3,4)] by simp_all
  have "serve_conns X s (us_conns s) u0 = (None, us)"
    using assms(5) by (auto simp: us_Serve_start_def split: prod.splits option.splits)
  from serve_conns_same [OF this] at have "attached ps us" by (auto intro: attached_same)
  note at1 = attached_run [OF assms(1,6,7) this]
  note n1 = attached_count [OF at1 s]
  have "(ctx \<noteq> None \<or> (\<forall>p\<in>set ps. \<not> uc_active (u_heap u1 p))) \<and>
       (\<forall>p\<in>set ps. \<not> uc_active (u_heap u2 p)) \<and> allConnClosed s u2 = 0"
    if "us_Serve_end X onClosed b ctx s u1 = Some (Some e, u2)"
  proof -
    have cl: "us_close X onClosed ps u1 = Some u2" "ctx \<noteq> None \<or> allConnClosed s u1 = 0"
      using that s(1) by (auto simp: us_Serve_end_def Let_def split: option.splits if_splits)
    note a = us_close_all [OF assms(1) cl(1)]
    with at1 have "attached ps u2" by blast
    from attached_count [OF this s] a cl(2) n1 show ?thesis by (auto simp: filter_empty_conv)
  qed
  with n1 show ?thesis by blast
qed

section \<open>A concrete system\<close>

text \<open>A system that can open as many sockets as its state says: one-character addresses, the character being the port, and a
  request for any other address gives port 80.\<close>

definition port_str :: "net_addr \<Rightarrow> string" where
  "port_str a = [char_of (case a of UDPAddr u \<Rightarrow> nat (ia_Port u) | _ \<Rightarrow> 80)]"

definition port_listen :: "nat listen_packet" where
  "port_listen network address k =
     (if k = 0 then (Inl EINVAL, 0)
      else (Inr \<lparr>gs_fd = 10 + int k, gs_syscallConn = True, gs_raw = Inr (Some (10 + int k), None),
              gs_laddr = UDPAddr \<lparr>ia_IP = [], ia_Port = (case address of [c] \<Rightarrow> int (of_char c) | _ \<Rightarrow> 80), ia_Zone = ''''\<rparr>,
              gs_raddr = None, gs_network = ''udp''\<rparr>, k - 1))"

lemma port_listen_doc: "listen_doc port_listen port_str network"
  by (auto simp: listen_doc_def port_listen_def port_str_def split: if_splits)

definition two_pollers :: "roundRobinLB PollMgr" where
  "two_pollers = \<lparr>pm_lb = lb_Register 1 (lb_Register 0 new_roundRobinLB), pm_ignoreTaskError = False\<rparr>"

definition udp_start :: "nat \<Rightarrow> (nat, nat, nat) ustate" where
  "udp_start k = \<lparr>u_heap = (\<lambda>_. new_udpconn), u_next = 0, u_mem = empty_mem,
     u_world = \<lparr>w_cache = \<lparr>dc_first = Some 0, dc_cache = [(new_Desc 0)\<lparr>d_next := Some 1\<rparr>, new_Desc 1], dc_freeList = []\<rparr>,
       w_kernel = k, w_spawned = []\<rparr>, u_mgrs = (two_pollers, two_pollers)\<rparr>"

definition udp_env :: "nat ext" where
  "udp_env = idle_ext idle_usys"

lemmas udp_system = udp_start_def udp_env_def two_pollers_def port_listen_def idle_ext_def idle_nsys_def idle_usys_def
  lb_Register_def new_roundRobinLB_def lb_Len_def pm_NumPollers_def GetFD_def newUDPConn_def u_alloc_def u_kernel_def
  make_udpconn_def new_nfd_def ListenPackets_def listenUDP_def

lemma two_listeners:
  "\<exists>u'. ListenPackets udp_env (\<lambda>_. port_listen) port_str ''udp'' '':0'' True (udp_start 2) = (Inr [0, 1], u')"
  by (simp add: udp_system numeral_2_eq_2)

theorem listeners_share_address_witness:
  "\<exists>u'. ListenPackets udp_env (\<lambda>_. port_listen) port_str ''udp'' '':0'' True (udp_start 2) = (Inr [0, 1], u') \<and>
    validateListeners port_str (map OurConn [0, 1]) u' = None \<and> uc_active (u_heap u' 1)"
proof -
  obtain u' where u': "ListenPackets udp_env (\<lambda>_. port_listen) port_str ''udp'' '':0'' True (udp_start 2) = (Inr [0, 1], u')"
    using two_listeners by blast
  have "0 < pm_NumPollers lb_Len (fst (u_mgrs (udp_start 2)))" by (simp add: udp_system)
  with listeners_share_address [OF port_listen_doc u'] u' show ?thesis by auto
qed

theorem listen_error_leaks_witness:
  "\<exists>u'. ListenPackets udp_env (\<lambda>_. port_listen) port_str ''udp'' '':0'' True (udp_start 1) = (Inl EINVAL, u') \<and>
    uc_active (u_heap u' 0)"
proof -
  obtain u' where u': "ListenPackets udp_env (\<lambda>_. port_listen) port_str ''udp'' '':0'' True (udp_start 1) = (Inl EINVAL, u')"
    "u_next u' = 1"
    by (simp add: udp_system numeral_2_eq_2)
  with listen_error_leaks [OF u'(1), of 0] show ?thesis by (auto simp: udp_start_def)
qed

text \<open>A service on two connections that has started to serve.\<close>

definition udp_service :: "nat udpservice" where
  "udp_service = projr (fst (newUDPService (map OurConn [0, 1]) (Some 7) [] (udp_start 0)))"

definition udp_served :: "(nat, nat, nat) ustate" where
  "udp_served = snd (the (us_Serve_start udp_env (\<lambda>_ st. st) udp_service
     (snd (newUDPService (map OurConn [0, 1]) (Some 7) [] (udp_start 0)))))"

lemma udp_served_runs:
  "map_option fst (us_Serve_start udp_env (\<lambda>_ st. st) udp_service
     (snd (newUDPService (map OurConn [0, 1]) (Some 7) [] (udp_start 0)))) = Some None"
  by code_simp

lemma udp_service_made: "isl (fst (newUDPService (map OurConn [0, 1]) (Some 7) [] (udp_start 0))) = False"
  by code_simp

lemma udp_served_closes:
  "map_option (\<lambda>u. map (\<lambda>p. uc_active (u_heap u p)) [0, 1])
     (u_run udp_env (\<lambda>_ st. st) [UClose 1, UOther id, UClose 1] udp_served) = Some [True, False]"
  by code_simp

theorem udp_wait_group_witness:
  "\<exists>u1. u_run udp_env (\<lambda>_ st. st) [UClose 1, UOther id, UClose 1] udp_served = Some u1 \<and> allConnClosed udp_service u1 = 1"
proof -
  obtain s u0 where s: "newUDPService (map OurConn [0, 1]) (Some 7) [] (udp_start 0) = (Inr s, u0)"
    using udp_service_made by (cases "newUDPService (map OurConn [0, 1]) (Some 7) [] (udp_start 0)")
      (metis fst_conv isl_def obj_sumE)
  then have us: "udp_service = s" by (simp add: udp_service_def)
  have st: "us_Serve_start udp_env (\<lambda>_ st. st) s u0 = Some (None, udp_served)"
    using udp_served_runs s us by (auto simp: udp_served_def)
  obtain u1 where u1: "u_run udp_env (\<lambda>_ st. st) [UClose 1, UOther id, UClose 1] udp_served = Some u1"
    "map (\<lambda>p. uc_active (u_heap u1 p)) [0, 1] = [True, False]"
    using udp_served_closes unfolding map_option_eq_Some by (elim exE conjE) (rule that)
  have "quiet_closed (\<lambda>_ st. st :: (nat, nat, string, nat, nat) uds)" by (simp add: quiet_closed_def same_close_def)
  moreover have "list_all quiet_event [UClose 1, UOther (id :: (nat, nat, nat) ustate \<Rightarrow> _), UClose 1]" by (simp add: same_close_def)
  ultimately have "allConnClosed s u1 = int (length (filter (\<lambda>p. uc_active (u_heap u1 p)) [0, 1]))"
    using udp_wait_group [OF _ s _ _ st _ u1(1)] by (auto simp: udp_start_def new_udpconn_def)
  with u1 us show ?thesis by auto
qed

end
