(* ===== verification/Tls.thy ===== *)
theory Tls
  imports Tcpservice
begin

text \<open>
  Model of the package \<open>tls\<close>: its connections, options, service and client, over the model of TCP connections.

  What lies above \<open>tnet\<close> is part of the environment the TCP connections run in: the kernel of that model is a
  \<open>tls_world\<close>, which has the TLS connections and configurations, shared by pointer, and the real kernel. Handlers of
  TCP connections are the closures this package makes, with the values they capture; \<open>'f\<close> are the functions of the
  user. \<open>crypto/tls\<close> is a parameter: a connection of it is known by its configuration and raw connection, and its
  handshake is a function on the whole state. The other fields of \<open>tls.Config\<close> are one value.
\<close>

section \<open>State\<close>

record tls_config =
  cfg_ServerName :: string
  cfg_rest :: nat

record 'u tls_conn =
  tl_raw :: nat
  tl_config :: "nat option"
  tl_client :: bool
  tl_metaData :: "'u option"

record ('u, 'k) tls_world =
  tw_conns :: "nat \<Rightarrow> 'u tls_conn"
  tw_next :: nat
  tw_configs :: "nat \<Rightarrow> tls_config"
  tw_nextConfig :: nat
  tw_kernel :: 'k

text \<open>The metadata of a TCP connection: a TLS connection, or something else. The closures: those of \<open>NewService\<close>,
  those of \<open>SetOnRequest\<close> and \<open>SetOnClosed\<close>, and functions on TCP connections that others set.\<close>

datatype 'o tls_meta = TlsConn nat | OtherMeta 'o

datatype 'f tls_fn =
    TlsOpened "nat option" "'f option"
  | TlsHandle 'f
  | TlsClosed 'f
  | ConnRequest nat 'f
  | ConnClosed nat 'f
  | PlainFn 'f

type_synonym ('f, 'u, 'o, 'k) tls_tcs = "('f tls_fn, 'o tls_meta, string, nat, ('u, 'k) tls_world) tcs"
type_synonym ('f, 'u, 'o, 'k) tls_state = "('f tls_fn, 'o tls_meta, ('u, 'k) tls_world) tstate"

text \<open>What the functions of the user do.\<close>

record ('f, 'u, 'o, 'k) tls_user =
  tu_request :: "'f \<Rightarrow> nat \<Rightarrow> ('f, 'u, 'o, 'k) tls_tcs \<Rightarrow> (err option \<times> ('f, 'u, 'o, 'k) tls_tcs) option"
  tu_closed :: "'f \<Rightarrow> nat \<Rightarrow> ('f, 'u, 'o, 'k) tls_tcs \<Rightarrow> err option \<times> ('f, 'u, 'o, 'k) tls_tcs"
  tu_plain :: "'f \<Rightarrow> ('f, 'u, 'o, 'k) tls_tcs \<Rightarrow> (err option \<times> ('f, 'u, 'o, 'k) tls_tcs) option"
  tu_plainClosed :: "'f \<Rightarrow> ('f, 'u, 'o, 'k) tls_tcs \<Rightarrow> err option \<times> ('f, 'u, 'o, 'k) tls_tcs"
  tu_opened :: "'f \<Rightarrow> nat \<Rightarrow> ('f, 'u, 'o, 'k) tls_state \<Rightarrow> (err option \<times> ('f, 'u, 'o, 'k) tls_state) option"

definition tls_alloc :: "'u tls_conn \<Rightarrow> ('u, 'k) tls_world \<Rightarrow> nat \<times> ('u, 'k) tls_world" where
  "tls_alloc c w = (tw_next w, w\<lparr>tw_conns := (tw_conns w)(tw_next w := c), tw_next := tw_next w + 1\<rparr>)"

definition new_config :: "tls_config \<Rightarrow> ('u, 'k) tls_world \<Rightarrow> nat \<times> ('u, 'k) tls_world" where
  "new_config c w =
     (tw_nextConfig w, w\<lparr>tw_configs := (tw_configs w)(tw_nextConfig w := c), tw_nextConfig := tw_nextConfig w + 1\<rparr>)"

section \<open>Connections\<close>

text \<open>The operations that go to the raw connection act on its state.\<close>

definition tls_SetMetaData :: "'u option \<Rightarrow> nat \<Rightarrow> ('u, 'k) tls_world \<Rightarrow> ('u, 'k) tls_world" where
  "tls_SetMetaData m c w = w\<lparr>tw_conns := (tw_conns w)(c := (tw_conns w c)\<lparr>tl_metaData := m\<rparr>)\<rparr>"

definition tls_GetMetaData :: "nat \<Rightarrow> ('u, 'k) tls_world \<Rightarrow> 'u option" where
  "tls_GetMetaData c w = tl_metaData (tw_conns w c)"

definition tls_SetIdleTimeout :: "int \<Rightarrow> ('f, 'u, 'o, 'k) tls_tcs \<Rightarrow> err option \<times> ('f, 'u, 'o, 'k) tls_tcs" where
  "tls_SetIdleTimeout d st = tcp_SetIdleTimeout d st"

definition tls_SetWriteIdleTimeout :: "int \<Rightarrow> ('f, 'u, 'o, 'k) tls_tcs \<Rightarrow> err option \<times> ('f, 'u, 'o, 'k) tls_tcs" where
  "tls_SetWriteIdleTimeout d st = tcp_SetWriteIdleTimeout d st"

definition tls_SetReadIdleTimeout :: "int \<Rightarrow> ('f, 'u, 'o, 'k) tls_tcs \<Rightarrow> err option \<times> ('f, 'u, 'o, 'k) tls_tcs" where
  "tls_SetReadIdleTimeout d st = tcp_SetReadIdleTimeout d st"

definition tls_IsActive :: "('f, 'u, 'o, 'k) tls_tcs \<Rightarrow> bool" where
  "tls_IsActive st = tcp_IsActive (fst st)"

definition tls_SetOnRequest :: "'f \<Rightarrow> nat \<Rightarrow> ('f, 'u, 'o, 'k) tls_tcs \<Rightarrow> err option \<times> ('f, 'u, 'o, 'k) tls_tcs" where
  "tls_SetOnRequest handle c st =
     (case tcp_SetOnRequest (Some (ConnRequest c handle)) (fst st) of (e, tc) \<Rightarrow> (e, tc, snd st))"

definition tls_SetOnClosed :: "'f \<Rightarrow> nat \<Rightarrow> ('f, 'u, 'o, 'k) tls_tcs \<Rightarrow> err option \<times> ('f, 'u, 'o, 'k) tls_tcs" where
  "tls_SetOnClosed handle c st =
     (case tcp_SetOnClosed (Some (ConnClosed c handle)) (fst st) of (e, tc) \<Rightarrow> (e, tc, snd st))"

text \<open>The loop of the request handlers.\<close>

partial_function (option) tls_loop :: "(nat \<Rightarrow> ('f, 'u, 'o, 'k) tls_tcs \<Rightarrow> (err option \<times> ('f, 'u, 'o, 'k) tls_tcs) option) \<Rightarrow>
    nat \<Rightarrow> ('f, 'u, 'o, 'k) tls_tcs \<Rightarrow> (err option \<times> ('f, 'u, 'o, 'k) tls_tcs) option" where
  "tls_loop handle c st =
     (if \<not> tls_IsActive st then Some (Some ErrConnClosed, st)
      else Option.bind (handle c st) (\<lambda>r. if fst r = None then tls_loop handle c (snd r) else Some r))"

section \<open>Options\<close>

definition defaultDialTimeout :: int where
  "defaultDialTimeout = 10 * 10 ^ 9"

record 'f tls_serverOptions =
  so_cfg :: "nat option"
  so_keepAlive :: int
  so_idleTimeout :: int
  so_flushWrite :: bool
  so_outboundBufferLimit :: int
  so_onOpened :: "'f option"
  so_onClosed :: "'f option"

type_synonym 'f tls_ServerOption = "'f tls_serverOptions \<Rightarrow> 'f tls_serverOptions"

definition tls_WithServerTLSConfig :: "nat option \<Rightarrow> 'f tls_ServerOption" where
  "tls_WithServerTLSConfig cfg o1 = o1\<lparr>so_cfg := cfg\<rparr>"

definition tls_WithTCPKeepAlive :: "int \<Rightarrow> 'f tls_ServerOption" where
  "tls_WithTCPKeepAlive keepAlive o1 = o1\<lparr>so_keepAlive := keepAlive\<rparr>"

definition tls_WithServerIdleTimeout :: "int \<Rightarrow> 'f tls_ServerOption" where
  "tls_WithServerIdleTimeout idleTimeout o1 = o1\<lparr>so_idleTimeout := idleTimeout\<rparr>"

definition tls_WithServerFlushWrite :: "bool \<Rightarrow> 'f tls_ServerOption" where
  "tls_WithServerFlushWrite flushWrite o1 = o1\<lparr>so_flushWrite := flushWrite\<rparr>"

definition tls_WithServerOutboundBufferLimit :: "int \<Rightarrow> 'f tls_ServerOption" where
  "tls_WithServerOutboundBufferLimit limit o1 = o1\<lparr>so_outboundBufferLimit := limit\<rparr>"

definition tls_WithOnOpened :: "'f option \<Rightarrow> 'f tls_ServerOption" where
  "tls_WithOnOpened onOpened o1 = o1\<lparr>so_onOpened := onOpened\<rparr>"

definition tls_WithOnClosed :: "'f option \<Rightarrow> 'f tls_ServerOption" where
  "tls_WithOnClosed onClosed o1 = o1\<lparr>so_onClosed := onClosed\<rparr>"

record tls_clientOptions =
  co_cfg :: "nat option"
  co_dialTimeout :: int
  co_idleTimeout :: int
  co_flushWrite :: bool

type_synonym tls_ClientOption = "tls_clientOptions \<Rightarrow> tls_clientOptions"

definition tls_setDefaults :: tls_ClientOption where
  "tls_setDefaults o1 = o1\<lparr>co_dialTimeout := defaultDialTimeout\<rparr>"

definition tls_WithTimeout :: "int \<Rightarrow> tls_ClientOption" where
  "tls_WithTimeout timeout o1 = o1\<lparr>co_dialTimeout := timeout\<rparr>"

definition tls_WithClientTLSConfig :: "nat option \<Rightarrow> tls_ClientOption" where
  "tls_WithClientTLSConfig cfg o1 = o1\<lparr>co_cfg := cfg\<rparr>"

definition tls_WithClientFlushWrite :: "bool \<Rightarrow> tls_ClientOption" where
  "tls_WithClientFlushWrite flushWrite o1 = o1\<lparr>co_flushWrite := flushWrite\<rparr>"

definition tls_WithClientIdleTimeout :: "int \<Rightarrow> tls_ClientOption" where
  "tls_WithClientIdleTimeout idleTimeout o1 = o1\<lparr>co_idleTimeout := idleTimeout\<rparr>"

section \<open>The service\<close>

definition tls_zero_server :: "'f tls_serverOptions" where
  "tls_zero_server = \<lparr>so_cfg = None, so_keepAlive = 0, so_idleTimeout = 0, so_flushWrite = False, so_outboundBufferLimit = 0,
     so_onOpened = None, so_onClosed = None\<rparr>"

definition tls_tnet_options :: "'f tls_serverOptions \<Rightarrow> 'f tls_fn Option list" where
  "tls_tnet_options options =
     [WithTCPKeepAlive (so_keepAlive options), WithTCPIdleTimeout (so_idleTimeout options),
      WithTCPOutboundBufferLimit (so_outboundBufferLimit options), WithSafeWrite True, WithFlushWrite (so_flushWrite options),
      WithOnTCPOpened (Some (TlsOpened (so_cfg options) (so_onOpened options)))] @
     (case so_onClosed options of None \<Rightarrow> [] | Some f \<Rightarrow> [WithOnTCPClosed (Some (TlsClosed f))])"

definition tls_NewService :: "any_listener \<Rightarrow> 'f \<Rightarrow> 'f tls_ServerOption list \<Rightarrow> ('f, 'u, 'o, 'k) tls_state \<Rightarrow>
    err + ('f tls_fn, 'o tls_meta, ('u, 'k) tls_world) tcpservice" where
  "tls_NewService ln handler opts t =
     (let options = fold (\<lambda>opt o1. opt o1) opts tls_zero_server
      in NewTCPService ln (Some (TlsHandle handler)) (tls_tnet_options options) t)"

definition tls_opened :: "('f, 'u, 'o, 'k) tls_user \<Rightarrow> nat option \<Rightarrow> 'f option \<Rightarrow> nat \<Rightarrow> ('f, 'u, 'o, 'k) tls_state \<Rightarrow>
    (err option \<times> ('f, 'u, 'o, 'k) tls_state) option" where
  "tls_opened U cfg onOpened p t =
     (case tls_alloc \<lparr>tl_raw = p, tl_config = cfg, tl_client = False, tl_metaData = None\<rparr> (kernel (t_env t)) of
        (c, w) \<Rightarrow>
          let t = t\<lparr>t_env := set_kernel w (t_env t), t_heap := (t_heap t)(p := tcp_SetMetaData (Some (TlsConn c)) (t_heap t p))\<rparr>
          in case onOpened of None \<Rightarrow> Some (None, t) | Some f \<Rightarrow> tu_opened U f c t)"

definition tls_handleFunc :: "(nat \<Rightarrow> ('f, 'u, 'o, 'k) tls_tcs \<Rightarrow> (err option \<times> ('f, 'u, 'o, 'k) tls_tcs) option) \<Rightarrow>
    ('f, 'u, 'o, 'k) tls_tcs \<Rightarrow> (err option \<times> ('f, 'u, 'o, 'k) tls_tcs) option" where
  "tls_handleFunc handler st =
     (case tcp_GetMetaData (fst st) of
        None \<Rightarrow> Some (Some (ErrText ''metadata is empty, expect tls connection''), st)
      | Some (OtherMeta _) \<Rightarrow> Some (Some (ErrText ''tls connection is not stored in metadata''), st)
      | Some (TlsConn c) \<Rightarrow> tls_loop handler c st)"

definition tls_closeFunc :: "(nat \<Rightarrow> ('f, 'u, 'o, 'k) tls_tcs \<Rightarrow> err option \<times> ('f, 'u, 'o, 'k) tls_tcs) \<Rightarrow>
    ('f, 'u, 'o, 'k) tls_tcs \<Rightarrow> err option \<times> ('f, 'u, 'o, 'k) tls_tcs" where
  "tls_closeFunc onClosed st =
     (case tcp_GetMetaData (fst st) of
        None \<Rightarrow> (Some (ErrText ''metadata is empty, expect tls connection''), st)
      | Some (OtherMeta _) \<Rightarrow> (Some (ErrText ''tls connection is not stored in metadata''), st)
      | Some (TlsConn c) \<Rightarrow> onClosed c st)"

text \<open>What the closures do; one that is not made for a purpose does nothing there. \<open>tnet\<close> drops the error of the closing
  handler.\<close>

definition tls_request :: "('f, 'u, 'o, 'k) tls_user \<Rightarrow> 'f tls_fn \<Rightarrow> ('f, 'u, 'o, 'k) tls_tcs \<Rightarrow>
    (err option \<times> ('f, 'u, 'o, 'k) tls_tcs) option" where
  "tls_request U f st =
     (case f of
        TlsHandle h \<Rightarrow> tls_handleFunc (tu_request U h) st
      | ConnRequest c h \<Rightarrow> tls_loop (tu_request U h) c st
      | PlainFn h \<Rightarrow> tu_plain U h st
      | _ \<Rightarrow> Some (None, st))"

definition tls_closed :: "('f, 'u, 'o, 'k) tls_user \<Rightarrow> 'f tls_fn \<Rightarrow> ('f, 'u, 'o, 'k) tls_tcs \<Rightarrow> ('f, 'u, 'o, 'k) tls_tcs" where
  "tls_closed U f st =
     (case f of
        TlsClosed h \<Rightarrow> snd (tls_closeFunc (tu_closed U h) st)
      | ConnClosed c h \<Rightarrow> snd (tu_closed U h c st)
      | PlainFn h \<Rightarrow> snd (tu_plainClosed U h st)
      | _ \<Rightarrow> st)"

definition tls_hooks :: "('f, 'u, 'o, 'k) tls_user \<Rightarrow> ('f tls_fn, 'o tls_meta, ('u, 'k) tls_world) thooks" where
  "tls_hooks U =
     \<lparr>hk_closed = tls_closed U, hk_opened = (\<lambda>f p t. case f of TlsOpened cfg g \<Rightarrow> tls_opened U cfg g p t | _ \<Rightarrow> Some (None, t))\<rparr>"

definition tls_handlers :: "('f, 'u, 'o, 'k) tls_user \<Rightarrow> ('f tls_fn, 'o tls_meta, string, nat, ('u, 'k) tls_world) thandlers" where
  "tls_handlers U = \<lparr>th_request = tls_request U, th_closed = tls_closed U\<rparr>"

section \<open>The client\<close>

definition LastIndexByte :: "string \<Rightarrow> char \<Rightarrow> int" where
  "LastIndexByte s c = (if c \<in> set s then int (length s) - 1 - int (length (takeWhile (\<lambda>x. x \<noteq> c) (rev s))) else -1)"

definition fixConfig :: "nat option \<Rightarrow> string \<Rightarrow> ('u, 'k) tls_world \<Rightarrow> nat \<times> ('u, 'k) tls_world" where
  "fixConfig config addr w =
     (case (case config of None \<Rightarrow> new_config \<lparr>cfg_ServerName = '''', cfg_rest = 0\<rparr> w | Some p \<Rightarrow> (p, w)) of
        (config, w) \<Rightarrow>
          if cfg_ServerName (tw_configs w config) \<noteq> '''' then (config, w)
          else
            case new_config (tw_configs w config) w of
              (c, w) \<Rightarrow>
                let colonPos = LastIndexByte addr CHR '':'';
                    colonPos = (if colonPos = -1 then int (length addr) else colonPos);
                    hostname = take (nat colonPos) addr
                in (c, w\<lparr>tw_configs := (tw_configs w)(c := (tw_configs w c)\<lparr>cfg_ServerName := hostname\<rparr>)\<rparr>))"

text \<open>\<open>hs\<close> is the handshake of \<open>crypto/tls\<close> on a raw connection, with a configuration and a timeout.\<close>

definition tls_dial :: "('u, 'k) tls_world ext \<Rightarrow> ('u, 'k) tls_world lsys \<Rightarrow> ('f, 'u, 'o, 'k) tls_user \<Rightarrow>
    (nat \<Rightarrow> nat \<Rightarrow> int \<Rightarrow> ('f, 'u, 'o, 'k) tls_state \<Rightarrow> err option \<times> ('f, 'u, 'o, 'k) tls_state) \<Rightarrow> string \<Rightarrow> string \<Rightarrow>
    tls_clientOptions \<Rightarrow> nat \<Rightarrow> ('f, 'u, 'o, 'k) tls_state \<Rightarrow> ((err + nat) \<times> adds \<times> ('f, 'u, 'o, 'k) tls_state) option" where
  "tls_dial X L U hs network addr options config t =
     Option.bind (DialTCP X L (tls_closed U) network addr (co_dialTimeout options) t)
       (\<lambda>(r, adds, t). case r of
          Inl e \<Rightarrow> Some (Inl e, adds, t)
        | Inr p \<Rightarrow>
            let t = t\<lparr>t_heap := (t_heap t)(p := tcp_SetSafeWrite True (t_heap t p))\<rparr> in
            (case hs p config (co_dialTimeout options) t of
               (Some e, t) \<Rightarrow> map_option (\<lambda>(a, t). (Inl e, adds @ a, t)) (t_Close X (tls_closed U) p t)
             | (None, t) \<Rightarrow>
                 let t = t_put p (snd (tcp_SetIdleTimeout (co_idleTimeout options) (t_conn p t))) t in
                 (case tls_alloc \<lparr>tl_raw = p, tl_config = Some config, tl_client = True, tl_metaData = None\<rparr> (kernel (t_env t)) of
                    (c, w) \<Rightarrow> Some (Inr c, adds, t\<lparr>t_env := set_kernel w (t_env t)\<rparr>))))"

definition tls_zero_client :: tls_clientOptions where
  "tls_zero_client = \<lparr>co_cfg = None, co_dialTimeout = 0, co_idleTimeout = 0, co_flushWrite = False\<rparr>"

definition tls_Dial :: "('u, 'k) tls_world ext \<Rightarrow> ('u, 'k) tls_world lsys \<Rightarrow> ('f, 'u, 'o, 'k) tls_user \<Rightarrow>
    (nat \<Rightarrow> nat \<Rightarrow> int \<Rightarrow> ('f, 'u, 'o, 'k) tls_state \<Rightarrow> err option \<times> ('f, 'u, 'o, 'k) tls_state) \<Rightarrow> string \<Rightarrow> string \<Rightarrow>
    tls_ClientOption list \<Rightarrow> ('f, 'u, 'o, 'k) tls_state \<Rightarrow> ((err + nat) \<times> adds \<times> ('f, 'u, 'o, 'k) tls_state) option" where
  "tls_Dial X L U hs network addr opts t =
     (let options = fold (\<lambda>opt o1. opt o1) opts (tls_setDefaults tls_zero_client);
          (config, w) = fixConfig (co_cfg options) addr (kernel (t_env t))
      in tls_dial X L U hs network addr options config (t\<lparr>t_env := set_kernel w (t_env t)\<rparr>))"

section \<open>A connection of the service\<close>

text \<open>The handler of the user for new connections leaves alone what this package relies on.\<close>

definition quiet_opened :: "('f, 'u, 'o, 'k) tls_user \<Rightarrow> bool" where
  "quiet_opened U \<longleftrightarrow> (\<forall>f c t e t' p. tu_opened U f c t = Some (e, t') \<longrightarrow>
     tc_metaData (t_heap t' p) = tc_metaData (t_heap t p) \<and> tc_reqHandle (t_heap t' p) = tc_reqHandle (t_heap t p) \<and>
     tc_safeWrite (t_heap t' p) = tc_safeWrite (t_heap t p) \<and>
     tl_raw (tw_conns (kernel (t_env t')) c) = tl_raw (tw_conns (kernel (t_env t)) c) \<and>
     tl_config (tw_conns (kernel (t_env t')) c) = tl_config (tw_conns (kernel (t_env t)) c))"

lemma tls_tnet_options_applied:
  "op_onTCPOpened (apply_options (tls_tnet_options o1)) = Some (TlsOpened (so_cfg o1) (so_onOpened o1))"
  "op_safeWrite (apply_options (tls_tnet_options o1)) = True"
  by (simp_all add: apply_options_def tls_tnet_options_def WithTCPKeepAlive_def WithTCPIdleTimeout_def WithTCPOutboundBufferLimit_def
      WithSafeWrite_def WithFlushWrite_def WithOnTCPOpened_def WithOnTCPClosed_def split: option.split)

lemma open_settings_handle:
  assumes "open_settings X h opts st = (None, st')"
  shows "tc_reqHandle (fst st') = h"
  using assms
  by (cases st) (auto simp: open_settings_def and_then_def tcp_SetOnRequest_def tcp_SetKeepAlive_def tcp_SetIdleTimeout_def
      tcp_SetWriteIdleTimeout_def tcp_SetReadIdleTimeout_def split: option.splits prod.splits if_splits)

lemma open_flags_fields:
  "tc_reqHandle (open_flags opts tc) = tc_reqHandle tc" "tc_safeWrite (open_flags opts tc) = op_safeWrite opts"
  by (auto simp: open_flags_def tcp_SetSafeWrite_def tcp_SetNonBlocking_def tcp_SetOnClosed_def Let_def split: option.split)

lemma tls_opened_result:
  assumes "quiet_opened U" and "tls_opened U cfg f p t = Some (e, t')"
  shows "\<exists>c. tc_metaData (t_heap t' p) = Some (TlsConn c) \<and> tl_raw (tw_conns (kernel (t_env t')) c) = p \<and>
    tl_config (tw_conns (kernel (t_env t')) c) = cfg \<and> tc_reqHandle (t_heap t' p) = tc_reqHandle (t_heap t p) \<and>
    tc_safeWrite (t_heap t' p) = tc_safeWrite (t_heap t p)"
proof -
  let ?c = "tw_next (kernel (t_env t))"
  let ?w = "snd (tls_alloc \<lparr>tl_raw = p, tl_config = cfg, tl_client = False, tl_metaData = None\<rparr> (kernel (t_env t)))"
  define t1 where "t1 = t\<lparr>t_env := set_kernel ?w (t_env t), t_heap := (t_heap t)(p := tcp_SetMetaData (Some (TlsConn ?c)) (t_heap t p))\<rparr>"
  have t1: "tc_metaData (t_heap t1 p) = Some (TlsConn ?c)" "tl_raw (tw_conns (kernel (t_env t1)) ?c) = p"
    "tl_config (tw_conns (kernel (t_env t1)) ?c) = cfg" "tc_reqHandle (t_heap t1 p) = tc_reqHandle (t_heap t p)"
    "tc_safeWrite (t_heap t1 p) = tc_safeWrite (t_heap t p)"
    by (simp_all add: t1_def tls_alloc_def tcp_SetMetaData_def set_kernel_def)
  have "(case f of None \<Rightarrow> Some (None, t1) | Some f \<Rightarrow> tu_opened U f ?c t1) = Some (e, t')"
    using assms(2) unfolding tls_opened_def t1_def tls_alloc_def Let_def by (cases f) simp_all
  with assms(1) t1 show ?thesis by (cases f) (auto simp: quiet_opened_def)
qed

text \<open>C23. A connection of a TLS service is ready before its first request: when the accept of the service succeeds, the metadata
  of the TCP connection is a TLS connection over it with the configuration of the service, writes are safe (copied), and a
  request runs the handler of the service on exactly this TLS connection.\<close>

theorem tls_service_connection:
  assumes "tls_NewService ln handler opts t0 = Inr s" and "quiet_opened U"
    and "openHandle X (tls_hooks U) (s_reqHandle s) (s_opts s) isClosed p t = Some (None, t')"
  shows "\<exists>c. tcp_GetMetaData (t_heap t' p) = Some (TlsConn c) \<and> tl_raw (tw_conns (kernel (t_env t')) c) = p \<and>
    tl_config (tw_conns (kernel (t_env t')) c) = so_cfg (fold (\<lambda>opt o1. opt o1) opts tls_zero_server) \<and>
    tc_safeWrite (t_heap t' p) \<and>
    map_option (\<lambda>f. tls_request U f (t_conn p t')) (tc_reqHandle (t_heap t' p)) = Some (tls_loop (tu_request U handler) c (t_conn p t'))"
proof -
  let ?o = "fold (\<lambda>opt o1. opt o1) opts tls_zero_server"
  have s: "s_reqHandle s = Some (TlsHandle handler)" "s_opts s = apply_options (tls_tnet_options ?o)"
    using assms(1) by (auto simp: tls_NewService_def NewTCPService_def newTCPService_def Let_def split: any_listener.splits option.splits sum.splits)
  obtain r st where os: "open_settings X (s_reqHandle s) (s_opts s) (t_conn p t) = (r, st)"
    by (cases "open_settings X (s_reqHandle s) (s_opts s) (t_conn p t)")
  define t1 where "t1 = storeConn isClosed p (t_put p (on_tc (open_flags (s_opts s)) st) t)"
  have r: "r = None" and op: "tls_opened U (so_cfg ?o) (so_onOpened ?o) p t1 = Some (None, t')"
    using assms(3) os by (auto simp: openHandle_def t1_def s(2) tls_tnet_options_applied tls_hooks_def Let_def split: option.splits)
  have h: "tc_reqHandle (t_heap t1 p) = Some (TlsHandle handler)" "tc_safeWrite (t_heap t1 p)"
    using open_settings_handle [OF os [unfolded r]] s tls_tnet_options_applied(2)
    by (simp_all add: t1_def storeConn_def t_put_def on_tc_def open_flags_fields split_beta)
  from tls_opened_result [OF assms(2) op] h show ?thesis
    by (auto simp: tcp_GetMetaData_def tls_request_def tls_handleFunc_def t_conn_def)
qed

section \<open>Requests\<close>

text \<open>The loop ends with an error of the handler, or because the connection is closed.\<close>

lemma tls_loop_fails:
  assumes "tls_loop handle c st = Some r"
  shows "fst r \<noteq> None"
proof (rule tls_loop.raw_induct [OF _ assms, where P = "\<lambda>_ _ _ r. fst r \<noteq> None"])
  fix loop handle c and st :: "('f, 'u, 'o, 'k) tls_tcs" and r
  assume IH: "\<And>handle c st r. loop handle c st = Some r \<Longrightarrow> fst r \<noteq> None"
    and body: "(if \<not> tls_IsActive st then Some (Some ErrConnClosed, st)
      else Option.bind (handle c st) (\<lambda>r. if fst r = None then loop handle c (snd r) else Some r)) = Some r"
  show "fst r \<noteq> None"
  proof (cases "tls_IsActive st")
    case True
    with body obtain r1 where "(if fst r1 = None then loop handle c (snd r1) else Some r1) = Some r"
      by (auto simp: bind_eq_Some_conv)
    with IH show ?thesis by (cases "fst r1 = None") auto
  qed (use body in auto)
qed

lemma tls_request_fails:
  assumes "f = TlsHandle h \<or> f = ConnRequest c h" and "tls_request U f st = Some r"
  shows "fst r \<noteq> None"
  using assms by (auto simp: tls_request_def tls_handleFunc_def split: option.splits tls_meta.splits dest: tls_loop_fails)

definition quiet_tls_closed :: "('f, 'u, 'o, 'k) tls_user \<Rightarrow> bool" where
  "quiet_tls_closed U \<longleftrightarrow> (\<forall>f c st. tc_active (fst (snd (tu_closed U f c st))) = tc_active (fst st) \<and>
     tc_active (fst (snd (tu_plainClosed U f st))) = tc_active (fst st))"

lemma tls_closed_active: "quiet_tls_closed U \<Longrightarrow> tc_active (fst (tls_closed U f st)) = tc_active (fst st)"
  by (cases st) (auto simp: quiet_tls_closed_def tls_closed_def tls_closeFunc_def split: tls_fn.split option.split tls_meta.split)

lemma tcp_Close_inactive:
  assumes "tcp_Close X onClosed st = Some (a, st')" and "\<And>f st. tc_active (fst (onClosed f st)) = tc_active (fst st)"
  shows "\<not> tc_active (fst st')"
proof (cases "tc_active (fst st)")
  case True
  let ?st = "tcp_close_jobs st"
  let ?st2 = "case tc_closeHandle (fst ?st) of None \<Rightarrow> ?st | Some f \<Rightarrow> onClosed f ?st"
  have "\<not> tc_active (fst ?st)"
    by (cases st) (auto simp: tcp_close_jobs_def storeReadBuffer_def Let_def split: prod.splits option.splits if_splits)
  with assms(2) have "\<not> tc_active (fst ?st2)" by (simp split: option.split)
  moreover have "st' = tcp_close_rest X ?st2" using assms(1) True by (auto simp: tcp_Close_def Let_def split: if_splits)
  ultimately show ?thesis by (auto simp: tcp_close_rest_def Let_def split: prod.splits)
qed (use assms(1) in \<open>auto simp: tcp_Close_def\<close>)

text \<open>A request on a TLS connection is served until the end: the handler of a TLS connection that has data never gives the
  connection back open. It runs until it fails or the connection is closed, and then the connection is closed.\<close>

theorem tls_handler_ends_closed:
  assumes "tc_reqHandle (fst st) = Some f" and "f = TlsHandle h \<or> f = ConnRequest c h" and "tcp_has_data st"
    and "quiet_tls_closed U" and "tcpAsyncHandler X (tls_handlers U) st = Some st'"
  shows "\<not> tcp_IsActive (fst st')"
proof -
  obtain r where r: "tcp_async_inner X (tls_handlers U) f st = Some r" and
    st': "fst r \<Longrightarrow> st' = snd r"
    using assms(1,5) by (auto simp: tcpAsyncHandler_def tcp_async_loop.simps [of X _ f st] bind_eq_Some_conv split: if_splits)
  obtain r1 where r1: "tls_request U f st = Some r1"
    using r assms(3) by (auto simp: tcp_async_inner.simps [of X _ f st] bind_eq_Some_conv tls_handlers_def)
  obtain a st2 where cl: "tcp_Close X (tls_closed U) (on_tc (\<lambda>tc. tc\<lparr>tc_reading := Unlock (tc_reading tc)\<rparr>) (snd r1)) = Some (a, st2)"
    "r = (True, st2)"
    using r r1 assms(3) tls_request_fails [OF assms(2) r1]
    by (auto simp: tcp_async_inner.simps [of X _ f st] bind_eq_Some_conv tls_handlers_def)
  from tcp_Close_inactive [OF cl(1)] tls_closed_active [OF assms(4)] have "\<not> tc_active (fst st2)" by blast
  with st' cl(2) show ?thesis by (simp add: tcp_IsActive_def)
qed

section \<open>Configurations\<close>

lemma takeWhile_until: "c \<notin> set a \<Longrightarrow> takeWhile (\<lambda>x. x \<noteq> c) (a @ b) = a @ takeWhile (\<lambda>x. x \<noteq> c) b"
  by (intro takeWhile_append2) auto

lemma LastIndexByte_append: "c \<notin> set port \<Longrightarrow> LastIndexByte (host @ c # port) c = int (length host)"
  by (simp add: LastIndexByte_def takeWhile_until)

text \<open>The configuration for a dial has a server name: the one the user gave, otherwise the host of the address, with all other
  settings of the user; and no configuration that existed before is changed.\<close>

theorem fixConfig_keeps_argument:
  assumes "fixConfig config (host @ CHR '':'' # port) w = (c, w')" and "CHR '':'' \<notin> set port"
    and "\<forall>p. config = Some p \<longrightarrow> p < tw_nextConfig w"
  shows "(\<forall>q < tw_nextConfig w. tw_configs w' q = tw_configs w q) \<and>
    cfg_ServerName (tw_configs w' c) =
      (case config of Some p \<Rightarrow> if cfg_ServerName (tw_configs w p) \<noteq> '''' then cfg_ServerName (tw_configs w p) else host
       | None \<Rightarrow> host) \<and>
    cfg_rest (tw_configs w' c) = (case config of Some p \<Rightarrow> cfg_rest (tw_configs w p) | None \<Rightarrow> 0)"
  using assms(1,3)
  by (auto simp: fixConfig_def new_config_def LastIndexByte_append [OF assms(2)] Let_def split: option.splits if_splits)

section \<open>A concrete service\<close>

definition one_request :: "(nat, unit, unit, unit) tls_user" where
  "one_request = \<lparr>tu_request = (\<lambda>_ _ st. Some (Some ErrAgain, st)), tu_closed = (\<lambda>_ _ st. (None, st)),
     tu_plain = (\<lambda>_ st. Some (None, st)), tu_plainClosed = (\<lambda>_ st. (None, st)), tu_opened = (\<lambda>_ _ t. Some (None, t))\<rparr>"

definition tls_start_world :: "(unit, unit) tls_world" where
  "tls_start_world = \<lparr>tw_conns = (\<lambda>_. \<lparr>tl_raw = 0, tl_config = None, tl_client = False, tl_metaData = None\<rparr>), tw_next = 0,
     tw_configs = (\<lambda>_. \<lparr>cfg_ServerName = '''', cfg_rest = 7\<rparr>), tw_nextConfig = 1, tw_kernel = ()\<rparr>"

definition tls_start :: "(nat, unit, unit, unit) tls_state" where
  "tls_start = \<lparr>t_heap = (\<lambda>_. make_tcpconn scheduled_nfd (NewIOData [])), t_next = 1, t_env = idle_env tls_start_world,
     t_mgrs = (\<lparr>pm_lb = new_roundRobinLB, pm_ignoreTaskError = False\<rparr>, \<lparr>pm_lb = new_roundRobinLB, pm_ignoreTaskError = False\<rparr>)\<rparr>"

definition tls_example :: "(nat tls_fn, unit tls_meta, (unit, unit) tls_world) tcpservice" where
  "tls_example = projr (tls_NewService (OurListener scheduled_nfd) 7 [tls_WithServerTLSConfig (Some 0)] tls_start)"

lemma tls_example_opens:
  "map_option fst (openHandle (tcp_ext idle_nsys) (tls_hooks one_request) (s_reqHandle tls_example) (s_opts tls_example) False 0 tls_start) =
     Some None"
  by code_simp

theorem tls_service_connection_witness:
  "\<exists>t' c. openHandle (tcp_ext idle_nsys) (tls_hooks one_request) (s_reqHandle tls_example) (s_opts tls_example) False 0 tls_start =
      Some (None, t') \<and> tcp_GetMetaData (t_heap t' 0) = Some (TlsConn c) \<and> tl_config (tw_conns (kernel (t_env t')) c) = Some 0"
proof -
  have s: "tls_NewService (OurListener scheduled_nfd) 7 [tls_WithServerTLSConfig (Some 0)] tls_start = Inr tls_example"
    by (simp add: tls_example_def tls_NewService_def NewTCPService_def Let_def)
  have q: "quiet_opened one_request" by (simp add: quiet_opened_def one_request_def)
  obtain t' where t': "openHandle (tcp_ext idle_nsys) (tls_hooks one_request) (s_reqHandle tls_example) (s_opts tls_example) False 0
      tls_start = Some (None, t')"
    using tls_example_opens unfolding map_option_eq_Some by (metis prod.collapse)
  from tls_service_connection [OF s q t'] t' show ?thesis
    by (auto simp: tls_WithServerTLSConfig_def tls_zero_server_def)
qed

definition tls_busy :: "(nat, unit, unit, unit) tls_tcs" where
  "tls_busy = on_tc (\<lambda>tc. tc\<lparr>tc_reqHandle := Some (ConnRequest 0 7),
     tc_inBuffer := snd (snd (linkFromLocked [[1, 2, 3]] (Initialize zero_buffer)))\<rparr>) (t_conn 0 tls_start)"

lemma tls_busy_has_data: "tcp_has_data tls_busy"
  by code_simp

lemma tls_busy_runs: "\<exists>st'. tcpAsyncHandler (tcp_ext idle_nsys) (tls_handlers one_request) tls_busy = Some st'"
proof -
  let ?H = "tls_handlers one_request" and ?f = "ConnRequest 0 7 :: nat tls_fn"
  obtain c where c: "tcp_Close (tcp_ext idle_nsys) (tls_closed one_request)
      (on_tc (\<lambda>tc. tc\<lparr>tc_reading := Unlock (tc_reading tc)\<rparr>) tls_busy) = Some c"
    by (simp add: tcp_Close_def tls_busy_def on_tc_def t_conn_def tls_start_def make_tcpconn_def Let_def)
  have "tls_request one_request ?f tls_busy = Some (Some ErrAgain, tls_busy)"
    using tls_busy_has_data
    by (simp add: tls_request_def tls_loop.simps [of _ 0 tls_busy] one_request_def tls_IsActive_def tcp_has_data_def)
  with c have "tcp_async_inner (tcp_ext idle_nsys) ?H ?f tls_busy = Some (True, snd c)"
    by (subst tcp_async_inner.simps) (simp add: tls_busy_has_data tls_handlers_def)
  then have "tcp_async_loop (tcp_ext idle_nsys) ?H ?f tls_busy = Some (snd c)"
    by (subst tcp_async_loop.simps) simp
  then show ?thesis by (simp add: tcpAsyncHandler_def tls_busy_def on_tc_def)
qed

theorem tls_handler_ends_closed_witness:
  "\<exists>st'. tcpAsyncHandler (tcp_ext idle_nsys) (tls_handlers one_request) tls_busy = Some st' \<and> \<not> tcp_IsActive (fst st')"
proof -
  obtain st' where "tcpAsyncHandler (tcp_ext idle_nsys) (tls_handlers one_request) tls_busy = Some st'"
    using tls_busy_runs by blast
  moreover have "tc_reqHandle (fst tls_busy) = Some (ConnRequest 0 7)" by (simp add: tls_busy_def on_tc_def)
  moreover have "quiet_tls_closed one_request" by (simp add: quiet_tls_closed_def one_request_def)
  ultimately show ?thesis using tls_handler_ends_closed [of tls_busy "ConnRequest 0 7"] tls_busy_has_data by blast
qed

theorem fixConfig_keeps_argument_witness:
  "\<exists>c w'. fixConfig (Some 0) ''a.b:443'' tls_start_world = (c, w') \<and> cfg_ServerName (tw_configs w' c) = ''a.b'' \<and>
    tw_configs w' 0 = tw_configs tls_start_world 0"
proof -
  obtain c w' where f: "fixConfig (Some 0) (''a.b'' @ CHR '':'' # ''443'') tls_start_world = (c, w')" by fastforce
  from fixConfig_keeps_argument [OF f] f show ?thesis by (auto simp: tls_start_world_def)
qed

end
