(* ===== verification/Ws_Service.thy ===== *)
theory Ws_Service
  imports Tls Ws_Conn
begin

text \<open>
  Model of \<open>extensions/websocket/server.go\<close>, \<open>options.go\<close>, \<open>client.go\<close> and of the operations of \<open>conn.go\<close> that go to the
  raw connection: services and clients over TCP and over TLS.

  The websocket connections and the upgraders are shared by pointer; they are in a \<open>ws_world\<close>, which is the kernel of
  the TLS model, and has the real kernel. A raw connection is a TCP connection or a TLS connection over one; its state
  is that of the TCP connection in its environment. The metadata of either is a websocket connection or something else.
  The handshakes of \<open>gobwas/ws\<close> are parameters, and so is the parser of \<open>net/url\<close>.
\<close>

section \<open>Options\<close>

definition defaultTimeout :: int where
  "defaultTimeout = 10 * 10 ^ 9"

text \<open>A hook is the default one, or a function of the user.\<close>

datatype 'f hook = DefaultHook | UserHook 'f

record 'f serverOptions =
  w_beforeHandshake :: "'f hook"
  w_afterHandshake :: "'f hook"
  w_newHandshakeContext :: "'f hook"
  w_protocolSelect :: "'f option"
  w_protocolCustom :: "'f option"
  w_pingHandler :: "'f ctl_handler option"
  w_pongHandler :: "'f ctl_handler option"
  w_messageType :: MessageType
  w_tlsConfig :: "nat option"
  w_keepAlive :: int
  w_idleTimeout :: int
  w_onClosed :: "'f option"
  w_combineWrites :: bool
  w_outboundBufferLimit :: int

definition defaultServerOptions :: "'f serverOptions" where
  "defaultServerOptions =
     \<lparr>w_beforeHandshake = DefaultHook, w_afterHandshake = DefaultHook, w_newHandshakeContext = DefaultHook,
      w_protocolSelect = None, w_protocolCustom = None, w_pingHandler = None, w_pongHandler = None, w_messageType = 0,
      w_tlsConfig = None, w_keepAlive = 0, w_idleTimeout = 0, w_onClosed = None, w_combineWrites = False,
      w_outboundBufferLimit = 0\<rparr>"

type_synonym 'f ServerOption = "'f serverOptions \<Rightarrow> 'f serverOptions"

definition WithHookBeforeHandshake :: "'f \<Rightarrow> 'f ServerOption" where
  "WithHookBeforeHandshake hook o1 = o1\<lparr>w_beforeHandshake := UserHook hook\<rparr>"

definition WithHookAfterHandshake :: "'f \<Rightarrow> 'f ServerOption" where
  "WithHookAfterHandshake hook o1 = o1\<lparr>w_afterHandshake := UserHook hook\<rparr>"

definition WithNewHandshakeContext :: "'f \<Rightarrow> 'f ServerOption" where
  "WithNewHandshakeContext newContext o1 = o1\<lparr>w_newHandshakeContext := UserHook newContext\<rparr>"

definition WithProtocolSelect :: "'f option \<Rightarrow> 'f ServerOption" where
  "WithProtocolSelect protocolSelect o1 = o1\<lparr>w_protocolSelect := protocolSelect\<rparr>"

definition WithProtocolCustom :: "'f option \<Rightarrow> 'f ServerOption" where
  "WithProtocolCustom protocolCustom o1 = o1\<lparr>w_protocolCustom := protocolCustom\<rparr>"

definition WithPingHandler :: "'f ctl_handler option \<Rightarrow> 'f ServerOption" where
  "WithPingHandler handler o1 = o1\<lparr>w_pingHandler := handler\<rparr>"

definition WithPongHandler :: "'f ctl_handler option \<Rightarrow> 'f ServerOption" where
  "WithPongHandler handler o1 = o1\<lparr>w_pongHandler := handler\<rparr>"

definition WithServerMessageType :: "MessageType \<Rightarrow> 'f ServerOption" where
  "WithServerMessageType tp o1 = o1\<lparr>w_messageType := tp\<rparr>"

definition WithServerTLSConfig :: "nat option \<Rightarrow> 'f ServerOption" where
  "WithServerTLSConfig cfg o1 = o1\<lparr>w_tlsConfig := cfg\<rparr>"

definition ws_WithTCPKeepAlive :: "int \<Rightarrow> 'f ServerOption" where
  "ws_WithTCPKeepAlive keepAlive o1 = o1\<lparr>w_keepAlive := keepAlive\<rparr>"

definition WithIdleTimeout :: "int \<Rightarrow> 'f ServerOption" where
  "WithIdleTimeout idleTimeout o1 = o1\<lparr>w_idleTimeout := idleTimeout\<rparr>"

definition WithOnClosed :: "'f option \<Rightarrow> 'f ServerOption" where
  "WithOnClosed onClosed o1 = o1\<lparr>w_onClosed := onClosed\<rparr>"

definition WithServerCombinedWrites :: "bool \<Rightarrow> 'f ServerOption" where
  "WithServerCombinedWrites enabled o1 = o1\<lparr>w_combineWrites := enabled\<rparr>"

definition WithServerOutboundBufferLimit :: "int \<Rightarrow> 'f ServerOption" where
  "WithServerOutboundBufferLimit limit o1 = o1\<lparr>w_outboundBufferLimit := limit\<rparr>"

text \<open>The additional header of a request is one of the user, or HTTP headers.\<close>

datatype 'f header = UserHeader 'f | HTTPHeader "(string \<times> string) list"

record 'f clientOptions =
  k_timeout :: int
  k_subprotocols :: "string list"
  k_handshakeHeader :: "'f header option"
  k_onHandshakeHeader :: "'f option"
  k_onHandshakeStatusError :: "'f option"
  k_messageType :: MessageType
  k_tlsConfig :: "nat option"
  k_combineWrites :: bool

type_synonym 'f ClientOption = "'f clientOptions \<Rightarrow> 'f clientOptions"

definition setDefaults :: "'f ClientOption" where
  "setDefaults o1 = o1\<lparr>k_timeout := defaultTimeout\<rparr>"

definition WithTimeout :: "int \<Rightarrow> 'f ClientOption" where
  "WithTimeout timeout o1 = o1\<lparr>k_timeout := timeout\<rparr>"

definition WithSubProtocols :: "string list \<Rightarrow> 'f ClientOption" where
  "WithSubProtocols subprotocols o1 = o1\<lparr>k_subprotocols := subprotocols\<rparr>"

definition WithClientHandshakeRequestHeader :: "'f option \<Rightarrow> 'f ClientOption" where
  "WithClientHandshakeRequestHeader header o1 = o1\<lparr>k_handshakeHeader := map_option UserHeader header\<rparr>"

definition WithClientHandshakeRequestHeaderHTTP :: "(string \<times> string) list \<Rightarrow> 'f ClientOption" where
  "WithClientHandshakeRequestHeaderHTTP header o1 = o1\<lparr>k_handshakeHeader := Some (HTTPHeader header)\<rparr>"

definition WithClientOnHandshakeResponseHeader :: "'f option \<Rightarrow> 'f ClientOption" where
  "WithClientOnHandshakeResponseHeader onHeader o1 = o1\<lparr>k_onHandshakeHeader := onHeader\<rparr>"

definition WithClientOnHandshakeResponseStatusError :: "'f option \<Rightarrow> 'f ClientOption" where
  "WithClientOnHandshakeResponseStatusError onStatusError o1 = o1\<lparr>k_onHandshakeStatusError := onStatusError\<rparr>"

definition WithClientMessageType :: "MessageType \<Rightarrow> 'f ClientOption" where
  "WithClientMessageType tp o1 = o1\<lparr>k_messageType := tp\<rparr>"

definition WithClientTLSConfig :: "nat option \<Rightarrow> 'f ClientOption" where
  "WithClientTLSConfig cfg o1 = o1\<lparr>k_tlsConfig := cfg\<rparr>"

definition WithClientCombinedWrites :: "bool \<Rightarrow> 'f ClientOption" where
  "WithClientCombinedWrites enabled o1 = o1\<lparr>k_combineWrites := enabled\<rparr>"

text \<open>\<open>handshakeHeaderWriter\<close> counts the bytes written to the writer below, of which \<open>send\<close> is the \<open>Write\<close>. The headers
  are written as the strings \<open>http.Header.Write\<close> makes of them, up to the first error.\<close>

record 'w handshakeHeaderWriter =
  hw_n :: nat
  hw_w :: 'w

definition hw_Write :: "(byte list \<Rightarrow> 'w \<Rightarrow> (nat \<times> err option) \<times> 'w) \<Rightarrow> byte list \<Rightarrow> 'w handshakeHeaderWriter \<Rightarrow>
    (nat \<times> err option) \<times> 'w handshakeHeaderWriter" where
  "hw_Write send p hw = (case send p (hw_w hw) of ((n, e), w) \<Rightarrow> ((n, e), hw\<lparr>hw_w := w, hw_n := hw_n hw + n\<rparr>))"

definition hw_WriteString :: "(byte list \<Rightarrow> 'w \<Rightarrow> (nat \<times> err option) \<times> 'w) \<Rightarrow> string \<Rightarrow> 'w handshakeHeaderWriter \<Rightarrow>
    (nat \<times> err option) \<times> 'w handshakeHeaderWriter" where
  "hw_WriteString send s hw =
     (case send (map of_char s) (hw_w hw) of ((n, e), w) \<Rightarrow> ((n, e), hw\<lparr>hw_w := w, hw_n := hw_n hw + n\<rparr>))"

primrec header_Write :: "(byte list \<Rightarrow> 'w \<Rightarrow> (nat \<times> err option) \<times> 'w) \<Rightarrow> string list \<Rightarrow> 'w handshakeHeaderWriter \<Rightarrow>
    err option \<times> 'w handshakeHeaderWriter" where
  "header_Write send [] hw = (None, hw)"
| "header_Write send (s # ss) hw =
     (case hw_WriteString send s hw of ((n, Some e), hw) \<Rightarrow> (Some e, hw) | ((n, None), hw) \<Rightarrow> header_Write send ss hw)"

definition header_WriteTo :: "(byte list \<Rightarrow> 'w \<Rightarrow> (nat \<times> err option) \<times> 'w) \<Rightarrow> string list \<Rightarrow> 'w \<Rightarrow> (nat \<times> err option) \<times> 'w" where
  "header_WriteTo send ss w =
     (case header_Write send ss \<lparr>hw_n = 0, hw_w = w\<rparr> of (e, hw) \<Rightarrow> ((hw_n hw, e), hw_w hw))"

section \<open>State\<close>

record 'f upgrader =
  up_Protocol :: "'f option"
  up_ProtocolCustom :: "'f option"

text \<open>A websocket connection: the part that \<open>Ws_Conn\<close> is about, the metadata of the user, the raw connection and the bytes
  that a client has read together with the answer to its handshake.\<close>

datatype raw = RawTcp | RawTlsOver nat

record ('f, 'x) ws_object =
  wo_conn :: "'f wsconn"
  wo_metaData :: "'x option"
  wo_raw :: raw
  wo_source :: "byte list"

record ('f, 'x, 'k) ws_world =
  ww_conns :: "nat \<Rightarrow> ('f, 'x) ws_object"
  ww_next :: nat
  ww_upgraders :: "nat \<Rightarrow> 'f upgrader"
  ww_nextUpgrader :: nat
  ww_kernel :: 'k

datatype 'o ws_meta = WsConn nat | TlsObject nat | ForeignMeta 'o

text \<open>The closures this package sets as handlers of raw connections.\<close>

datatype 'f ws_fn = WsRequest 'f "'f serverOptions" | WsOnClosed "'f option"

type_synonym ('f, 'x, 'o, 'k) ws_tcs = "('f ws_fn, 'o ws_meta, 'o ws_meta, ('f, 'x, 'k) ws_world) tls_tcs"
type_synonym ('f, 'x, 'o, 'k) ws_state = "('f ws_fn, 'o ws_meta, 'o ws_meta, ('f, 'x, 'k) ws_world) tls_state"

definition ws_alloc :: "('f, 'x) ws_object \<Rightarrow> ('f, 'x, 'k) ws_world \<Rightarrow> nat \<times> ('f, 'x, 'k) ws_world" where
  "ws_alloc c w = (ww_next w, w\<lparr>ww_conns := (ww_conns w)(ww_next w := c), ww_next := ww_next w + 1\<rparr>)"

definition new_upgrader :: "'f upgrader \<Rightarrow> ('f, 'x, 'k) ws_world \<Rightarrow> nat \<times> ('f, 'x, 'k) ws_world" where
  "new_upgrader g w =
     (ww_nextUpgrader w,
      w\<lparr>ww_upgraders := (ww_upgraders w)(ww_nextUpgrader w := g), ww_nextUpgrader := ww_nextUpgrader w + 1\<rparr>)"

definition ww :: "('f, 'x, 'o, 'k) ws_tcs \<Rightarrow> ('f, 'x, 'k) ws_world" where
  "ww st = tw_kernel (kernel (snd st))"

definition set_ww :: "('f, 'x, 'k) ws_world \<Rightarrow> ('f, 'x, 'o, 'k) ws_tcs \<Rightarrow> ('f, 'x, 'o, 'k) ws_tcs" where
  "set_ww w st = (fst st, set_kernel ((kernel (snd st))\<lparr>tw_kernel := w\<rparr>) (snd st))"

section \<open>Raw connections\<close>

definition raw_GetMetaData :: "raw \<Rightarrow> ('f, 'x, 'o, 'k) ws_tcs \<Rightarrow> 'o ws_meta option" where
  "raw_GetMetaData r st =
     (case r of
        RawTcp \<Rightarrow> (case tcp_GetMetaData (fst st) of
          None \<Rightarrow> None
        | Some (OtherMeta m) \<Rightarrow> Some m
        | Some (TlsConn c) \<Rightarrow> Some (TlsObject c))
      | RawTlsOver c \<Rightarrow> tls_GetMetaData c (kernel (snd st)))"

definition raw_SetMetaData :: "raw \<Rightarrow> 'o ws_meta \<Rightarrow> ('f, 'x, 'o, 'k) ws_tcs \<Rightarrow> ('f, 'x, 'o, 'k) ws_tcs" where
  "raw_SetMetaData r m st =
     (case r of
        RawTcp \<Rightarrow> on_tc (tcp_SetMetaData (Some (OtherMeta m))) st
      | RawTlsOver c \<Rightarrow> (fst st, set_kernel (tls_SetMetaData (Some m) c (kernel (snd st))) (snd st)))"

section \<open>Contexts\<close>

datatype ctx_key = GraderKey | LocalAddrKey | RemoteAddrKey | UserKey nat

datatype ctx_val = CtxUpgrader nat | CtxAddr "net_addr option" | CtxUser nat

type_synonym ctxt = "(ctx_key \<times> ctx_val) list"

definition NewContextWithWSUpgrader :: "ctxt \<Rightarrow> nat \<Rightarrow> ctxt" where
  "NewContextWithWSUpgrader ctx grader = (GraderKey, CtxUpgrader grader) # ctx"

definition UpgraderFromContext :: "ctxt \<Rightarrow> nat option \<times> bool" where
  "UpgraderFromContext ctx = (case map_of ctx GraderKey of Some (CtxUpgrader g) \<Rightarrow> (Some g, True) | _ \<Rightarrow> (None, False))"

definition NewContextWithLocalAddr :: "ctxt \<Rightarrow> net_addr option \<Rightarrow> ctxt" where
  "NewContextWithLocalAddr ctx addr = (LocalAddrKey, CtxAddr addr) # ctx"

definition LocalAddrFromContext :: "ctxt \<Rightarrow> net_addr option \<times> bool" where
  "LocalAddrFromContext ctx = (case map_of ctx LocalAddrKey of Some (CtxAddr (Some a)) \<Rightarrow> (Some a, True) | _ \<Rightarrow> (None, False))"

definition NewContextWithRemoteAddr :: "ctxt \<Rightarrow> net_addr option \<Rightarrow> ctxt" where
  "NewContextWithRemoteAddr ctx addr = (RemoteAddrKey, CtxAddr addr) # ctx"

definition RemoteAddrFromContext :: "ctxt \<Rightarrow> net_addr option \<times> bool" where
  "RemoteAddrFromContext ctx = (case map_of ctx RemoteAddrKey of Some (CtxAddr (Some a)) \<Rightarrow> (Some a, True) | _ \<Rightarrow> (None, False))"

section \<open>Serving\<close>

text \<open>What the functions of the user and the handshake of the library do to the state; \<open>None\<close> if they do not return. The
  handshake gets the upgrader, which a hook may have changed, and gives the negotiated protocol.\<close>

record ('f, 'x, 'o, 'k) ws_user =
  wu_newContext :: "'f \<Rightarrow> ('f, 'x, 'o, 'k) ws_tcs \<Rightarrow> ctxt \<times> ('f, 'x, 'o, 'k) ws_tcs"
  wu_before :: "'f \<Rightarrow> ctxt \<Rightarrow> ('f, 'x, 'o, 'k) ws_tcs \<Rightarrow> ((err + ctxt) \<times> ('f, 'x, 'o, 'k) ws_tcs) option"
  wu_upgrade :: "'f upgrader \<Rightarrow> raw \<Rightarrow> ('f, 'x, 'o, 'k) ws_tcs \<Rightarrow> ((err + string) \<times> ('f, 'x, 'o, 'k) ws_tcs) option"
  wu_after :: "'f \<Rightarrow> ctxt \<Rightarrow> nat \<Rightarrow> ('f, 'x, 'o, 'k) ws_tcs \<Rightarrow> (err option \<times> ('f, 'x, 'o, 'k) ws_tcs) option"
  wu_handler :: "'f \<Rightarrow> nat \<Rightarrow> ('f, 'x, 'o, 'k) ws_tcs \<Rightarrow> (err option \<times> ('f, 'x, 'o, 'k) ws_tcs) option"
  wu_closed :: "'f \<Rightarrow> nat \<Rightarrow> ('f, 'x, 'o, 'k) ws_tcs \<Rightarrow> err option \<times> ('f, 'x, 'o, 'k) ws_tcs"

text \<open>The defaults of the three hooks.\<close>

definition newHandshakeContext :: "('f, 'x, 'o, 'k) ws_user \<Rightarrow> 'f hook \<Rightarrow> ('f, 'x, 'o, 'k) ws_tcs \<Rightarrow> ctxt \<times> ('f, 'x, 'o, 'k) ws_tcs" where
  "newHandshakeContext U h st = (case h of DefaultHook \<Rightarrow> ([], st) | UserHook f \<Rightarrow> wu_newContext U f st)"

definition beforeHandshake :: "('f, 'x, 'o, 'k) ws_user \<Rightarrow> 'f hook \<Rightarrow> ctxt \<Rightarrow> ('f, 'x, 'o, 'k) ws_tcs \<Rightarrow>
    ((err + ctxt) \<times> ('f, 'x, 'o, 'k) ws_tcs) option" where
  "beforeHandshake U h ctx st = (case h of DefaultHook \<Rightarrow> Some (Inr ctx, st) | UserHook f \<Rightarrow> wu_before U f ctx st)"

definition afterHandshake :: "('f, 'x, 'o, 'k) ws_user \<Rightarrow> 'f hook \<Rightarrow> ctxt \<Rightarrow> nat \<Rightarrow> ('f, 'x, 'o, 'k) ws_tcs \<Rightarrow>
    (err option \<times> ('f, 'x, 'o, 'k) ws_tcs) option" where
  "afterHandshake U h ctx c st = (case h of DefaultHook \<Rightarrow> Some (None, st) | UserHook f \<Rightarrow> wu_after U f ctx c st)"

definition server_conn :: "raw \<Rightarrow> 'f serverOptions \<Rightarrow> string \<Rightarrow> ('f, 'x) ws_object" where
  "server_conn r options protocol =
     \<lparr>wo_conn = \<lparr>c_raw = (case r of RawTcp \<Rightarrow> RawTnet | RawTlsOver c \<Rightarrow> RawTls), c_role = ServerSide, c_reader = False,
        c_messageType = w_messageType options, c_subprotocol = protocol, c_pingHandler = w_pingHandler options,
        c_pongHandler = w_pongHandler options, c_combineWrites = w_combineWrites options\<rparr>,
      wo_metaData = None, wo_raw = r, wo_source = []\<rparr>"

definition upgraded :: "('f, 'x, 'o, 'k) ws_user \<Rightarrow> raw \<Rightarrow> 'f serverOptions \<Rightarrow> ctxt \<Rightarrow> string \<Rightarrow> ('f, 'x, 'o, 'k) ws_tcs \<Rightarrow>
    (err option \<times> ('f, 'x, 'o, 'k) ws_tcs) option" where
  "upgraded U r options ctx protocol st =
     (let (c, w) = ws_alloc (server_conn r options protocol) (ww st)
      in afterHandshake U (w_afterHandshake options) ctx c (raw_SetMetaData r (WsConn c) (set_ww w st)))"

text \<open>The branch of \<open>handleWithOptions\<close> for a connection that is not a websocket one yet.\<close>

definition ws_handshake :: "('f, 'x, 'o, 'k) ws_user \<Rightarrow> raw \<Rightarrow> 'f serverOptions \<Rightarrow> ('f, 'x, 'o, 'k) ws_tcs \<Rightarrow>
    (err option \<times> ('f, 'x, 'o, 'k) ws_tcs) option" where
  "ws_handshake U r options st =
     (let (g, w) = new_upgrader \<lparr>up_Protocol = w_protocolSelect options, up_ProtocolCustom = w_protocolCustom options\<rparr> (ww st);
          (ctx, st) = newHandshakeContext U (w_newHandshakeContext options) (set_ww w st);
          ctx = NewContextWithWSUpgrader ctx g;
          ctx = NewContextWithLocalAddr ctx (Some (tcp_LocalAddr (fst st)));
          ctx = NewContextWithRemoteAddr ctx (tcp_RemoteAddr (fst st))
      in Option.bind (beforeHandshake U (w_beforeHandshake options) ctx st)
           (\<lambda>(res, st). case res of
              Inl e \<Rightarrow> Some (Some e, st)
            | Inr ctx \<Rightarrow>
                Option.bind (wu_upgrade U (ww_upgraders (ww st) g) r st)
                  (\<lambda>(res, st). case res of
                     Inl e \<Rightarrow> Some (Some e, st)
                   | Inr protocol \<Rightarrow> upgraded U r options ctx protocol st)))"

definition handleWithOptions :: "('f, 'x, 'o, 'k) ws_user \<Rightarrow> raw \<Rightarrow> 'f \<Rightarrow> 'f serverOptions \<Rightarrow> ('f, 'x, 'o, 'k) ws_tcs \<Rightarrow>
    (err option \<times> ('f, 'x, 'o, 'k) ws_tcs) option" where
  "handleWithOptions U r handler options st =
     (case raw_GetMetaData r st of
        None \<Rightarrow> ws_handshake U r options st
      | Some (WsConn c) \<Rightarrow> wu_handler U handler c st
      | Some _ \<Rightarrow> Some (Some (ErrText ''websocket connection is not stored in metadata''), st))"

text \<open>\<open>onClosed\<close> and \<open>onClosedTLS\<close>.\<close>

definition onClosed :: "('f, 'x, 'o, 'k) ws_user \<Rightarrow> 'f option \<Rightarrow> raw \<Rightarrow> ('f, 'x, 'o, 'k) ws_tcs \<Rightarrow> err option \<times> ('f, 'x, 'o, 'k) ws_tcs" where
  "onClosed U oc r st =
     (case oc of
        None \<Rightarrow> (None, st)
      | Some f \<Rightarrow>
          (case raw_GetMetaData r st of
             Some (WsConn c) \<Rightarrow> wu_closed U f c st
           | _ \<Rightarrow> (Some (ErrText ''on closed: websocket connection is not stored in metadata''), st)))"

text \<open>The functions of this package as those of the TLS model and of TCP connections.\<close>

definition ws_functions :: "('f, 'x, 'o, 'k) ws_user \<Rightarrow> ('f ws_fn, 'o ws_meta, 'o ws_meta, ('f, 'x, 'k) ws_world) tls_user" where
  "ws_functions U =
     \<lparr>tu_request = (\<lambda>f c st. case f of WsRequest h options \<Rightarrow> handleWithOptions U (RawTlsOver c) h options st | _ \<Rightarrow> Some (None, st)),
      tu_closed = (\<lambda>f c st. case f of WsOnClosed oc \<Rightarrow> onClosed U oc (RawTlsOver c) st | _ \<Rightarrow> (None, st)),
      tu_plain = (\<lambda>f st. case f of WsRequest h options \<Rightarrow> handleWithOptions U RawTcp h options st | _ \<Rightarrow> Some (None, st)),
      tu_plainClosed = (\<lambda>f st. case f of WsOnClosed oc \<Rightarrow> onClosed U oc RawTcp st | _ \<Rightarrow> (None, st)),
      tu_opened = (\<lambda>_ _ t. Some (None, t))\<rparr>"

definition tlsServiceOptions :: "'f serverOptions \<Rightarrow> 'f ws_fn tls_ServerOption list" where
  "tlsServiceOptions options =
     [tls_WithTCPKeepAlive (w_keepAlive options), tls_WithServerIdleTimeout (w_idleTimeout options),
      tls_WithServerTLSConfig (w_tlsConfig options), tls_WithOnClosed (Some (WsOnClosed (w_onClosed options))),
      tls_WithServerFlushWrite True, tls_WithServerOutboundBufferLimit (w_outboundBufferLimit options)]"

definition tcpServiceOptions :: "'f serverOptions \<Rightarrow> 'f ws_fn tls_fn Option list" where
  "tcpServiceOptions options =
     [WithTCPKeepAlive (w_keepAlive options), WithTCPIdleTimeout (w_idleTimeout options),
      WithOnTCPClosed (Some (PlainFn (WsOnClosed (w_onClosed options)))), WithFlushWrite True,
      WithTCPOutboundBufferLimit (w_outboundBufferLimit options)]"

definition ws_NewService :: "any_listener \<Rightarrow> 'f \<Rightarrow> 'f ServerOption list \<Rightarrow> ('f, 'x, 'o, 'k) ws_state \<Rightarrow>
    err + ('f ws_fn tls_fn, 'o ws_meta tls_meta, ('o ws_meta, ('f, 'x, 'k) ws_world) tls_world) tcpservice" where
  "ws_NewService ln handler opts t =
     (let options = fold (\<lambda>opt o1. opt o1) opts defaultServerOptions in
      if w_tlsConfig options \<noteq> None then tls_NewService ln (WsRequest handler options) (tlsServiceOptions options) t
      else NewTCPService ln (Some (PlainFn (WsRequest handler options))) (tcpServiceOptions options) t)"

section \<open>Operations on the raw connection\<close>

definition ws_SetMetaData :: "'x option \<Rightarrow> nat \<Rightarrow> ('f, 'x, 'k) ws_world \<Rightarrow> ('f, 'x, 'k) ws_world" where
  "ws_SetMetaData m c w = w\<lparr>ww_conns := (ww_conns w)(c := (ww_conns w c)\<lparr>wo_metaData := m\<rparr>)\<rparr>"

definition ws_GetMetaData :: "nat \<Rightarrow> ('f, 'x, 'k) ws_world \<Rightarrow> 'x option" where
  "ws_GetMetaData c w = wo_metaData (ww_conns w c)"

definition ws_SetIdleTimeout :: "int \<Rightarrow> ('f, 'x, 'o, 'k) ws_tcs \<Rightarrow> err option \<times> ('f, 'x, 'o, 'k) ws_tcs" where
  "ws_SetIdleTimeout d st = tls_SetIdleTimeout d st"

definition ws_SetWriteIdleTimeout :: "int \<Rightarrow> ('f, 'x, 'o, 'k) ws_tcs \<Rightarrow> err option \<times> ('f, 'x, 'o, 'k) ws_tcs" where
  "ws_SetWriteIdleTimeout d st = tls_SetWriteIdleTimeout d st"

definition ws_SetReadIdleTimeout :: "int \<Rightarrow> ('f, 'x, 'o, 'k) ws_tcs \<Rightarrow> err option \<times> ('f, 'x, 'o, 'k) ws_tcs" where
  "ws_SetReadIdleTimeout d st = tls_SetReadIdleTimeout d st"

definition ws_LocalAddr :: "('f, 'x, 'o, 'k) ws_tcs \<Rightarrow> net_addr" where
  "ws_LocalAddr st = tcp_LocalAddr (fst st)"

definition ws_RemoteAddr :: "('f, 'x, 'o, 'k) ws_tcs \<Rightarrow> net_addr option" where
  "ws_RemoteAddr st = tcp_RemoteAddr (fst st)"

definition ws_SetDeadline :: "int option \<Rightarrow> ('f, 'x, 'o, 'k) ws_tcs \<Rightarrow> err option \<times> ('f, 'x, 'o, 'k) ws_tcs" where
  "ws_SetDeadline d st = (case tcp_SetDeadline d (fst st) of (e, tc) \<Rightarrow> (e, tc, snd st))"

definition ws_SetReadDeadline :: "int option \<Rightarrow> ('f, 'x, 'o, 'k) ws_tcs \<Rightarrow> err option \<times> ('f, 'x, 'o, 'k) ws_tcs" where
  "ws_SetReadDeadline d st = (case tcp_SetReadDeadline d (fst st) of (e, tc) \<Rightarrow> (e, tc, snd st))"

definition ws_SetWriteDeadline :: "int option \<Rightarrow> ('f, 'x, 'o, 'k) ws_tcs \<Rightarrow> err option \<times> ('f, 'x, 'o, 'k) ws_tcs" where
  "ws_SetWriteDeadline d st = (case tcp_SetWriteDeadline d (fst st) of (e, tc) \<Rightarrow> (e, tc, snd st))"

definition ws_SetOnRequest :: "'f \<Rightarrow> raw \<Rightarrow> ('f, 'x, 'o, 'k) ws_tcs \<Rightarrow> err option \<times> ('f, 'x, 'o, 'k) ws_tcs" where
  "ws_SetOnRequest handler r st =
     (case r of
        RawTcp \<Rightarrow>
          (case tcp_SetOnRequest (Some (PlainFn (WsRequest handler defaultServerOptions))) (fst st) of (e, tc) \<Rightarrow> (e, tc, snd st))
      | RawTlsOver c \<Rightarrow> tls_SetOnRequest (WsRequest handler defaultServerOptions) c st)"

definition ws_SetOnClosed :: "'f option \<Rightarrow> raw \<Rightarrow> ('f, 'x, 'o, 'k) ws_tcs \<Rightarrow> err option \<times> ('f, 'x, 'o, 'k) ws_tcs" where
  "ws_SetOnClosed oc r st =
     (case r of
        RawTcp \<Rightarrow> (case tcp_SetOnClosed (Some (PlainFn (WsOnClosed oc))) (fst st) of (e, tc) \<Rightarrow> (e, tc, snd st))
      | RawTlsOver c \<Rightarrow> tls_SetOnClosed (WsOnClosed oc) c st)"

text \<open>\<open>tlsClose\<close> is \<open>Close\<close> of \<open>crypto/tls\<close>, which says goodbye to the peer and closes the TCP connection.\<close>

definition raw_Close :: "('o ws_meta, ('f, 'x, 'k) ws_world) tls_world ext \<Rightarrow> ('f, 'x, 'o, 'k) ws_user \<Rightarrow>
    (nat \<Rightarrow> ('f, 'x, 'o, 'k) ws_tcs \<Rightarrow> (adds \<times> ('f, 'x, 'o, 'k) ws_tcs) option) \<Rightarrow> raw \<Rightarrow> ('f, 'x, 'o, 'k) ws_tcs \<Rightarrow>
    (adds \<times> ('f, 'x, 'o, 'k) ws_tcs) option" where
  "raw_Close X U tlsClose r st =
     (case r of RawTcp \<Rightarrow> tcp_Close X (tls_closed (ws_functions U)) st | RawTlsOver c \<Rightarrow> tlsClose c st)"

definition ws_Close :: "('o ws_meta, ('f, 'x, 'k) ws_world) tls_world ext \<Rightarrow> ('f, 'x, 'o, 'k) ws_user \<Rightarrow>
    (nat \<Rightarrow> ('f, 'x, 'o, 'k) ws_tcs \<Rightarrow> (adds \<times> ('f, 'x, 'o, 'k) ws_tcs) option) \<Rightarrow> nat \<Rightarrow> ('f, 'x, 'o, 'k) ws_tcs \<Rightarrow>
    (adds \<times> ('f, 'x, 'o, 'k) ws_tcs) option" where
  "ws_Close X U tlsClose c st = raw_Close X U tlsClose (wo_raw (ww_conns (ww st) c)) st"

section \<open>Dialing\<close>

record url =
  u_Scheme :: string
  u_Host :: string

definition IndexByte :: "string \<Rightarrow> char \<Rightarrow> int" where
  "IndexByte s c = (if c \<in> set s then int (length (takeWhile (\<lambda>x. x \<noteq> c) s)) else -1)"

definition createHostPortAddress :: "string \<Rightarrow> string \<Rightarrow> string \<times> string" where
  "createHostPortAddress host defaultPort =
     (let colon = LastIndexByte host CHR '':''; bracket = IndexByte host CHR '']'' in
      if colon > bracket then (take (nat colon) host, host) else (host, host @ defaultPort))"

text \<open>The configuration that a dial over TLS uses: it gets the name of the host, also when it is the configuration of the user.\<close>

definition wss_config :: "nat option \<Rightarrow> string \<Rightarrow> ('u, 'k) tls_world \<Rightarrow> nat \<times> ('u, 'k) tls_world" where
  "wss_config tlsConfig hostname w =
     (case (case tlsConfig of None \<Rightarrow> new_config \<lparr>cfg_ServerName = '''', cfg_rest = 0\<rparr> w | Some p \<Rightarrow> (p, w)) of
        (p, w) \<Rightarrow>
          (p, if cfg_ServerName (tw_configs w p) = '''' then
                w\<lparr>tw_configs := (tw_configs w)(p := (tw_configs w p)\<lparr>cfg_ServerName := hostname\<rparr>)\<rparr>
              else w))"

text \<open>The result has the raw connection and the TCP connection below it; \<open>hs\<close> is the handshake of \<open>crypto/tls\<close>.\<close>

definition ws_dial :: "('o ws_meta, ('f, 'x, 'k) ws_world) tls_world ext \<Rightarrow> ('o ws_meta, ('f, 'x, 'k) ws_world) tls_world lsys \<Rightarrow>
    ('f, 'x, 'o, 'k) ws_user \<Rightarrow>
    (nat \<Rightarrow> nat \<Rightarrow> int \<Rightarrow> ('f, 'x, 'o, 'k) ws_state \<Rightarrow> err option \<times> ('f, 'x, 'o, 'k) ws_state) \<Rightarrow> url \<Rightarrow> 'f clientOptions \<Rightarrow>
    ('f, 'x, 'o, 'k) ws_state \<Rightarrow> ((err + raw \<times> nat) \<times> adds \<times> ('f, 'x, 'o, 'k) ws_state) option" where
  "ws_dial X L U hs u options t =
     (if u_Scheme u = ''ws'' then
        let (_, addr) = createHostPortAddress (u_Host u) '':80'' in
        map_option (\<lambda>(r, adds, t). (map_sum id (\<lambda>p. (RawTcp, p)) r, adds, t))
          (DialTCP X L (tls_closed (ws_functions U)) ''tcp'' addr (k_timeout options) t)
      else if u_Scheme u = ''wss'' then
        let (hostname, addr) = createHostPortAddress (u_Host u) '':443'';
            (p, w) = wss_config (k_tlsConfig options) hostname (kernel (t_env t))
        in map_option
             (\<lambda>(r, adds, t). (map_sum id (\<lambda>c. (RawTlsOver c, tl_raw (tw_conns (kernel (t_env t)) c))) r, adds, t))
             (tls_Dial X L (ws_functions U) hs ''tcp'' addr [tls_WithClientTLSConfig (Some p), tls_WithTimeout (k_timeout options)]
                (t\<lparr>t_env := set_kernel w (t_env t)\<rparr>))
      else Some (Inl (ErrText (''unexpected websocket scheme: \"'' @ u_Scheme u @ [CHR 0x22])), [], t))"

definition client_conn :: "raw \<Rightarrow> 'f clientOptions \<Rightarrow> string \<Rightarrow> byte list \<Rightarrow> ('f, 'x) ws_object" where
  "client_conn r options protocol source =
     \<lparr>wo_conn = \<lparr>c_raw = (case r of RawTcp \<Rightarrow> RawTnet | RawTlsOver c \<Rightarrow> RawTls), c_role = ClientSide, c_reader = False,
        c_messageType = k_messageType options, c_subprotocol = protocol, c_pingHandler = None, c_pongHandler = None,
        c_combineWrites = k_combineWrites options\<rparr>,
      wo_metaData = None, wo_raw = r, wo_source = source\<rparr>"

definition zero_clientOptions :: "'f clientOptions" where
  "zero_clientOptions = \<lparr>k_timeout = 0, k_subprotocols = [], k_handshakeHeader = None, k_onHandshakeHeader = None,
     k_onHandshakeStatusError = None, k_messageType = 0, k_tlsConfig = None, k_combineWrites = False\<rparr>"

text \<open>\<open>du\<close> is the handshake of the library for these options: the bytes it has read too much, if its reader is returned, and the
  protocol. Reading them from the reader cannot fail, since they are buffered.\<close>

definition ws_Dial :: "('o ws_meta, ('f, 'x, 'k) ws_world) tls_world ext \<Rightarrow> ('o ws_meta, ('f, 'x, 'k) ws_world) tls_world lsys \<Rightarrow>
    ('f, 'x, 'o, 'k) ws_user \<Rightarrow>
    (nat \<Rightarrow> nat \<Rightarrow> int \<Rightarrow> ('f, 'x, 'o, 'k) ws_state \<Rightarrow> err option \<times> ('f, 'x, 'o, 'k) ws_state) \<Rightarrow>
    (nat \<Rightarrow> ('f, 'x, 'o, 'k) ws_tcs \<Rightarrow> (adds \<times> ('f, 'x, 'o, 'k) ws_tcs) option) \<Rightarrow>
    ('f clientOptions \<Rightarrow> url \<Rightarrow> raw \<Rightarrow> ('f, 'x, 'o, 'k) ws_tcs \<Rightarrow> (err + byte list option \<times> string) \<times> ('f, 'x, 'o, 'k) ws_tcs) \<Rightarrow>
    (string \<Rightarrow> err + url) \<Rightarrow> int \<Rightarrow> string \<Rightarrow> 'f ClientOption list \<Rightarrow> ('f, 'x, 'o, 'k) ws_state \<Rightarrow>
    ((err + nat) \<times> adds \<times> ('f, 'x, 'o, 'k) ws_state) option" where
  "ws_Dial X L U hs tlsClose du parse start addr opts t =
     (case parse addr of
        Inl e \<Rightarrow> Some (Inl e, [], t)
      | Inr u \<Rightarrow>
          let options = fold (\<lambda>opt o1. opt o1) opts (setDefaults zero_clientOptions) in
          Option.bind (ws_dial X L U hs u options t)
            (\<lambda>(res, adds, t). case res of
               Inl e \<Rightarrow> Some (Inl e, adds, t)
             | Inr (r, p) \<Rightarrow>
                 let st = (if k_timeout options > 0 then snd (ws_SetDeadline (Some (start + k_timeout options)) (t_conn p t)) else t_conn p t) in
                 (case du options u r st of
                    (Inl e, st) \<Rightarrow> map_option (\<lambda>(a, st). (Inl e, adds @ a, t_put p st t)) (raw_Close X U tlsClose r st)
                  | (Inr (br, protocol), st) \<Rightarrow>
                      let st = (if k_timeout options > 0 then snd (ws_SetDeadline None st) else st);
                          source = (case br of None \<Rightarrow> [] | Some prefix \<Rightarrow> prefix);
                          (c, w) = ws_alloc (client_conn r options protocol source) (ww st);
                          st = raw_SetMetaData r (WsConn c) (set_ww w st)
                      in Some (Inr c, adds, t_put p st t))))"

section \<open>Serving a connection\<close>

lemma raw_get_set [simp]: "raw_GetMetaData r (raw_SetMetaData r m st) = Some m"
  by (cases r) (simp_all add: raw_GetMetaData_def raw_SetMetaData_def tcp_GetMetaData_def tcp_SetMetaData_def on_tc_def
      tls_GetMetaData_def tls_SetMetaData_def set_kernel_def)

lemma ww_set_ww [simp]: "ww (set_ww w st) = w" "raw_GetMetaData r (set_ww w st) = raw_GetMetaData r st"
  by (auto simp: ww_def set_ww_def set_kernel_def raw_GetMetaData_def tls_GetMetaData_def split: raw.split)

lemma ww_raw_SetMetaData [simp]: "ww (raw_SetMetaData r m st) = ww st"
  by (cases r) (simp_all add: raw_SetMetaData_def ww_def on_tc_def tls_SetMetaData_def set_kernel_def)

text \<open>The functions of the user leave the metadata of the raw connection alone; the hook after the handshake does not change
  whose side a connection is on.\<close>

definition quiet_ws :: "('f, 'x, 'o, 'k) ws_user \<Rightarrow> raw \<Rightarrow> bool" where
  "quiet_ws U r \<longleftrightarrow>
     (\<forall>f st. raw_GetMetaData r (snd (wu_newContext U f st)) = raw_GetMetaData r st) \<and>
     (\<forall>f ctx st x st'. wu_before U f ctx st = Some (x, st') \<longrightarrow> raw_GetMetaData r st' = raw_GetMetaData r st) \<and>
     (\<forall>g st x st'. wu_upgrade U g r st = Some (x, st') \<longrightarrow> raw_GetMetaData r st' = raw_GetMetaData r st) \<and>
     (\<forall>f ctx c st x st'. wu_after U f ctx c st = Some (x, st') \<longrightarrow> raw_GetMetaData r st' = raw_GetMetaData r st \<and>
        c_role (wo_conn (ww_conns (ww st') c)) = c_role (wo_conn (ww_conns (ww st) c))) \<and>
     (\<forall>f c st x st'. wu_handler U f c st = Some (x, st') \<longrightarrow> raw_GetMetaData r st' = raw_GetMetaData r st)"

text \<open>One call of the request closure of a service for a raw connection, requests until one fails, and so many calls of the
  handler of the user.\<close>

definition ws_request :: "('f, 'x, 'o, 'k) ws_user \<Rightarrow> ('f ws_fn tls_fn, 'o ws_meta tls_meta, ('o ws_meta, ('f, 'x, 'k) ws_world) tls_world) tcpservice \<Rightarrow>
    raw \<Rightarrow> ('f, 'x, 'o, 'k) ws_tcs \<Rightarrow> (err option \<times> ('f, 'x, 'o, 'k) ws_tcs) option" where
  "ws_request U s r st =
     (case (s_reqHandle s, r) of
        (Some (PlainFn f), RawTcp) \<Rightarrow> tu_plain (ws_functions U) f st
      | (Some (TlsHandle f), RawTlsOver c) \<Rightarrow> tu_request (ws_functions U) f c st
      | _ \<Rightarrow> None)"

fun repeat_ok :: "('s \<Rightarrow> (err option \<times> 's) option) \<Rightarrow> nat \<Rightarrow> 's \<Rightarrow> (err option \<times> 's) option" where
  "repeat_ok f 0 st = Some (None, st)"
| "repeat_ok f (Suc n) st = Option.bind (f st) (\<lambda>(e, st). if e \<noteq> None then Some (e, st) else repeat_ok f n st)"

lemma ws_request_handle:
  assumes "ws_NewService ln handler opts t = Inr s" and "options = fold (\<lambda>opt o1. opt o1) opts defaultServerOptions"
    and "(r = RawTcp) = (w_tlsConfig options = None)"
  shows "ws_request U s r st = handleWithOptions U r handler options st"
  using assms
  by (cases r) (auto simp: ws_NewService_def tls_NewService_def NewTCPService_def newTCPService_def ws_request_def ws_functions_def Let_def
      split: any_listener.splits option.splits sum.splits)

lemma quiet_wsD:
  assumes "quiet_ws U r"
  shows "wu_after U f ctx c st = Some (x, st') \<Longrightarrow> raw_GetMetaData r st' = raw_GetMetaData r st \<and>
      c_role (wo_conn (ww_conns (ww st') c)) = c_role (wo_conn (ww_conns (ww st) c))"
    and "wu_handler U f c st = Some (x, st') \<Longrightarrow> raw_GetMetaData r st' = raw_GetMetaData r st"
  using assms unfolding quiet_ws_def by blast+

lemma after_stored:
  assumes "quiet_ws U r" and "afterHandshake U h ctx c st = Some (e, st')" and "raw_GetMetaData r st = Some (WsConn c)"
  shows "raw_GetMetaData r st' = Some (WsConn c)" and "c_role (wo_conn (ww_conns (ww st') c)) = c_role (wo_conn (ww_conns (ww st) c))"
proof (atomize (full), cases h)
  case (UserHook f)
  with assms quiet_wsD(1) [OF assms(1), of f ctx c st e st'] show "raw_GetMetaData r st' = Some (WsConn c) \<and>
      c_role (wo_conn (ww_conns (ww st') c)) = c_role (wo_conn (ww_conns (ww st) c))"
    by (simp add: afterHandshake_def)
qed (use assms in \<open>simp add: afterHandshake_def\<close>)

lemma upgraded_stores:
  assumes "quiet_ws U r" and "upgraded U r options ctx protocol st = Some (e, st')"
  shows "\<exists>c. raw_GetMetaData r st' = Some (WsConn c) \<and> c_role (wo_conn (ww_conns (ww st') c)) = ServerSide"
proof -
  define c where "c = ww_next (ww st)"
  define st1 where "st1 = raw_SetMetaData r (WsConn c) (set_ww (snd (ws_alloc (server_conn r options protocol) (ww st))) st)"
  have a: "afterHandshake U (w_afterHandshake options) ctx c st1 = Some (e, st')"
    using assms(2) by (simp add: upgraded_def ws_alloc_def c_def st1_def)
  have "raw_GetMetaData r st1 = Some (WsConn c)" "ww_conns (ww st1) c = server_conn r options protocol"
    by (simp_all add: st1_def ws_alloc_def c_def)
  with after_stored [OF assms(1) a] show ?thesis by (auto simp: server_conn_def)
qed

lemma bind_case_ok:
  assumes "Option.bind m (\<lambda>(res, st). case res of Inl e \<Rightarrow> Some (Some e, st) | Inr x \<Rightarrow> f x st) = Some (None, st')"
  shows "\<exists>x st1. f x st1 = Some (None, st')"
proof -
  obtain res st1 where "m = Some (res, st1)" using assms by (cases m) auto
  with assms show ?thesis by (cases res) auto
qed

lemma handshake_upgrades:
  assumes "ws_handshake U r options st = Some (None, st')"
  shows "\<exists>ctx protocol st1. upgraded U r options ctx protocol st1 = Some (None, st')"
proof -
  obtain g w where g: "new_upgrader \<lparr>up_Protocol = w_protocolSelect options, up_ProtocolCustom = w_protocolCustom options\<rparr> (ww st) = (g, w)"
    by fastforce
  obtain ctx st0 where c: "newHandshakeContext U (w_newHandshakeContext options) (set_ww w st) = (ctx, st0)"
    by (cases "newHandshakeContext U (w_newHandshakeContext options) (set_ww w st)")
  obtain ctx1 st1 where "Option.bind (wu_upgrade U (ww_upgraders (ww st1) g) r st1)
      (\<lambda>(res, st). case res of Inl e \<Rightarrow> Some (Some e, st) | Inr protocol \<Rightarrow> upgraded U r options ctx1 protocol st) = Some (None, st')"
    using bind_case_ok [OF assms [unfolded ws_handshake_def Let_def g c prod.case]] by blast
  from bind_case_ok [OF this] show ?thesis by blast
qed

lemma repeat_handler:
  assumes "quiet_ws U r" and "raw_GetMetaData r st = Some (WsConn c)"
  shows "repeat_ok (handleWithOptions U r handler options) n st = repeat_ok (wu_handler U handler c) n st"
  using assms(2)
proof (induction n arbitrary: st)
  case (Suc n)
  have h: "handleWithOptions U r handler options st = wu_handler U handler c st"
    using Suc.prems by (simp add: handleWithOptions_def)
  show ?case
  proof (cases "wu_handler U handler c st")
    case (Some p)
    obtain e st1 where "p = (e, st1)" by (cases p)
    with Some quiet_wsD(2) [OF assms(1), of handler c st e st1] Suc.IH [of st1] Suc.prems show ?thesis
      by (simp add: h)
  qed (simp add: h)
qed simp

text \<open>C16. The handshake comes first: for a service over TCP or TLS and a connection whose metadata is empty, the first request
  runs the handshake and only this (the hook before it, the upgrade and the hook after it); if it succeeds, the raw
  connection holds a websocket connection of the server side, and every later request calls the handler of the user
  with this connection, until one fails.\<close>

theorem ws_handshake_first:
  assumes "ws_NewService ln handler opts t = Inr s" and "options = fold (\<lambda>opt o1. opt o1) opts defaultServerOptions"
    and "(r = RawTcp) = (w_tlsConfig options = None)" and "quiet_ws U r" and "raw_GetMetaData r st = None"
  shows "ws_request U s r st = ws_handshake U r options st \<and>
    (\<forall>st1. ws_handshake U r options st = Some (None, st1) \<longrightarrow>
       (\<exists>c. raw_GetMetaData r st1 = Some (WsConn c) \<and> c_role (wo_conn (ww_conns (ww st1) c)) = ServerSide \<and>
          repeat_ok (ws_request U s r) (Suc n) st = repeat_ok (wu_handler U handler c) n st1))"
proof -
  have req: "ws_request U s r = handleWithOptions U r handler options"
    using ws_request_handle [OF assms(1-3)] by (rule ext)
  have first: "handleWithOptions U r handler options st = ws_handshake U r options st"
    using assms(5) by (simp add: handleWithOptions_def)
  have "\<exists>c. raw_GetMetaData r st1 = Some (WsConn c) \<and> c_role (wo_conn (ww_conns (ww st1) c)) = ServerSide \<and>
      repeat_ok (ws_request U s r) (Suc n) st = repeat_ok (wu_handler U handler c) n st1"
    if ok: "ws_handshake U r options st = Some (None, st1)" for st1
  proof -
    obtain c where c: "raw_GetMetaData r st1 = Some (WsConn c)" "c_role (wo_conn (ww_conns (ww st1) c)) = ServerSide"
      using handshake_upgrades [OF ok] upgraded_stores [OF assms(4)] by blast
    have "repeat_ok (ws_request U s r) (Suc n) st = repeat_ok (handleWithOptions U r handler options) n st1"
      by (simp add: req first ok)
    also have "\<dots> = repeat_ok (wu_handler U handler c) n st1" by (rule repeat_handler [OF assms(4) c(1)])
    finally show ?thesis using c by blast
  qed
  with req first show ?thesis by simp
qed

section \<open>Hosts and configurations\<close>

lemma IndexByte_append: "c \<notin> set a \<Longrightarrow> IndexByte (a @ c # b) c = int (length a)"
  by (simp add: IndexByte_def takeWhile_until)

lemma LastIndexByte_absent: "c \<notin> set s \<Longrightarrow> LastIndexByte s c = -1" "c \<notin> set s \<Longrightarrow> IndexByte s c = -1"
  by (simp_all add: LastIndexByte_def IndexByte_def)

lemma LastIndexByte_front: "c \<notin> set b \<Longrightarrow> LastIndexByte (a @ b) c < int (length a)"
  using length_takeWhile_le [of "\<lambda>x. x \<noteq> c" "rev a"] by (auto simp: LastIndexByte_def takeWhile_until)

text \<open>The address of a URL: a host name, an IPv4 address or an IPv6 address in brackets, with or without a port, gives the host
  and an address that always has a port, the default one if there is none.\<close>

theorem host_port_address:
  assumes "CHR '':'' \<notin> set name" and "CHR '']'' \<notin> set name" and "CHR '']'' \<notin> set v6"
    and "CHR '':'' \<notin> set port" and "CHR '']'' \<notin> set port"
    and "host = name \<or> host = (CHR ''['' # v6) @ [CHR '']'']"
  shows "createHostPortAddress host defaultPort = (host, host @ defaultPort) \<and>
    createHostPortAddress (host @ CHR '':'' # port) defaultPort = (host, host @ CHR '':'' # port)"
  using assms(6)
proof
  assume h: "host = name"
  have "CHR '']'' \<notin> set (name @ CHR '':'' # port)" using assms(2,5) by auto
  from LastIndexByte_absent(2) [OF this] show ?thesis
    using LastIndexByte_absent [OF assms(1)] LastIndexByte_absent(2) [OF assms(2)]
    by (simp add: h createHostPortAddress_def LastIndexByte_append [OF assms(4)])
next
  assume h: "host = (CHR ''['' # v6) @ [CHR '']'']"
  have v: "CHR '']'' \<notin> set (CHR ''['' # v6)" using assms(3) by auto
  have h_len: "int (length v6) + 1 < int (length host)" by (simp add: h)
  have i: "IndexByte (host @ rest) CHR '']'' = int (length v6) + 1" for rest
    using IndexByte_append [OF v, of rest] by (simp add: h)
  have l: "LastIndexByte host CHR '':'' < int (length v6) + 1"
    using LastIndexByte_front [of "CHR '':''" "[CHR '']'']" "CHR ''['' # v6"] by (simp add: h)
  show ?thesis
    using l h_len i [of "[]"] i [of "CHR '':'' # port"]
    by (simp add: createHostPortAddress_def LastIndexByte_append [OF assms(4), of host] Let_def)
qed

text \<open>C33. A dial over TLS changes the configuration of the user: it stores the name of its host there, if there is no name yet. The
  next dial with this configuration, to another host, finds a name and keeps it, so the certificate of the second
  host is checked against the name of the first.\<close>

theorem wss_config_shared:
  assumes "cfg_ServerName (tw_configs w p) = ''''" and "host1 \<noteq> ''''"
    and "wss_config (Some p) host1 w = (p1, w1)" and "wss_config (Some p) host2 w1 = (p2, w2)"
  shows "p2 = p \<and> cfg_ServerName (tw_configs w2 p) = host1 \<and> fixConfig (Some p) addr w2 = (p, w2)"
  using assms by (auto simp: wss_config_def fixConfig_def)

section \<open>A concrete service\<close>

definition plain_user :: "(nat, unit, unit, unit) ws_user" where
  "plain_user = \<lparr>wu_newContext = (\<lambda>_ st. ([], st)), wu_before = (\<lambda>_ ctx st. Some (Inr ctx, st)),
     wu_upgrade = (\<lambda>_ _ st. Some (Inr ''chat'', st)), wu_after = (\<lambda>_ _ _ st. Some (None, st)),
     wu_handler = (\<lambda>_ _ st. Some (None, st)), wu_closed = (\<lambda>_ _ st. (None, st))\<rparr>"

definition ws_start_world :: "(unit ws_meta, (nat, unit, unit) ws_world) tls_world" where
  "ws_start_world = \<lparr>tw_conns = (\<lambda>_. \<lparr>tl_raw = 0, tl_config = None, tl_client = False, tl_metaData = None\<rparr>), tw_next = 0,
     tw_configs = (\<lambda>_. \<lparr>cfg_ServerName = '''', cfg_rest = 7\<rparr>), tw_nextConfig = 1,
     tw_kernel = \<lparr>ww_conns = (\<lambda>_. server_conn RawTcp defaultServerOptions ''''), ww_next = 0,
       ww_upgraders = (\<lambda>_. \<lparr>up_Protocol = None, up_ProtocolCustom = None\<rparr>), ww_nextUpgrader = 0, ww_kernel = ()\<rparr>\<rparr>"

definition ws_start :: "(nat, unit, unit, unit) ws_state" where
  "ws_start = \<lparr>t_heap = (\<lambda>_. make_tcpconn scheduled_nfd (NewIOData [])), t_next = 1, t_env = idle_env ws_start_world,
     t_mgrs = (\<lparr>pm_lb = new_roundRobinLB, pm_ignoreTaskError = False\<rparr>, \<lparr>pm_lb = new_roundRobinLB, pm_ignoreTaskError = False\<rparr>)\<rparr>"

theorem ws_handshake_first_witness:
  "\<exists>s st1 c. ws_NewService (OurListener scheduled_nfd) 7 [WithServerMessageType Text] ws_start = Inr s \<and>
     repeat_ok (ws_request plain_user s RawTcp) (Suc 2) (t_conn 0 ws_start) = Some (None, st1) \<and>
     raw_GetMetaData RawTcp st1 = Some (WsConn c) \<and> c_role (wo_conn (ww_conns (ww st1) c)) = ServerSide"
proof -
  let ?o = "fold (\<lambda>opt o1. opt o1) [WithServerMessageType Text] defaultServerOptions :: nat serverOptions"
  obtain s where s: "ws_NewService (OurListener scheduled_nfd) 7 [WithServerMessageType Text] ws_start = Inr s"
    by (simp add: ws_NewService_def NewTCPService_def WithServerMessageType_def defaultServerOptions_def Let_def)
  have k: "(RawTcp = RawTcp) = (w_tlsConfig ?o = None)" by (simp add: WithServerMessageType_def defaultServerOptions_def)
  have q: "quiet_ws plain_user RawTcp" by (simp add: quiet_ws_def plain_user_def)
  have n: "raw_GetMetaData RawTcp (t_conn 0 ws_start) = None"
    by (simp add: raw_GetMetaData_def tcp_GetMetaData_def t_conn_def ws_start_def make_tcpconn_def)
  obtain st1 where h: "ws_handshake plain_user RawTcp ?o (t_conn 0 ws_start) = Some (None, st1)"
    by (simp add: ws_handshake_def plain_user_def newHandshakeContext_def beforeHandshake_def afterHandshake_def upgraded_def
        WithServerMessageType_def defaultServerOptions_def ws_alloc_def new_upgrader_def Let_def)
  obtain c where c: "raw_GetMetaData RawTcp st1 = Some (WsConn c)" "c_role (wo_conn (ww_conns (ww st1) c)) = ServerSide"
    "repeat_ok (ws_request plain_user s RawTcp) (Suc 2) (t_conn 0 ws_start) = repeat_ok (wu_handler plain_user 7 c) 2 st1"
    using ws_handshake_first [OF s refl k q n, where n = 2] h by blast
  have "repeat_ok (wu_handler plain_user 7 c) 2 st1 = Some (None, st1)" by (simp add: plain_user_def numeral_2_eq_2)
  with c(3) have "repeat_ok (ws_request plain_user s RawTcp) (Suc 2) (t_conn 0 ws_start) = Some (None, st1)" by simp
  with s c(1,2) show ?thesis by blast
qed

theorem host_port_address_witness:
  "createHostPortAddress ''[::1]:8080'' '':80'' = (''[::1]'', ''[::1]:8080'') \<and> createHostPortAddress ''[::1]'' '':80'' = (''[::1]'', ''[::1]:80'')"
  using host_port_address [of "''a''" "''::1''" "''8080''" "''[::1]''" "'':80''"] by simp

theorem wss_config_shared_witness:
  "cfg_ServerName (tw_configs (snd (wss_config (Some 0) ''b.org'' (snd (wss_config (Some 0) ''a.org'' ws_start_world)))) 0) = ''a.org''"
  using wss_config_shared [of ws_start_world 0 "''a.org''" _ _ "''b.org''"]
  by (metis (no_types, lifting) list.distinct(1) prod.collapse select_convs(1) tls_config.select_convs(1) tls_world.select_convs(3) ws_start_world_def)

end
