(* ===== verification/Reuseport.thy ===== *)
theory Reuseport
  imports Tcp_Open
begin

text \<open>
  Model of \<open>internal/reuseport\<close>: UDP sockets with \<open>SO_REUSEPORT\<close>. The calls of the system and of the package \<open>net\<close>
  (resolving names, looking up interfaces, wrapping a descriptor) are the fields of \<open>rsys\<close>.
\<close>

section \<open>Addresses\<close>

record 'k rsys =
  rs_resolve :: "string \<Rightarrow> string \<Rightarrow> 'k \<Rightarrow> err + ipaddr"
  rs_byName :: "string \<Rightarrow> 'k \<Rightarrow> err + int"
  rs_socket :: "u16 \<Rightarrow> 'k \<Rightarrow> (err + int) \<times> 'k"
  rs_cloexec :: "int \<Rightarrow> 'k \<Rightarrow> 'k"
  rs_setsockopt :: "int \<Rightarrow> int \<Rightarrow> 'k \<Rightarrow> err option \<times> 'k"
  rs_bind :: "int \<Rightarrow> sockaddr \<Rightarrow> 'k \<Rightarrow> err option \<times> 'k"
  rs_close :: "int \<Rightarrow> 'k \<Rightarrow> 'k"
  rs_FilePacketConn :: "int \<Rightarrow> 'k \<Rightarrow> (err + gosock) \<times> 'k"
  rs_file_Close :: "int \<Rightarrow> 'k \<Rightarrow> err option \<times> 'k"

definition errUnsupportedProtocol :: err where
  "errUnsupportedProtocol = ErrText ''only tcp, tcp4, tcp6, udp, udp4, udp6 are supported''"

definition errUnsupportedUDPProtocol :: err where
  "errUnsupportedUDPProtocol = ErrText ''only udp, udp4, udp6 are supported''"

text \<open>\<open>copy\<close> into an array of zeros.\<close>

definition into_array :: "nat \<Rightarrow> byte list \<Rightarrow> byte list" where
  "into_array n bs = take n bs @ replicate (n - length bs) 0"

definition determineUDPProto :: "string \<Rightarrow> ipaddr \<Rightarrow> err + string" where
  "determineUDPProto proto ip =
     (if To4 (ia_IP ip) \<noteq> [] then Inr ''udp4''
      else if To16 (ia_IP ip) \<noteq> [] then Inr ''udp6''
      else if proto \<in> {''udp'', ''udp4'', ''udp6''} then Inr proto
      else Inl errUnsupportedUDPProtocol)"

definition getUDPAddr :: "'k rsys \<Rightarrow> string \<Rightarrow> string \<Rightarrow> 'k \<Rightarrow> err + ipaddr \<times> string" where
  "getUDPAddr S proto addr k =
     (case rs_resolve S proto addr k of
        Inl e \<Rightarrow> Inl e
      | Inr udp \<Rightarrow> (case determineUDPProto proto udp of Inl e \<Rightarrow> Inl e | Inr udpVersion \<Rightarrow> Inr (udp, udpVersion)))"

definition getUDP4Sockaddr :: "ipaddr \<Rightarrow> err + sockaddr \<times> u16" where
  "getUDP4Sockaddr udp =
     Inr (SockaddrInet4 (ia_Port udp)
            (if ia_IP udp \<noteq> [] then
               if length (ia_IP udp) = 16 then into_array 4 (slice 12 16 (ia_IP udp)) else into_array 4 (ia_IP udp)
             else into_array 4 []),
          AF_INET)"

definition getUDP6Sockaddr :: "'k rsys \<Rightarrow> ipaddr \<Rightarrow> 'k \<Rightarrow> err + sockaddr \<times> u16" where
  "getUDP6Sockaddr S udp k =
     (let a = into_array 16 (ia_IP udp) in
      if ia_Zone udp \<noteq> '''' then
        (case rs_byName S (ia_Zone udp) k of
           Inl e \<Rightarrow> Inl e
         | Inr index \<Rightarrow> Inr (SockaddrInet6 (ia_Port udp) a (of_int index), AF_INET6))
      else Inr (SockaddrInet6 (ia_Port udp) a 0, AF_INET6))"

definition getUDPSockaddr :: "'k rsys \<Rightarrow> string \<Rightarrow> string \<Rightarrow> 'k \<Rightarrow> err + sockaddr \<times> u16" where
  "getUDPSockaddr S proto addr k =
     (case getUDPAddr S proto addr k of
        Inl e \<Rightarrow> Inl e
      | Inr (udp, udpVersion) \<Rightarrow>
          if udpVersion = ''udp'' then Inr (SockaddrInet4 (ia_Port udp) (into_array 4 []), AF_INET)
          else if udpVersion = ''udp4'' then getUDP4Sockaddr udp
          else getUDP6Sockaddr S udp k)"

definition getSockaddr :: "'k rsys \<Rightarrow> string \<Rightarrow> string \<Rightarrow> 'k \<Rightarrow> err + sockaddr \<times> u16" where
  "getSockaddr S proto addr k =
     (if proto \<in> {''udp'', ''udp4'', ''udp6''} then getUDPSockaddr S proto addr k else Inl errUnsupportedProtocol)"

section \<open>Sockets\<close>

definition SO_REUSEADDR :: int where "SO_REUSEADDR = 2"
definition SO_BROADCAST :: int where "SO_BROADCAST = 6"

definition soReusePort :: int where
  "soReusePort = 0x0F"

definition setPacketConnSockOpt :: "'k rsys \<Rightarrow> int \<Rightarrow> sockaddr \<Rightarrow> 'k \<Rightarrow> err option \<times> 'k" where
  "setPacketConnSockOpt S fd sockaddr k =
     (case rs_setsockopt S fd SO_REUSEADDR k of
        (Some e, k) \<Rightarrow> (Some e, k)
      | (None, k) \<Rightarrow>
          (case rs_setsockopt S fd soReusePort k of
             (Some e, k) \<Rightarrow> (Some e, k)
           | (None, k) \<Rightarrow>
               (case rs_setsockopt S fd SO_BROADCAST k of
                  (Some e, k) \<Rightarrow> (Some e, k)
                | (None, k) \<Rightarrow> rs_bind S fd sockaddr k)))"

definition createPacketConn :: "'k rsys \<Rightarrow> int \<Rightarrow> sockaddr \<Rightarrow> 'k \<Rightarrow> (err + gosock) \<times> 'k" where
  "createPacketConn S fd sockaddr k =
     (case setPacketConnSockOpt S fd sockaddr k of
        (Some e, k) \<Rightarrow> (Inl e, rs_close S fd k)
      | (None, k) \<Rightarrow>
          (case rs_FilePacketConn S fd k of
             (Inl e, k) \<Rightarrow> (Inl e, rs_close S fd k)
           | (Inr l, k) \<Rightarrow>
               (case rs_file_Close S fd k of
                  (Some e, k) \<Rightarrow> (Inl e, rs_close S fd k)
                | (None, k) \<Rightarrow> (Inr l, k))))"

definition NewReusablePortPacketConn :: "'k rsys \<Rightarrow> string \<Rightarrow> string \<Rightarrow> 'k \<Rightarrow> (err + gosock) \<times> 'k" where
  "NewReusablePortPacketConn S proto addr k =
     (case getSockaddr S proto addr k of
        Inl e \<Rightarrow> (Inl e, k)
      | Inr (sockaddr, soType) \<Rightarrow>
          (case rs_socket S soType k of
             (Inl e, k) \<Rightarrow> (Inl e, rs_close S (-1) k)
           | (Inr fd, k) \<Rightarrow> createPacketConn S fd sockaddr (rs_cloexec S fd k)))"

definition ListenPacket :: "'k rsys \<Rightarrow> string \<Rightarrow> string \<Rightarrow> 'k \<Rightarrow> (err + gosock) \<times> 'k" where
  "ListenPacket S proto addr k = NewReusablePortPacketConn S proto addr k"

section \<open>The address decides\<close>

text \<open>The address that is bound: for every one of the three networks, an address that resolves to an IPv4 address (also one
  mapped into IPv6) gives an IPv4 socket on these four bytes, any other IPv6 address an IPv6 socket on its bytes
  and zone. In particular \<open>udp6\<close> with an IPv4 address gives an IPv4 socket, although a comment in the code says that
  the network given by the caller is used unless it is \<open>udp\<close>.\<close>

theorem reuseport_address:
  assumes "proto \<in> {''udp'', ''udp4'', ''udp6''}" and "rs_resolve S proto addr k = Inr udp"
    and "length (ia_IP udp) \<in> {4, 16}"
  shows "getSockaddr S proto addr k =
    (if To4 (ia_IP udp) \<noteq> [] then Inr (SockaddrInet4 (ia_Port udp) (To4 (ia_IP udp)), AF_INET)
     else if ia_Zone udp = '''' then Inr (SockaddrInet6 (ia_Port udp) (ia_IP udp) 0, AF_INET6)
     else case rs_byName S (ia_Zone udp) k of
       Inl e \<Rightarrow> Inl e
     | Inr index \<Rightarrow> Inr (SockaddrInet6 (ia_Port udp) (ia_IP udp) (of_int index), AF_INET6))"
proof (cases "To4 (ia_IP udp) = []")
  case True
  with assms(3) have ip: "length (ia_IP udp) = 16" "To16 (ia_IP udp) \<noteq> []" by (auto simp: To4_def To16_def split: if_splits)
  then show ?thesis
    using True assms(1,2)
    by (simp add: getSockaddr_def getUDPSockaddr_def getUDPAddr_def determineUDPProto_def getUDP6Sockaddr_def into_array_def Let_def)
next
  case False
  then have "(if length (ia_IP udp) = 16 then into_array 4 (slice 12 16 (ia_IP udp)) else into_array 4 (ia_IP udp)) = To4 (ia_IP udp)"
    and "ia_IP udp \<noteq> []"
    by (auto simp: To4_def into_array_def slice_def split: if_splits)
  then show ?thesis
    using False assms(1,2)
    by (simp add: getSockaddr_def getUDPSockaddr_def getUDPAddr_def determineUDPProto_def getUDP4Sockaddr_def)
qed

section \<open>Descriptors\<close>

text \<open>What the manuals say of the descriptors in use: \<open>socket\<close> and the duplication by \<open>net.FilePacketConn\<close> add a new one or none,
  \<open>close\<close> removes one, and the other calls change nothing.\<close>

definition rsys_doc :: "'k rsys \<Rightarrow> ('k \<Rightarrow> int set) \<Rightarrow> bool" where
  "rsys_doc S fds \<longleftrightarrow>
     (\<forall>f k fd k'. rs_socket S f k = (Inr fd, k') \<longrightarrow> 0 \<le> fd \<and> fd \<notin> fds k \<and> fds k' = insert fd (fds k)) \<and>
     (\<forall>f k e k'. rs_socket S f k = (Inl e, k') \<longrightarrow> fds k' = fds k) \<and>
     (\<forall>fd k. fds (rs_cloexec S fd k) = fds k) \<and>
     (\<forall>fd opt k. fds (snd (rs_setsockopt S fd opt k)) = fds k) \<and>
     (\<forall>fd a k. fds (snd (rs_bind S fd a k)) = fds k) \<and>
     (\<forall>fd k. fds (rs_close S fd k) = fds k - {fd}) \<and>
     (\<forall>fd k l k'. rs_FilePacketConn S fd k = (Inr l, k') \<longrightarrow> gs_fd l \<notin> fds k \<and> fds k' = insert (gs_fd l) (fds k)) \<and>
     (\<forall>fd k e k'. rs_FilePacketConn S fd k = (Inl e, k') \<longrightarrow> fds k' = fds k) \<and>
     (\<forall>fd k k'. rs_file_Close S fd k = (None, k') \<longrightarrow> fds k' = fds k - {fd}) \<and>
     (\<forall>k. -1 \<notin> fds k)"

lemma rsys_docD:
  assumes "rsys_doc S fds"
  shows "rs_socket S f k = (Inr fd, k') \<Longrightarrow> fd \<notin> fds k \<and> fds k' = insert fd (fds k)"
    and "rs_socket S f k = (Inl e, k') \<Longrightarrow> fds k' = fds k"
    and "fds (rs_cloexec S fd k) = fds k" and "fds (snd (rs_setsockopt S fd opt k)) = fds k"
    and "fds (snd (rs_bind S fd a k)) = fds k" and "fds (rs_close S fd k) = fds k - {fd}"
    and "rs_FilePacketConn S fd k = (Inr l, k') \<Longrightarrow> gs_fd l \<notin> fds k \<and> fds k' = insert (gs_fd l) (fds k)"
    and "rs_FilePacketConn S fd k = (Inl e, k') \<Longrightarrow> fds k' = fds k"
    and "rs_file_Close S fd k = (None, k') \<Longrightarrow> fds k' = fds k - {fd}" and "-1 \<notin> fds k"
  using assms unfolding rsys_doc_def by (elim conjE, simp)+

lemma setPacketConnSockOpt_fds:
  assumes "rsys_doc S fds" and "setPacketConnSockOpt S fd a k = (e, k')"
  shows "fds k' = fds k"
  using assms(2) rsys_docD(4) [OF assms(1), of fd] rsys_docD(5) [OF assms(1), of fd a]
  by (auto simp: setPacketConnSockOpt_def split: prod.splits option.splits) (metis snd_conv)+

text \<open>Opening a socket neither leaks a descriptor nor closes one that is not its own: if it fails, the descriptors in use
  are those from before, and if it succeeds, there is exactly one more, that of the result. Closing the duplicate
  must not fail for this.\<close>

theorem reuseport_no_leak:
  assumes "rsys_doc S fds" and "\<forall>fd k. fst (rs_file_Close S fd k) = None"
    and "ListenPacket S proto addr k = (r, k')"
  shows "case r of Inl e \<Rightarrow> fds k' = fds k | Inr l \<Rightarrow> gs_fd l \<notin> fds k \<and> fds k' = insert (gs_fd l) (fds k)"
proof (cases "getSockaddr S proto addr k")
  case (Inl e)
  with assms(3) show ?thesis by (auto simp: ListenPacket_def NewReusablePortPacketConn_def)
next
  case (Inr p)
  obtain a f where p: "p = (a, f)" by (cases p)
  obtain q k1 where s: "rs_socket S f k = (q, k1)" by (cases "rs_socket S f k")
  show ?thesis
  proof (cases q)
    case (Inl e)
    with assms(3) Inr p s rsys_docD(2,6,10) [OF assms(1)] show ?thesis
      by (auto simp: ListenPacket_def NewReusablePortPacketConn_def)
  next
    case q: (Inr fd)
    note n = rsys_docD(1) [OF assms(1) s [unfolded q]]
    obtain e k2 where so: "setPacketConnSockOpt S fd a (rs_cloexec S fd k1) = (e, k2)" by fastforce
    have k2: "fds k2 = insert fd (fds k)"
      using setPacketConnSockOpt_fds [OF assms(1) so] rsys_docD(3) [OF assms(1)] n by simp
    obtain c k3 where l: "rs_FilePacketConn S fd k2 = (c, k3)" by (cases "rs_FilePacketConn S fd k2")
    obtain k4 where cl: "rs_file_Close S fd k3 = (None, k4)" using assms(2) by (metis prod.collapse)
    have res: "createPacketConn S fd a (rs_cloexec S fd k1) = (r, k')"
      using assms(3) Inr p s q by (simp add: ListenPacket_def NewReusablePortPacketConn_def)
    show ?thesis
    proof (cases "e = None")
      case True
      with res so l cl n k2 rsys_docD(6,8,9) [OF assms(1)] rsys_docD(7) [OF assms(1), of fd k2] show ?thesis
        by (cases c) (auto simp: createPacketConn_def)
    next
      case False
      with res so n k2 rsys_docD(6) [OF assms(1)] show ?thesis by (auto simp: createPacketConn_def)
    qed
  qed
qed

section \<open>A concrete system\<close>

text \<open>The state of the system is the list of descriptors in use.\<close>

definition fd_above :: "int list \<Rightarrow> int" where
  "fd_above k = fold max k 0 + 1"

definition list_rsys :: "int list rsys" where
  "list_rsys = \<lparr>rs_resolve = (\<lambda>_ _ _. Inr \<lparr>ia_IP = [10, 0, 0, 1], ia_Port = 80, ia_Zone = ''''\<rparr>), rs_byName = (\<lambda>_ _. Inr 2),
     rs_socket = (\<lambda>_ k. (Inr (fd_above k), fd_above k # k)), rs_cloexec = (\<lambda>_ k. k), rs_setsockopt = (\<lambda>_ _ k. (None, k)),
     rs_bind = (\<lambda>_ _ k. (None, k)), rs_close = (\<lambda>fd k. removeAll fd k),
     rs_FilePacketConn = (\<lambda>_ k. (Inr \<lparr>gs_fd = fd_above k, gs_syscallConn = True, gs_raw = Inr (Some (fd_above k), None),
        gs_laddr = UnixAddr '''', gs_raddr = None, gs_network = ''udp''\<rparr>, fd_above k # k)),
     rs_file_Close = (\<lambda>fd k. (None, removeAll fd k))\<rparr>"

lemma fd_above_new: "fd_above k \<notin> set k" and fd_above_pos: "0 < fd_above k"
proof -
  have ge: "m \<le> fold max k m" for k and m :: int
    by (induction k arbitrary: m) (auto intro: order_trans [OF max.cobounded2])
  have "x \<in> set k \<Longrightarrow> x \<le> fold max k m" for k and x m :: int
    by (induction k arbitrary: m) (auto intro: order_trans [OF max.cobounded1 ge])
  then show "fd_above k \<notin> set k" unfolding fd_above_def by (meson not_le less_add_one)
  show "0 < fd_above k" using ge [of 0 k] by (simp add: fd_above_def)
qed

lemma list_rsys_doc: "rsys_doc list_rsys (\<lambda>k. set k - {-1})"
  unfolding rsys_doc_def using fd_above_new fd_above_pos
  by (auto simp: list_rsys_def less_imp_le) (metis less_asym neg_0_less_iff_less zero_less_one)+

theorem reuseport_address_witness:
  "getSockaddr list_rsys ''udp6'' ''host:80'' [] = Inr (SockaddrInet4 80 [10, 0, 0, 1], AF_INET)"
  using reuseport_address [of "''udp6''" list_rsys "''host:80''" "[]"] by (simp add: list_rsys_def To4_def)

lemma list_rsys_opens: "\<not> isl (fst (ListenPacket list_rsys ''udp'' ''host:80'' [1, 5]))"
  by code_simp

theorem reuseport_no_leak_witness:
  "\<exists>l k'. ListenPacket list_rsys ''udp'' ''host:80'' [1, 5] = (Inr l, k') \<and> set k' - {-1} = {1, 5, gs_fd l}"
proof -
  obtain r k' where r: "ListenPacket list_rsys ''udp'' ''host:80'' [1, 5] = (r, k')"
    by (cases "ListenPacket list_rsys ''udp'' ''host:80'' [1, 5]")
  then obtain l where l: "r = Inr l" using list_rsys_opens by (cases r) simp_all
  have "\<forall>fd k. fst (rs_file_Close list_rsys fd k) = None" by (simp add: list_rsys_def)
  from reuseport_no_leak [OF list_rsys_doc this r] r l show ?thesis by auto
qed

end
