(* ===== verification/Netfd_Bsd.thy ===== *)
theory Netfd_Bsd
  imports Udpconn
begin

text \<open>
  Model of \<open>netfd_bsd.go\<close>: UDP packets one at a time, for systems without \<open>recvmmsg\<close> and \<open>sendmmsg\<close>. Blocks and
  buffers are those of \<open>Netfd_Udp\<close>. The system call \<open>recvfrom\<close> is the field of \<open>'k bsys\<close>; the flag says whether it
  peeks. The numbers of the address families are those of the other theories: the code writes and compares them
  but never computes with them.
\<close>

section \<open>Operations\<close>

record 'k bsys =
  b_recvfrom :: "int \<Rightarrow> sref \<Rightarrow> bool \<Rightarrow> 'k \<times> heap \<Rightarrow> (err + nat \<times> sockaddr option) \<times> 'k \<times> heap"

definition getUdpBufferSize :: "'k bsys \<Rightarrow> netFD \<Rightarrow> umem \<times> 'k \<Rightarrow> (err + int) \<times> umem \<times> 'k" where
  "getUdpBufferSize B nfd st =
     (case st of (m, k) \<Rightarrow>
        if \<not> nf_exactUDPBufferSizeEnabled nfd then (Inr (nf_udpBufferSize nfd), m, k)
        else case new_array (nat (nf_udpBufferSize nfd)) m of
          (r, m) \<Rightarrow>
            (case b_recvfrom B (nf_fd nfd) (r\<lparr>sr_len := nat (nf_udpBufferSize nfd)\<rparr>) True (k, u_heap m) of
               (Inl e, k, h) \<Rightarrow> (Inl e, m\<lparr>u_heap := h\<rparr>, k)
             | (Inr (n, _), k, h) \<Rightarrow> (Inr (int n), m\<lparr>u_heap := h\<rparr>, k)))"

definition sockaddr_slice :: "sockaddr option \<Rightarrow> byte list \<Rightarrow> err + byte list" where
  "sockaddr_slice sa bs =
     (case sa of None \<Rightarrow> Inl (ErrText ''addr type is not support'') | Some sa \<Rightarrow> UnixSockaddrToSockaddrSlice sa bs)"

definition bsd_FillToBuffer :: "'k bsys \<Rightarrow> nat option \<Rightarrow> netFD \<Rightarrow> sref list \<Rightarrow> umem \<times> 'k \<Rightarrow>
    err option \<times> sref list \<times> umem \<times> 'k" where
  "bsd_FillToBuffer B pick nfd b st =
     (case getUdpBufferSize B nfd st of
        (Inl e, m, k) \<Rightarrow> (Some e, b, m, k)
      | (Inr udpBufferSize, m, k) \<Rightarrow>
          (case ref_Malloc pick (nat (udpBufferSize + int SockaddrSize)) m of
             (Inl f, m) \<Rightarrow> (Some (Fault f), b, m, k)
           | (Inr block, m) \<Rightarrow>
               (case b_recvfrom B (nf_fd nfd) (sr_sub SockaddrSize (sr_len block) block) False (k, u_heap m) of
                  (Inl e, k, h) \<Rightarrow> (if e = EAGAIN then None else Some e, b, m\<lparr>u_heap := h\<rparr>, k)
                | (Inr (n, sa), k, h) \<Rightarrow>
                    let name = sr_sub 0 SockaddrSize block in
                    (case sockaddr_slice sa (sr_get h name) of
                       Inl e \<Rightarrow> (Some e, b, m\<lparr>u_heap := h\<rparr>, k)
                     | Inr bs \<Rightarrow>
                         (None, b @ [block\<lparr>sr_len := SockaddrSize + n\<rparr>], m\<lparr>u_heap := sr_put h name bs\<rparr>, k)))))"

definition bsd_SendPackets :: "(int \<Rightarrow> string option) \<Rightarrow> (string \<Rightarrow> int option) \<Rightarrow> 'k nsys \<Rightarrow> netFD \<Rightarrow> sref list \<Rightarrow> umem \<times> 'k \<Rightarrow>
    err option \<times> sref list \<times> umem \<times> 'k" where
  "bsd_SendPackets byIndex byName N nfd b st =
     (case st of (m, k) \<Rightarrow>
        case take 1 b of
          [] \<Rightarrow> (Some (ErrText ''block numbers is unexpected''), b, m, k)
        | block # _ \<Rightarrow>
            (case getUDPDataAndAddr byIndex (u_heap m) block of
               Inl e \<Rightarrow> (Some e, b, m, k)
             | Inr (buf, a) \<Rightarrow>
                 let addr = UDPAddr \<lparr>ia_IP = sr_get (u_heap m) (ua_IP a), ia_Port = ua_Port a, ia_Zone = ua_Zone a\<rparr> in
                 (case nfd_WriteTo byName N (sr_get (u_heap m) buf) (Some addr) nfd k of
                    (_, _, k) \<Rightarrow> (case blocks_skip 1 b of (e, b) \<Rightarrow> (e, b, m, k)))))"

section \<open>Receiving a packet\<close>

text \<open>The addresses a socket reports, and the address of the package \<open>net\<close> each stands for. A zone is not among them.\<close>

definition sender :: "sockaddr \<Rightarrow> ipaddr option" where
  "sender sa =
     (case sa of
        SockaddrInet4 port ip \<Rightarrow>
          if length ip = 4 \<and> 0 \<le> port \<and> port < 65536 then Some \<lparr>ia_IP = ip, ia_Port = port, ia_Zone = ''''\<rparr> else None
      | SockaddrInet6 port ip zone \<Rightarrow>
          if length ip = 16 \<and> 0 \<le> port \<and> port < 65536 \<and> zone = 0
          then Some \<lparr>ia_IP = ip, ia_Port = port, ia_Zone = ''''\<rparr> else None
      | SockaddrUnix _ \<Rightarrow> None)"

text \<open>The documented behaviour of \<open>recvfrom\<close> on a socket whose next datagram is \<open>p\<close> from \<open>sa\<close>: it stores what fits, returns
  the number of bytes stored, and takes the datagram off unless it peeks.\<close>

definition next_packet :: "'k bsys \<Rightarrow> int \<Rightarrow> 'k \<Rightarrow> sockaddr \<Rightarrow> byte list \<Rightarrow> 'k \<Rightarrow> bool" where
  "next_packet B fd k sa p k' \<longleftrightarrow>
     (\<forall>r peek h. b_recvfrom B fd r peek (k, h) =
        (Inr (min (length p) (sr_len r), Some sa), if peek then k else k', sr_put h r p))"

lemma sender_slice:
  assumes "sender sa = Some a" and "length old = SockaddrSize"
  shows "\<exists>bs. sockaddr_slice (Some sa) old = Inr bs \<and> length bs = SockaddrSize \<and> SockaddrSliceToUDPAddr byIndex bs = Inr a"
proof (cases sa)
  case (SockaddrInet4 port ip)
  with assms(1) have ip: "length ip = 4" "0 \<le> port" "port < 65536" "a = \<lparr>ia_IP = ip, ia_Port = port, ia_Zone = ''''\<rparr>"
    by (auto simp: sender_def split: if_splits)
  let ?bs = "put_le16 AF_INET @ put_be16 (of_int port) @ ip @ drop 8 old"
  have "sockaddr_slice (Some sa) old = Inr ?bs"
    using assms(2) ip(1) SockaddrInet4
    by (simp add: sockaddr_slice_def UnixSockaddrToSockaddrSlice_def buildSockaddrSliceIPv4_def SockaddrSize_def overwrite_def put_le16_def put_be16_def)
  moreover have "SockaddrSliceToUDPAddr byIndex ?bs = Inr a"
    using assms(2) ip(1,4) port_bytes [OF ip(2,3)] get_put16(1) [of AF_INET]
    by (simp add: SockaddrSliceToUDPAddr_def SockaddrSize_def slice_def put_le16_def put_be16_def)
  ultimately show ?thesis using assms(2) ip(1) by (auto simp: SockaddrSize_def put_le16_def put_be16_def)
next
  case (SockaddrInet6 port ip zone)
  with assms(1) have ip: "length ip = 16" "0 \<le> port" "port < 65536" "zone = 0"
    "a = \<lparr>ia_IP = ip, ia_Port = port, ia_Zone = ''''\<rparr>"
    by (auto simp: sender_def split: if_splits)
  let ?bs = "put_le16 AF_INET6 @ put_be16 (of_int port) @ slice 4 8 old @ ip @ put_be32 0"
  have "sockaddr_slice (Some sa) old = Inr ?bs"
    using assms(2) ip(1,4) SockaddrInet6
    by (simp add: sockaddr_slice_def UnixSockaddrToSockaddrSlice_def buildSockaddrSliceIPv6_def SockaddrSize_def overwrite_def
        put_le16_def put_be16_def put_be32_def slice_def take_drop)
  moreover have "SockaddrSliceToUDPAddr byIndex ?bs = Inr a"
    using assms(2) ip(1,5) port_bytes [OF ip(2,3)] get_put16(1) [of AF_INET6]
    by (simp add: SockaddrSliceToUDPAddr_def SockaddrSize_def slice_def put_le16_def put_be16_def put_be32_def get_le32_def
        AF_INET_def AF_INET6_def IP6ZoneToString_def)
  ultimately show ?thesis using assms(2) ip(1) by (auto simp: SockaddrSize_def put_le16_def put_be16_def put_be32_def slice_def)
next
  case (SockaddrUnix x)
  with assms(1) show ?thesis by (simp add: sender_def)
qed

lemma getUdpBufferSize_ok:
  assumes "mem_ok m b" and "nf_udpBufferSize nfd = int sz" and "sz < 2 ^ 62" and "next_packet B (nf_fd nfd) k sa p k'"
  shows "\<exists>n m1. getUdpBufferSize B nfd (m, k) = (Inr (int n), m1, k) \<and> n \<le> sz \<and> min (length p) n = min (length p) sz \<and>
    mem_ok m1 b \<and> (\<forall>x \<in> set b. u_heap m1 (sr_arr x) = u_heap m (sr_arr x))"
proof (cases "nf_exactUDPBufferSizeEnabled nfd")
  case False
  with assms(1,2) show ?thesis by (simp add: getUdpBufferSize_def)
next
  case True
  obtain r m1 where a: "new_array sz m = (r, m1)" by fastforce
  have "sz < 2 ^ 63" using assms(3) by simp
  note f = new_array_ok(1) [OF assms(1) order.refl this a]
  let ?h = "sr_put (u_heap m1) (r\<lparr>sr_len := sz\<rparr>) p"
  have "sr_off r \<le> length (u_heap m1 (sr_arr r))" using f by (simp add: fresh_block_def)
  then have len: "length (?h x) = length (u_heap m1 x)" for x by (intro length_sr_put) simp
  have "mem_ok (m1\<lparr>u_heap := ?h\<rparr>) b"
    using f mem_ok_lengths [of ?h m1] len mem_ok_drop [of m1 "[r\<lparr>sr_len := sz\<rparr>]" b] by (simp add: fresh_block_def)
  moreover have "\<forall>x \<in> set b. ?h (sr_arr x) = u_heap m (sr_arr x)"
    using f by (auto simp: fresh_block_def sr_put_def image_iff)
  moreover have "getUdpBufferSize B nfd (m, k) = (Inr (int (min (length p) sz)), m1\<lparr>u_heap := ?h\<rparr>, k)"
    using True assms(2,4) a by (simp add: getUdpBufferSize_def next_packet_def)
  ultimately show ?thesis by (intro exI [of _ "min (length p) sz"] exI [of _ "m1\<lparr>u_heap := ?h\<rparr>"]) auto
qed

text \<open>What a block holds after the packet and its address were stored in it.\<close>

lemma stored_packet:
  fixes p :: "byte list"
  assumes "sr_off r = 0" and "sr_len r = SockaddrSize + n" and "sr_len r \<le> length (h (sr_arr r))" and "length bs = SockaddrSize"
  defines "h' \<equiv> sr_put (sr_put h (sr_sub SockaddrSize (sr_len r) r) p) (sr_sub 0 SockaddrSize r) bs"
  defines "r' \<equiv> r\<lparr>sr_len := SockaddrSize + min (length p) n\<rparr>"
  shows "block_payload h' r' = take n p" and "block_addr h' r' = bs"
    and "length (h' a) = length (h a)" and "a \<noteq> sr_arr r \<Longrightarrow> h' a = h a"
proof -
  let ?old = "h (sr_arr r)"
  have h': "h' (sr_arr r) = bs @ take n p @ drop (SockaddrSize + min (length p) n) ?old"
    using assms(1-4) by (simp add: h'_def sr_put_def sr_sub_def overwrite_def min.commute)
  then have g: "sr_get h' r' = bs @ take n p"
    using assms(1,4) by (simp add: sr_get_def r'_def slice_def min_def)
  show "block_payload h' r' = take n p" "block_addr h' r' = bs"
    using g assms(4) by (simp_all add: block_payload_def block_addr_def)
  show "length (h' a) = length (h a)"
    using h' assms(2,3,4) by (cases "a = sr_arr r") (simp_all add: h'_def sr_put_def sr_sub_def)
  show "a \<noteq> sr_arr r \<Longrightarrow> h' a = h a" by (simp add: h'_def sr_put_def sr_sub_def)
qed

text \<open>Receiving on systems without batches: with and without exact sizes, the next datagram (also an empty one) is
  appended as one block that holds its payload, cut to the configured size, and the address of its sender in
  the form the readers decode; the blocks that were waiting are unchanged, and no two blocks share memory.\<close>

theorem bsd_fill_packet:
  assumes "mem_ok m b" and "nf_udpBufferSize nfd = int sz" and "sz < 2 ^ 62" and "next_packet B (nf_fd nfd) k sa p k'"
    and "sender sa = Some a"
  shows "\<exists>r m'. bsd_FillToBuffer B pick nfd b (m, k) = (None, b @ [r], m', k') \<and>
    block_payload (u_heap m') r = take sz p \<and> SockaddrSliceToUDPAddr byIndex (block_addr (u_heap m') r) = Inr a \<and>
    (\<forall>x \<in> set b. sr_get (u_heap m') x = sr_get (u_heap m) x) \<and> mem_ok m' (b @ [r])"
proof -
  obtain n m1 where g: "getUdpBufferSize B nfd (m, k) = (Inr (int n), m1, k)" and n: "n \<le> sz" "min (length p) n = min (length p) sz"
    and ok1: "mem_ok m1 b" and same1: "\<forall>x \<in> set b. u_heap m1 (sr_arr x) = u_heap m (sr_arr x)"
    using getUdpBufferSize_ok [OF assms(1-4)] by blast
  have "0 < n + SockaddrSize" "n + SockaddrSize < 2 ^ 63" using n(1) assms(3) by (simp_all add: SockaddrSize_def)
  from ref_Malloc_ok [OF ok1 this, of pick] obtain r m2 where
    a: "ref_Malloc pick (n + SockaddrSize) m1 = (Inr r, m2)" and f: "fresh_block m1 b (n + SockaddrSize) r m2" by blast
  have r: "sr_off r = 0" "sr_len r = SockaddrSize + n" "sr_len r \<le> length (u_heap m2 (sr_arr r))" "sr_arr r \<notin> sr_arr ` set b"
    and ok2: "mem_ok m2 (r # b)" using f by (auto simp: fresh_block_def mem_ok_def)
  let ?h = "sr_put (u_heap m2) (sr_sub SockaddrSize (sr_len r) r) p"
  let ?name = "sr_sub 0 SockaddrSize r"
  have "length (sr_get ?h ?name) = SockaddrSize"
    using r(1-3) by (simp add: sr_get_def sr_sub_def sr_put_def slice_def)
  from sender_slice [OF assms(5) this, of byIndex] obtain bs where
    bs: "sockaddr_slice (Some sa) (sr_get ?h ?name) = Inr bs" "length bs = SockaddrSize" "SockaddrSliceToUDPAddr byIndex bs = Inr a" by blast
  note st = stored_packet [where h = "u_heap m2" and p = p, OF r(1-3) bs(2)]
  let ?r = "r\<lparr>sr_len := SockaddrSize + min (length p) n\<rparr>" let ?h' = "sr_put ?h ?name bs"
  have fill: "bsd_FillToBuffer B pick nfd b (m, k) = (None, b @ [?r], m2\<lparr>u_heap := ?h'\<rparr>, k')"
    using g a bs(1) assms(4) r(2) by (simp add: bsd_FillToBuffer_def next_packet_def nat_int_add sr_sub_def add.commute Let_def)
  have "mem_ok (m2\<lparr>u_heap := ?h'\<rparr>) (r # b)" using mem_ok_lengths [of ?h' m2] st(3) ok2 by blast
  then have "mem_ok (m2\<lparr>u_heap := ?h'\<rparr>) (?r # b)" by (rule mem_ok_cut) (use r(2,3) st(3) in simp)
  then have ok: "mem_ok (m2\<lparr>u_heap := ?h'\<rparr>) (b @ [?r])" by (subst mem_ok_perm [of _ "?r # b"]) simp_all
  have "\<forall>x \<in> set b. u_heap m2 (sr_arr x) = u_heap m1 (sr_arr x)" using f by (simp add: fresh_block_def)
  then have same: "\<forall>x \<in> set b. sr_get ?h' x = sr_get (u_heap m) x"
    using same1 r(4) st(4) by (auto simp: sr_get_def image_iff)
  have "take n p = take sz p" using n by (metis min_def nat_le_linear take_all take_all_iff)
  with fill st(1,2) bs(3) ok same show ?thesis by (intro exI [of _ ?r] exI [of _ "m2\<lparr>u_heap := ?h'\<rparr>"]) simp
qed

text \<open>A socket as a queue of datagrams.\<close>

definition queue_bsys :: "(sockaddr \<times> byte list) list bsys" where
  "queue_bsys = \<lparr>b_recvfrom = (\<lambda>fd r peek (k, h). case k of [] \<Rightarrow> (Inl EAGAIN, k, h)
     | (sa, p) # ks \<Rightarrow> (Inr (min (length p) (sr_len r), Some sa), if peek then k else ks, sr_put h r p))\<rparr>"

theorem bsd_fill_packet_witness:
  "\<exists>r m'. bsd_FillToBuffer queue_bsys None (udp_nfd\<lparr>nf_exactUDPBufferSizeEnabled := True\<rparr>) [] (empty_mem, [(SockaddrInet4 53 [10, 0, 0, 1], [])]) =
      (None, [r], m', []) \<and> block_payload (u_heap m') r = [] \<and>
    SockaddrSliceToUDPAddr (\<lambda>_. None) (block_addr (u_heap m') r) = Inr \<lparr>ia_IP = [10, 0, 0, 1], ia_Port = 53, ia_Zone = ''''\<rparr>"
  using bsd_fill_packet [of empty_mem "[]" "udp_nfd\<lparr>nf_exactUDPBufferSizeEnabled := True\<rparr>" 100 queue_bsys
      "[(SockaddrInet4 53 [10, 0, 0, 1], [])]" "SockaddrInet4 53 [10, 0, 0, 1]" "[]" "[]"
      "\<lparr>ia_IP = [10, 0, 0, 1], ia_Port = 53, ia_Zone = ''''\<rparr>" None "\<lambda>_. None"]
  by (auto simp: udp_nfd_def next_packet_def queue_bsys_def sender_def)

section \<open>Sending a packet\<close>

text \<open>Sending on systems without batches: every packet is handed to the kernel once. If the kernel refuses it, with
  \<open>EAGAIN\<close> because the socket is full or with another error, the packet is off the buffer as if it had been sent,
  and the caller, that would wait for the socket to be writable and try again, is told nothing.\<close>

theorem bsd_send_loses_refused:
  assumes "SockaddrSize < sr_len r" and "sr_off r = 0" and "sr_len r \<le> length (u_heap m (sr_arr r))"
    and "SockaddrSliceToUDPAddr byIndex (block_addr (u_heap m) r) = Inr a"
    and "\<And>data sa. n_sendto N (nf_fd nfd) data sa k = (Some EAGAIN, k)"
  shows "bsd_SendPackets byIndex byName N nfd (r # rs) (m, k) = (None, rs, m, k)"
proof -
  have "sr_get (u_heap m) (sr_sub 0 SockaddrSize r) = block_addr (u_heap m) r"
    using assms(1,2) by (simp add: sr_get_def sr_sub_def block_addr_def slice_def)
  then obtain d x where g: "getUDPDataAndAddr byIndex (u_heap m) r = Inr (d, x)"
    using assms(1,4) by (simp add: getUDPDataAndAddr_def getUDPAddr_def getUDPData_def Let_def)
  have "snd (snd (nfd_WriteTo byName N data addr nfd k)) = k" for data addr
    using assms(5) by (auto simp: nfd_WriteTo_def split: option.splits sum.splits)
  then show ?thesis
    using g by (auto simp: bsd_SendPackets_def blocks_skip_def Let_def split: prod.splits) (metis snd_conv)
qed

theorem bsd_send_loses_refused_witness:
  "let h = (\<lambda>_. put_le16 AF_INET @ put_be16 53 @ [10, 0, 0, 1] @ replicate 20 0 @ [7, 8]);
       r = \<lparr>sr_arr = 0, sr_off = 0, sr_len = 30\<rparr>
   in bsd_SendPackets (\<lambda>_. None) (\<lambda>_. None) (idle_nsys\<lparr>n_sendto := \<lambda>_ _ _ k. (Some EAGAIN, k)\<rparr>) udp_nfd [r] (empty_mem\<lparr>u_heap := h\<rparr>, ()) =
     (None, [], empty_mem\<lparr>u_heap := h\<rparr>, ())"
proof -
  let ?h = "\<lambda>_ :: nat. put_le16 AF_INET @ put_be16 53 @ [10, 0, 0, 1] @ replicate 20 0 @ [7, 8]"
  let ?r = "\<lparr>sr_arr = 0, sr_off = 0, sr_len = 30\<rparr>"
  have "SockaddrSliceToUDPAddr (\<lambda>_. None) (block_addr ?h ?r) = Inr \<lparr>ia_IP = [10, 0, 0, 1], ia_Port = 53, ia_Zone = ''''\<rparr>"
    by code_simp
  then show ?thesis
    using bsd_send_loses_refused [of ?r "empty_mem\<lparr>u_heap := ?h\<rparr>" "\<lambda>_. None" _ "idle_nsys\<lparr>n_sendto := \<lambda>_ _ _ k. (Some EAGAIN, k)\<rparr>"
      udp_nfd "()" "\<lambda>_. None" "[]"]
    by (simp add: SockaddrSize_def put_le16_def put_be16_def)
qed

end
