(* ===== verification/Systype_Pool.thy ===== *)
theory Systype_Pool
  imports Udp_Memory Iovec
begin

text \<open>
  Model of the vector pools of \<open>internal/cache/systype\<close>: the \<open>[][]byte\<close> and \<open>[]unix.Iovec\<close> that the write paths borrow for
  a system call. A borrowed slice and its wrapper share one array, so the operations return both. As everywhere,
  \<open>sync.Pool.Get\<close> returns any stored wrapper or a new one: the choice is an argument.
\<close>

section \<open>Slices with their array\<close>

record 'a vslice =
  v_arr :: "'a list"
  v_len :: nat

definition v_cap :: "'a vslice \<Rightarrow> nat" where
  "v_cap s = length (v_arr s)"

definition v_items :: "'a vslice \<Rightarrow> 'a list" where
  "v_items s = take (v_len s) (v_arr s)"

definition v_to :: "nat \<Rightarrow> 'a vslice \<Rightarrow> fault + 'a vslice" where
  "v_to n s = (if n \<le> v_cap s then Inr (s\<lparr>v_len := n\<rparr>) else Inl SliceBounds)"

text \<open>\<open>append\<close>: in place when there is room, into a new array with some more room otherwise. The second value says
  whether the array is still the same.\<close>

definition v_append :: "(nat \<Rightarrow> 'a list) \<Rightarrow> 'a vslice \<Rightarrow> 'a \<Rightarrow> 'a vslice \<times> bool" where
  "v_append room s x =
     (if v_len s < v_cap s then (s\<lparr>v_arr := (v_arr s)[v_len s := x], v_len := v_len s + 1\<rparr>, True)
      else (\<lparr>v_arr = v_items s @ x # room (v_cap s), v_len = v_len s + 1\<rparr>, False))"

section \<open>Pools\<close>

record io_pools =
  p_iovecs :: "iovec vslice list"
  p_datas :: "byte list vslice list"

definition convertUint :: "nat \<Rightarrow> u64" where
  "convertUint i = of_nat i"

definition new_IOVECWrapper :: "iovec vslice" where
  "new_IOVECWrapper = \<lparr>v_arr = replicate MaxLen (None, 0), v_len = 0\<rparr>"

definition new_IOData :: "byte list vslice" where
  "new_IOData = \<lparr>v_arr = replicate MaxLen [], v_len = 0\<rparr>"

text \<open>The loop of \<open>GetIOVECWrapper\<close>: the wrapper sees what is appended as long as the arrays are the same.\<close>

fun fill_iovecs :: "(nat \<Rightarrow> iovec list) \<Rightarrow> byte list list \<Rightarrow> iovec vslice \<Rightarrow> iovec vslice \<Rightarrow> bool \<Rightarrow> iovec vslice \<times> iovec vslice" where
  "fill_iovecs room [] v h same = (v, h)"
| "fill_iovecs room (b # bs) v h same =
     (if b = [] then fill_iovecs room bs v h same
      else case v_append room v (Some b, convertUint (length b)) of
        (v, inplace) \<Rightarrow>
          let same = (same \<and> inplace) in
          fill_iovecs room bs v (if same then h\<lparr>v_arr := v_arr v\<rparr> else h) same)"

definition GetIOVECWrapper :: "nat option \<Rightarrow> (nat \<Rightarrow> iovec list) \<Rightarrow> byte list list \<Rightarrow> io_pools \<Rightarrow>
    (iovec vslice \<times> iovec vslice option) \<times> io_pools" where
  "GetIOVECWrapper pick room bs p =
     (if length bs \<le> MaxLen then
        (case (case pool_take pick (\<lambda>_. True) (p_iovecs p) of
                 (None, _) \<Rightarrow> (new_IOVECWrapper, p)
               | (Some h, pool) \<Rightarrow> (h, p\<lparr>p_iovecs := pool\<rparr>)) of
           (h, p) \<Rightarrow> (case fill_iovecs room bs h h True of (v, h) \<Rightarrow> ((v, Some h), p)))
      else
        let v = \<lparr>v_arr = replicate (length bs) (None, 0), v_len = 0\<rparr> in
        ((fst (fill_iovecs room bs v v False), None), p))"

definition PutIOVECWrapper :: "iovec vslice \<Rightarrow> io_pools \<Rightarrow> io_pools" where
  "PutIOVECWrapper h p =
     (if v_cap h \<noteq> MaxLen then p else p\<lparr>p_iovecs := p_iovecs p @ [h\<lparr>v_len := 0\<rparr>]\<rparr>)"

definition GetIOData :: "nat option \<Rightarrow> nat \<Rightarrow> io_pools \<Rightarrow> (fault + byte list vslice \<times> byte list vslice option) \<times> io_pools" where
  "GetIOData pick sz p =
     (if sz > MaxLen then (Inr (\<lparr>v_arr = replicate sz [], v_len = sz\<rparr>, None), p)
      else
        case (case pool_take pick (\<lambda>_. True) (p_datas p) of
                (None, _) \<Rightarrow> (new_IOData, p)
              | (Some d, pool) \<Rightarrow> (d, p\<lparr>p_datas := pool\<rparr>)) of
          (d, p) \<Rightarrow> (case v_to sz d of Inl f \<Rightarrow> (Inl f, p) | Inr v \<Rightarrow> (Inr (v, Some d), p)))"

definition PutIOData :: "byte list vslice \<Rightarrow> io_pools \<Rightarrow> io_pools" where
  "PutIOData d p = (if v_cap d \<noteq> MaxLen then p else p\<lparr>p_datas := p_datas p @ [d\<lparr>v_len := 0\<rparr>]\<rparr>)"

section \<open>The type of what is in a pool\<close>

definition wrapper_ok :: "'a vslice \<Rightarrow> bool" where
  "wrapper_ok h \<longleftrightarrow> v_cap h = MaxLen \<and> v_len h = 0"

definition pools_ok :: "io_pools \<Rightarrow> bool" where
  "pools_ok p \<longleftrightarrow> list_all wrapper_ok (p_iovecs p) \<and> list_all wrapper_ok (p_datas p)"

definition iovec_of :: "byte list \<Rightarrow> iovec" where
  "iovec_of b = (Some b, convertUint (length b))"

lemma v_append_room:
  assumes "v_len s < v_cap s"
  shows "v_append room s x = (s\<lparr>v_arr := (v_arr s)[v_len s := x], v_len := v_len s + 1\<rparr>, True)"
    and "v_items (s\<lparr>v_arr := (v_arr s)[v_len s := x], v_len := v_len s + 1\<rparr>) = v_items s @ [x]"
  using assms by (simp_all add: v_append_def v_items_def v_cap_def take_Suc_conv_app_nth)

lemma fill_iovecs_ok:
  assumes "v_len v + length bs \<le> v_cap v" and "same \<Longrightarrow> v_arr h = v_arr v"
  shows "case fill_iovecs room bs v h same of (v', h') \<Rightarrow>
    v_items v' = v_items v @ map iovec_of (filter (\<lambda>b. b \<noteq> []) bs) \<and> v_cap v' = v_cap v \<and> v_len h' = v_len h \<and>
    v_cap h' = v_cap h \<and> (same \<longrightarrow> v_arr h' = v_arr v')"
  using assms
proof (induction bs arbitrary: v h)
  case (Cons b bs)
  show ?case
  proof (cases "b = []")
    case False
    let ?v = "v\<lparr>v_arr := (v_arr v)[v_len v := iovec_of b], v_len := v_len v + 1\<rparr>"
    let ?h = "if same then h\<lparr>v_arr := v_arr ?v\<rparr> else h"
    have "v_len v < v_cap v" using Cons.prems(1) by simp
    note a = v_append_room [OF this, where x = "iovec_of b"]
    have step: "fill_iovecs room (b # bs) v h same = fill_iovecs room bs ?v ?h same"
      using a(1) [of room] False by (simp add: iovec_of_def Let_def)
    have "v_len ?v + length bs \<le> v_cap ?v" "same \<Longrightarrow> v_arr ?h = v_arr ?v"
      and eq: "v_cap ?v = v_cap v" "v_cap ?h = v_cap h" "v_len ?h = v_len h" "v_items ?v = v_items v @ [iovec_of b]"
      using Cons.prems a(2) by (simp_all add: v_cap_def)
    then have "case fill_iovecs room bs ?v ?h same of (v', h') \<Rightarrow>
      v_items v' = v_items ?v @ map iovec_of (filter (\<lambda>b. b \<noteq> []) bs) \<and> v_cap v' = v_cap ?v \<and> v_len h' = v_len ?h \<and>
      v_cap h' = v_cap ?h \<and> (same \<longrightarrow> v_arr h' = v_arr v')" by (intro Cons.IH)
    then show ?thesis unfolding step eq using False by (auto split: prod.splits)
  qed (use Cons in simp)
qed simp

text \<open>The two pools share the laws of borrowing: what comes out is well formed, and the rest stays so.\<close>

lemma borrow_ok:
  assumes "list_all wrapper_ok pool" and "pool_take pick (\<lambda>_. True) pool = (x, pool')"
  shows "list_all wrapper_ok pool'" and "x = Some h \<Longrightarrow> wrapper_ok h"
  using pool_take_cases [OF assms(2)] assms(1) by auto

lemma GetIOVECWrapper_ok:
  assumes "pools_ok p" and "GetIOVECWrapper pick room bs p = ((v, h), p')"
  shows "v_items v = map iovec_of (filter (\<lambda>b. b \<noteq> []) bs)" and "pools_ok p'"
    and "length bs \<le> MaxLen \<Longrightarrow> \<exists>w. h = Some w \<and> wrapper_ok w \<and> v_arr w = v_arr v"
proof -
  have "v_items v = map iovec_of (filter (\<lambda>b. b \<noteq> []) bs) \<and> pools_ok p' \<and>
    (length bs \<le> MaxLen \<longrightarrow> (\<exists>w. h = Some w \<and> wrapper_ok w \<and> v_arr w = v_arr v))"
  proof (cases "length bs \<le> MaxLen")
    case True
    obtain x pool where t: "pool_take pick (\<lambda>_. True) (p_iovecs p) = (x, pool)" by fastforce
    define w where "w = (case x of None \<Rightarrow> new_IOVECWrapper | Some h \<Rightarrow> h)"
    have ok: "list_all wrapper_ok (p_iovecs p)" "list_all wrapper_ok (p_datas p)" using assms(1) by (simp_all add: pools_ok_def)
    have w: "wrapper_ok w"
      using borrow_ok(2) [OF ok(1) t] by (auto simp: w_def new_IOVECWrapper_def wrapper_ok_def v_cap_def split: option.split)
    have p': "p' = (case x of None \<Rightarrow> p | Some _ \<Rightarrow> p\<lparr>p_iovecs := pool\<rparr>)" and f: "fill_iovecs room bs w w True = (v, the h)" "h \<noteq> None"
      using assms(2) True t by (auto simp: GetIOVECWrapper_def w_def split: option.splits prod.splits)
    have "pools_ok p'" using ok borrow_ok(1) [OF ok(1) t] by (auto simp: p' pools_ok_def split: option.split)
    with fill_iovecs_ok [of w bs True w room] f w True show ?thesis by (auto simp: wrapper_ok_def v_items_def)
  next
    case False
    let ?v = "\<lparr>v_arr = replicate (length bs) (None, 0), v_len = 0\<rparr> :: iovec vslice"
    have "v = fst (fill_iovecs room bs ?v ?v False)" "h = None" "p' = p"
      using False assms(2) by (auto simp: GetIOVECWrapper_def Let_def)
    with fill_iovecs_ok [of ?v bs False ?v room] assms(1) False show ?thesis by (auto simp: v_cap_def v_items_def)
  qed
  then show "v_items v = map iovec_of (filter (\<lambda>b. b \<noteq> []) bs)" "pools_ok p'"
    "length bs \<le> MaxLen \<Longrightarrow> \<exists>w. h = Some w \<and> wrapper_ok w \<and> v_arr w = v_arr v" by simp_all
qed

lemma GetIOData_ok:
  assumes "pools_ok p"
  shows "\<exists>v d p'. GetIOData pick sz p = (Inr (v, d), p') \<and> v_len v = sz \<and> sz \<le> v_cap v \<and> pools_ok p' \<and>
    (sz \<le> MaxLen \<longrightarrow> (\<exists>w. d = Some w \<and> wrapper_ok w \<and> v_arr w = v_arr v))"
proof (cases "sz > MaxLen")
  case True
  with assms show ?thesis by (simp add: GetIOData_def v_cap_def)
next
  case False
  obtain x pool where t: "pool_take pick (\<lambda>_. True) (p_datas p) = (x, pool)" by fastforce
  have ok: "list_all wrapper_ok (p_iovecs p)" "list_all wrapper_ok (p_datas p)" using assms by (simp_all add: pools_ok_def)
  note b = borrow_ok [OF ok(2) t]
  show ?thesis
  proof (cases x)
    case None
    with False t assms show ?thesis by (simp add: GetIOData_def new_IOData_def v_to_def v_cap_def wrapper_ok_def)
  next
    case (Some d)
    with False t ok b show ?thesis by (simp add: GetIOData_def v_to_def v_cap_def wrapper_ok_def pools_ok_def)
  qed
qed

lemma Put_ok:
  "pools_ok p \<Longrightarrow> pools_ok (PutIOVECWrapper h p)" "pools_ok p \<Longrightarrow> pools_ok (PutIOData d p)"
  by (auto simp: PutIOVECWrapper_def PutIOData_def pools_ok_def wrapper_ok_def v_cap_def)

section \<open>Histories\<close>

text \<open>What the callers do: borrow vectors, store slices in a borrowed \<open>[][]byte\<close>, and give wrappers back. The wrappers
  that are out are numbered.\<close>

datatype io_op = GetV "nat option" "byte list list" | PutV nat | GetD "nat option" nat | UseD nat "byte list list" | PutD nat

datatype io_out = OutV "iovec list" | OutD nat | OutDone | OutPanic fault

type_synonym io_state = "io_pools \<times> iovec vslice list \<times> byte list vslice list"

definition given :: "'a option \<Rightarrow> 'a list" where
  "given h = (case h of None \<Rightarrow> [] | Some w \<Rightarrow> [w])"

fun io_step :: "(nat \<Rightarrow> iovec list) \<Rightarrow> io_op \<Rightarrow> io_state \<Rightarrow> io_out \<times> io_state" where
  "io_step room (GetV pick bs) (p, hv, ds) =
     (case GetIOVECWrapper pick room bs p of ((v, h), p) \<Rightarrow> (OutV (v_items v), p, hv @ given h, ds))"
| "io_step room (PutV i) (p, hv, ds) =
     (if i < length hv then (OutDone, PutIOVECWrapper (hv ! i) p, take i hv @ drop (Suc i) hv, ds) else (OutDone, p, hv, ds))"
| "io_step room (GetD pick sz) (p, hv, ds) =
     (case GetIOData pick sz p of
        (Inl f, p) \<Rightarrow> (OutPanic f, p, hv, ds)
      | (Inr (v, d), p) \<Rightarrow> (OutD (length (v_items v)), p, hv, ds @ given d))"
| "io_step room (UseD i bs) (p, hv, ds) =
     (if i < length ds
      then (OutDone, p, hv, ds[i := (ds ! i)\<lparr>v_arr := overwrite 0 (take (v_cap (ds ! i)) bs) (v_arr (ds ! i))\<rparr>])
      else (OutDone, p, hv, ds))"
| "io_step room (PutD i) (p, hv, ds) =
     (if i < length ds then (OutDone, PutIOData (ds ! i) p, hv, take i ds @ drop (Suc i) ds) else (OutDone, p, hv, ds))"

fun io_run :: "(nat \<Rightarrow> iovec list) \<Rightarrow> io_op list \<Rightarrow> io_state \<Rightarrow> io_out list \<times> io_state" where
  "io_run room [] st = ([], st)"
| "io_run room (x # xs) st = (case io_step room x st of (y, st) \<Rightarrow> (case io_run room xs st of (ys, st) \<Rightarrow> (y # ys, st)))"

fun io_promise :: "io_op \<Rightarrow> io_out" where
  "io_promise (GetV pick bs) = OutV (map iovec_of (filter (\<lambda>b. b \<noteq> []) bs))"
| "io_promise (GetD pick sz) = OutD sz"
| "io_promise _ = OutDone"

fun io_ok :: "io_state \<Rightarrow> bool" where
  "io_ok (p, hv, ds) \<longleftrightarrow> pools_ok p \<and> list_all wrapper_ok hv \<and> list_all wrapper_ok ds"

lemma GetV_given:
  assumes "pools_ok p" and "GetIOVECWrapper pick room bs p = ((v, h), p')"
  shows "list_all wrapper_ok (given h)"
proof (cases "length bs \<le> MaxLen")
  case True
  with GetIOVECWrapper_ok(3) [OF assms] show ?thesis by (auto simp: given_def)
next
  case False
  with assms(2) show ?thesis by (auto simp: GetIOVECWrapper_def Let_def given_def)
qed

lemma GetD_given:
  assumes "pools_ok p"
  shows "\<exists>v d p'. GetIOData pick sz p = (Inr (v, d), p') \<and> length (v_items v) = sz \<and> pools_ok p' \<and> list_all wrapper_ok (given d)"
proof -
  obtain v d p' where g: "GetIOData pick sz p = (Inr (v, d), p')" "v_len v = sz" "sz \<le> v_cap v" "pools_ok p'"
    and w: "sz \<le> MaxLen \<Longrightarrow> \<exists>w. d = Some w \<and> wrapper_ok w" using GetIOData_ok [OF assms, of pick sz] by blast
  have "list_all wrapper_ok (given d)"
  proof (cases "sz \<le> MaxLen")
    case True
    with w show ?thesis by (auto simp: given_def)
  next
    case False
    with g(1) show ?thesis by (auto simp: GetIOData_def given_def)
  qed
  with g show ?thesis by (auto simp: v_items_def v_cap_def)
qed

lemma io_step_ok:
  assumes "io_ok st"
  shows "case io_step room x st of (y, st') \<Rightarrow> y = io_promise x \<and> io_ok st'"
proof -
  obtain p hv ds where st: "st = (p, hv, ds)" by (cases st)
  have ok: "pools_ok p" "list_all wrapper_ok hv" "list_all wrapper_ok ds" using assms st by simp_all
  show ?thesis
  proof (cases x)
    case (GetV pick bs)
    obtain v h p' where g: "GetIOVECWrapper pick room bs p = ((v, h), p')" by (metis surj_pair)
    from GetIOVECWrapper_ok(1,2) [OF ok(1) g] GetV_given [OF ok(1) g] GetV g st ok show ?thesis by simp
  next
    case (GetD pick sz)
    with GetD_given [OF ok(1), of pick sz] st ok show ?thesis by auto
  next
    case (UseD i bs)
    have "wrapper_ok (d\<lparr>v_arr := overwrite 0 (take (v_cap d) bs) (v_arr d)\<rparr>) = wrapper_ok d" for d :: "byte list vslice"
      by (simp add: wrapper_ok_def v_cap_def)
    with UseD st ok show ?thesis by (auto simp: list_all_length nth_list_update)
  qed (use st ok Put_ok in \<open>auto simp: list_all_iff dest: in_set_takeD in_set_dropD\<close>)
qed

text \<open>C29. The pools of vectors stay well typed. In any history of borrowing, storing and giving back, with any choice of the
  pools: no call panics; a borrowed \<open>[][]byte\<close> has the length asked for; a borrowed \<open>[]unix.Iovec\<close> has exactly one
  entry per non-empty slice, in order, with its length; and every wrapper, pooled or out, keeps an array of \<open>MaxLen\<close>
  entries of which none is in use.\<close>

theorem io_pools_typed:
  "case io_run room ops (\<lparr>p_iovecs = [], p_datas = []\<rparr>, [], []) of
     (outs, st) \<Rightarrow> outs = map io_promise ops \<and> io_ok st"
proof -
  have "case io_run room ops st of (outs, st') \<Rightarrow> outs = map io_promise ops \<and> io_ok st'" if "io_ok st" for st
    using that
  proof (induction ops arbitrary: st)
    case (Cons x xs)
    obtain y st1 where s: "io_step room x st = (y, st1)" by (cases "io_step room x st")
    from io_step_ok [OF Cons.prems, where room = room and x = x] s have "y = io_promise x" "io_ok st1" by simp_all
    with Cons.IH [of st1] s show ?case by (auto split: prod.splits)
  qed simp
  then show ?thesis by (simp add: pools_ok_def)
qed

end
