(* ===== verification/Stat.thy ===== *)
theory Stat
  imports Tnet_Prelude "HOL-Library.Char_ord" "HOL-Library.List_Lexorder" "HOL-Library.Multiset"
begin

text \<open>
  Model of \<open>internal/stat\<close>, the reporter of usage statistics, which the published version of the library does not call.
  The attributes are numbers with names. Ranging over a Go map visits its keys in any order; the order is an argument.
  The client of \<open>net/http\<close> is the record \<open>httpsys\<close>; it takes what it reads off the reader of the body. The
  encoding of the report as JSON is not modelled: the poster appears with the report itself.
\<close>

section \<open>Attributes\<close>

definition ClientAttr :: int where "ClientAttr = 0"
definition ServerAttr :: int where "ServerAttr = 1"
definition TCPAttr :: int where "TCPAttr = 0"
definition UDPAttr :: int where "UDPAttr = 1"

definition clientServer_String :: "int \<Rightarrow> string" where
  "clientServer_String a = (if a = ClientAttr then ''client'' else if a = ServerAttr then ''server'' else ''invalid'')"

definition network_String :: "int \<Rightarrow> string" where
  "network_String a = (if a = TCPAttr then ''tcp'' else if a = UDPAttr then ''udp'' else ''invalid'')"

section \<open>The reporter\<close>

record reporter =
  rp_begun :: bool
  rp_attrs :: "string list"

definition newReporter :: reporter where
  "newReporter = \<lparr>rp_begun = False, rp_attrs = []\<rparr>"

text \<open>The keys of the map, each once. The first value says whether the call starts the goroutine that reports.\<close>

definition report :: "int \<Rightarrow> int \<Rightarrow> reporter \<Rightarrow> bool \<times> reporter" where
  "report cs network r =
     (let k = clientServer_String cs @ ''-'' @ network_String network in
      (\<not> rp_begun r, \<lparr>rp_begun = True, rp_attrs = (if k \<in> set (rp_attrs r) then rp_attrs r else rp_attrs r @ [k])\<rparr>))"

fun strings_Join :: "string list \<Rightarrow> string \<Rightarrow> string" where
  "strings_Join [] sep = ''''"
| "strings_Join [s] sep = s"
| "strings_Join (s # t # ss) sep = s @ sep @ strings_Join (t # ss) sep"

definition getAttributes :: "(string list \<Rightarrow> string list) \<Rightarrow> reporter \<Rightarrow> string" where
  "getAttributes order r = strings_Join (sort (order (rp_attrs r))) ''++''"

section \<open>A report\<close>

definition reportInterval :: int where "reportInterval = 24 * 3600 * 1000000000"
definition plugin :: string where "plugin = ''tnet''"
definition lang :: string where "lang = ''go''"
definition contentType :: string where "contentType = ''application/json''"
definition tnetVersion :: string where "tnetVersion = ''v0.1.1''"
definition unknown :: string where "unknown = ''unknown''"
definition inAPI :: string where "inAPI = ''''"
definition outAPI :: string where "outAPI = ''''"

record statInfo =
  si_App :: string
  si_Server :: string
  si_IP :: string
  si_Container :: string
  si_Lang :: string
  si_Version :: string
  si_Plugin :: string
  si_Git :: string
  si_Owners :: "string list"

definition getEnvVar :: "(string \<Rightarrow> string option) \<Rightarrow> string \<Rightarrow> string" where
  "getEnvVar env key = (case env key of Some value \<Rightarrow> value | None \<Rightarrow> unknown)"

text \<open>The report of one round of \<open>reportLoop\<close>.\<close>

definition round_stat :: "(string \<Rightarrow> string option) \<Rightarrow> (string list \<Rightarrow> string list) \<Rightarrow> reporter \<Rightarrow> statInfo" where
  "round_stat env order r = \<lparr>si_App = getEnvVar env ''SUMERU_APP'', si_Server = getEnvVar env ''SUMERU_SERVER'',
     si_IP = getEnvVar env ''HOST_IP'', si_Container = getEnvVar env ''SUMERU_CONTAINER_NAME'', si_Lang = lang,
     si_Version = tnetVersion, si_Plugin = plugin, si_Git = getAttributes order r, si_Owners = []\<rparr>"

record 'k httpsys =
  h_Post :: "string \<Rightarrow> string \<Rightarrow> byte list \<Rightarrow> 'k \<Rightarrow> err option \<times> byte list \<times> 'k"
  h_Close :: "'k \<Rightarrow> err option \<times> 'k"

definition post :: "'k httpsys \<Rightarrow> string \<Rightarrow> byte list \<times> 'k \<Rightarrow> err option \<times> byte list \<times> 'k" where
  "post H api st =
     (case st of (reader, k) \<Rightarrow>
        case h_Post H api contentType reader k of
          (Some e, reader, k) \<Rightarrow> (Some e, reader, k)
        | (None, reader, k) \<Rightarrow> (case h_Close H k of (e, k) \<Rightarrow> (e, reader, k)))"

definition defaultPoster :: "'k httpsys \<Rightarrow> byte list \<Rightarrow> 'k \<Rightarrow> 'k" where
  "defaultPoster H data k =
     (case post H inAPI (data, k) of
        (None, reader, k) \<Rightarrow> k
      | (Some _, reader, k) \<Rightarrow> snd (snd (post H outAPI (reader, k))))"

section \<open>What is reported\<close>

fun reports :: "(int \<times> int) list \<Rightarrow> reporter \<Rightarrow> bool list \<times> reporter" where
  "reports [] r = ([], r)"
| "reports ((cs, network) # xs) r =
     (case report cs network r of (b, r) \<Rightarrow> (case reports xs r of (bs, r) \<Rightarrow> (b # bs, r)))"

definition attr_name :: "int \<times> int \<Rightarrow> string" where
  "attr_name x = clientServer_String (fst x) @ ''-'' @ network_String (snd x)"

lemma reports_state:
  assumes "distinct (rp_attrs r)"
  shows "case reports xs r of (bs, r') \<Rightarrow> distinct (rp_attrs r') \<and> set (rp_attrs r') = set (rp_attrs r) \<union> attr_name ` set xs \<and>
    bs = (if rp_begun r then replicate (length xs) False else map (\<lambda>i. i = 0) [0..<length xs])"
  using assms
proof (induction xs arbitrary: r)
  case (Cons x xs)
  obtain cs network where x: "x = (cs, network)" by (cases x)
  obtain b r1 where s: "report cs network r = (b, r1)" by (cases "report cs network r")
  have r1: "b \<longleftrightarrow> \<not> rp_begun r" "rp_begun r1" "distinct (rp_attrs r1)" "set (rp_attrs r1) = insert (attr_name x) (set (rp_attrs r))"
    using s Cons.prems x by (auto simp: report_def attr_name_def Let_def split: if_splits)
  have m: "map (\<lambda>i. i = 0) [0..<length (x # xs)] = True # replicate (length xs) False"
    by (rule nth_equalityI) (auto simp: nth_Cons simp del: upt_Suc split: nat.split)
  show ?case using Cons.IH [OF r1(3)] r1 s x m by (auto simp del: upt_Suc split: prod.splits)
qed simp

text \<open>Whatever was reported, in whatever order and however often: the first report starts the goroutine and no later one
  does, and the report names exactly the attributes reported so far, each once, sorted and joined by \<open>++\<close>, whatever order
  the map is visited in.\<close>

theorem stat_lists_attributes:
  assumes "\<And>ks. mset (order ks) = mset ks" and "reports xs newReporter = (bs, r)"
  shows "si_Git (round_stat env order r) = strings_Join (sorted_list_of_set (attr_name ` set xs)) ''++'' \<and>
    bs = map (\<lambda>i. i = 0) [0..<length xs]"
proof -
  have r: "distinct (rp_attrs r)" "set (rp_attrs r) = attr_name ` set xs" and bs: "bs = map (\<lambda>i. i = 0) [0..<length xs]"
    using reports_state [of newReporter xs] assms(2) by (simp_all add: newReporter_def)
  have "sort (order (rp_attrs r)) = sort (rp_attrs r)" by (rule properties_for_sort) (simp_all add: assms(1))
  with r bs show ?thesis
    by (simp add: round_stat_def getAttributes_def sorted_list_of_set_sort_remdups distinct_remdups_id flip: r(2))
qed

theorem stat_lists_attributes_witness:
  "si_Git (round_stat (\<lambda>_. None) rev (snd (reports [(ServerAttr, TCPAttr), (ClientAttr, UDPAttr), (ServerAttr, TCPAttr)] newReporter))) =
     ''client-udp++server-tcp''"
proof -
  let ?xs = "[(ServerAttr, TCPAttr), (ClientAttr, UDPAttr), (ServerAttr, TCPAttr)]"
  have s: "sorted_list_of_set (attr_name ` set ?xs) = [''client-udp'', ''server-tcp'']" by code_simp
  obtain bs r where "reports ?xs newReporter = (bs, r)" by (cases "reports ?xs newReporter")
  from stat_lists_attributes [of rev, OF _ this] this show ?thesis unfolding s by simp
qed

end
